(* ===== verification/Go_Strings.thy ===== *)
theory Go_Strings
  imports Main "HOL-Library.Char_ord" "HOL-Library.List_Lexorder" "HOL-Library.Code_Target_Nat"
begin

text \<open>
  Go strings. A Go string is a byte sequence, here a \<open>string\<close> whose characters are the bytes.
  This theory holds what the sources use of the packages \<^verbatim>\<open>strings\<close>, \<^verbatim>\<open>unicode\<close>,
  \<^verbatim>\<open>unicode/utf8\<close> and \<^verbatim>\<open>strconv\<close>: substring search, prefixes, splitting and joining, UTF-8
  decoding as \<^verbatim>\<open>range\<close> does it (an invalid byte is U+FFFD of width one), the digit and space
  classes of Unicode, and decimal numerals.

  Bound: \<open>to_lower\<close> and \<open>to_upper\<close> fold ASCII letters and leave every other byte alone. This is
  exactly SQL's LOWER and UPPER in SQLite, and Go's \<^verbatim>\<open>ToLower\<close> and \<^verbatim>\<open>ToUpper\<close> on ASCII text.
\<close>

named_theorems go_str \<open>evaluation rules of the string functions\<close>

section \<open>Prefixes, search, splitting\<close>

definition has_prefix :: "string \<Rightarrow> string \<Rightarrow> bool" where
  "has_prefix s p \<longleftrightarrow> take (length p) s = p"

definition has_suffix :: "string \<Rightarrow> string \<Rightarrow> bool" where
  "has_suffix s p \<longleftrightarrow> has_prefix (rev s) (rev p)"

definition trim_prefix :: "string \<Rightarrow> string \<Rightarrow> string" where
  "trim_prefix s p = (if has_prefix s p then drop (length p) s else s)"

fun index_of :: "string \<Rightarrow> string \<Rightarrow> nat option" where
  "index_of s sub =
     (if has_prefix s sub then Some 0
      else case s of [] \<Rightarrow> None | _ # t \<Rightarrow> map_option Suc (index_of t sub))"

declare index_of.simps [simp del]

definition contains :: "string \<Rightarrow> string \<Rightarrow> bool" where
  "contains s sub \<longleftrightarrow> index_of s sub \<noteq> None"

fun split_on :: "char \<Rightarrow> string \<Rightarrow> string list" where
  "split_on c [] = [[]]"
| "split_on c (x # xs) =
     (if x = c then [] # split_on c xs
      else case split_on c xs of [] \<Rightarrow> [[x]] | p # ps \<Rightarrow> (x # p) # ps)"

fun join :: "string \<Rightarrow> string list \<Rightarrow> string" where
  "join sep [] = []"
| "join sep [x] = x"
| "join sep (x # y # zs) = x @ sep @ join sep (y # zs)"

definition lower_char :: "char \<Rightarrow> char" where
  "lower_char c = (if 65 \<le> (of_char c :: nat) \<and> (of_char c :: nat) \<le> 90
                   then char_of ((of_char c :: nat) + 32) else c)"

definition upper_char :: "char \<Rightarrow> char" where
  "upper_char c = (if 97 \<le> (of_char c :: nat) \<and> (of_char c :: nat) \<le> 122
                   then char_of ((of_char c :: nat) - 32) else c)"

definition to_lower :: "string \<Rightarrow> string" where
  "to_lower s = map lower_char s"

definition to_upper :: "string \<Rightarrow> string" where
  "to_upper s = map upper_char s"

definition remove_char :: "char \<Rightarrow> string \<Rightarrow> string" where
  "remove_char c s = filter (\<lambda>x. x \<noteq> c) s"

section \<open>UTF-8\<close>

definition byte :: "char \<Rightarrow> nat" where
  "byte c = of_char c"

definition cont :: "nat \<Rightarrow> nat \<Rightarrow> nat \<Rightarrow> bool" where
  "cont lo hi b \<longleftrightarrow> lo \<le> b \<and> b \<le> hi"

text \<open>
  \<^verbatim>\<open>utf8.DecodeRuneInString\<close> on a non-empty string: the code point and the number of bytes it
  takes. The second byte has the accept ranges of the Go table.
\<close>

definition lo2 :: "nat \<Rightarrow> nat" where
  "lo2 b0 = (if b0 = 224 then 160 else if b0 = 240 then 144 else 128)"

definition hi2 :: "nat \<Rightarrow> nat" where
  "hi2 b0 = (if b0 = 237 then 159 else if b0 = 244 then 143 else 191)"

definition decode_rune :: "nat list \<Rightarrow> nat \<times> nat" where
  "decode_rune bs =
     (case bs of
        [] \<Rightarrow> (65533, 0)
      | b0 # r0 \<Rightarrow>
        if b0 < 128 then (b0, 1)
        else if cont 194 223 b0 then
          (case r0 of b1 # _ \<Rightarrow>
             if cont 128 191 b1 then ((b0 - 192) * 64 + (b1 - 128), 2) else (65533, 1)
           | [] \<Rightarrow> (65533, 1))
        else if cont 224 239 b0 then
          (case r0 of b1 # b2 # _ \<Rightarrow>
             if cont (lo2 b0) (hi2 b0) b1 \<and> cont 128 191 b2
             then ((b0 - 224) * 4096 + (b1 - 128) * 64 + (b2 - 128), 3) else (65533, 1)
           | _ \<Rightarrow> (65533, 1))
        else if cont 240 244 b0 then
          (case r0 of b1 # b2 # b3 # _ \<Rightarrow>
             if cont (lo2 b0) (hi2 b0) b1 \<and> cont 128 191 b2 \<and> cont 128 191 b3
             then ((b0 - 240) * 262144 + (b1 - 128) * 4096 + (b2 - 128) * 64 + (b3 - 128), 4)
             else (65533, 1)
           | _ \<Rightarrow> (65533, 1))
        else (65533, 1))"

text \<open>\<^verbatim>\<open>utf8.AppendRune\<close>: a code point outside the Unicode scalar values is written as U+FFFD.\<close>

definition scalar :: "nat \<Rightarrow> bool" where
  "scalar r \<longleftrightarrow> r < 55296 \<or> (57344 \<le> r \<and> r < 1114112)"

definition encode_bytes :: "nat \<Rightarrow> nat list" where
  "encode_bytes r =
     (if r < 128 then [r]
      else if r < 2048 then [192 + r div 64, 128 + r mod 64]
      else if \<not> scalar r then [239, 191, 189]
      else if r < 65536 then [224 + r div 4096, 128 + r div 64 mod 64, 128 + r mod 64]
      else [240 + r div 262144, 128 + r div 4096 mod 64, 128 + r div 64 mod 64, 128 + r mod 64])"

definition encode_rune :: "nat \<Rightarrow> string" where
  "encode_rune r = map char_of (encode_bytes r)"

lemma decode_rune_size:
  "bs \<noteq> [] \<Longrightarrow> 1 \<le> snd (decode_rune bs)"
  by (auto simp: decode_rune_def split: list.splits)

text \<open>The runes \<^verbatim>\<open>for _, r := range s\<close> visits, each with the bytes it was decoded from.\<close>

function runes :: "string \<Rightarrow> (nat \<times> string) list" where
  "runes [] = []"
| "runes (c # cs) =
     (let (r, n) = decode_rune (map byte (take 4 (c # cs)))
      in (r, take n (c # cs)) # runes (drop n (c # cs)))"
  by pat_completeness auto
termination
proof (relation "measure length")
  fix c cs x r n
  assume "x = decode_rune (map byte (take 4 (c # cs)))" "(r, n) = x"
  then have "1 \<le> n"
    using decode_rune_size [of "map byte (take 4 (c # cs))"] by (metis list.distinct(1) list.map_disc_iff snd_conv take_Suc_Cons numeral_eq_Suc)
  then show "(drop n (c # cs), c # cs) \<in> measure length" by simp
qed simp

declare runes.simps(2) [simp del]

definition range_runes :: "string \<Rightarrow> nat list" where
  "range_runes s = map fst (runes s)"

lemma runes_concat: "concat (map snd (runes s)) = s"
proof (induction s rule: runes.induct)
  case 1
  then show ?case by simp
next
  case (2 c cs)
  obtain r n where d: "decode_rune (map byte (take 4 (c # cs))) = (r, n)" by fastforce
  with 2 have "concat (map snd (runes (drop n (c # cs)))) = drop n (c # cs)" by simp
  with d show ?case by (simp add: runes.simps(2))
qed


lemma split_base64: "(r :: nat) = r div 4096 * 4096 + r div 64 mod 64 * 64 + r mod 64"
proof -
  have "r div 64 = r div 64 div 64 * 64 + r div 64 mod 64" by simp
  moreover have "r div 64 div 64 = r div 4096" by (simp flip: div_mult2_eq)
  ultimately have "r div 64 = r div 4096 * 64 + r div 64 mod 64" by simp
  moreover have "r = r div 64 * 64 + r mod 64" by simp
  ultimately show ?thesis by linarith
qed

text \<open>Encoding a scalar value and decoding it again gives it back, whatever follows.\<close>

lemma decode_encode_bytes:
  assumes "scalar r"
  shows "decode_rune (encode_bytes r @ bs) = (r, length (encode_bytes r))"
proof -
  consider "r < 128" | "128 \<le> r" "r < 2048" | "2048 \<le> r" "r < 65536" | "65536 \<le> r" by linarith
  then show ?thesis
  proof cases
    case 1
    then show ?thesis by (simp add: encode_bytes_def decode_rune_def)
  next
    case 2
    then have "2 \<le> r div 64" "r div 64 \<le> 31" by linarith+
    moreover have "r mod 64 < 64" by simp
    ultimately show ?thesis using 2
      by (simp add: encode_bytes_def decode_rune_def cont_def)
  next
    case 3
    define q where "q = r div 4096"
    define m where "m = r div 64 mod 64"
    have eq: "r = q * 4096 + m * 64 + r mod 64"
      unfolding q_def m_def by (rule split_base64 [of r])
    have q: "q \<le> 15" unfolding q_def using 3 by linarith
    have m: "m < 64" by (simp add: m_def)
    have q0: "q = 0 \<Longrightarrow> 32 \<le> m"
    proof -
      assume "q = 0"
      then have "r = m * 64 + r mod 64" using eq by simp
      moreover have "r mod 64 < 64" by simp
      ultimately show "32 \<le> m" using 3 by linarith
    qed
    have q13: "m \<le> 31" if "q = 13"
    proof -
      from that eq have "r = 53248 + m * 64 + r mod 64" by simp
      moreover have "r mod 64 < 64" by simp
      ultimately show ?thesis using assms m unfolding scalar_def by linarith
    qed
    have k: "r mod 64 \<le> 63" using pos_mod_bound [of 64 "int r"] by linarith
    show ?thesis using 3 assms q m q0 q13 k eq
      by (simp add: encode_bytes_def decode_rune_def cont_def lo2_def hi2_def q_def [symmetric] m_def [symmetric])
  next
    case 4
    define q where "q = r div 262144"
    define m where "m = r div 4096 mod 64"
    define l where "l = r div 64 mod 64"
    have r: "r < 1114112" using assms 4 by (auto simp: scalar_def)
    have "r div 64 = q * 4096 + m * 64 + l"
      unfolding q_def m_def l_def
      using split_base64 [of "r div 64"] by (simp flip: div_mult2_eq)
    moreover have "r = r div 64 * 64 + r mod 64" by simp
    ultimately have eq: "r = q * 262144 + m * 4096 + l * 64 + r mod 64" by linarith
    have q: "q \<le> 4" unfolding q_def using r by linarith
    have m: "m < 64" and l: "l < 64" by (simp_all add: m_def l_def)
    have k: "r mod 64 \<le> 63" using pos_mod_bound [of 64 "int r"] by linarith
    have q0: "16 \<le> m" if "q = 0" using eq that 4 l k by linarith
    have q4: "m \<le> 15" if "q = 4" using eq that r l k by linarith
    show ?thesis using 4 assms q m l k q0 q4 eq
      by (simp add: encode_bytes_def decode_rune_def cont_def lo2_def hi2_def
          q_def [symmetric] m_def [symmetric] l_def [symmetric])
  qed
qed

lemma length_encode_bytes: "1 \<le> length (encode_bytes r)" "length (encode_bytes r) \<le> 4"
  by (auto simp: encode_bytes_def)

lemma encode_bytes_bound: "b \<in> set (encode_bytes r) \<Longrightarrow> scalar r \<Longrightarrow> b < 256"
  by (auto simp: encode_bytes_def scalar_def split: if_splits)

lemma byte_char_of: "b < 256 \<Longrightarrow> byte (char_of b) = b"
  by (simp add: byte_def)

lemma map_byte_encode: "scalar r \<Longrightarrow> map byte (encode_rune r) = encode_bytes r"
  unfolding encode_rune_def
  by (simp add: map_idI byte_char_of encode_bytes_bound)

lemma length_encode_rune: "length (encode_rune r) = length (encode_bytes r)"
  by (simp add: encode_rune_def)

lemma encode_rune_nonempty [simp]: "encode_rune r \<noteq> []"
  using length_encode_bytes(1) [of r] by (auto simp: encode_rune_def)

text \<open>Ranging over written runes visits exactly those runes.\<close>

lemma runes_encode_Cons:
  assumes "scalar r"
  shows "runes (encode_rune r @ s) = (r, encode_rune r) # runes s"
proof -
  obtain c cs where c: "encode_rune r @ s = c # cs"
    by (metis append_is_Nil_conv encode_rune_nonempty neq_Nil_conv)
  have "map byte (take 4 (c # cs)) = encode_bytes r @ map byte (take (4 - length (encode_bytes r)) s)"
    unfolding c [symmetric] using length_encode_bytes(2) [of r] assms
    by (simp add: map_byte_encode length_encode_rune)
  then have "decode_rune (map byte (take 4 (c # cs))) = (r, length (encode_rune r))"
    using decode_encode_bytes [OF assms] by (simp add: length_encode_rune)
  moreover have "take (length (encode_rune r)) (c # cs) = encode_rune r"
    and "drop (length (encode_rune r)) (c # cs) = s"
    unfolding c [symmetric] by simp_all
  ultimately show ?thesis unfolding c by (simp add: runes.simps(2))
qed

lemma range_runes_encode:
  "\<forall>r \<in> set rs. scalar r \<Longrightarrow> range_runes (concat (map encode_rune rs)) = rs"
  by (induction rs) (auto simp: range_runes_def runes_encode_Cons)

section \<open>Unicode classes\<close>

text \<open>
  The first code point of each block of ten of category Nd above Latin-1 (Unicode 15), as in the
  table \<^verbatim>\<open>unicode.Digit\<close>; the mathematical digits are five blocks in a row.
\<close>

definition digit_starts :: "nat list" where
  "digit_starts =
    [0x0660, 0x06F0, 0x07C0, 0x0966, 0x09E6, 0x0A66, 0x0AE6, 0x0B66, 0x0BE6, 0x0C66, 0x0CE6,
     0x0D66, 0x0DE6, 0x0E50, 0x0ED0, 0x0F20, 0x1040, 0x1090, 0x17E0, 0x1810, 0x1946, 0x19D0,
     0x1A80, 0x1A90, 0x1B50, 0x1BB0, 0x1C40, 0x1C50, 0xA620, 0xA8D0, 0xA900, 0xA9D0, 0xA9F0,
     0xAA50, 0xABF0, 0xFF10, 0x104A0, 0x10D30, 0x11066, 0x110F0, 0x11136, 0x111D0, 0x112F0,
     0x11450, 0x114D0, 0x11650, 0x116C0, 0x11730, 0x118E0, 0x11950, 0x11C50, 0x11D50, 0x11DA0,
     0x11F50, 0x16A60, 0x16AC0, 0x16B50, 0x1D7CE, 0x1D7D8, 0x1D7E2, 0x1D7EC, 0x1D7F6, 0x1E140,
     0x1E2F0, 0x1E4F0, 0x1E950, 0x1FBF0]"

definition is_digit :: "nat \<Rightarrow> bool" where
  "is_digit r \<longleftrightarrow>
     (48 \<le> r \<and> r \<le> 57) \<or> (256 \<le> r \<and> list_ex (\<lambda>b. b \<le> r \<and> r < b + 10) digit_starts)"

definition is_space :: "nat \<Rightarrow> bool" where
  "is_space r \<longleftrightarrow> (9 \<le> r \<and> r \<le> 13) \<or> r = 32 \<or> r = 0x85 \<or> r = 0xA0 \<or> r = 0x1680 \<or>
     (0x2000 \<le> r \<and> r \<le> 0x200A) \<or> r = 0x2028 \<or> r = 0x2029 \<or> r = 0x202F \<or> r = 0x205F \<or> r = 0x3000"

lemma digit_starts_check:
  "list_all (\<lambda>b. list_all (\<lambda>k. scalar (b + k) \<and> \<not> is_space (b + k)) [0..<10]) digit_starts"
  by code_simp

lemma is_digit_block:
  "is_digit r \<Longrightarrow> (48 \<le> r \<and> r \<le> 57) \<or> (\<exists>b \<in> set digit_starts. \<exists>k < 10. r = b + k)"
  by (auto simp: is_digit_def list_ex_iff) (metis le_Suc_ex nat_add_left_cancel_less)

lemma is_digit_scalar: "is_digit r \<Longrightarrow> scalar r"
  and digit_not_space: "is_digit r \<Longrightarrow> \<not> is_space r"
proof -
  have small: "scalar r \<and> \<not> is_space r" if "48 \<le> r" "r \<le> 57"
    using that by (simp add: scalar_def is_space_def)
  have block: "scalar (b + k) \<and> \<not> is_space (b + k)" if "b \<in> set digit_starts" "k < 10" for b k
    using digit_starts_check that by (simp add: list_all_iff)
  assume "is_digit r"
  with is_digit_block [of r] small block show "scalar r" and "\<not> is_space r" by blast+
qed

lemma is_digit_ascii [simp]: "r < 256 \<Longrightarrow> is_digit r = (48 \<le> r \<and> r \<le> 57)"
  by (auto simp: is_digit_def)

definition trim_space :: "string \<Rightarrow> string" where
  "trim_space s =
     concat (map snd (rev (dropWhile (\<lambda>x. is_space (fst x))
       (rev (dropWhile (\<lambda>x. is_space (fst x)) (runes s))))))"

section \<open>Rules of the string functions\<close>

lemma has_prefix_iff: "has_prefix s p \<longleftrightarrow> (\<exists>t. s = p @ t)"
  by (auto simp: has_prefix_def) (metis append_take_drop_id)

lemma has_prefix_append [simp]: "has_prefix (p @ s) p"
  by (simp add: has_prefix_def)

lemma has_prefix_Nil [simp]: "has_prefix s []"
  by (simp add: has_prefix_def)

lemma has_prefix_Nil_left [simp]: "has_prefix [] p \<longleftrightarrow> p = []"
  by (auto simp: has_prefix_def)

lemma has_prefix_Cons [simp]: "has_prefix (x # s) (y # p) \<longleftrightarrow> x = y \<and> has_prefix s p"
  by (auto simp: has_prefix_def)

lemma trim_prefix_append [simp]: "trim_prefix (p @ s) p = s"
  by (simp add: trim_prefix_def)

lemma trim_prefix_other: "\<not> has_prefix s p \<Longrightarrow> trim_prefix s p = s"
  by (simp add: trim_prefix_def)

lemma trim_prefix_restore: "has_prefix s p \<Longrightarrow> p @ trim_prefix s p = s"
  by (auto simp: has_prefix_iff)

lemma index_of_Some:
  "index_of s sub = Some i \<Longrightarrow>
     i + length sub \<le> length s \<and> has_prefix (drop i s) sub \<and> (\<forall>j < i. \<not> has_prefix (drop j s) sub)"
proof (induction s arbitrary: i)
  case Nil
  then show ?case by (auto simp: index_of.simps split: if_splits)
next
  case (Cons x s)
  show ?case
  proof (cases "has_prefix (x # s) sub")
    case True
    with Cons.prems have "i = 0" by (simp add: index_of.simps)
    moreover from True have "length sub \<le> length (x # s)"
      by (metis has_prefix_iff le_add1 length_append)
    ultimately show ?thesis using True by simp
  next
    case False
    with Cons.prems obtain k where k: "index_of s sub = Some k" "i = Suc k"
      by (auto simp: index_of.simps [of "x # s"])
    from Cons.IH [OF k(1)] False k(2) show ?thesis
      by (auto simp: drop_Cons split: nat.splits)
  qed
qed

lemma index_of_None: "index_of s sub = None \<longleftrightarrow> (\<forall>j \<le> length s. \<not> has_prefix (drop j s) sub)"
proof (induction s)
  case Nil
  then show ?case by (simp add: index_of.simps)
next
  case (Cons x s)
  have "(\<forall>j \<le> length (x # s). \<not> has_prefix (drop j (x # s)) sub) \<longleftrightarrow>
        \<not> has_prefix (x # s) sub \<and> (\<forall>j \<le> length s. \<not> has_prefix (drop j s) sub)"
    by (auto simp: drop_Cons split: nat.splits)
  with Cons.IH show ?case by (simp add: index_of.simps [of "x # s"])
qed

lemma index_of_char_None [simp]: "index_of s [c] = None \<longleftrightarrow> c \<notin> set s"
  by (induction s) (auto simp: index_of.simps)

lemma contains_char [simp]: "contains s [c] \<longleftrightarrow> c \<in> set s"
  using index_of_char_None [of s c] by (simp add: contains_def)

lemma index_of_first_not_in: "c \<notin> set s \<Longrightarrow> index_of s (c # cs) = None"
  by (induction s) (auto simp: index_of.simps)

lemma split_on_nonempty [simp]: "split_on c s \<noteq> []"
  by (induction s) (auto split: list.splits)

lemma split_on_no_sep: "c \<notin> set s \<Longrightarrow> split_on c s = [s]"
  by (induction s) auto

lemma split_on_append_sep:
  "c \<notin> set s \<Longrightarrow> split_on c (s @ c # t) = s # split_on c t"
  by (induction s) auto

lemma join_split_on: "join [c] (split_on c s) = s"
proof (induction s)
  case Nil
  then show ?case by simp
next
  case (Cons x s)
  obtain p ps where p: "split_on c s = p # ps" by (meson neq_Nil_conv split_on_nonempty)
  show ?case using Cons.IH p by (cases ps) auto
qed

lemma split_on_pieces: "p \<in> set (split_on c s) \<Longrightarrow> c \<notin> set p"
  by (induction s arbitrary: p) (auto split: if_splits list.splits)

lemma split_on_join:
  assumes "ps \<noteq> []" "\<forall>p \<in> set ps. c \<notin> set p"
  shows "split_on c (join [c] ps) = ps"
  using assms
proof (induction "[c]" ps rule: join.induct)
  case (3 x y zs)
  then show ?case by (simp add: split_on_append_sep)
qed (auto simp: split_on_no_sep)

lemma lower_char_idem [simp]: "lower_char (lower_char c) = lower_char c"
  by (auto simp: lower_char_def)

lemma lower_upper_char [simp]: "lower_char (upper_char c) = lower_char c"
proof (cases "97 \<le> (of_char c :: nat) \<and> (of_char c :: nat) \<le> 122")
  case True
  then have "upper_char c = char_of ((of_char c :: nat) - 32)" by (simp add: upper_char_def)
  moreover from True have "((of_char c :: nat) - 32) mod 256 = of_char c - 32"
    by (intro mod_less) linarith
  moreover from True have "65 \<le> (of_char c :: nat) - 32" "(of_char c :: nat) - 32 \<le> 90" by linarith+
  ultimately have "lower_char (upper_char c) = char_of ((of_char c :: nat) - 32 + 32)"
    using True by (simp add: lower_char_def)
  with True show ?thesis by (simp add: lower_char_def)
next
  case False
  then show ?thesis by (auto simp: upper_char_def)
qed

lemma upper_lower_char [simp]: "upper_char (lower_char c) = upper_char c"
  by (auto simp: lower_char_def upper_char_def)

lemma upper_char_idem [simp]: "upper_char (upper_char c) = upper_char c"
  by (auto simp: upper_char_def)

lemma to_lower_idem [simp]: "to_lower (to_lower s) = to_lower s"
  by (simp add: to_lower_def)

lemma to_upper_idem [simp]: "to_upper (to_upper s) = to_upper s"
  by (simp add: to_upper_def)

lemma to_upper_lower [simp]: "to_upper (to_lower s) = to_upper s"
  by (simp add: to_upper_def to_lower_def)

lemma to_lower_upper [simp]: "to_lower (to_upper s) = to_lower s"
  by (simp add: to_upper_def to_lower_def)

lemma length_to_lower [simp]: "length (to_lower s) = length s"
  by (simp add: to_lower_def)

lemma runes_ascii: "\<forall>c \<in> set s. byte c < 128 \<Longrightarrow> runes s = map (\<lambda>c. (byte c, [c])) s"
  by (induction s) (auto simp: runes.simps(2) decode_rune_def)

lemma range_runes_ascii: "\<forall>c \<in> set s. byte c < 128 \<Longrightarrow> range_runes s = map byte s"
  by (simp add: range_runes_def runes_ascii o_def)

lemma range_runes_Nil [simp]: "range_runes [] = []"
  by (simp add: range_runes_def)

lemma range_runes_eq_Nil [simp]: "range_runes s = [] \<longleftrightarrow> s = []"
  by (cases s) (auto simp: range_runes_def runes.simps(2) split: prod.splits)

lemma byte_inject [simp]: "byte a = byte b \<longleftrightarrow> a = b"
  by (simp add: byte_def)

lemma encode_rune_ascii: "byte c < 128 \<Longrightarrow> encode_rune (byte c) = [c]"
  by (simp add: encode_rune_def encode_bytes_def byte_def)

section \<open>Decimal numbers\<close>

text \<open>\<^verbatim>\<open>fmt.Sprintf("%d", n)\<close>.\<close>

fun nat_digits :: "nat \<Rightarrow> string" where
  "nat_digits n =
     (if n < 10 then [char_of (48 + n)] else nat_digits (n div 10) @ [char_of (48 + n mod 10)])"

declare nat_digits.simps [simp del]

definition itoa :: "int \<Rightarrow> string" where
  "itoa n = (if n < 0 then CHR ''-'' # nat_digits (nat (- n)) else nat_digits (nat n))"

text \<open>
  \<^verbatim>\<open>fmt.Sscanf(s, "%d", &v)\<close> into a 64-bit integer: leading ASCII blanks are skipped, a newline
  there is an error, then an optional sign and at least one decimal digit; text after the digits is
  not looked at. \<open>None\<close> is an error, after which the destination keeps its value.
\<close>

definition is_dec :: "char \<Rightarrow> bool" where
  "is_dec c \<longleftrightarrow> 48 \<le> byte c \<and> byte c \<le> 57"

definition digits_value :: "string \<Rightarrow> nat" where
  "digits_value ds = foldl (\<lambda>n c. 10 * n + (byte c - 48)) 0 ds"

definition scan_blank :: "char \<Rightarrow> bool" where
  "scan_blank c \<longleftrightarrow> byte c \<in> {9, 11, 12, 13, 32}"

definition int64_ok :: "int \<Rightarrow> bool" where
  "int64_ok n \<longleftrightarrow> - (2 ^ 63) \<le> n \<and> n < 2 ^ 63"

definition sscanf_d :: "string \<Rightarrow> int option" where
  "sscanf_d s =
     (let t = dropWhile scan_blank s;
          neg = has_prefix t ''-'';
          u = (if neg \<or> has_prefix t ''+'' then drop 1 t else t);
          ds = takeWhile is_dec u;
          v = (if neg then - int (digits_value ds) else int (digits_value ds))
      in if ds = [] \<or> \<not> int64_ok v then None else Some v)"

lemma byte_dec: "(d :: nat) < 10 \<Longrightarrow> byte (char_of (48 + d)) = 48 + d"
  by (simp add: byte_def)

lemma is_dec_digit: "(d :: nat) < 10 \<Longrightarrow> is_dec (char_of (48 + d))"
  by (simp add: is_dec_def byte_dec)

lemma nat_digits_dec: "\<forall>c \<in> set (nat_digits n). is_dec c"
proof (induction n rule: nat_digits.induct)
  case (1 n)
  then show ?case
    by (subst nat_digits.simps) (auto simp: is_dec_digit)
qed

lemma nat_digits_not_Nil [simp]: "nat_digits n \<noteq> []"
  by (subst nat_digits.simps) simp

lemma digits_value_nat_digits [simp]: "digits_value (nat_digits n) = n"
proof (induction n rule: nat_digits.induct)
  case (1 n)
  show ?case
  proof (cases "n < 10")
    case True
    then show ?thesis by (subst nat_digits.simps) (simp add: digits_value_def byte_dec)
  next
    case False
    have "digits_value (ds @ [char_of (48 + n mod 10)]) = 10 * digits_value ds + n mod 10" for ds
      by (simp add: digits_value_def byte_dec)
    with False 1 show ?thesis by (subst nat_digits.simps) simp
  qed
qed

lemma is_dec_plain: "is_dec c \<Longrightarrow> \<not> scan_blank c \<and> c \<noteq> CHR ''-'' \<and> c \<noteq> CHR ''+''"
  by (auto simp: is_dec_def scan_blank_def byte_def)

lemma sscanf_itoa:
  assumes "int64_ok n"
  shows "sscanf_d (itoa n) = Some n"
proof -
  have dec: "\<forall>c \<in> set (nat_digits k). is_dec c" for k by (rule nat_digits_dec)
  then have tw: "takeWhile is_dec (nat_digits k) = nat_digits k" for k
    by (simp add: takeWhile_eq_all_conv)
  obtain c cs where c: "nat_digits (nat n) = c # cs" by (meson list.exhaust nat_digits_not_Nil)
  with dec [of "nat n"] have "is_dec c" by simp
  then have plain: "\<not> scan_blank c" "c \<noteq> CHR ''-''" "c \<noteq> CHR ''+''" using is_dec_plain by auto
  show ?thesis
  proof (cases "n < 0")
    case True
    have "\<not> scan_blank (CHR ''-'')" by (simp add: scan_blank_def byte_def)
    with True assms show ?thesis
      unfolding sscanf_d_def itoa_def Let_def by (simp add: has_prefix_Cons tw)
  next
    case False
    have "sscanf_d (nat_digits (nat n)) =
        (if int64_ok (int (digits_value (nat_digits (nat n)))) then Some (int (digits_value (nat_digits (nat n)))) else None)"
      using plain tw [of "nat n"] unfolding sscanf_d_def Let_def c by (simp add: has_prefix_Cons)
    with False assms show ?thesis by (simp add: itoa_def)
  qed
qed

end
