(* ===== verification/Tables.thy ===== *)
theory Tables
  imports Main
begin

text \<open>
  SQL tables. A table is the list of its rows in insertion order; the statements the store uses
  are \<open>upsert\<close> (INSERT with an ON CONFLICT clause), \<open>update_where\<close> (UPDATE), \<open>delete_where\<close>
  (DELETE) and the list functions \<open>filter\<close>, \<open>map\<close> and \<open>find\<close> for SELECT. The primary-key
  constraint is \<open>unique_key\<close>. What the statements keep is proved once, in the locales
  \<open>table\<close> and \<open>table_upsert\<close>; every table of the store interprets them.
\<close>

named_theorems tbl \<open>rules that compute what a statement leaves in a table\<close>

fun upsert :: "('r \<Rightarrow> 'k) \<Rightarrow> ('r \<Rightarrow> 'r \<Rightarrow> 'r) \<Rightarrow> 'r \<Rightarrow> 'r list \<Rightarrow> 'r list" where
  "upsert key mrg new [] = [new]"
| "upsert key mrg new (r # rs) =
     (if key r = key new then mrg r new # rs else r # upsert key mrg new rs)"

definition update_where :: "('r \<Rightarrow> bool) \<Rightarrow> ('r \<Rightarrow> 'r) \<Rightarrow> 'r list \<Rightarrow> 'r list" where
  "update_where p f rs = map (\<lambda>r. if p r then f r else r) rs"

definition delete_where :: "('r \<Rightarrow> bool) \<Rightarrow> 'r list \<Rightarrow> 'r list" where
  "delete_where p rs = filter (\<lambda>r. \<not> p r) rs"

definition lookup :: "('r \<Rightarrow> 'k) \<Rightarrow> 'k \<Rightarrow> 'r list \<Rightarrow> 'r option" where
  "lookup key k rs = find (\<lambda>r. key r = k) rs"

text \<open>The primary-key constraint of a table.\<close>

definition unique_key :: "('r \<Rightarrow> 'k) \<Rightarrow> 'r list \<Rightarrow> bool" where
  "unique_key key rs \<longleftrightarrow> distinct (map key rs)"

text \<open>The number of rows a statement touched, as \<^verbatim>\<open>RowsAffected\<close> reports it.\<close>

definition rows_matching :: "('r \<Rightarrow> bool) \<Rightarrow> 'r list \<Rightarrow> nat" where
  "rows_matching p rs = length (filter p rs)"

definition do_nothing :: "'r \<Rightarrow> 'r \<Rightarrow> 'r" where
  "do_nothing old new = old"

lemma set_update_where: "set (update_where p f rs) = f ` {r \<in> set rs. p r} \<union> {r \<in> set rs. \<not> p r}"
  by (auto simp: update_where_def)

lemma in_update_where:
  "r' \<in> set (update_where p f rs) \<longleftrightarrow> (\<exists>r \<in> set rs. r' = (if p r then f r else r))"
  by (auto simp: update_where_def)

lemma update_where_hit: "r \<in> set rs \<Longrightarrow> p r \<Longrightarrow> f r \<in> set (update_where p f rs)"
  by (auto simp: update_where_def)

lemma update_whereE:
  assumes "r' \<in> set (update_where p f rs)"
  obtains (hit) r where "r \<in> set rs" "p r" "r' = f r" | (miss) "r' \<in> set rs" "\<not> p r'"
  using assms by (auto simp: in_update_where split: if_splits)

lemma set_delete_where [simp]: "set (delete_where p rs) = {r \<in> set rs. \<not> p r}"
  by (auto simp: delete_where_def)

lemma length_update_where [simp]: "length (update_where p f rs) = length rs"
  by (simp add: update_where_def)

lemma update_where_none: "\<forall>r \<in> set rs. \<not> p r \<Longrightarrow> update_where p f rs = rs"
  by (induction rs) (auto simp: update_where_def)

lemma rows_matching_0: "rows_matching p rs = 0 \<longleftrightarrow> (\<forall>r \<in> set rs. \<not> p r)"
  by (auto simp: rows_matching_def filter_empty_conv)

lemma update_where_idem:
  "(\<And>r. p (f r) \<Longrightarrow> f (f r) = f r) \<Longrightarrow>
   update_where p f (update_where p f rs) = update_where p f rs"
  by (simp add: update_where_def)

text \<open>A statement that selects by the owner's column leaves the rows of other owners alone.\<close>

definition owned_by :: "('r \<Rightarrow> 'o) \<Rightarrow> 'o \<Rightarrow> 'r list \<Rightarrow> 'r list" where
  "owned_by own ow rs = filter (\<lambda>r. own r = ow) rs"

lemma owned_by_update_where:
  assumes "\<And>r. p r \<Longrightarrow> own r \<noteq> ow" "\<And>r. own (f r) = own r"
  shows "owned_by own ow (update_where p f rs) = owned_by own ow rs"
  using assms by (induction rs) (auto simp: owned_by_def update_where_def)

lemma owned_by_delete_where:
  assumes "\<And>r. p r \<Longrightarrow> own r \<noteq> ow"
  shows "owned_by own ow (delete_where p rs) = owned_by own ow rs"
  using assms by (induction rs) (auto simp: owned_by_def delete_where_def)

lemma owned_by_upsert:
  assumes "own new \<noteq> ow" "\<And>r s. key r = key s \<Longrightarrow> own r = own s" "\<And>r. key (mrg r new) = key r"
  shows "owned_by own ow (upsert key mrg new rs) = owned_by own ow rs"
proof (induction rs)
  case Nil
  with assms(1) show ?case by (simp add: owned_by_def)
next
  case (Cons r rs)
  have "own (mrg r new) = own r" by (rule assms(2)) (rule assms(3))
  moreover have "own r \<noteq> ow" if "key r = key new" using assms(1) assms(2) [OF that] by simp
  ultimately show ?case using Cons.IH by (simp add: owned_by_def)
qed

section \<open>What a statement keeps\<close>

locale table =
  fixes key :: "'r \<Rightarrow> 'k"
begin

lemma pk_Nil: "unique_key key []"
  by (simp add: unique_key_def)

lemma pk_delete_where: "unique_key key rs \<Longrightarrow> unique_key key (delete_where p rs)"
  unfolding unique_key_def delete_where_def by (rule distinct_map_filter)

lemma map_key_update_where:
  "(\<And>r. key (f r) = key r) \<Longrightarrow> map key (update_where p f rs) = map key rs"
  by (simp add: update_where_def)

lemma pk_update_where: "unique_key key rs \<Longrightarrow> (\<And>r. key (f r) = key r) \<Longrightarrow> unique_key key (update_where p f rs)"
  by (simp add: unique_key_def map_key_update_where)

lemma lookup_Some_in: "lookup key k rs = Some r \<Longrightarrow> r \<in> set rs \<and> key r = k"
  by (auto simp: lookup_def find_Some_iff)

lemma lookup_None: "lookup key k rs = None \<longleftrightarrow> k \<notin> key ` set rs"
  by (auto simp: lookup_def find_None_iff)

lemma lookup_pk: "unique_key key rs \<Longrightarrow> r \<in> set rs \<Longrightarrow> lookup key (key r) rs = Some r"
  by (induction rs) (auto simp: unique_key_def lookup_def)

lemma lookup_iff: "unique_key key rs \<Longrightarrow> lookup key k rs = Some r \<longleftrightarrow> r \<in> set rs \<and> key r = k"
  using lookup_Some_in lookup_pk by blast

lemma lookup_update_where:
  assumes "\<And>r. key (f r) = key r"
  shows "lookup key k (update_where p f rs) =
           map_option (\<lambda>r. if p r then f r else r) (lookup key k rs)"
  using assms by (induction rs) (auto simp: lookup_def update_where_def)

lemma lookup_delete_where:
  "unique_key key rs \<Longrightarrow> lookup key k (delete_where p rs) =
     (case lookup key k rs of None \<Rightarrow> None | Some r \<Rightarrow> if p r then None else Some r)"
proof (induction rs)
  case (Cons r rs)
  then have "unique_key key rs" by (simp add: unique_key_def)
  show ?case
  proof (cases "key r = k")
    case True
    with Cons.prems have "k \<notin> key ` set rs" by (auto simp: unique_key_def)
    then have "lookup key k (delete_where p rs) = None"
      by (auto simp: lookup_None)
    with True show ?thesis by (simp add: lookup_def delete_where_def)
  next
    case False
    with Cons.IH [OF \<open>unique_key key rs\<close>] show ?thesis by (simp add: lookup_def delete_where_def)
  qed
qed (simp add: lookup_def delete_where_def)

end

locale table_upsert = table key for key :: "'r \<Rightarrow> 'k" +
  fixes mrg :: "'r \<Rightarrow> 'r \<Rightarrow> 'r"
  assumes key_mrg: "key old = key new \<Longrightarrow> key (mrg old new) = key old"
begin

lemma keys_upsert:
  "map key (upsert key mrg new rs) =
     (if key new \<in> key ` set rs then map key rs else map key rs @ [key new])"
  by (induction rs) (auto simp: key_mrg)

lemma pk_upsert: "unique_key key rs \<Longrightarrow> unique_key key (upsert key mrg new rs)"
  by (simp add: unique_key_def keys_upsert)

lemma set_upsert:
  "r' \<in> set (upsert key mrg new rs) \<Longrightarrow>
     r' = new \<and> key new \<notin> key ` set rs \<or> r' \<in> set rs \<or> (\<exists>old \<in> set rs. key old = key new \<and> r' = mrg old new)"
  by (induction rs) (auto split: if_splits)

lemma lookup_upsert:
  "lookup key k (upsert key mrg new rs) =
     (if k = key new
      then Some (case lookup key k rs of None \<Rightarrow> new | Some old \<Rightarrow> mrg old new)
      else lookup key k rs)"
  by (induction rs) (auto simp: lookup_def key_mrg)

lemma upsert_kept:
  "r \<in> set rs \<Longrightarrow> key r \<noteq> key new \<Longrightarrow> r \<in> set (upsert key mrg new rs)"
  by (induction rs) auto

lemma upsert_merged:
  "unique_key key rs \<Longrightarrow> old \<in> set rs \<Longrightarrow> key old = key new \<Longrightarrow> mrg old new \<in> set (upsert key mrg new rs)"
proof (induction rs)
  case (Cons r rs)
  then show ?case by (auto simp: unique_key_def image_iff)
qed simp

lemma lookup_fold_upsert:
  "distinct (map (\<lambda>x. key (f x)) xs) \<Longrightarrow>
   lookup key k (fold (\<lambda>x. upsert key mrg (f x)) xs rs) =
     (case find (\<lambda>x. key (f x) = k) xs of
        None \<Rightarrow> lookup key k rs
      | Some x \<Rightarrow> Some (case lookup key k rs of None \<Rightarrow> f x | Some old \<Rightarrow> mrg old (f x)))"
proof (induction xs arbitrary: rs)
  case (Cons x xs)
  have "find (\<lambda>y. key (f y) = key (f x)) xs = None"
    using Cons.prems by (auto simp: find_None_iff image_iff)
  with Cons show ?case by (auto simp: lookup_upsert split: option.splits)
qed simp

lemma keys_upsert_mono: "key ` set rs \<subseteq> key ` set (upsert key mrg new rs)"
proof -
  have "set (map key rs) \<subseteq> set (map key (upsert key mrg new rs))"
    by (subst keys_upsert) (simp add: subset_insertI)
  then show ?thesis by simp
qed

lemma keys_fold_upsert_present:
  "key ` f ` set xs \<subseteq> key ` set rs \<Longrightarrow> map key (fold (\<lambda>x. upsert key mrg (f x)) xs rs) = map key rs"
proof (induction xs arbitrary: rs)
  case (Cons x xs)
  have k: "map key (upsert key mrg (f x) rs) = map key rs" using Cons.prems by (simp add: keys_upsert)
  then have "key ` set (upsert key mrg (f x) rs) = key ` set rs" by (metis set_map)
  with Cons.IH [of "upsert key mrg (f x) rs"] Cons.prems k show ?case by simp
qed simp

lemma keys_fold_upsert:
  "key ` f ` set xs \<subseteq> key ` set (fold (\<lambda>x. upsert key mrg (f x)) xs rs) \<and>
   key ` set rs \<subseteq> key ` set (fold (\<lambda>x. upsert key mrg (f x)) xs rs)"
proof (induction xs arbitrary: rs)
  case (Cons x xs)
  have "key ` set rs \<subseteq> key ` set (upsert key mrg (f x) rs)" by (rule keys_upsert_mono)
  moreover have "key (f x) \<in> key ` set (upsert key mrg (f x) rs)"
    using lookup_upsert [of "key (f x)" "f x" rs] by (metis lookup_None option.distinct(1))
  ultimately show ?case using Cons.IH [of "upsert key mrg (f x) rs"] by (simp add: subset_iff)
qed simp

lemma pk_fold_upsert:
  "unique_key key rs \<Longrightarrow> unique_key key (fold (\<lambda>x. upsert key mrg (f x)) xs rs)"
  by (induction xs arbitrary: rs) (simp_all add: pk_upsert)

lemma upsert_present:
  "key new \<in> key ` set rs \<Longrightarrow> map key (upsert key mrg new rs) = map key rs"
  by (simp add: keys_upsert)

end

section \<open>Orders on rows\<close>

text \<open>
  A table \<open>keeps\<close> what another holds, up to an order on rows: every row of the old table has a
  counterpart under the same key that is above it. Statements whose row functions go up in the
  order keep it, and so do sequences of them.
\<close>

locale row_order = table key for key :: "'r \<Rightarrow> 'k" +
  fixes le :: "'r \<Rightarrow> 'r \<Rightarrow> bool"
  assumes le_refl: "le r r"
    and le_trans: "le r s \<Longrightarrow> le s t \<Longrightarrow> le r t"
begin

definition keeps :: "'r list \<Rightarrow> 'r list \<Rightarrow> bool" where
  "keeps rs rs' \<longleftrightarrow> (\<forall>r \<in> set rs. \<exists>r' \<in> set rs'. key r' = key r \<and> le r r')"

lemma keeps_refl: "keeps rs rs"
  by (auto simp: keeps_def intro: le_refl)

lemma keeps_trans: "keeps rs rs' \<Longrightarrow> keeps rs' rs'' \<Longrightarrow> keeps rs rs''"
  unfolding keeps_def by (metis le_trans)

lemma keeps_update_where:
  assumes "\<And>r. p r \<Longrightarrow> le r (f r)" "\<And>r. p r \<Longrightarrow> key (f r) = key r"
  shows "keeps rs (update_where p f rs)"
  unfolding keeps_def
proof
  fix r assume "r \<in> set rs"
  then have "(if p r then f r else r) \<in> set (update_where p f rs)"
    by (auto simp: in_update_where)
  then show "\<exists>r' \<in> set (update_where p f rs). key r' = key r \<and> le r r'"
    using assms le_refl by (auto intro!: bexI [of _ "if p r then f r else r"])
qed

lemma keeps_upsert:
  assumes "\<And>old. le old (mrg old new)" "\<And>old. key (mrg old new) = key old"
  shows "keeps rs (upsert key mrg new rs)"
  unfolding keeps_def
proof (induction rs)
  case (Cons q rs)
  then show ?case using assms le_refl by auto
qed simp

lemma keeps_fold: "(\<And>x rs. keeps rs (f x rs)) \<Longrightarrow> keeps rs (fold f xs rs)"
proof (induction xs arbitrary: rs)
  case (Cons x xs)
  show ?case using keeps_trans [OF Cons.prems Cons.IH [OF Cons.prems]] by simp
qed (simp add: keeps_refl)

lemma keeps_row: "keeps rs rs' \<Longrightarrow> r \<in> set rs \<Longrightarrow> \<exists>r' \<in> set rs'. key r' = key r \<and> le r r'"
  by (simp add: keeps_def)

lemma keeps_lookup:
  "keeps rs rs' \<Longrightarrow> unique_key key rs' \<Longrightarrow> lookup key k rs = Some r \<Longrightarrow>
     \<exists>r'. lookup key k rs' = Some r' \<and> le r r'"
  by (metis keeps_row lookup_Some_in lookup_pk)

end

section \<open>Rows that survive\<close>

text \<open>
  Some rows are never lost: a marked row of the old table has a marked row under the same key in the
  new one. Other rows may be removed. New keys are those of \<open>W\<close>, the keys a statement writes.
\<close>

locale survivors = table key for key :: "'r \<Rightarrow> 'k" +
  fixes marked :: "'r \<Rightarrow> bool"
begin

definition survive :: "'k set \<Rightarrow> 'r list \<Rightarrow> 'r list \<Rightarrow> bool" where
  "survive W rs rs' \<longleftrightarrow> (\<forall>r \<in> set rs. marked r \<longrightarrow> (\<exists>r' \<in> set rs'. key r' = key r \<and> marked r')) \<and>
     key ` set rs' \<subseteq> key ` set rs \<union> W"

lemma survive_refl: "survive W rs rs"
  by (auto simp: survive_def)

lemma survive_trans: "survive W rs rs' \<Longrightarrow> survive W rs' rs'' \<Longrightarrow> survive W rs rs''"
  unfolding survive_def by (intro conjI) (metis, blast)

lemma survive_update_where:
  assumes "\<And>r. p r \<Longrightarrow> marked r \<Longrightarrow> marked (f r)" "\<And>r. key (f r) = key r"
  shows "survive W rs (update_where p f rs)"
  unfolding survive_def
proof (intro conjI ballI impI)
  fix r assume "r \<in> set rs" "marked r"
  then have "(if p r then f r else r) \<in> set (update_where p f rs)" by (auto simp: in_update_where)
  then show "\<exists>r' \<in> set (update_where p f rs). key r' = key r \<and> marked r'"
    using assms \<open>marked r\<close> by (auto intro!: bexI [of _ "if p r then f r else r"])
next
  have "set (map key (update_where p f rs)) = set (map key rs)" by (simp only: map_key_update_where assms(2))
  then show "key ` set (update_where p f rs) \<subseteq> key ` set rs \<union> W" by simp
qed

lemma survive_delete_where: "(\<And>r. p r \<Longrightarrow> \<not> marked r) \<Longrightarrow> survive W rs (delete_where p rs)"
  by (auto simp: survive_def)

lemma survive_upsert:
  assumes "\<And>old. marked old \<Longrightarrow> marked (mrg old new)" "\<And>old. key (mrg old new) = key old" "key new \<in> W"
  shows "survive W rs (upsert key mrg new rs)"
  unfolding survive_def
proof (induction rs)
  case (Cons q rs)
  then show ?case using assms by auto
qed (simp add: assms(3))

lemma survive_fold: "(\<And>x rs. x \<in> set xs \<Longrightarrow> survive W rs (f x rs)) \<Longrightarrow> survive W rs (fold f xs rs)"
proof (induction xs arbitrary: rs)
  case (Cons x xs)
  have "survive W rs (f x rs)" by (rule Cons.prems) simp
  moreover have "survive W (f x rs) (fold f xs (f x rs))" by (rule Cons.IH) (rule Cons.prems, simp)
  ultimately show ?case by (simp add: survive_trans)
qed (simp add: survive_refl)

lemma survive_row: "survive W rs rs' \<Longrightarrow> r \<in> set rs \<Longrightarrow> marked r \<Longrightarrow> \<exists>r' \<in> set rs'. key r' = key r \<and> marked r'"
  by (simp add: survive_def)

lemma survive_keys: "survive W rs rs' \<Longrightarrow> r' \<in> set rs' \<Longrightarrow> key r' \<in> key ` set rs \<or> key r' \<in> W"
  by (auto simp: survive_def)

lemmas survive_intros = survive_refl survive_update_where survive_delete_where survive_upsert survive_fold

end

text \<open>Two tables with the same keys in the same order and the same row under each key are equal.\<close>

lemma table_ext:
  assumes "map key rs = map key rs'" "unique_key key rs" "\<And>k. lookup key k rs = lookup key k rs'"
  shows "rs = rs'"
proof (rule nth_equalityI)
  show len: "length rs = length rs'" using arg_cong [OF assms(1), of length] by simp
  fix i assume i: "i < length rs"
  have pk': "unique_key key rs'" using assms(1,2) by (simp add: unique_key_def)
  have "lookup key (key (rs ! i)) rs = Some (rs ! i)"
    using table.lookup_pk [OF assms(2)] i by simp
  moreover have "lookup key (key (rs' ! i)) rs' = Some (rs' ! i)"
    using table.lookup_pk [OF pk'] i len by simp
  moreover have "key (rs ! i) = key (rs' ! i)" using arg_cong [OF assms(1), of "\<lambda>ks. ks ! i"] i len by simp
  ultimately show "rs ! i = rs' ! i" using assms(3) [of "key (rs ! i)"] by simp
qed

end
