(* ===== verification/Prelude.thy ===== *)
theory Prelude
  imports Go_Strings Tables "HOL-Library.Product_Lexorder"
begin

text \<open>
  What every component shares: the names of the model's basic types, the functional counterparts of
  the loops with a \<^verbatim>\<open>seen\<close> map, and the collections the component proofs draw on.
\<close>

type_synonym portal_id = string
type_synonym login_id = string
type_synonym guid = string
type_synonym millis = int

section \<open>First occurrences\<close>

text \<open>
  The loop \<^verbatim>\<open>if seen[x] { continue }; seen[x] = true; out = append(out, x)\<close>: the elements of a
  list at their first occurrence, given those already seen.
\<close>

fun dedup_seen :: "'a list \<Rightarrow> 'a list \<Rightarrow> 'a list" where
  "dedup_seen seen [] = []"
| "dedup_seen seen (x # xs) =
     (if x \<in> set seen then dedup_seen seen xs else x # dedup_seen (x # seen) xs)"

abbreviation dedup :: "'a list \<Rightarrow> 'a list" where
  "dedup xs \<equiv> dedup_seen [] xs"

lemma set_dedup_seen [simp]: "set (dedup_seen seen xs) = set xs - set seen"
  by (induction xs arbitrary: seen) auto

lemma distinct_dedup_seen [simp]: "distinct (dedup_seen seen xs)"
  by (induction xs arbitrary: seen) auto

lemma dedup_seen_id: "distinct xs \<Longrightarrow> set xs \<inter> set seen = {} \<Longrightarrow> dedup_seen seen xs = xs"
  by (induction xs arbitrary: seen) auto

lemma dedup_eq_Nil [simp]: "dedup xs = [] \<longleftrightarrow> xs = []"
  using set_dedup_seen [of "[]" xs] by (metis Diff_empty set_empty)

lemma length_dedup: "length (dedup xs) = card (set xs)"
  by (metis Diff_empty distinct_card distinct_dedup_seen empty_set set_dedup_seen)

lemma sort_dedup_eq: "set xs = set ys \<Longrightarrow> sort (dedup xs) = sort (dedup (ys :: 'a :: linorder list))"
  by (intro sorted_distinct_set_unique) auto

section \<open>Options and comparisons\<close>

lemma find_Some_set: "find p xs = Some x \<Longrightarrow> x \<in> set xs \<and> p x"
  by (auto simp: find_Some_iff)

lemma find_exists: "x \<in> set xs \<Longrightarrow> p x \<Longrightarrow> \<exists>y. find p xs = Some y"
  by (metis find_None_iff not_Some_eq)

text \<open>SQL comparison of a nullable column with a value: NULL is never equal.\<close>

definition col_eq :: "'a option \<Rightarrow> 'a \<Rightarrow> bool" where
  "col_eq c v \<longleftrightarrow> c = Some v"

text \<open>\<^verbatim>\<open>NULLIF(x, '')\<close> and \<^verbatim>\<open>COALESCE\<close> on text columns.\<close>

definition nullif_empty :: "string \<Rightarrow> string option" where
  "nullif_empty s = (if s = [] then None else Some s)"

definition coalesce :: "'a option \<Rightarrow> 'a option \<Rightarrow> 'a option" where
  "coalesce a b = (case a of None \<Rightarrow> b | Some x \<Rightarrow> Some x)"

text \<open>Case-insensitive equality of text, \<^verbatim>\<open>UPPER(a)=UPPER(b)\<close> and \<^verbatim>\<open>LOWER(a)=LOWER(b)\<close>.\<close>

definition ci_eq :: "string \<Rightarrow> string \<Rightarrow> bool" where
  "ci_eq a b \<longleftrightarrow> to_upper a = to_upper b"

definition ci_lower_eq :: "string \<Rightarrow> string \<Rightarrow> bool" where
  "ci_lower_eq a b \<longleftrightarrow> to_lower a = to_lower b"

lemma to_lower_upper_eq: "to_lower a = to_lower b \<longleftrightarrow> to_upper a = to_upper b"
proof
  assume "to_lower a = to_lower b"
  then have "to_upper (to_lower a) = to_upper (to_lower b)" by simp
  then show "to_upper a = to_upper b" by simp
next
  assume "to_upper a = to_upper b"
  then have "to_lower (to_upper a) = to_lower (to_upper b)" by simp
  then show "to_lower a = to_lower b" by simp
qed

lemma ci_lower_eq_iff: "ci_lower_eq a b \<longleftrightarrow> ci_eq a b"
  by (simp add: ci_lower_eq_def ci_eq_def to_lower_upper_eq)

lemma ci_eq_refl [simp]: "ci_eq a a"
  by (simp add: ci_eq_def)

lemma ci_eq_sym: "ci_eq a b \<Longrightarrow> ci_eq b a"
  by (simp add: ci_eq_def)

lemma ci_eq_trans: "ci_eq a b \<Longrightarrow> ci_eq b c \<Longrightarrow> ci_eq a c"
  by (simp add: ci_eq_def)

section \<open>Batches\<close>

text \<open>
  The loop \<^verbatim>\<open>for i := 0; i < len(xs); i += chunkSize\<close> over the slices \<^verbatim>\<open>xs[i:end]\<close>, which the
  store uses to stay below SQLite's limit of bound variables.
\<close>

function chunks :: "nat \<Rightarrow> 'a list \<Rightarrow> 'a list list" where
  "chunks n xs = (if xs = [] \<or> n = 0 then [] else take n xs # chunks n (drop n xs))"
  by auto
termination by (relation "measure (\<lambda>(n, xs). length xs)") auto

declare chunks.simps [simp del]

lemma chunks_Nil [simp]: "chunks n [] = []"
  by (simp add: chunks.simps)

lemma chunks_Nil_iff: "0 < n \<Longrightarrow> chunks n xs = [] \<longleftrightarrow> xs = []"
  by (subst chunks.simps) simp

lemma chunks_single: "xs \<noteq> [] \<Longrightarrow> length xs \<le> n \<Longrightarrow> chunks n xs = [xs]"
  by (subst chunks.simps) (cases n; simp)

lemma concat_chunks [simp]: "0 < n \<Longrightarrow> concat (chunks n xs) = xs"
  by (induction n xs rule: chunks.induct) (subst chunks.simps, simp)

lemma length_chunk: "c \<in> set (chunks n xs) \<Longrightarrow> c \<noteq> [] \<and> length c \<le> n"
proof (induction n xs rule: chunks.induct)
  case (1 n xs)
  then show ?case by (subst (asm) (2) chunks.simps) (auto split: if_splits)
qed

text \<open>A statement with \<^verbatim>\<open>IN (...)\<close> run batch by batch is the statement run once.\<close>

lemma fold_update_where_concat:
  assumes "\<And>r. \<not> p (f r)"
  shows "fold (\<lambda>c. update_where (\<lambda>r. p r \<and> col r \<in> set c) f) cs rs =
    update_where (\<lambda>r. p r \<and> col r \<in> set (concat cs)) f rs"
proof (induction cs arbitrary: rs)
  case (Cons c cs)
  show ?case
    unfolding fold_simps comp_def Cons.IH
    using assms by (auto simp: update_where_def)
qed (simp add: update_where_def)

lemma fold_delete_where_concat:
  "fold (\<lambda>c. delete_where (\<lambda>r. p r \<and> col r \<in> set c)) cs rs =
    delete_where (\<lambda>r. p r \<and> col r \<in> set (concat cs)) rs"
proof (induction cs arbitrary: rs)
  case (Cons c cs)
  show ?case
    unfolding fold_simps comp_def Cons.IH by (auto simp: delete_where_def intro: filter_cong)
qed (simp add: delete_where_def)

lemma fold_invariant: "P a \<Longrightarrow> (\<And>x a. x \<in> set xs \<Longrightarrow> P a \<Longrightarrow> P (f x a)) \<Longrightarrow> P (fold f xs a)"
  by (induction xs arbitrary: a) auto

section \<open>Ordering of rows\<close>

text \<open>
  \<^verbatim>\<open>ORDER BY col DESC\<close> on a nullable column: NULL is the smallest value in SQLite, so it comes
  last.
\<close>

definition desc_null_last :: "int option \<Rightarrow> bool \<times> int" where
  "desc_null_last c = (case c of None \<Rightarrow> (True, 0) | Some v \<Rightarrow> (False, - v))"

text \<open>\<^verbatim>\<open>MAX\<close> and \<^verbatim>\<open>MIN\<close> over the non-null values of a column; NULL when there is none.\<close>

definition sql_max :: "int list \<Rightarrow> int option" where
  "sql_max xs = (case xs of [] \<Rightarrow> None | _ \<Rightarrow> Some (Max (set xs)))"

definition sql_min :: "int list \<Rightarrow> int option" where
  "sql_min xs = (case xs of [] \<Rightarrow> None | _ \<Rightarrow> Some (Min (set xs)))"

definition non_null :: "'a option list \<Rightarrow> 'a list" where
  "non_null xs = concat (map (\<lambda>c. case c of None \<Rightarrow> [] | Some v \<Rightarrow> [v]) xs)"

lemma set_non_null [simp]: "set (non_null xs) = {v. Some v \<in> set xs}"
  by (induction xs) (auto simp: non_null_def split: option.splits)

lemma sql_max_None [simp]: "sql_max xs = None \<longleftrightarrow> xs = []"
  by (simp add: sql_max_def split: list.splits)

lemma sql_max_Some: "sql_max xs = Some v \<longleftrightarrow> v \<in> set xs \<and> (\<forall>x \<in> set xs. x \<le> v)"
proof (cases xs)
  case (Cons y ys)
  then have ne: "set xs \<noteq> {}" "finite (set xs)" by auto
  have "sql_max xs = Some (Max (set xs))" using Cons by (simp add: sql_max_def)
  then show ?thesis using Max_eq_iff [OF ne(2,1), of v] by auto
qed (simp add: sql_max_def)

lemma sql_min_Some: "sql_min xs = Some v \<longleftrightarrow> v \<in> set xs \<and> (\<forall>x \<in> set xs. v \<le> x)"
proof (cases xs)
  case (Cons y ys)
  then have ne: "set xs \<noteq> {}" "finite (set xs)" by auto
  have "sql_min xs = Some (Min (set xs))" using Cons by (simp add: sql_min_def)
  then show ?thesis using Min_eq_iff [OF ne(2,1), of v] by auto
qed (simp add: sql_min_def)

text \<open>\<^verbatim>\<open>LIKE 'p%'\<close>: SQLite's LIKE folds ASCII case.\<close>

definition like_prefix :: "string \<Rightarrow> string \<Rightarrow> bool" where
  "like_prefix s p \<longleftrightarrow> has_prefix (to_lower s) (to_lower p)"

section \<open>JSON text columns\<close>

text \<open>
  A text column that holds JSON: \<open>JDoc v\<close> is the text \<^verbatim>\<open>json.Marshal\<close> writes for \<open>v\<close>, \<open>JNull\<close> the
  text \<^verbatim>\<open>null\<close> it writes for a nil slice, \<open>JText t\<close> any other text, on which \<^verbatim>\<open>json.Unmarshal\<close>
  fails. The store writes these columns with \<^verbatim>\<open>json.Marshal\<close> only. The empty text is \<open>JText []\<close>.
\<close>

datatype 'a json_text = JDoc 'a | JNull | JText string

text \<open>
  The errors a store operation can return of its own accord: JSON that does not decode, and a NULL
  column scanned into a Go string.
\<close>

datatype store_error = JsonError | ScanNull

text \<open>A Go slice where a nil slice matters: \<open>None\<close> is nil. \<^verbatim>\<open>json.Marshal\<close> writes \<^verbatim>\<open>null\<close> for it.\<close>

type_synonym 'a slice = "'a list option"

definition slice_list :: "'a slice \<Rightarrow> 'a list" where
  "slice_list sl = (case sl of None \<Rightarrow> [] | Some xs \<Rightarrow> xs)"

definition json_marshal :: "'a slice \<Rightarrow> 'a list json_text" where
  "json_marshal sl = (case sl of None \<Rightarrow> JNull | Some xs \<Rightarrow> JDoc xs)"

abbreviation JEmpty :: "'a json_text" where
  "JEmpty \<equiv> JText []"

definition json_unmarshal :: "'a list json_text \<Rightarrow> store_error + 'a list" where
  "json_unmarshal j = (case j of JDoc v \<Rightarrow> Inr v | JNull \<Rightarrow> Inr [] | JText _ \<Rightarrow> Inl JsonError)"

lemma json_roundtrip: "json_unmarshal (json_marshal sl) = Inr (slice_list sl)"
  by (simp add: json_unmarshal_def json_marshal_def slice_list_def split: option.splits)

text \<open>Whether a nullable JSON column holds some text.\<close>

definition json_present :: "'a json_text option \<Rightarrow> bool" where
  "json_present c \<longleftrightarrow> c \<noteq> None \<and> c \<noteq> Some JEmpty"

definition text_present :: "string option \<Rightarrow> bool" where
  "text_present c \<longleftrightarrow> c \<noteq> None \<and> c \<noteq> Some []"

end
