(* ===== verification/Identifiers.thy ===== *)
theory Identifiers
  imports Prelude
begin

text \<open>
  Handle and portal identifiers: \<^verbatim>\<open>pkg/connector/util.go\<close>, \<^verbatim>\<open>group_identity.go\<close>, the normalizers
  of \<^verbatim>\<open>client.go\<close> and \<^verbatim>\<open>recycle_bin_hints.go\<close>, and the participant-set comparison of
  \<^verbatim>\<open>cloud_backfill_store.go\<close>. Every other component routes by the strings these functions build.
\<close>

section \<open>Phone numbers and suffixes\<close>

definition normalizePhone :: "string \<Rightarrow> string" where
  "normalizePhone phone =
     (case range_runes phone of
        [] \<Rightarrow> []
      | r # rs \<Rightarrow> (if r = byte (CHR ''+'') then encode_rune r
                   else if is_digit r then encode_rune r else [])
                  @ concat (map encode_rune (filter is_digit rs)))"

definition phoneSuffixes :: "string \<Rightarrow> string list" where
  "phoneSuffixes phone =
     (let n = normalizePhone phone in
      if n = [] then []
      else
        (let without = trim_prefix n ''+'' in
         [n] @ (if without \<noteq> n then [without] else [])
             @ (if length without > 10 then [drop (length without - 10) without] else [])
             @ (if length without > 7 then [drop (length without - 7) without] else [])))"

definition base64_rune :: "nat \<Rightarrow> bool" where
  "base64_rune r \<longleftrightarrow> (65 \<le> r \<and> r \<le> 90) \<or> (97 \<le> r \<and> r \<le> 122) \<or> (48 \<le> r \<and> r \<le> 57) \<or>
     r = 43 \<or> r = 47 \<or> r = 61"

definition stripNonBase64 :: "string \<Rightarrow> string" where
  "stripNonBase64 s = concat (map encode_rune (filter base64_rune (range_runes s)))"

definition stripSmsSuffix :: "string \<Rightarrow> string" where
  "stripSmsSuffix i =
     (case index_of i ''(sms'' of
        None \<Rightarrow> i
      | Some idx \<Rightarrow>
          if idx > 0
          then (case index_of (drop idx i) '')'' of
                  None \<Rightarrow> i
                | Some closeIdx \<Rightarrow> if idx + closeIdx + 1 = length i then take idx i else i)
          else i)"

definition stripIdentifierPrefix :: "string \<Rightarrow> string" where
  "stripIdentifierPrefix i = trim_prefix (trim_prefix i ''tel:'') ''mailto:''"

definition isNumeric :: "string \<Rightarrow> bool" where
  "isNumeric s \<longleftrightarrow> s \<noteq> [] \<and> list_all (\<lambda>c. \<not> (c < 48 \<or> c > 57)) (range_runes s)"

definition addIdentifierPrefix :: "string \<Rightarrow> string" where
  "addIdentifierPrefix localID =
     (if has_prefix localID ''tel:'' \<or> has_prefix localID ''mailto:'' then localID
      else if contains localID ''@'' then ''mailto:'' @ localID
      else if has_prefix localID ''+'' \<or> isNumeric localID then ''tel:'' @ localID
      else localID)"

record DisplaynameParams =
  dp_FirstName :: string
  dp_LastName :: string
  dp_Nickname :: string
  dp_Phone :: string
  dp_Email :: string
  dp_ID :: string

definition empty_params :: DisplaynameParams where
  "empty_params = \<lparr>dp_FirstName = [], dp_LastName = [], dp_Nickname = [], dp_Phone = [],
                   dp_Email = [], dp_ID = []\<rparr>"

definition identifierToDisplaynameParams :: "string \<Rightarrow> DisplaynameParams" where
  "identifierToDisplaynameParams identifier =
     (let localID = stripIdentifierPrefix identifier in
      if has_prefix localID ''+'' then empty_params\<lparr>dp_Phone := localID, dp_ID := localID\<rparr>
      else if contains localID ''@'' then empty_params\<lparr>dp_Email := localID, dp_ID := localID\<rparr>
      else empty_params\<lparr>dp_ID := localID\<rparr>)"

section \<open>Canonical identifiers\<close>

definition normalizePhoneIdentifierForPortalID :: "string \<Rightarrow> string" where
  "normalizePhoneIdentifierForPortalID loc =
     (let cleaned = normalizePhone loc in
      if cleaned = [] then []
      else if has_prefix cleaned ''+'' then cleaned
      else if length cleaned = 10 then ''+1'' @ cleaned
      else if length cleaned = 11 \<and> cleaned ! 0 = CHR ''1'' then ''+'' @ cleaned
      else if length cleaned \<ge> 11 then ''+'' @ cleaned
      else cleaned)"

definition normalizeIdentifierForPortalID :: "string \<Rightarrow> string" where
  "normalizeIdentifierForPortalID identifier =
     (let trimmed = trim_space identifier in
      if trimmed = [] then []
      else
        (let i = stripSmsSuffix trimmed in
         if has_prefix i ''mailto:'' then ''mailto:'' @ to_lower (trim_prefix i ''mailto:'')
         else if contains i ''@'' \<and> \<not> has_prefix i ''tel:''
         then ''mailto:'' @ to_lower (trim_prefix i ''mailto:'')
         else if has_prefix i ''tel:'' \<or> has_prefix i ''+'' \<or> isNumeric i
         then (let loc = stripIdentifierPrefix i;
                   normalized = normalizePhoneIdentifierForPortalID loc
               in if normalized \<noteq> [] then ''tel:'' @ normalized else addIdentifierPrefix loc)
         else i))"

text \<open>The client's own handles, as \<^verbatim>\<open>IMClient.allHandles\<close> and \<^verbatim>\<open>IMClient.handle\<close>.\<close>

definition isMyHandle :: "string list \<Rightarrow> string \<Rightarrow> bool" where
  "isMyHandle allHandles h =
     list_ex (\<lambda>x. normalizeIdentifierForPortalID h = normalizeIdentifierForPortalID x) allHandles"

definition buildCanonicalParticipantList :: "string \<Rightarrow> string list \<Rightarrow> string list \<Rightarrow> string list" where
  "buildCanonicalParticipantList handle allHandles participants =
     remdups_adj (sort
       (filter (\<lambda>n. \<not> (n = [] \<or> isMyHandle allHandles n))
          (map normalizeIdentifierForPortalID participants)
        @ [normalizeIdentifierForPortalID handle]))"

definition normalizeRecoverableParticipants :: "string list \<Rightarrow> string list" where
  "normalizeRecoverableParticipants participants =
     sort (dedup (filter (\<lambda>v. v \<noteq> []) (map normalizeIdentifierForPortalID participants)))"

definition isGroupPortalID :: "portal_id \<Rightarrow> bool" where
  "isGroupPortalID portalID \<longleftrightarrow> has_prefix portalID ''gid:'' \<or> contains portalID '',''"

definition isComputedDMPortalID :: "portal_id \<Rightarrow> bool" where
  "isComputedDMPortalID s \<longleftrightarrow> \<not> has_prefix s ''gid:'' \<and> \<not> contains s '',''"

definition isCarrierService :: "string \<Rightarrow> bool" where
  "isCarrierService service \<longleftrightarrow> to_upper (trim_space service) \<in> {''SMS'', ''RCS'', ''MMS''}"

definition normalizeUUID :: "string \<Rightarrow> string" where
  "normalizeUUID s = to_lower (remove_char (CHR ''-'') s)"

definition groupPortalDedupKey :: "portal_id \<Rightarrow> string \<Rightarrow> string list \<Rightarrow> string" where
  "groupPortalDedupKey portalID groupID participants =
     (let g = trim_space groupID in
      if g \<noteq> [] then ''group:'' @ normalizeUUID g
      else if has_prefix portalID ''gid:'' then ''group:'' @ normalizeUUID (trim_prefix portalID ''gid:'')
      else
        (let n1 = normalizeRecoverableParticipants participants;
             normalized = (if n1 = [] \<and> contains portalID '',''
                           then normalizeRecoverableParticipants (split_on (CHR '','') portalID)
                           else n1)
         in if normalized \<noteq> [] then ''parts:'' @ join '','' normalized else ''portal:'' @ portalID))"

text \<open>The sets compared are the keys of the two maps; the self predicate may be nil.\<close>

definition participantSetsMatch :: "string list \<Rightarrow> string list \<Rightarrow> (string \<Rightarrow> bool) option \<Rightarrow> bool" where
  "participantSetsMatch a b isSelf =
     (if a = [] \<or> b = [] then False
      else
        (let diffs = filter (\<lambda>p. p \<notin> set b) (dedup a) @ filter (\<lambda>p. p \<notin> set a) (dedup b);
             allDiffAreSelf = list_all (\<lambda>p. case isSelf of None \<Rightarrow> False | Some f \<Rightarrow> f p) diffs
         in length diffs = 0 \<or> (allDiffAreSelf \<and> isSelf \<noteq> None)))"

section \<open>The phone normal form\<close>

text \<open>What \<^verbatim>\<open>normalizePhone\<close> writes: a plus sign or a digit, then digits.\<close>

definition phone_runes :: "nat list \<Rightarrow> bool" where
  "phone_runes rs \<longleftrightarrow> (case rs of [] \<Rightarrow> True | r # ds \<Rightarrow> (r = 43 \<or> is_digit r) \<and> (\<forall>d \<in> set ds. is_digit d))"

definition phone_form :: "string \<Rightarrow> bool" where
  "phone_form s \<longleftrightarrow> (\<exists>rs. phone_runes rs \<and> s = concat (map encode_rune rs))"

lemma byte_plus [simp]: "byte (CHR ''+'') = 43"
  by (simp add: byte_def)

lemma phone_runes_cases: "phone_runes rs \<Longrightarrow> r \<in> set rs \<Longrightarrow> r = 43 \<or> is_digit r"
  by (cases rs) (auto simp: phone_runes_def)

lemma phone_runes_scalar: "phone_runes rs \<Longrightarrow> r \<in> set rs \<Longrightarrow> scalar r"
  using phone_runes_cases [of rs r] is_digit_scalar [of r] by (auto simp: scalar_def)

lemma encode_plus: "encode_rune 43 = ''+''"
  using encode_rune_ascii [of "CHR ''+''"] by simp

lemma phone_form_normalizePhone: "phone_form (normalizePhone p)"
proof (cases "range_runes p")
  case Nil
  then show ?thesis
    by (auto simp: normalizePhone_def phone_form_def phone_runes_def intro!: exI [of _ "[]"])
next
  case (Cons r rs)
  let ?ds = "filter is_digit rs"
  have "normalizePhone p =
      concat (map encode_rune ((if r = 43 \<or> is_digit r then [r] else []) @ ?ds))"
    using Cons by (simp add: normalizePhone_def)
  moreover have "phone_runes ((if r = 43 \<or> is_digit r then [r] else []) @ ?ds)"
    by (cases ?ds) (auto simp: phone_runes_def dest!: filter_eq_ConsD)
  ultimately show ?thesis unfolding phone_form_def by blast
qed

lemma normalizePhone_runes:
  assumes "phone_runes rs"
  shows "normalizePhone (concat (map encode_rune rs)) = concat (map encode_rune rs)"
proof -
  have "range_runes (concat (map encode_rune rs)) = rs"
    using range_runes_encode phone_runes_scalar [OF assms] by blast
  with assms show ?thesis
    by (cases rs) (auto simp: normalizePhone_def phone_runes_def filter_id_conv [THEN iffD2])
qed

lemma normalizePhone_form: "phone_form s \<Longrightarrow> normalizePhone s = s"
  using normalizePhone_runes by (auto simp: phone_form_def)

lemma normalizePhone_idem: "normalizePhone (normalizePhone p) = normalizePhone p"
  by (rule normalizePhone_form) (rule phone_form_normalizePhone)

lemma phone_form_plus: "phone_form s \<Longrightarrow> \<not> has_prefix s ''+'' \<Longrightarrow> phone_form (''+'' @ s)"
proof -
  assume "phone_form s" "\<not> has_prefix s ''+''"
  then obtain rs where rs: "phone_runes rs" "s = concat (map encode_rune rs)"
    by (auto simp: phone_form_def)
  have "\<forall>d \<in> set rs. is_digit d"
  proof
    fix d assume d: "d \<in> set rs"
    show "is_digit d"
    proof (rule ccontr)
      assume n: "\<not> is_digit d"
      with d phone_runes_cases [OF rs(1)] have "d = 43" by blast
      with rs(1) d n have "\<exists>ds. rs = 43 # ds" by (cases rs) (auto simp: phone_runes_def)
      then have "has_prefix s ''+''" using rs(2) encode_plus by auto
      with \<open>\<not> has_prefix s ''+''\<close> show False by blast
    qed
  qed
  then have "phone_runes (43 # rs)" by (simp add: phone_runes_def)
  moreover have "''+'' @ s = concat (map encode_rune (43 # rs))" using rs(2) encode_plus by simp
  ultimately show ?thesis unfolding phone_form_def by blast
qed

lemma phone_form_plus1: "phone_form s \<Longrightarrow> \<not> has_prefix s ''+'' \<Longrightarrow> phone_form (''+1'' @ s)"
proof -
  assume "phone_form s" "\<not> has_prefix s ''+''"
  then obtain rs where rs: "phone_runes rs" "''+'' @ s = concat (map encode_rune rs)"
    using phone_form_plus [of s] by (auto simp: phone_form_def)
  from rs have rs0: "rs \<noteq> []" by auto
  then obtain r ds where c: "rs = r # ds" by (cases rs) auto
  have "hd (encode_rune r) = CHR ''+''"
    using arg_cong [OF rs(2), of hd] c by (simp add: hd_append)
  then have "\<not> is_digit r"
  proof -
    assume h: "hd (encode_rune r) = CHR ''+''"
    show ?thesis
    proof
      assume d: "is_digit r"
      from h have "byte (hd (encode_rune r)) = 43" by simp
      moreover have "byte (hd (encode_rune r)) = hd (encode_bytes r)"
        using map_byte_encode [OF is_digit_scalar [OF d]] by (metis encode_rune_nonempty list.map_sel(1))
      ultimately have "hd (encode_bytes r) = 43" by simp
      with d show False by (auto simp: encode_bytes_def split: if_splits)
    qed
  qed
  with rs(1) c have r: "r = 43" and ds: "\<forall>d \<in> set ds. is_digit d" by (auto simp: phone_runes_def)
  with rs(2) c have "s = concat (map encode_rune ds)" by (simp add: encode_plus)
  moreover have "encode_rune 49 = ''1''" using encode_rune_ascii [of "CHR ''1''"] by (simp add: byte_def)
  ultimately have "''+1'' @ s = concat (map encode_rune (43 # 49 # ds))" by (simp add: encode_plus)
  moreover from ds have "phone_runes (43 # 49 # ds)" by (simp add: phone_runes_def)
  ultimately show ?thesis unfolding phone_form_def by blast
qed

text \<open>
  The result of \<^verbatim>\<open>normalizePhoneIdentifierForPortalID\<close>: in phone form, and led by a plus sign unless
  it is a short code of fewer than ten bytes.
\<close>

lemma normalizePhoneIdentifier_form:
  "phone_form (normalizePhoneIdentifierForPortalID l)"
  "\<not> has_prefix (normalizePhoneIdentifierForPortalID l) ''+'' \<Longrightarrow>
     length (normalizePhoneIdentifierForPortalID l) < 10"
  using phone_form_normalizePhone [of l] phone_form_plus [of "normalizePhone l"]
    phone_form_plus1 [of "normalizePhone l"]
  by (auto simp: normalizePhoneIdentifierForPortalID_def Let_def split: if_splits)

lemma normalizePhoneIdentifier_fixpoint:
  assumes "phone_form n" "\<not> has_prefix n ''+'' \<Longrightarrow> length n < 10"
  shows "normalizePhoneIdentifierForPortalID n = n"
  using assms by (auto simp: normalizePhoneIdentifierForPortalID_def Let_def normalizePhone_form)

text \<open>Trimming, suffix stripping and the other prefixes leave a \<^verbatim>\<open>tel:\<close> identifier alone.\<close>

lemma trim_space_runes:
  assumes "runes s = x # xs" "\<not> is_space (fst x)" "\<not> is_space (fst (last (x # xs)))"
  shows "trim_space s = s"
proof -
  obtain y ys where y: "rev (x # xs) = y # ys" by (metis neq_Nil_conv rev_is_Nil_conv list.distinct(1))
  then have "y = last (x # xs)" by (metis hd_rev list.sel(1))
  with assms y have "trim_space s = concat (map snd (rev (y # ys)))"
    by (simp add: trim_space_def)
  also have "\<dots> = s" using y assms(1) runes_concat [of s] by (metis rev_rev_ident)
  finally show ?thesis .
qed

lemma dropWhile_none: "\<forall>x \<in> set xs. \<not> p x \<Longrightarrow> dropWhile p xs = xs"
  by (cases xs) auto

lemma trim_space_printable:
  assumes "\<forall>c \<in> set s. 33 \<le> byte c \<and> byte c < 127"
  shows "trim_space s = s"
proof -
  have run: "runes s = map (\<lambda>c. (byte c, [c])) s" using assms by (intro runes_ascii) auto
  have "\<forall>x \<in> set (runes s). \<not> is_space (fst x)" using assms by (auto simp: run is_space_def)
  then have "dropWhile (\<lambda>x. is_space (fst x)) (runes s) = runes s"
    and "dropWhile (\<lambda>x. is_space (fst x)) (rev (runes s)) = rev (runes s)"
    by (simp_all add: dropWhile_none)
  then show ?thesis by (simp add: trim_space_def runes_concat)
qed

lemma encode_digit_bytes:
  "c \<in> set (encode_rune r) \<Longrightarrow> is_digit r \<Longrightarrow> (48 \<le> byte c \<and> byte c \<le> 57) \<or> 128 \<le> byte c"
proof -
  assume "c \<in> set (encode_rune r)" "is_digit r"
  then have "byte c \<in> set (encode_bytes r)"
    using map_byte_encode [OF is_digit_scalar [of r]] by (metis imageI list.set_map)
  with \<open>is_digit r\<close> show ?thesis by (auto simp: encode_bytes_def split: if_splits)
qed

lemma phone_form_chars:
  assumes "phone_form s" "c \<in> set s"
  shows "c = CHR ''+'' \<or> (48 \<le> byte c \<and> byte c \<le> 57) \<or> 128 \<le> byte c"
proof -
  obtain rs r where "phone_runes rs" "r \<in> set rs" "c \<in> set (encode_rune r)"
    using assms by (auto simp: phone_form_def)
  with phone_runes_cases [of rs r] encode_digit_bytes [of c r] show ?thesis
    by (auto simp: encode_plus)
qed

lemma stripSmsSuffix_no_paren: "CHR ''('' \<notin> set s \<Longrightarrow> stripSmsSuffix s = s"
  by (simp add: stripSmsSuffix_def index_of_first_not_in)

lemma trim_space_tel:
  assumes "phone_form n" "n \<noteq> []"
  shows "trim_space (''tel:'' @ n) = ''tel:'' @ n"
proof -
  obtain rs where rs: "phone_runes rs" "n = concat (map encode_rune rs)"
    using assms(1) by (auto simp: phone_form_def)
  have "map encode_rune [116, 101, 108, 58] = [''t'', ''e'', ''l'', '':'']"
    using encode_rune_ascii [of "CHR ''t''"] encode_rune_ascii [of "CHR ''e''"]
      encode_rune_ascii [of "CHR ''l''"] encode_rune_ascii [of "CHR '':''"]
    by (simp add: byte_def)
  then have eq: "''tel:'' @ n = concat (map encode_rune (116 # 101 # 108 # 58 # rs))"
    using rs(2) by simp
  have "\<forall>r \<in> set (116 # 101 # 108 # 58 # rs). scalar r"
    using phone_runes_scalar [OF rs(1)] by (auto simp: scalar_def)
  then have run: "map fst (runes (''tel:'' @ n)) = 116 # 101 # 108 # 58 # rs"
    unfolding eq using range_runes_encode by (simp only: range_runes_def)
  then obtain x xs where x: "runes (''tel:'' @ n) = x # xs" "fst x = 116"
    and xs: "map fst (x # xs) = 116 # 101 # 108 # 58 # rs" by (cases "runes (''tel:'' @ n)") auto
  from rs assms(2) have "rs \<noteq> []" by auto
  have "fst (last (x # xs)) = last (map fst (x # xs))" by (rule last_map [symmetric]) simp
  also have "\<dots> = last rs" unfolding xs using \<open>rs \<noteq> []\<close> by simp
  finally have "fst (last (x # xs)) = 43 \<or> is_digit (fst (last (x # xs)))"
    using phone_runes_cases [OF rs(1)] \<open>rs \<noteq> []\<close> by simp
  moreover have "\<not> is_space 43" by (simp add: is_space_def)
  ultimately have "\<not> is_space (fst (last (x # xs)))"
    using digit_not_space by metis
  with x show ?thesis by (intro trim_space_runes [of _ x xs]) (auto simp: is_space_def)
qed

lemma normalizeIdentifier_tel:
  assumes "phone_form n" "n \<noteq> []"
  shows "normalizeIdentifierForPortalID (''tel:'' @ n) = ''tel:'' @ normalizePhoneIdentifierForPortalID n"
proof -
  have "CHR ''('' \<notin> set n" using phone_form_chars [OF assms(1), of "CHR ''(''"] by (auto simp: byte_def)
  then have strip: "stripSmsSuffix (''tel:'' @ n) = ''tel:'' @ n"
    by (intro stripSmsSuffix_no_paren) auto
  have "CHR ''m'' \<notin> set n" using phone_form_chars [OF assms(1), of "CHR ''m''"] by (auto simp: byte_def)
  then have "\<not> has_prefix n ''mailto:''" by (auto simp: has_prefix_iff)
  then have loc: "stripIdentifierPrefix (''tel:'' @ n) = n"
    using trim_prefix_append [of "''tel:''" n]
    by (simp add: stripIdentifierPrefix_def trim_prefix_other del: append_Cons)
  have "normalizePhoneIdentifierForPortalID n \<noteq> []"
    using assms by (auto simp: normalizePhoneIdentifierForPortalID_def Let_def normalizePhone_form)
  then show ?thesis
    using strip loc trim_space_tel [OF assms]
    by (simp add: normalizeIdentifierForPortalID_def Let_def)
qed

text \<open>The identifiers the phone branch of the normalizer takes, with at least one digit or a plus.\<close>

definition phone_like :: "string \<Rightarrow> bool" where
  "phone_like i \<longleftrightarrow> \<not> has_prefix i ''mailto:'' \<and> (contains i ''@'' \<longrightarrow> has_prefix i ''tel:'') \<and>
     (has_prefix i ''tel:'' \<or> has_prefix i ''+'' \<or> isNumeric i) \<and>
     normalizePhone (stripIdentifierPrefix i) \<noteq> []"

lemma phone_like_normalize:
  assumes "phone_like (stripSmsSuffix (trim_space x))"
  shows "normalizeIdentifierForPortalID x =
    ''tel:'' @ normalizePhoneIdentifierForPortalID (stripIdentifierPrefix (stripSmsSuffix (trim_space x)))"
proof -
  let ?i = "stripSmsSuffix (trim_space x)"
  have "trim_space x \<noteq> []"
    using assms by (auto simp: phone_like_def stripSmsSuffix_def index_of.simps normalizePhone_def
        stripIdentifierPrefix_def trim_prefix_def)
  moreover have "normalizePhoneIdentifierForPortalID (stripIdentifierPrefix ?i) \<noteq> []"
    using assms by (auto simp: phone_like_def normalizePhoneIdentifierForPortalID_def Let_def)
  ultimately show ?thesis
    using assms by (auto simp: normalizeIdentifierForPortalID_def Let_def phone_like_def)
qed

lemma normalizePhoneIdentifier_nonempty:
  "normalizePhone l \<noteq> [] \<Longrightarrow> normalizePhoneIdentifierForPortalID l \<noteq> []"
  by (auto simp: normalizePhoneIdentifierForPortalID_def Let_def)

lemma normalizeIdentifier_idem_phone:
  assumes "phone_like (stripSmsSuffix (trim_space x))"
  shows "normalizeIdentifierForPortalID (normalizeIdentifierForPortalID x) = normalizeIdentifierForPortalID x"
proof -
  define l where "l = stripIdentifierPrefix (stripSmsSuffix (trim_space x))"
  define n where "n = normalizePhoneIdentifierForPortalID l"
  have n: "normalizeIdentifierForPortalID x = ''tel:'' @ n"
    unfolding n_def l_def using phone_like_normalize [OF assms] .
  have "phone_form n" unfolding n_def by (rule normalizePhoneIdentifier_form(1))
  moreover have "n \<noteq> []" unfolding n_def
    using assms by (intro normalizePhoneIdentifier_nonempty) (auto simp: phone_like_def l_def)
  moreover have "normalizePhoneIdentifierForPortalID n = n"
    using normalizePhoneIdentifier_form [of l]
    by (intro normalizePhoneIdentifier_fixpoint) (auto simp: n_def)
  ultimately show ?thesis using normalizeIdentifier_tel [of n] by (simp add: n)
qed

section \<open>Decimal strings\<close>

lemma decode_rune_small:
  "fst (decode_rune (b # bs)) < 128 \<Longrightarrow> b < 256 \<Longrightarrow> b < 128 \<and> decode_rune (b # bs) = (b, 1)"
  by (auto simp: decode_rune_def cont_def lo2_def hi2_def split: list.splits if_splits)

lemma range_runes_small:
  "\<forall>r \<in> set (range_runes s). r < 128 \<Longrightarrow> \<forall>c \<in> set s. byte c < 128"
proof (induction s rule: runes.induct)
  case (2 c cs)
  let ?bs = "map byte (take 4 (c # cs))"
  have bs: "?bs = byte c # map byte (take 3 cs)" by (simp add: numeral_eq_Suc)
  obtain r n where rn: "decode_rune ?bs = (r, n)" by fastforce
  with "2.prems" have "fst (decode_rune ?bs) < 128" by (auto simp: range_runes_def runes.simps(2))
  moreover have "byte c < 256" by (simp add: byte_def)
  ultimately have d: "byte c < 128" "decode_rune ?bs = (byte c, 1)"
    unfolding bs using decode_rune_small by blast+
  with "2.prems" have "\<forall>r \<in> set (range_runes (drop 1 (c # cs))). r < 128"
    by (auto simp: range_runes_def runes.simps(2))
  with "2.IH" [OF d(2) [symmetric] refl] d(1) show ?case by simp
qed simp

definition decimal :: "string \<Rightarrow> bool" where
  "decimal s \<longleftrightarrow> s \<noteq> [] \<and> (\<forall>c \<in> set s. 48 \<le> byte c \<and> byte c \<le> 57)"

lemma isNumeric_iff: "isNumeric s \<longleftrightarrow> decimal s"
proof
  assume "isNumeric s"
  then have b: "\<forall>r \<in> set (range_runes s). 48 \<le> r \<and> r \<le> 57" and "s \<noteq> []"
    by (auto simp: isNumeric_def list_all_iff)
  then have "\<forall>c \<in> set s. byte c < 128" by (intro range_runes_small) auto
  with b \<open>s \<noteq> []\<close> show "decimal s" by (auto simp: range_runes_ascii decimal_def)
next
  assume d: "decimal s"
  then have "\<forall>c \<in> set s. byte c < 128" by (auto simp: decimal_def)
  with d show "isNumeric s" by (auto simp: range_runes_ascii isNumeric_def decimal_def list_all_iff)
qed

lemma decimal_digits: "decimal s \<Longrightarrow> r \<in> set (map byte s) \<Longrightarrow> is_digit r"
  by (auto simp: decimal_def)

lemma decimal_form: "decimal s \<Longrightarrow> phone_form s \<and> phone_form (''+'' @ s) \<and> \<not> has_prefix s ''+''"
proof -
  assume d: "decimal s"
  then have "\<forall>c \<in> set s. byte c < 128" by (auto simp: decimal_def)
  then have enc: "s = concat (map encode_rune (map byte s))"
    by (induction s) (auto simp: encode_rune_ascii)
  have "phone_runes (map byte s)"
    using decimal_digits [OF d] by (cases s) (auto simp: phone_runes_def)
  with enc have "phone_form s" unfolding phone_form_def by blast
  moreover have "\<not> has_prefix s ''+''"
    using d by (cases s) (auto simp: decimal_def byte_def)
  ultimately show ?thesis using phone_form_plus by blast
qed

lemma decimal_plain:
  assumes "decimal s"
  shows "trim_space s = s" "stripSmsSuffix s = s" "stripIdentifierPrefix s = s"
    "\<not> contains s ''@''" "normalizePhone s = s" "s \<noteq> []"
proof -
  have ne: "s \<noteq> []" using assms by (simp add: decimal_def)
  show "trim_space s = s" using assms by (intro trim_space_printable) (auto simp: decimal_def)
  have "CHR ''('' \<notin> set s" using assms by (auto simp: decimal_def byte_def)
  then show "stripSmsSuffix s = s" by (rule stripSmsSuffix_no_paren)
  show "stripIdentifierPrefix s = s"
    using assms by (cases s) (auto simp: stripIdentifierPrefix_def trim_prefix_def decimal_def byte_def)
  show "\<not> contains s ''@''" using assms by (auto simp: decimal_def byte_def)
  show "normalizePhone s = s" using decimal_form [OF assms] normalizePhone_form by blast
  show "s \<noteq> []" by (rule ne)
qed

lemma decimal_plus_plain:
  assumes "decimal s"
  shows "trim_space (''+'' @ s) = ''+'' @ s" "stripSmsSuffix (''+'' @ s) = ''+'' @ s"
    "stripIdentifierPrefix (''+'' @ s) = ''+'' @ s" "\<not> contains (''+'' @ s) ''@''"
proof -
  show "trim_space (''+'' @ s) = ''+'' @ s"
    using assms by (intro trim_space_printable) (auto simp: decimal_def)
  have "CHR ''('' \<notin> set (''+'' @ s)" using assms by (auto simp: decimal_def byte_def)
  then show "stripSmsSuffix (''+'' @ s) = ''+'' @ s" by (rule stripSmsSuffix_no_paren)
  show "stripIdentifierPrefix (''+'' @ s) = ''+'' @ s"
    by (simp add: stripIdentifierPrefix_def trim_prefix_def)
  show "\<not> contains (''+'' @ s) ''@''" using assms by (auto simp: decimal_def byte_def)
qed

lemma normalizeIdentifier_decimal:
  assumes "decimal s"
  shows "normalizeIdentifierForPortalID s = ''tel:'' @ normalizePhoneIdentifierForPortalID s"
    and "normalizeIdentifierForPortalID (''+'' @ s) = ''tel:+'' @ s"
    and "normalizeIdentifierForPortalID (''tel:'' @ s) = ''tel:'' @ normalizePhoneIdentifierForPortalID s"
    and "normalizeIdentifierForPortalID (''tel:+'' @ s) = ''tel:+'' @ s"
proof -
  note f = decimal_form [OF assms] and p = decimal_plain [OF assms] and q = decimal_plus_plain [OF assms]
  have plus: "normalizePhoneIdentifierForPortalID (''+'' @ s) = ''+'' @ s"
    using f by (intro normalizePhoneIdentifier_fixpoint) auto
  have "phone_like s" using p assms
    by (auto simp: phone_like_def isNumeric_iff has_prefix_iff decimal_def byte_def)
  then show "normalizeIdentifierForPortalID s = ''tel:'' @ normalizePhoneIdentifierForPortalID s"
    using phone_like_normalize [of s] p by simp
  have "phone_like (''+'' @ s)" using q normalizePhone_form [of "''+'' @ s"] f
    by (simp add: phone_like_def)
  then show "normalizeIdentifierForPortalID (''+'' @ s) = ''tel:+'' @ s"
    using phone_like_normalize [of "''+'' @ s"] q plus by simp
  show "normalizeIdentifierForPortalID (''tel:'' @ s) = ''tel:'' @ normalizePhoneIdentifierForPortalID s"
    using normalizeIdentifier_tel [of s] f p(6) by blast
  show "normalizeIdentifierForPortalID (''tel:+'' @ s) = ''tel:+'' @ s"
    using normalizeIdentifier_tel [of "''+'' @ s"] f plus by simp
qed

section \<open>Participant lists\<close>

lemma distinct_remdups_adj_sorted: "sorted (xs :: 'a :: linorder list) \<Longrightarrow> distinct (remdups_adj xs)"
proof (induction xs rule: remdups_adj.induct)
  case (3 x y xs)
  then show ?case by (cases "x = y") (auto simp: less_le)
qed auto

lemma set_buildCanonicalParticipantList:
  "set (buildCanonicalParticipantList h al ps) =
     {n \<in> normalizeIdentifierForPortalID ` set ps. n \<noteq> [] \<and> \<not> isMyHandle al n} \<union> {normalizeIdentifierForPortalID h}"
  by (auto simp: buildCanonicalParticipantList_def)

lemma buildCanonicalParticipantList_normal:
  "sorted (buildCanonicalParticipantList h al ps)" "distinct (buildCanonicalParticipantList h al ps)"
  unfolding buildCanonicalParticipantList_def
  by (auto intro: sorted_remdups_adj distinct_remdups_adj_sorted)

lemma set_normalizeRecoverableParticipants:
  "set (normalizeRecoverableParticipants ps) = {n \<in> normalizeIdentifierForPortalID ` set ps. n \<noteq> []}"
  by (auto simp: normalizeRecoverableParticipants_def)

lemma normalizeRecoverableParticipants_normal:
  "sorted (normalizeRecoverableParticipants ps)" "distinct (normalizeRecoverableParticipants ps)"
  by (auto simp: normalizeRecoverableParticipants_def)

lemma participantSetsMatch_iff:
  "participantSetsMatch a b isSelf \<longleftrightarrow>
     a \<noteq> [] \<and> b \<noteq> [] \<and>
     (set a = set b \<or> (\<exists>f. isSelf = Some f \<and> (\<forall>p \<in> (set a - set b) \<union> (set b - set a). f p)))"
  by (auto simp: participantSetsMatch_def Let_def list_all_iff filter_empty_conv split: option.splits)

section \<open>Properties\<close>

text \<open> Canonicalizing a handle that names a phone number is idempotent: for every identifier that
  the phone branch takes (a \<^verbatim>\<open>tel:\<close> prefix, a leading plus, or digits only, after trimming and
  removing an SMS suffix) and that holds a digit, the canonical identifier is its own canonical
  identifier, so routing by raw and by already-normalized handles agrees.\<close>

lemma normalize_phone_idempotent:
  assumes "phone_like (stripSmsSuffix (trim_space x))"
  shows "normalizeIdentifierForPortalID (normalizeIdentifierForPortalID x)
           = normalizeIdentifierForPortalID x"
  using assms by (rule normalizeIdentifier_idem_phone)

lemma normalize_phone_idempotent_witness:
  "normalizeIdentifierForPortalID (normalizeIdentifierForPortalID ''tel:(555) 123-4567(smsft)'')
     = normalizeIdentifierForPortalID ''tel:(555) 123-4567(smsft)''"
proof -
  have "phone_like (stripSmsSuffix (trim_space ''tel:(555) 123-4567(smsft)''))" by code_simp
  then show ?thesis by (rule normalize_phone_idempotent)
qed

lemma us_number_ten:
  assumes "isNumeric d" "length d = 10"
  shows "normalizeIdentifierForPortalID d = ''tel:+1'' @ d \<and>
      normalizeIdentifierForPortalID (''1'' @ d) = ''tel:+1'' @ d \<and>
      normalizeIdentifierForPortalID (''+1'' @ d) = ''tel:+1'' @ d \<and>
      normalizeIdentifierForPortalID (''tel:'' @ d) = ''tel:+1'' @ d \<and>
      normalizeIdentifierForPortalID (''tel:+1'' @ d) = ''tel:+1'' @ d"
proof -
  have d: "decimal d" using assms by (simp add: isNumeric_iff)
  then have d1: "decimal (''1'' @ d)" by (auto simp: decimal_def byte_def)
  note np = decimal_plain(5) [OF d] decimal_plain(5) [OF d1] and ne = decimal_plain(6) [OF d]
  note pre = decimal_form [OF d] decimal_form [OF d1]
  from assms(2) have "normalizePhoneIdentifierForPortalID d = ''+1'' @ d"
    and "normalizePhoneIdentifierForPortalID (''1'' @ d) = ''+1'' @ d"
    using np pre ne by (auto simp: normalizePhoneIdentifierForPortalID_def)
  then show ?thesis
    using normalizeIdentifier_decimal [OF d] normalizeIdentifier_decimal [OF d1] by simp
qed

lemma us_number_short:
  assumes "isNumeric d" "length d < 10"
  shows "normalizeIdentifierForPortalID d = ''tel:'' @ d \<and>
      normalizeIdentifierForPortalID (''tel:'' @ d) = ''tel:'' @ d"
proof -
  have d: "decimal d" using assms by (simp add: isNumeric_iff)
  have "normalizePhoneIdentifierForPortalID d = d"
    using assms(2) decimal_plain(5,6) [OF d] decimal_form [OF d]
    by (auto simp: normalizePhoneIdentifierForPortalID_def)
  then show ?thesis using normalizeIdentifier_decimal [OF d] by simp
qed

text \<open> Formatting variants of one North American number share one portal identity: ten decimal
  digits alone, after a leading 1, after +1, and each of these under \<^verbatim>\<open>tel:\<close>, all canonicalize to
  \<^verbatim>\<open>tel:+1\<close> and the ten digits; a decimal short code of fewer than ten digits keeps its digits and
  gets no country code.\<close>

lemma normalize_us_number_variants:
  assumes "isNumeric d"
  shows "(length d = 10 \<longrightarrow>
      (\<forall>s \<in> {d, ''1'' @ d, ''+1'' @ d, ''tel:'' @ d, ''tel:+1'' @ d}.
        normalizeIdentifierForPortalID s = ''tel:+1'' @ d)) \<and>
    (length d < 10 \<longrightarrow>
      (\<forall>s \<in> {d, ''tel:'' @ d}. normalizeIdentifierForPortalID s = ''tel:'' @ d))"
  using us_number_ten [OF assms] us_number_short [OF assms] by simp

lemma normalize_us_number_variants_witness:
  "normalizeIdentifierForPortalID (''1'' @ ''5551234567'') = ''tel:+15551234567'' \<and>
   normalizeIdentifierForPortalID ''242733'' = ''tel:242733''"
proof -
  have "isNumeric ''5551234567''" "isNumeric ''242733''"
    by (simp_all add: isNumeric_iff decimal_def byte_def)
  from this [THEN normalize_us_number_variants] show ?thesis by simp
qed

text \<open>Canonicalization is not idempotent on every input, although the comment on
  \<^verbatim>\<open>buildCanonicalParticipantList\<close> relies on it: a \<^verbatim>\<open>tel:\<close> identifier with no digits and an at sign
  is re-prefixed with \<^verbatim>\<open>mailto:\<close> without being lowercased, and an e-mail handle whose upper-case
  suffix only becomes an SMS suffix by lowercasing loses it on the second pass.\<close>

lemma normalize_not_idempotent:
  "normalizeIdentifierForPortalID ''tel:Ann@x'' = ''mailto:Ann@x'' \<and>
   normalizeIdentifierForPortalID ''mailto:Ann@x'' = ''mailto:ann@x'' \<and>
   normalizeIdentifierForPortalID ''ann@x(SMSFT)'' = ''mailto:ann@x(smsft)'' \<and>
   normalizeIdentifierForPortalID ''mailto:ann@x(smsft)'' = ''mailto:ann@x''"
  by code_simp

text \<open> The participant part of a comma-keyed group portal is canonical: the list is strictly
  sorted, holds the client's own canonical handle and exactly the canonical non-self participants,
  and so depends only on the set of canonical participants, not on their order, spelling or
  repetition.\<close>

lemma canonical_participant_list:
  assumes "normalizeIdentifierForPortalID ` set ps = normalizeIdentifierForPortalID ` set qs"
  shows "buildCanonicalParticipantList h al ps = buildCanonicalParticipantList h al qs \<and>
    sorted (buildCanonicalParticipantList h al ps) \<and> distinct (buildCanonicalParticipantList h al ps) \<and>
    set (buildCanonicalParticipantList h al ps) =
      insert (normalizeIdentifierForPortalID h)
        {n \<in> normalizeIdentifierForPortalID ` set ps. n \<noteq> [] \<and> \<not> isMyHandle al n}"
proof (intro conjI)
  show "buildCanonicalParticipantList h al ps = buildCanonicalParticipantList h al qs"
    using buildCanonicalParticipantList_normal assms
    by (intro sorted_distinct_set_unique) (simp_all add: set_buildCanonicalParticipantList)
qed (use buildCanonicalParticipantList_normal in \<open>simp_all add: set_buildCanonicalParticipantList\<close>)

lemma canonical_participant_list_witness:
  "buildCanonicalParticipantList ''me@x'' [''me@x''] [''+15551234567'', ''Bob@x'', ''bob@x'']
     = buildCanonicalParticipantList ''me@x'' [''me@x''] [''BOB@x'', ''5551234567'']"
proof -
  have "normalizeIdentifierForPortalID ` set [''+15551234567'', ''Bob@x'', ''bob@x'']
      = normalizeIdentifierForPortalID ` set [''BOB@x'', ''5551234567'']"
    by code_simp
  from canonical_participant_list [OF this] show ?thesis by blast
qed

text \<open> Roster comparison: two non-empty participant lists match exactly when they hold the same
  members or differ only in members the self predicate accepts; the relation is symmetric, and with
  no self predicate it is equality of sets. Several differing self handles match too, more than the
  one the comment on the function allows.\<close>

lemma participant_sets_match_spec:
  "participantSetsMatch a b isSelf = participantSetsMatch b a isSelf \<and>
   (participantSetsMatch a b None \<longleftrightarrow> a \<noteq> [] \<and> b \<noteq> [] \<and> set a = set b) \<and>
   (participantSetsMatch a b (Some f) \<longleftrightarrow>
     a \<noteq> [] \<and> b \<noteq> [] \<and> {p \<in> set a. \<not> f p} - set b = {} \<and> {p \<in> set b. \<not> f p} - set a = {}) \<and>
   participantSetsMatch [''a'', ''b'', ''me1'', ''me2''] [''a'', ''b''] (Some (\<lambda>p. p \<in> {''me1'', ''me2''}))"
  by (auto simp: participantSetsMatch_iff)

end
