(* ===== verification/Cloud_Schema.thy ===== *)
theory Cloud_Schema
  imports Identifiers
begin

text \<open>
  The tables of the CloudKit cache (\<^verbatim>\<open>cloud_backfill_store.go\<close>, \<^verbatim>\<open>ensureSchema\<close>): one record per table
  with the columns of the schema after its migrations, nullable columns as options; the database is
  the record of all tables, holding the rows of every login. The primary keys of the schema are the
  key functions here, and the locales of \<^verbatim>\<open>Tables\<close> are interpreted on them.

  A store operation takes the store (the login it works for and its filter setting), the values it
  reads from the clock, its arguments and the database. Errors of the database driver are not
  modelled: a statement always succeeds. Rows a query does not order come in insertion order.
\<close>

record cloudBackfillStore =
  loginID :: login_id
  bridgeFiltered :: bool

record cloudAttachmentRow =
  att_GUID :: string
  att_MimeType :: string
  att_UTIType :: string
  att_Filename :: string
  att_FileSize :: int
  att_RecordName :: string
  att_HideAttachment :: bool
  att_HasAvid :: bool

record cloud_sync_state_row =
  z_login_id :: login_id
  z_zone :: string
  z_continuation_token :: "string option"
  z_last_success_ts :: "millis option"
  z_last_error :: "string option"
  z_updated_ts :: millis

record cloud_chat_row =
  c_login_id :: login_id
  c_cloud_chat_id :: string
  c_record_name :: string
  c_group_id :: string
  c_portal_id :: portal_id
  c_service :: "string option"
  c_display_name :: "string option"
  c_group_photo_guid :: "string option"
  c_participants_json :: "string list json_text option"
  c_updated_ts :: "millis option"
  c_created_ts :: millis
  c_deleted :: bool
  c_is_filtered :: int
  c_fwd_backfill_done :: bool

record cloud_message_row =
  m_login_id :: login_id
  m_guid :: guid
  m_chat_id :: "string option"
  m_portal_id :: "portal_id option"
  m_timestamp_ms :: millis
  m_sender :: "string option"
  m_is_from_me :: bool
  m_text :: "string option"
  m_subject :: "string option"
  m_service :: "string option"
  m_deleted :: bool
  m_tapback_type :: "int option"
  m_tapback_target_guid :: "string option"
  m_tapback_emoji :: "string option"
  m_attachments_json :: "cloudAttachmentRow list json_text option"
  m_created_ts :: millis
  m_updated_ts :: millis
  m_date_read_ms :: millis
  m_record_name :: string
  m_has_body :: bool
  m_body_scrubbed :: bool
  m_reply_to_guid :: "string option"
  m_reply_to_part :: "string option"
  m_message_deleted :: bool

record group_photo_cache_row =
  g_login_id :: login_id
  g_portal_id :: portal_id
  g_ts :: millis
  g_data :: string

record restore_override_row =
  o_login_id :: login_id
  o_portal_id :: portal_id
  o_updated_ts :: millis

record cloud_maintenance_row =
  t_login_id :: login_id
  t_task :: string
  t_completed_ts :: millis

record cloud_attachment_cache_row =
  a_login_id :: login_id
  a_record_name :: string
  a_content_json :: string
  a_created_ts :: millis

record cloud_attachment_dead_row =
  d_login_id :: login_id
  d_record_name :: string
  d_reason :: string
  d_failed_at :: millis

record cloud_backfill_reconciled_row =
  b_login_id :: login_id
  b_portal_id :: portal_id
  b_reconciled_ts :: millis

record cloud_db =
  cloud_sync_state :: "cloud_sync_state_row list"
  cloud_chat :: "cloud_chat_row list"
  cloud_message :: "cloud_message_row list"
  group_photo_cache :: "group_photo_cache_row list"
  restore_override :: "restore_override_row list"
  cloud_maintenance :: "cloud_maintenance_row list"
  cloud_attachment_cache :: "cloud_attachment_cache_row list"
  cloud_attachment_dead :: "cloud_attachment_dead_row list"
  cloud_backfill_reconciled :: "cloud_backfill_reconciled_row list"

definition newCloudBackfillStore :: "login_id \<Rightarrow> bool list \<Rightarrow> cloudBackfillStore" where
  "newCloudBackfillStore login filtered =
     \<lparr>loginID = login, bridgeFiltered = (filtered \<noteq> [] \<and> hd filtered)\<rparr>"

section \<open>Primary keys\<close>

definition sync_key :: "cloud_sync_state_row \<Rightarrow> login_id \<times> string" where
  "sync_key r = (z_login_id r, z_zone r)"

definition chat_key :: "cloud_chat_row \<Rightarrow> login_id \<times> string" where
  "chat_key r = (c_login_id r, c_cloud_chat_id r)"

definition message_key :: "cloud_message_row \<Rightarrow> login_id \<times> guid" where
  "message_key r = (m_login_id r, m_guid r)"

definition photo_key :: "group_photo_cache_row \<Rightarrow> login_id \<times> portal_id" where
  "photo_key r = (g_login_id r, g_portal_id r)"

definition override_key :: "restore_override_row \<Rightarrow> login_id \<times> portal_id" where
  "override_key r = (o_login_id r, o_portal_id r)"

definition maintenance_key :: "cloud_maintenance_row \<Rightarrow> login_id \<times> string" where
  "maintenance_key r = (t_login_id r, t_task r)"

definition attachment_cache_key :: "cloud_attachment_cache_row \<Rightarrow> login_id \<times> string" where
  "attachment_cache_key r = (a_login_id r, a_record_name r)"

definition attachment_dead_key :: "cloud_attachment_dead_row \<Rightarrow> login_id \<times> string" where
  "attachment_dead_key r = (d_login_id r, d_record_name r)"

definition reconciled_key :: "cloud_backfill_reconciled_row \<Rightarrow> login_id \<times> portal_id" where
  "reconciled_key r = (b_login_id r, b_portal_id r)"

lemmas key_defs = sync_key_def chat_key_def message_key_def photo_key_def override_key_def
  maintenance_key_def attachment_cache_key_def attachment_dead_key_def reconciled_key_def

definition pk_ok :: "cloud_db \<Rightarrow> bool" where
  "pk_ok db \<longleftrightarrow> unique_key sync_key (cloud_sync_state db) \<and> unique_key chat_key (cloud_chat db) \<and>
     unique_key message_key (cloud_message db) \<and> unique_key photo_key (group_photo_cache db) \<and>
     unique_key override_key (restore_override db) \<and>
     unique_key maintenance_key (cloud_maintenance db) \<and>
     unique_key attachment_cache_key (cloud_attachment_cache db) \<and>
     unique_key attachment_dead_key (cloud_attachment_dead db) \<and>
     unique_key reconciled_key (cloud_backfill_reconciled db)"

text \<open>The database \<^verbatim>\<open>ensureSchema\<close> creates.\<close>

definition empty_db :: cloud_db where
  "empty_db = \<lparr>cloud_sync_state = [], cloud_chat = [], cloud_message = [], group_photo_cache = [],
     restore_override = [], cloud_maintenance = [], cloud_attachment_cache = [],
     cloud_attachment_dead = [], cloud_backfill_reconciled = []\<rparr>"

lemma pk_ok_empty [simp]: "pk_ok empty_db"
  by (simp add: pk_ok_def empty_db_def unique_key_def)

text \<open>What the database holds for one login.\<close>

definition login_view :: "login_id \<Rightarrow> cloud_db \<Rightarrow> cloud_db" where
  "login_view l db = \<lparr>
     cloud_sync_state = owned_by z_login_id l (cloud_sync_state db),
     cloud_chat = owned_by c_login_id l (cloud_chat db),
     cloud_message = owned_by m_login_id l (cloud_message db),
     group_photo_cache = owned_by g_login_id l (group_photo_cache db),
     restore_override = owned_by o_login_id l (restore_override db),
     cloud_maintenance = owned_by t_login_id l (cloud_maintenance db),
     cloud_attachment_cache = owned_by a_login_id l (cloud_attachment_cache db),
     cloud_attachment_dead = owned_by d_login_id l (cloud_attachment_dead db),
     cloud_backfill_reconciled = owned_by b_login_id l (cloud_backfill_reconciled db)\<rparr>"

interpretation sync_tbl: table sync_key .
interpretation chat_tbl: table chat_key .
interpretation message_tbl: table message_key .
interpretation photo_tbl: table photo_key .
interpretation override_tbl: table override_key .
interpretation maintenance_tbl: table maintenance_key .
interpretation attachment_cache_tbl: table attachment_cache_key .
interpretation attachment_dead_tbl: table attachment_dead_key .
interpretation reconciled_tbl: table reconciled_key .

section \<open>The shape every statement has\<close>

text \<open>
  A statement of a store touches rows of its own login only and keeps the keys. \<open>stmt\<close> says this of
  one table: rows of other logins stay as they are and in place, and the primary key stays unique.
  The composition rules below carry it to whole operations.
\<close>

definition stmt :: "('r \<Rightarrow> login_id) \<Rightarrow> ('r \<Rightarrow> 'k) \<Rightarrow> login_id \<Rightarrow> 'r list \<Rightarrow> 'r list \<Rightarrow> bool" where
  "stmt own key l rs rs' \<longleftrightarrow>
     (\<forall>l'. l' \<noteq> l \<longrightarrow> owned_by own l' rs' = owned_by own l' rs) \<and>
     (unique_key key rs \<longrightarrow> unique_key key rs')"

named_theorems stmt_intros \<open>statements that touch rows of their own login only\<close>

lemma stmt_refl [stmt_intros]: "stmt own key l rs rs"
  by (simp add: stmt_def)

lemma stmt_trans: "stmt own key l rs rs' \<Longrightarrow> stmt own key l rs' rs'' \<Longrightarrow> stmt own key l rs rs''"
  by (simp add: stmt_def)

lemma stmt_update_where [stmt_intros]:
  assumes "\<And>r. p r \<Longrightarrow> own r = l" "\<And>r. own (f r) = own r" "\<And>r. key (f r) = key r"
  shows "stmt own key l rs (update_where p f rs)"
  unfolding stmt_def using assms
  by (intro conjI allI impI owned_by_update_where table.pk_update_where) auto

lemma stmt_delete_where [stmt_intros]:
  assumes "\<And>r. p r \<Longrightarrow> own r = l"
  shows "stmt own key l rs (delete_where p rs)"
  unfolding stmt_def using assms
  by (intro conjI allI impI owned_by_delete_where table.pk_delete_where) auto

lemma stmt_upsert [stmt_intros]:
  assumes "own new = l" "\<And>r s. key r = key s \<Longrightarrow> own r = own s"
    "\<And>old new. key (mrg old new) = key old"
  shows "stmt own key l rs (upsert key mrg new rs)"
proof -
  have "table_upsert key mrg" using assms(3) by unfold_locales
  from table_upsert.pk_upsert [OF this] have "unique_key key rs \<Longrightarrow> unique_key key (upsert key mrg new rs)" .
  moreover have "owned_by own l' (upsert key mrg new rs) = owned_by own l' rs" if "l' \<noteq> l" for l'
  proof (rule owned_by_upsert)
    show "own new \<noteq> l'" using assms(1) that by simp
  qed (fact assms(2), fact assms(3))
  ultimately show ?thesis by (simp add: stmt_def)
qed

lemma stmt_fold [stmt_intros]:
  assumes "\<And>x rs. stmt own key l rs (f x rs)"
  shows "stmt own key l rs (fold f xs rs)"
proof (induction xs arbitrary: rs)
  case (Cons x xs)
  show ?case using stmt_trans [OF assms Cons.IH] by simp
qed (simp add: stmt_refl)

definition db_stmt :: "login_id \<Rightarrow> cloud_db \<Rightarrow> cloud_db \<Rightarrow> bool" where
  "db_stmt l db db' \<longleftrightarrow>
     stmt z_login_id sync_key l (cloud_sync_state db) (cloud_sync_state db') \<and>
     stmt c_login_id chat_key l (cloud_chat db) (cloud_chat db') \<and>
     stmt m_login_id message_key l (cloud_message db) (cloud_message db') \<and>
     stmt g_login_id photo_key l (group_photo_cache db) (group_photo_cache db') \<and>
     stmt o_login_id override_key l (restore_override db) (restore_override db') \<and>
     stmt t_login_id maintenance_key l (cloud_maintenance db) (cloud_maintenance db') \<and>
     stmt a_login_id attachment_cache_key l (cloud_attachment_cache db) (cloud_attachment_cache db') \<and>
     stmt d_login_id attachment_dead_key l (cloud_attachment_dead db) (cloud_attachment_dead db') \<and>
     stmt b_login_id reconciled_key l (cloud_backfill_reconciled db) (cloud_backfill_reconciled db')"

named_theorems store_ops \<open>every store operation is a statement of its login\<close>

lemma db_stmt_refl [simp, store_ops]: "db_stmt l db db"
  by (simp add: db_stmt_def stmt_refl)

lemma db_stmt_trans: "db_stmt l db db' \<Longrightarrow> db_stmt l db' db'' \<Longrightarrow> db_stmt l db db''"
  unfolding db_stmt_def by (elim conjE, intro conjI) (erule (1) stmt_trans)+

lemma db_stmt_pk: "db_stmt l db db' \<Longrightarrow> pk_ok db \<Longrightarrow> pk_ok db'"
  by (simp add: db_stmt_def stmt_def pk_ok_def)

lemma db_stmt_other: "db_stmt l db db' \<Longrightarrow> l' \<noteq> l \<Longrightarrow> login_view l' db' = login_view l' db"
  by (simp add: db_stmt_def stmt_def login_view_def)

end
