(* ===== verification/Cloud_Messages.thy ===== *)
theory Cloud_Messages
  imports Cloud_Schema
begin

text \<open>
  Messages of the CloudKit cache (\<^verbatim>\<open>cloud_backfill_store.go\<close>): the batch import of a CloudKit page, soft
  deletes and their delete-first stubs, the rows persisted for live APNs messages, and the lookups
  by message GUID that echo detection, receipts and deletes rely on.
\<close>

record cloudMessageRow =
  row_GUID :: guid
  row_RecordName :: string
  row_CloudChatID :: string
  row_PortalID :: portal_id
  row_TimestampMS :: millis
  row_Sender :: string
  row_IsFromMe :: bool
  row_Text :: string
  row_Subject :: string
  row_Service :: string
  row_Deleted :: bool
  row_TapbackType :: "int option"
  row_TapbackTargetGUID :: string
  row_TapbackEmoji :: string
  row_AttachmentsJSON :: "cloudAttachmentRow list json_text"
  row_DateReadMS :: millis
  row_HasBody :: bool
  row_ReplyToGUID :: string
  row_ReplyToPart :: string
  row_BodyScrubbed :: bool
  row_WriteActivityTS :: millis

section \<open>Import of a CloudKit page\<close>

text \<open>The newest row per GUID, with the GUIDs in order of first appearance.\<close>

fun dedupe_step ::
  "cloudMessageRow \<Rightarrow> (guid \<rightharpoonup> cloudMessageRow) \<times> guid list \<Rightarrow> (guid \<rightharpoonup> cloudMessageRow) \<times> guid list" where
  "dedupe_step row (rowsByGUID, order) =
     (if row_GUID row = [] then (rowsByGUID, order)
      else case rowsByGUID (row_GUID row) of
        None \<Rightarrow> (rowsByGUID(row_GUID row \<mapsto> row), order @ [row_GUID row])
      | Some prev \<Rightarrow>
          if row_TimestampMS row \<ge> row_TimestampMS prev
          then (rowsByGUID(row_GUID row \<mapsto> row), order)
          else (rowsByGUID, order))"

definition dedupe_rows :: "cloudMessageRow list \<Rightarrow> cloudMessageRow list" where
  "dedupe_rows rows =
     (let (rowsByGUID, order) = fold dedupe_step rows (Map.empty, [])
      in map (\<lambda>g. the (rowsByGUID g)) order)"

definition message_of_row :: "cloudBackfillStore \<Rightarrow> millis \<Rightarrow> cloudMessageRow \<Rightarrow> cloud_message_row" where
  "message_of_row s nowMS row =
     \<lparr>m_login_id = loginID s, m_guid = row_GUID row, m_chat_id = Some (row_CloudChatID row),
      m_portal_id = Some (row_PortalID row), m_timestamp_ms = row_TimestampMS row,
      m_sender = Some (row_Sender row), m_is_from_me = row_IsFromMe row,
      m_text = Some (row_Text row), m_subject = Some (row_Subject row),
      m_service = Some (row_Service row), m_deleted = row_Deleted row,
      m_tapback_type = row_TapbackType row,
      m_tapback_target_guid = Some (row_TapbackTargetGUID row),
      m_tapback_emoji = Some (row_TapbackEmoji row),
      m_attachments_json = Some (row_AttachmentsJSON row),
      m_created_ts = nowMS, m_updated_ts = nowMS, m_date_read_ms = row_DateReadMS row,
      m_record_name = row_RecordName row, m_has_body = row_HasBody row, m_body_scrubbed = False,
      m_reply_to_guid = Some (row_ReplyToGUID row), m_reply_to_part = Some (row_ReplyToPart row),
      m_message_deleted = False\<rparr>"

text \<open>The ON CONFLICT clause: \<open>old\<close> is the stored row, \<open>new\<close> the excluded one.\<close>

definition upsert_message_merge :: "cloud_message_row \<Rightarrow> cloud_message_row \<Rightarrow> cloud_message_row" where
  "upsert_message_merge old new = old\<lparr>
     m_record_name := m_record_name new,
     m_chat_id := m_chat_id new,
     m_portal_id := m_portal_id new,
     m_timestamp_ms := m_timestamp_ms new,
     m_sender := (if m_body_scrubbed old then m_sender old else m_sender new),
     m_is_from_me := m_is_from_me new,
     m_text := (if m_body_scrubbed old then m_text old else m_text new),
     m_subject := (if m_body_scrubbed old then m_subject old else m_subject new),
     m_service := m_service new,
     m_deleted := (if m_deleted old then m_deleted old else m_deleted new),
     m_tapback_type := m_tapback_type new,
     m_tapback_target_guid := m_tapback_target_guid new,
     m_tapback_emoji := (if m_body_scrubbed old then m_tapback_emoji old else m_tapback_emoji new),
     m_attachments_json := m_attachments_json new,
     m_date_read_ms := (if m_date_read_ms new > m_date_read_ms old then m_date_read_ms new else m_date_read_ms old),
     m_has_body := m_has_body new,
     m_reply_to_guid := (if text_present (m_reply_to_guid new) then m_reply_to_guid new else m_reply_to_guid old),
     m_reply_to_part := (if text_present (m_reply_to_guid new) then m_reply_to_part new else m_reply_to_part old),
     m_updated_ts := m_updated_ts new\<rparr>"

definition upsertMessageBatch :: "cloudBackfillStore \<Rightarrow> millis \<Rightarrow> cloudMessageRow list \<Rightarrow> cloud_db \<Rightarrow> cloud_db" where
  "upsertMessageBatch s nowMS rows db =
     (if rows = [] then db
      else db\<lparr>cloud_message :=
        fold (\<lambda>row. upsert message_key upsert_message_merge (message_of_row s nowMS row))
          (dedupe_rows rows) (cloud_message db)\<rparr>)"

section \<open>Deletes\<close>

definition scrub_body :: "cloud_message_row \<Rightarrow> cloud_message_row" where
  "scrub_body r = r\<lparr>m_text := None, m_subject := None, m_sender := Some [], m_tapback_emoji := None,
     m_body_scrubbed := True\<rparr>"

definition deleteMessageBatch :: "cloudBackfillStore \<Rightarrow> millis \<Rightarrow> guid list \<Rightarrow> cloud_db \<Rightarrow> cloud_db" where
  "deleteMessageBatch s nowMS guids db = db\<lparr>cloud_message :=
     fold (\<lambda>chunk. update_where (\<lambda>r. (m_login_id r = loginID s \<and> \<not> m_deleted r) \<and> m_guid r \<in> set chunk)
         (\<lambda>r. (scrub_body r)\<lparr>m_deleted := True, m_updated_ts := nowMS\<rparr>))
       (chunks 500 guids) (cloud_message db)\<rparr>"

definition deleteMessagesByChatIDs :: "cloudBackfillStore \<Rightarrow> string list \<Rightarrow> cloud_db \<Rightarrow> cloud_db" where
  "deleteMessagesByChatIDs s chatIDs db = db\<lparr>cloud_message :=
     fold (\<lambda>chunk. delete_where (\<lambda>r. m_login_id r = loginID s \<and> m_chat_id r \<in> set (map Some chunk)))
       (chunks 500 chatIDs) (cloud_message db)\<rparr>"

definition hasMessageBatch :: "cloudBackfillStore \<Rightarrow> guid list \<Rightarrow> cloud_db \<Rightarrow> guid set" where
  "hasMessageBatch s guids db =
     fold (\<lambda>chunk existing. existing \<union>
         set (map m_guid (filter (\<lambda>r. m_login_id r = loginID s \<and> m_guid r \<in> set chunk) (cloud_message db))))
       (chunks 500 guids) {}"

definition guid_match :: "cloudBackfillStore \<Rightarrow> guid \<Rightarrow> cloud_message_row \<Rightarrow> bool" where
  "guid_match s guid r \<longleftrightarrow> m_login_id r = loginID s \<and> ci_eq (m_guid r) guid"

definition soft_delete_row_update :: "portal_id \<Rightarrow> bool \<Rightarrow> cloud_message_row \<Rightarrow> cloud_message_row" where
  "soft_delete_row_update portalID messageDeleted r = (scrub_body r)\<lparr>
     m_deleted := True,
     m_message_deleted := m_message_deleted r \<or> messageDeleted,
     m_portal_id := coalesce (case m_portal_id r of None \<Rightarrow> None | Some p \<Rightarrow> nullif_empty p)
       (nullif_empty portalID)\<rparr>"

text \<open>A row of \<^verbatim>\<open>cloud_message\<close> with the columns an INSERT leaves out at their defaults.\<close>

definition default_message :: "login_id \<Rightarrow> guid \<Rightarrow> portal_id option \<Rightarrow> millis \<Rightarrow> bool \<Rightarrow> millis \<Rightarrow> cloud_message_row" where
  "default_message l guid portal ts fromMe nowMS =
     \<lparr>m_login_id = l, m_guid = guid, m_chat_id = None, m_portal_id = portal, m_timestamp_ms = ts,
      m_sender = None, m_is_from_me = fromMe, m_text = None, m_subject = None, m_service = None,
      m_deleted = False, m_tapback_type = None, m_tapback_target_guid = None, m_tapback_emoji = None,
      m_attachments_json = None, m_created_ts = nowMS, m_updated_ts = nowMS, m_date_read_ms = 0,
      m_record_name = [], m_has_body = True, m_body_scrubbed = False, m_reply_to_guid = None,
      m_reply_to_part = None, m_message_deleted = False\<rparr>"

definition deleted_stub :: "cloudBackfillStore \<Rightarrow> millis \<Rightarrow> guid \<Rightarrow> portal_id \<Rightarrow> bool \<Rightarrow> cloud_message_row" where
  "deleted_stub s nowMS guid portalID messageDeleted =
     (default_message (loginID s) guid (nullif_empty portalID) nowMS False nowMS)
       \<lparr>m_deleted := True, m_message_deleted := messageDeleted, m_body_scrubbed := True\<rparr>"

definition softDeleteRow ::
  "cloudBackfillStore \<Rightarrow> millis \<Rightarrow> guid \<Rightarrow> portal_id \<Rightarrow> bool \<Rightarrow> cloud_db \<Rightarrow> cloud_db" where
  "softDeleteRow s nowMS guid portalID messageDeleted db =
     (let n = rows_matching (guid_match s guid) (cloud_message db);
          msgs = update_where (guid_match s guid) (soft_delete_row_update portalID messageDeleted) (cloud_message db)
      in if n > 0 then db\<lparr>cloud_message := msgs\<rparr>
         else db\<lparr>cloud_message :=
           upsert message_key do_nothing (deleted_stub s nowMS guid portalID messageDeleted) msgs\<rparr>)"

definition softDeleteMessageByGUID :: "cloudBackfillStore \<Rightarrow> millis \<Rightarrow> guid \<Rightarrow> portal_id \<Rightarrow> cloud_db \<Rightarrow> cloud_db" where
  "softDeleteMessageByGUID s nowMS guid portalID db = softDeleteRow s nowMS guid portalID True db"

definition markContinuationChunk :: "cloudBackfillStore \<Rightarrow> millis \<Rightarrow> guid \<Rightarrow> portal_id \<Rightarrow> cloud_db \<Rightarrow> cloud_db" where
  "markContinuationChunk s nowMS guid portalID db = softDeleteRow s nowMS guid portalID False db"

section \<open>Live messages\<close>

definition persist_message_merge :: "cloud_message_row \<Rightarrow> cloud_message_row \<Rightarrow> cloud_message_row" where
  "persist_message_merge old new =
     (if \<not> text_present (m_portal_id old) then old\<lparr>m_portal_id := m_portal_id new\<rparr> else old)"

definition persistMessageUUID ::
  "cloudBackfillStore \<Rightarrow> millis \<Rightarrow> guid \<Rightarrow> portal_id \<Rightarrow> millis \<Rightarrow> bool \<Rightarrow> cloud_db \<Rightarrow> cloud_db" where
  "persistMessageUUID s nowMS uuid portalID timestampMS isFromMe db = db\<lparr>cloud_message :=
     upsert message_key persist_message_merge
       (default_message (loginID s) uuid (Some portalID) timestampMS isFromMe nowMS) (cloud_message db)\<rparr>"

definition persistTapbackUUID ::
  "cloudBackfillStore \<Rightarrow> millis \<Rightarrow> guid \<Rightarrow> portal_id \<Rightarrow> millis \<Rightarrow> bool \<Rightarrow> int \<Rightarrow> cloud_db \<Rightarrow> cloud_db" where
  "persistTapbackUUID s nowMS uuid portalID timestampMS isFromMe tapbackType db = db\<lparr>cloud_message :=
     upsert message_key do_nothing
       ((default_message (loginID s) uuid (Some portalID) timestampMS isFromMe nowMS)
          \<lparr>m_tapback_type := Some tapbackType\<rparr>) (cloud_message db)\<rparr>"

section \<open>Lookups by GUID\<close>

definition hasMessageUUID :: "cloudBackfillStore \<Rightarrow> guid \<Rightarrow> cloud_db \<Rightarrow> bool" where
  "hasMessageUUID s uuid db \<longleftrightarrow> 0 < rows_matching (guid_match s uuid) (cloud_message db)"

definition isMessageDeletedInPortal :: "cloudBackfillStore \<Rightarrow> guid \<Rightarrow> portal_id \<Rightarrow> cloud_db \<Rightarrow> bool" where
  "isMessageDeletedInPortal s guid portalID db \<longleftrightarrow>
     0 < rows_matching (\<lambda>r. guid_match s guid r \<and> col_eq (m_portal_id r) portalID \<and> m_deleted r) (cloud_message db)"

datatype route_error = AmbiguousRoute

definition getMessagePortalID :: "cloudBackfillStore \<Rightarrow> guid \<Rightarrow> cloud_db \<Rightarrow> route_error + portal_id" where
  "getMessagePortalID s guid db =
     (let ps = remdups (non_null (map m_portal_id
            (filter (\<lambda>r. guid_match s guid r \<and> text_present (m_portal_id r)) (cloud_message db))))
      in if length ps > 1 then Inl AmbiguousRoute
         else Inr (case ps of [] \<Rightarrow> [] | p # _ \<Rightarrow> p))"

definition getRecordNameByGUID :: "cloudBackfillStore \<Rightarrow> guid \<Rightarrow> cloud_db \<Rightarrow> string" where
  "getRecordNameByGUID s guid db =
     (case find (\<lambda>r. m_login_id r = loginID s \<and> m_guid r = guid \<and> m_record_name r \<noteq> []) (cloud_message db) of
        None \<Rightarrow> [] | Some r \<Rightarrow> m_record_name r)"

definition getMessageTextByGUID :: "cloudBackfillStore \<Rightarrow> guid \<Rightarrow> cloud_db \<Rightarrow> string" where
  "getMessageTextByGUID s uuid db =
     (case find (\<lambda>r. guid_match s uuid r \<and> m_tapback_type r = None) (cloud_message db) of
        None \<Rightarrow> []
      | Some r \<Rightarrow> (case m_text r of None \<Rightarrow> [] | Some t \<Rightarrow> t))"

definition getMessageTimestampByGUID :: "cloudBackfillStore \<Rightarrow> guid \<Rightarrow> cloud_db \<Rightarrow> millis \<times> bool" where
  "getMessageTimestampByGUID s uuid db =
     (case find (guid_match s uuid) (cloud_message db) of
        None \<Rightarrow> (0, False) | Some r \<Rightarrow> (m_timestamp_ms r, True))"

definition portalHasPreStartupOutgoingMessages :: "cloudBackfillStore \<Rightarrow> portal_id \<Rightarrow> millis \<Rightarrow> cloud_db \<Rightarrow> bool" where
  "portalHasPreStartupOutgoingMessages s portalID beforeMS db \<longleftrightarrow>
     0 < rows_matching (\<lambda>r. m_login_id r = loginID s \<and> col_eq (m_portal_id r) portalID \<and> m_is_from_me r
       \<and> m_timestamp_ms r < beforeMS) (cloud_message db)"

definition hasCloudReadReceipt :: "cloudBackfillStore \<Rightarrow> guid \<Rightarrow> cloud_db \<Rightarrow> bool" where
  "hasCloudReadReceipt s uuid db =
     (case find (\<lambda>r. guid_match s uuid r \<and> m_is_from_me r) (cloud_message db) of
        None \<Rightarrow> False | Some r \<Rightarrow> m_date_read_ms r > 978307200000)"

definition isCloudBackfilledMessage :: "cloudBackfillStore \<Rightarrow> guid \<Rightarrow> cloud_db \<Rightarrow> bool" where
  "isCloudBackfilledMessage s uuid db \<longleftrightarrow>
     (\<exists>r \<in> set (cloud_message db). guid_match s uuid r \<and> m_record_name r \<noteq> [])"

definition getAttachmentRecordName ::
  "cloudBackfillStore \<Rightarrow> guid \<Rightarrow> int \<Rightarrow> cloud_db \<Rightarrow> store_error + string" where
  "getAttachmentRecordName s msgGUID attIndex db =
     (case lookup message_key (loginID s, msgGUID) (cloud_message db) of
        None \<Rightarrow> Inr []
      | Some r \<Rightarrow>
          if \<not> json_present (m_attachments_json r) then Inr []
          else (case json_unmarshal (the (m_attachments_json r)) of
              Inl e \<Rightarrow> Inl e
            | Inr atts \<Rightarrow>
                if attIndex < 0 \<or> attIndex \<ge> int (length atts) then Inr []
                else Inr (att_RecordName (atts ! nat attIndex))))"

section \<open>Lemmas on the import\<close>

interpretation message_upsert: table_upsert message_key upsert_message_merge
  by unfold_locales (simp add: message_key_def upsert_message_merge_def)

interpretation message_persist: table_upsert message_key persist_message_merge
  by unfold_locales (simp add: message_key_def persist_message_merge_def)

interpretation message_stub: table_upsert message_key do_nothing
  by unfold_locales (simp add: do_nothing_def)

text \<open>Reference definition of the row a batch keeps for a GUID: the last one among the newest.\<close>

definition newest_row :: "guid \<Rightarrow> cloudMessageRow list \<Rightarrow> cloudMessageRow option" where
  "newest_row g rows = fold (\<lambda>row acc. if row_GUID row \<noteq> g then acc
       else (case acc of None \<Rightarrow> Some row
         | Some p \<Rightarrow> if row_TimestampMS row \<ge> row_TimestampMS p then Some row else acc)) rows None"

lemma newest_row_snoc:
  "newest_row g (rows @ [row]) = (if row_GUID row \<noteq> g then newest_row g rows
     else (case newest_row g rows of None \<Rightarrow> Some row
       | Some p \<Rightarrow> if row_TimestampMS row \<ge> row_TimestampMS p then Some row else Some p))"
  by (simp add: newest_row_def split: option.splits)

lemma newest_row_None: "newest_row g rows = None \<longleftrightarrow> g \<notin> row_GUID ` set rows"
  by (induction rows rule: rev_induct) (auto simp: newest_row_snoc newest_row_def split: option.splits)

lemma newest_row_Some:
  "newest_row g rows = Some r \<Longrightarrow> r \<in> set rows \<and> row_GUID r = g \<and>
     (\<forall>q \<in> set rows. row_GUID q = g \<longrightarrow> row_TimestampMS q \<le> row_TimestampMS r)"
proof (induction rows arbitrary: r rule: rev_induct)
  case (snoc row rows)
  show ?case
  proof (cases "row_GUID row = g")
    case True
    show ?thesis
    proof (cases "newest_row g rows")
      case None
      with True snoc.prems have "r = row" by (simp add: newest_row_snoc)
      moreover from None have "\<forall>q \<in> set rows. row_GUID q \<noteq> g" by (auto simp: newest_row_None)
      ultimately show ?thesis using True by auto
    next
      case (Some p)
      from snoc.IH [OF this] True snoc.prems Some show ?thesis
        by (auto simp: newest_row_snoc split: if_splits intro: order_trans)
    qed
  next
    case False
    with snoc show ?thesis by (auto simp: newest_row_snoc)
  qed
qed (simp add: newest_row_def)

lemma fold_dedupe_step:
  "fold dedupe_step rows (Map.empty, []) =
     (\<lambda>g. if g = [] then None else newest_row g rows, dedup (filter (\<lambda>g. g \<noteq> []) (map row_GUID rows)))"
proof (induction rows rule: rev_induct)
  case (snoc row rows)
  have dedup_snoc: "dedup (xs @ [x]) = (if x \<in> set xs then dedup xs else dedup xs @ [x])" for x :: guid and xs
  proof -
    have "dedup_seen seen (xs @ [x]) = (if x \<in> set xs \<union> set seen then dedup_seen seen xs else dedup_seen seen xs @ [x])" for seen
      by (induction xs arbitrary: seen) auto
    then show ?thesis by simp
  qed
  show ?case
  proof (cases "newest_row (row_GUID row) rows")
    case None
    then have "row_GUID row \<notin> row_GUID ` set rows" by (simp add: newest_row_None)
    with None show ?thesis by (auto simp: snoc.IH newest_row_snoc dedup_snoc fun_eq_iff)
  next
    case (Some p)
    then have "row_GUID row \<in> row_GUID ` set rows" using newest_row_None by (metis option.distinct(1))
    with Some show ?thesis by (auto simp: snoc.IH newest_row_snoc dedup_snoc fun_eq_iff)
  qed
qed (simp add: newest_row_def fun_eq_iff)

lemma dedupe_rows_eq:
  "dedupe_rows rows = map (\<lambda>g. the (newest_row g rows)) (dedup (filter (\<lambda>g. g \<noteq> []) (map row_GUID rows)))"
  by (auto simp: dedupe_rows_def fold_dedupe_step)

lemma dedupe_rows_subset: "set (dedupe_rows rows) \<subseteq> set rows"
proof
  fix r assume "r \<in> set (dedupe_rows rows)"
  then obtain g where g: "g \<in> row_GUID ` set rows" "r = the (newest_row g rows)" by (auto simp: dedupe_rows_eq)
  then obtain q where "newest_row g rows = Some q" using newest_row_None by (metis option.exhaust)
  with g(2) show "r \<in> set rows" using newest_row_Some by simp
qed

lemma guids_dedupe_rows:
  "map row_GUID (dedupe_rows rows) = dedup (filter (\<lambda>g. g \<noteq> []) (map row_GUID rows))"
proof -
  have "row_GUID (the (newest_row g rows)) = g" if "g \<in> row_GUID ` set rows" for g
    using that newest_row_None newest_row_Some by (cases "newest_row g rows") auto
  then show ?thesis unfolding dedupe_rows_eq by (auto simp: comp_def intro!: map_idI)
qed

lemma find_dedupe_rows:
  assumes "g \<noteq> []"
  shows "find (\<lambda>row. row_GUID row = g) (dedupe_rows rows) = newest_row g rows"
proof (cases "newest_row g rows")
  case None
  then have "g \<notin> set (map row_GUID (dedupe_rows rows))"
    unfolding guids_dedupe_rows by (auto simp: newest_row_None)
  with None show ?thesis by (auto simp: find_None_iff)
next
  case (Some r)
  then have "g \<in> row_GUID ` set rows" by (metis newest_row_None option.distinct(1))
  with assms have "g \<in> set (dedup (filter (\<lambda>g. g \<noteq> []) (map row_GUID rows)))" by auto
  with Some have in_r: "r \<in> set (dedupe_rows rows)" unfolding dedupe_rows_eq by force
  have rg: "row_GUID r = g" using newest_row_Some [OF Some] by simp
  have dist: "distinct (map row_GUID (dedupe_rows rows))" by (simp add: guids_dedupe_rows)
  obtain q where q: "find (\<lambda>row. row_GUID row = g) (dedupe_rows rows) = Some q"
    using find_exists [OF in_r, of "\<lambda>row. row_GUID row = g"] rg by blast
  then have "q \<in> set (dedupe_rows rows)" "row_GUID q = g" using find_Some_set by fastforce+
  with in_r rg dist have "q = r" by (auto simp: distinct_map inj_on_def)
  with q Some show ?thesis by simp
qed

lemma lookup_upsertMessageBatch:
  assumes "g \<noteq> []"
  shows "lookup message_key (loginID s, g) (cloud_message (upsertMessageBatch s now rows db)) =
    (case newest_row g rows of
       None \<Rightarrow> lookup message_key (loginID s, g) (cloud_message db)
     | Some row \<Rightarrow> Some (case lookup message_key (loginID s, g) (cloud_message db) of
         None \<Rightarrow> message_of_row s now row
       | Some old \<Rightarrow> upsert_message_merge old (message_of_row s now row)))"
proof (cases "rows = []")
  case False
  have key: "message_key (message_of_row s now row) = (loginID s, row_GUID row)" for row
    by (simp add: message_key_def message_of_row_def)
  have "distinct (map (\<lambda>row. message_key (message_of_row s now row)) (dedupe_rows rows))"
    using guids_dedupe_rows [of rows] distinct_dedup_seen
    by (simp add: key distinct_map inj_on_def)
      (metis (no_types, lifting) distinct_dedup_seen distinct_map inj_onD)
  from message_upsert.lookup_fold_upsert [OF this] False find_dedupe_rows [OF assms, of rows]
  show ?thesis by (simp add: upsertMessageBatch_def key)
qed (simp add: upsertMessageBatch_def newest_row_def)

section \<open>Tombstones\<close>

text \<open>A message without its body, and the order in which deletes and scrubs only ever go up.\<close>

definition body_gone :: "cloud_message_row \<Rightarrow> bool" where
  "body_gone r \<longleftrightarrow> m_body_scrubbed r \<and> m_text r = None \<and> m_subject r = None \<and> m_tapback_emoji r = None"

definition tomb_le :: "cloud_message_row \<Rightarrow> cloud_message_row \<Rightarrow> bool" where
  "tomb_le r r' \<longleftrightarrow> (m_deleted r \<longrightarrow> m_deleted r') \<and> (m_message_deleted r \<longrightarrow> m_message_deleted r') \<and>
     (body_gone r \<longrightarrow> body_gone r')"

interpretation tomb: row_order message_key tomb_le
  by unfold_locales (auto simp: tomb_le_def)

lemma tomb_le_merge: "tomb_le old (upsert_message_merge old new)"
  by (simp add: tomb_le_def body_gone_def upsert_message_merge_def)

lemma tomb_le_scrub: "tomb_le r ((scrub_body r)\<lparr>m_deleted := True, m_updated_ts := t\<rparr>)"
  by (simp add: tomb_le_def body_gone_def scrub_body_def)

lemma tomb_le_soft_delete: "tomb_le r (soft_delete_row_update p md r)"
  by (simp add: tomb_le_def body_gone_def scrub_body_def soft_delete_row_update_def)

lemma message_keys [simp]:
  "message_key (scrub_body r) = message_key r"
  "message_key (soft_delete_row_update p md r) = message_key r"
  "message_key (upsert_message_merge r r') = message_key r"
  "message_key (persist_message_merge r r') = message_key r"
  "message_key (do_nothing r r') = message_key r"
  "message_key (message_of_row s now row) = (loginID s, row_GUID row)"
  "message_key (r\<lparr>m_deleted := b\<rparr>) = message_key r"
  "message_key (r\<lparr>m_updated_ts := t\<rparr>) = message_key r"
  "message_key (r\<lparr>m_message_deleted := b\<rparr>) = message_key r"
  "message_key (r\<lparr>m_portal_id := pid\<rparr>) = message_key r"
  by (simp_all add: message_key_def scrub_body_def soft_delete_row_update_def
      upsert_message_merge_def persist_message_merge_def do_nothing_def message_of_row_def)

lemma upsert_keeps: "tomb.keeps (cloud_message db) (cloud_message (upsertMessageBatch s now rows db))"
  by (auto simp: upsertMessageBatch_def tomb_le_merge tomb.keeps_refl intro!: tomb.keeps_fold tomb.keeps_upsert)

lemma deleteMessageBatch_keeps: "tomb.keeps (cloud_message db) (cloud_message (deleteMessageBatch s now gs db))"
  by (auto simp: deleteMessageBatch_def tomb_le_scrub intro!: tomb.keeps_fold tomb.keeps_update_where)

lemma softDeleteRow_keeps: "tomb.keeps (cloud_message db) (cloud_message (softDeleteRow s now g p md db))"
proof -
  have u: "tomb.keeps (cloud_message db)
      (update_where (guid_match s g) (soft_delete_row_update p md) (cloud_message db))"
    by (auto simp: tomb_le_soft_delete intro!: tomb.keeps_update_where)
  then show ?thesis
    by (auto simp: softDeleteRow_def Let_def do_nothing_def tomb.le_refl
        intro!: tomb.keeps_trans [OF u] tomb.keeps_upsert)
qed

lemma persistMessageUUID_keeps: "tomb.keeps (cloud_message db) (cloud_message (persistMessageUUID s now u p ts me db))"
  by (auto simp: persistMessageUUID_def persist_message_merge_def tomb_le_def body_gone_def
      intro!: tomb.keeps_upsert)

lemma persistTapbackUUID_keeps: "tomb.keeps (cloud_message db) (cloud_message (persistTapbackUUID s now u p ts me tb db))"
  by (auto simp: persistTapbackUUID_def do_nothing_def tomb.le_refl intro!: tomb.keeps_upsert)

lemma hasMessageUUID_iff: "hasMessageUUID s u db \<longleftrightarrow> (\<exists>r \<in> set (cloud_message db). guid_match s u r)"
  by (auto simp: hasMessageUUID_def rows_matching_0 simp flip: neq0_conv)

lemma guid_match_key: "message_key r = message_key r' \<Longrightarrow> guid_match s u r = guid_match s u r'"
  by (simp add: guid_match_def message_key_def)

lemma keeps_hasMessageUUID:
  "tomb.keeps (cloud_message db) (cloud_message db') \<Longrightarrow> hasMessageUUID s u db \<Longrightarrow> hasMessageUUID s u db'"
  unfolding hasMessageUUID_iff by (metis guid_match_key tomb.keeps_row)

section \<open>Statements of one login\<close>

lemma message_ops [store_ops]:
  "db_stmt (loginID s) db (upsertMessageBatch s now rows db)"
  "db_stmt (loginID s) db (deleteMessageBatch s now gs db)"
  "db_stmt (loginID s) db (deleteMessagesByChatIDs s cs db)"
  "db_stmt (loginID s) db (persistMessageUUID s now u p ts me db)"
  "db_stmt (loginID s) db (persistTapbackUUID s now u p ts me tb db)"
  unfolding db_stmt_def upsertMessageBatch_def deleteMessageBatch_def deleteMessagesByChatIDs_def
    persistMessageUUID_def persistTapbackUUID_def
  by (simp add: stmt_refl; intro conjI impI stmt_intros;
      simp add: key_defs scrub_body_def upsert_message_merge_def persist_message_merge_def
        do_nothing_def message_of_row_def default_message_def)+

lemma softDeleteRow_op [store_ops]: "db_stmt (loginID s) db (softDeleteRow s now g p md db)"
proof -
  have u: "stmt m_login_id message_key (loginID s) (cloud_message db)
      (update_where (guid_match s g) (soft_delete_row_update p md) (cloud_message db))"
    by (rule stmt_update_where) (simp_all add: guid_match_def soft_delete_row_update_def scrub_body_def key_defs)
  have "stmt m_login_id message_key (loginID s) rs (upsert message_key do_nothing (deleted_stub s now g p md) rs)" for rs
    by (rule stmt_upsert) (simp_all add: deleted_stub_def default_message_def key_defs do_nothing_def)
  from stmt_trans [OF u this] u show ?thesis
    by (simp add: db_stmt_def softDeleteRow_def Let_def stmt_refl)
qed

lemma softDelete_ops [store_ops]:
  "db_stmt (loginID s) db (softDeleteMessageByGUID s now g p db)"
  "db_stmt (loginID s) db (markContinuationChunk s now g p db)"
  by (simp_all add: softDeleteMessageByGUID_def markContinuationChunk_def softDeleteRow_op)

section \<open>Soft deletes\<close>

lemma filter_map_if:
  "(\<And>r. p (f r) = p r) \<Longrightarrow> filter (\<lambda>r. \<not> p r) (map (\<lambda>r. if p r then f r else r) rs) = filter (\<lambda>r. \<not> p r) rs"
  by (induction rs) auto

lemma upsert_new: "key new \<notin> key ` set rs \<Longrightarrow> upsert key mrg new rs = rs @ [new]"
  by (induction rs) auto

lemma softDeleteRow_rows:
  "cloud_message (softDeleteRow s now g p md db) = (if \<exists>r \<in> set (cloud_message db). guid_match s g r
      then map (\<lambda>r. if guid_match s g r then soft_delete_row_update p md r else r) (cloud_message db)
      else cloud_message db @ [deleted_stub s now g p md])"
proof (cases "\<exists>r \<in> set (cloud_message db). guid_match s g r")
  case True
  then have "0 < rows_matching (guid_match s g) (cloud_message db)"
    by (auto simp: rows_matching_0 simp flip: neq0_conv)
  with True show ?thesis by (simp add: softDeleteRow_def update_where_def)
next
  case False
  then have none: "rows_matching (guid_match s g) (cloud_message db) = 0" by (simp add: rows_matching_0)
  have "update_where (guid_match s g) (soft_delete_row_update p md) (cloud_message db) = cloud_message db"
    using False by (simp add: update_where_none)
  moreover have "message_key (deleted_stub s now g p md) \<notin> message_key ` set (cloud_message db)"
    using False by (auto simp: message_key_def deleted_stub_def default_message_def guid_match_def)
  ultimately show ?thesis using False none by (simp add: softDeleteRow_def upsert_new)
qed

lemma soft_delete_row_fields:
  "m_deleted (soft_delete_row_update p md r)" "body_gone (soft_delete_row_update p md r)"
  "md \<Longrightarrow> m_message_deleted (soft_delete_row_update p md r)"
  "p \<noteq> [] \<Longrightarrow> text_present (m_portal_id (soft_delete_row_update p md r))"
  by (simp_all add: soft_delete_row_update_def scrub_body_def body_gone_def text_present_def
      coalesce_def nullif_empty_def split: option.splits)

lemma deleted_stub_fields:
  "m_deleted (deleted_stub s now g p md)" "body_gone (deleted_stub s now g p md)"
  "md \<Longrightarrow> m_message_deleted (deleted_stub s now g p md)"
  "p \<noteq> [] \<Longrightarrow> text_present (m_portal_id (deleted_stub s now g p md))"
  by (simp_all add: deleted_stub_def default_message_def body_gone_def text_present_def nullif_empty_def)

section \<open>Idempotence of the import\<close>

lemma merge_again:
  "upsert_message_merge (upsert_message_merge old (message_of_row s now row)) (message_of_row s now row) =
     upsert_message_merge old (message_of_row s now row)"
  by (simp add: upsert_message_merge_def)

lemma merge_own: "upsert_message_merge (message_of_row s now row) (message_of_row s now row) = message_of_row s now row"
  by (simp add: upsert_message_merge_def message_of_row_def)

lemma distinct_dedupe_keys:
  "distinct (map (\<lambda>row. message_key (message_of_row s now row)) (dedupe_rows rows))"
proof -
  have "distinct (map row_GUID (dedupe_rows rows))" by (simp add: guids_dedupe_rows)
  then show ?thesis by (simp add: distinct_map inj_on_def)
qed

lemma upsertMessageBatch_idem:
  assumes "pk_ok db"
  shows "upsertMessageBatch s now rows (upsertMessageBatch s now rows db) = upsertMessageBatch s now rows db"
proof (cases "rows = []")
  case False
  define batch where
    "batch = (\<lambda>ms. fold (\<lambda>row. upsert message_key upsert_message_merge (message_of_row s now row)) (dedupe_rows rows) ms)"
  note look = message_upsert.lookup_fold_upsert [OF distinct_dedupe_keys [of s now rows], folded batch_def]
  let ?ms = "cloud_message db"
  have "unique_key message_key ?ms" using assms by (simp add: pk_ok_def)
  then have pk: "unique_key message_key (batch ?ms)" "unique_key message_key (batch (batch ?ms))"
    unfolding batch_def by (intro message_upsert.pk_fold_upsert, assumption)+
  have keys: "map message_key (batch (batch ?ms)) = map message_key (batch ?ms)"
    using message_upsert.keys_fold_upsert_present
      [OF message_upsert.keys_fold_upsert [THEN conjunct1, of "message_of_row s now" "dedupe_rows rows" ?ms]]
    by (simp only: batch_def)
  have "batch (batch ?ms) = batch ?ms"
    by (rule table_ext [OF keys pk(2)]) (simp add: look merge_again merge_own split: option.splits)
  with False show ?thesis by (simp add: upsertMessageBatch_def batch_def)
qed (simp add: upsertMessageBatch_def)

section \<open>Properties\<close>

text \<open>C5. Importing a CloudKit page keeps one row per GUID, the newest one of the page (the later one
  among equals), inserts it when the GUID is new and otherwise merges it into the stored row; every
  other GUID keeps its row, and rows with no GUID are skipped.\<close>

theorem import_keeps_newest:
  assumes "g \<noteq> []"
  shows "lookup message_key (loginID s, g) (cloud_message (upsertMessageBatch s now rows db)) =
      (case newest_row g rows of
         None \<Rightarrow> lookup message_key (loginID s, g) (cloud_message db)
       | Some row \<Rightarrow> Some (case lookup message_key (loginID s, g) (cloud_message db) of
           None \<Rightarrow> message_of_row s now row
         | Some old \<Rightarrow> upsert_message_merge old (message_of_row s now row))) \<and>
    (newest_row g rows = None \<longleftrightarrow> g \<notin> row_GUID ` set rows) \<and>
    (\<forall>row. newest_row g rows = Some row \<longrightarrow> row \<in> set rows \<and> row_GUID row = g \<and>
       (\<forall>q \<in> set rows. row_GUID q = g \<longrightarrow> row_TimestampMS q \<le> row_TimestampMS row))"
  using assms newest_row_Some by (simp add: lookup_upsertMessageBatch newest_row_None)

text \<open>A text message as CloudKit delivers it.\<close>

definition sample_row :: "guid \<Rightarrow> portal_id \<Rightarrow> millis \<Rightarrow> string \<Rightarrow> cloudMessageRow" where
  "sample_row g p ts txt = \<lparr>row_GUID = g, row_RecordName = ''rec'', row_CloudChatID = ''chat'',
     row_PortalID = p, row_TimestampMS = ts, row_Sender = ''tel:+1'', row_IsFromMe = False, row_Text = txt,
     row_Subject = [], row_Service = ''iMessage'', row_Deleted = False, row_TapbackType = None,
     row_TapbackTargetGUID = [], row_TapbackEmoji = [], row_AttachmentsJSON = JEmpty, row_DateReadMS = 0,
     row_HasBody = True, row_ReplyToGUID = [], row_ReplyToPart = [], row_BodyScrubbed = False,
     row_WriteActivityTS = 0\<rparr>"

definition sample_store :: cloudBackfillStore where
  "sample_store = newCloudBackfillStore ''alice'' []"

theorem import_keeps_newest_witness:
  "map_option m_text (lookup message_key (loginID sample_store, ''g'')
     (cloud_message (upsertMessageBatch sample_store 9
       [sample_row ''g'' ''p'' 2 ''new'', sample_row ''g'' ''p'' 1 ''old''] empty_db))) = Some (Some ''new'')"
  using import_keeps_newest [of "''g''" sample_store 9
      "[sample_row ''g'' ''p'' 2 ''new'', sample_row ''g'' ''p'' 1 ''old'']" empty_db]
  by (simp add: newest_row_def sample_row_def empty_db_def lookup_def message_of_row_def)

text \<open> Importing the same page again changes nothing: a page that is fetched twice (a retry, a
  duplicate in the feed) leaves the cache as it was.\<close>

lemma import_idempotent:
  assumes "pk_ok db"
  shows "upsertMessageBatch s now rows (upsertMessageBatch s now rows db) = upsertMessageBatch s now rows db"
  using assms by (rule upsertMessageBatch_idem)

lemma import_idempotent_witness:
  "upsertMessageBatch sample_store 9 [sample_row ''g'' ''p'' 2 ''hi'']
     (upsertMessageBatch sample_store 9 [sample_row ''g'' ''p'' 2 ''hi''] empty_db) =
   upsertMessageBatch sample_store 9 [sample_row ''g'' ''p'' 2 ''hi''] empty_db"
  by (rule import_idempotent) simp

text \<open> A batch of CloudKit deletions, run in slices of 500, is one statement: it marks exactly the
  live rows of this login with a listed GUID as deleted, takes their text, subject and reaction
  emoji away and stamps them; a row that is already deleted is not stamped again, and no row
  disappears, so that every message stays known to echo detection.\<close>

lemma delete_batch_effect:
  "cloud_message (deleteMessageBatch s now gs db) =
     map (\<lambda>r. if m_login_id r = loginID s \<and> \<not> m_deleted r \<and> m_guid r \<in> set gs
       then (scrub_body r)\<lparr>m_deleted := True, m_updated_ts := now\<rparr> else r) (cloud_message db) \<and>
   (\<forall>r \<in> set (cloud_message (deleteMessageBatch s now gs db)).
     m_login_id r = loginID s \<and> m_guid r \<in> set gs \<longrightarrow> m_deleted r) \<and>
   hasMessageUUID s u (deleteMessageBatch s now gs db) = hasMessageUUID s u db"
proof -
  have eq: "cloud_message (deleteMessageBatch s now gs db) =
     map (\<lambda>r. if m_login_id r = loginID s \<and> \<not> m_deleted r \<and> m_guid r \<in> set gs
       then (scrub_body r)\<lparr>m_deleted := True, m_updated_ts := now\<rparr> else r) (cloud_message db)"
    unfolding deleteMessageBatch_def
    by (subst fold_update_where_concat) (simp_all add: update_where_def scrub_body_def conj_ac)
  moreover have "guid_match s u ((scrub_body r)\<lparr>m_deleted := True, m_updated_ts := now\<rparr>) = guid_match s u r" for r
    by (rule guid_match_key) simp
  ultimately show ?thesis
    by (simp add: hasMessageUUID_iff) (auto simp: scrub_body_def split: if_splits)
qed

lemma delete_batch_effect_witness:
  "let db = deleteMessageBatch sample_store 10 [''g'']
         (upsertMessageBatch sample_store 9 [sample_row ''g'' ''p'' 2 ''hi''] empty_db)
   in list_all m_deleted (cloud_message db) \<and> map m_guid (cloud_message db) = [''g'']"
proof -
  let ?db = "deleteMessageBatch sample_store 10 [''g''] (upsertMessageBatch sample_store 9 [sample_row ''g'' ''p'' 2 ''hi''] empty_db)"
  have "list_all (\<lambda>r. m_login_id r = loginID sample_store \<and> m_guid r \<in> set [''g'']) (cloud_message ?db) \<and>
    map m_guid (cloud_message ?db) = [''g'']" by code_simp
  with delete_batch_effect [THEN conjunct2, THEN conjunct1, of sample_store 10 "[''g'']"
      "upsertMessageBatch sample_store 9 [sample_row ''g'' ''p'' 2 ''hi''] empty_db"]
  show ?thesis unfolding list_all_iff Let_def by blast
qed

text \<open> Deleting one message, whether its row is there or the delete arrives first: afterwards the
  message is known, every row of it (in any letter case of its GUID) is deleted and has no body, its
  text reads as empty, a row without a portal is routed to the given one, and no other row changes.\<close>

lemma soft_delete_effect:
  "hasMessageUUID s g (softDeleteRow s now g p md db) \<and>
   (\<forall>r \<in> set (cloud_message (softDeleteRow s now g p md db)). guid_match s g r \<longrightarrow>
      m_deleted r \<and> body_gone r \<and> (md \<longrightarrow> m_message_deleted r) \<and> (p \<noteq> [] \<longrightarrow> text_present (m_portal_id r))) \<and>
   getMessageTextByGUID s g (softDeleteRow s now g p md db) = [] \<and>
   filter (\<lambda>r. \<not> guid_match s g r) (cloud_message (softDeleteRow s now g p md db)) =
     filter (\<lambda>r. \<not> guid_match s g r) (cloud_message db)"
proof -
  let ?ms = "cloud_message (softDeleteRow s now g p md db)"
  have gm: "guid_match s g (soft_delete_row_update p md r) = guid_match s g r" for r
    by (rule guid_match_key) simp
  have stub: "guid_match s g (deleted_stub s now g p md)"
    by (simp add: guid_match_def deleted_stub_def default_message_def)
  have rows: "?ms = (if \<exists>r \<in> set (cloud_message db). guid_match s g r
      then map (\<lambda>r. if guid_match s g r then soft_delete_row_update p md r else r) (cloud_message db)
      else cloud_message db @ [deleted_stub s now g p md])"
    using softDeleteRow_rows by blast
  have "hasMessageUUID s g (softDeleteRow s now g p md db)"
    unfolding hasMessageUUID_iff rows using gm stub by auto
  moreover have all: "\<forall>r \<in> set ?ms. guid_match s g r \<longrightarrow>
      m_deleted r \<and> body_gone r \<and> (md \<longrightarrow> m_message_deleted r) \<and> (p \<noteq> [] \<longrightarrow> text_present (m_portal_id r))"
    unfolding rows using gm soft_delete_row_fields deleted_stub_fields by (auto split: if_splits)
  moreover have "getMessageTextByGUID s g (softDeleteRow s now g p md db) = []"
    using all by (auto simp: getMessageTextByGUID_def body_gone_def split: option.splits dest!: find_Some_set)
  moreover have "filter (\<lambda>r. \<not> guid_match s g r) ?ms = filter (\<lambda>r. \<not> guid_match s g r) (cloud_message db)"
    unfolding rows using stub gm by (simp add: filter_map_if)
  ultimately show ?thesis by blast
qed

lemma soft_delete_effect_witness:
  "let db = softDeleteRow sample_store 10 ''G'' ''p'' True
         (upsertMessageBatch sample_store 9 [sample_row ''g'' ''p'' 2 ''hi''] empty_db)
   in list_all (\<lambda>r. m_deleted r \<and> body_gone r \<and> m_message_deleted r) (cloud_message db) \<and>
      map m_guid (cloud_message db) = [''g'']"
proof -
  let ?base = "upsertMessageBatch sample_store 9 [sample_row ''g'' ''p'' 2 ''hi''] empty_db"
  let ?db = "softDeleteRow sample_store 10 ''G'' ''p'' True ?base"
  have "list_all (guid_match sample_store ''G'') (cloud_message ?db) \<and> map m_guid (cloud_message ?db) = [''g'']"
    by code_simp
  with soft_delete_effect [THEN conjunct2, THEN conjunct1, of sample_store 10 "''G''" "''p''" True ?base]
  show ?thesis by (simp add: list_all_iff Let_def)
qed

text \<open> A delete that arrives before its message is kept by a stub under the GUID as the delete
  spelled it. The import looks the row up by the exact GUID, so when CloudKit spells the same GUID in
  another letter case the message is stored live, with its text, beside the stub.\<close>

lemma delete_first_case_mismatch:
  "let db = softDeleteMessageByGUID sample_store 1 ''AB'' ''p'' empty_db;
       same = upsertMessageBatch sample_store 2 [sample_row ''AB'' ''p'' 1 ''hi''] db;
       other = upsertMessageBatch sample_store 2 [sample_row ''ab'' ''p'' 1 ''hi''] db
   in map (\<lambda>r. (m_guid r, m_deleted r, m_text r)) (cloud_message same) = [(''AB'', True, None)] \<and>
      map (\<lambda>r. (m_guid r, m_deleted r, m_text r)) (cloud_message other) =
        [(''AB'', True, None), (''ab'', False, Some ''hi'')]"
  by code_simp

end
