(* ===== verification/Recycle_Bin.thy ===== *)
theory Recycle_Bin
  imports Cloud_Messages
begin

text \<open>
  Classification of portals against Apple's recycle bin (\<^verbatim>\<open>cloud_backfill_store.go\<close>,
  \<^verbatim>\<open>classifyRecycleBinPortals\<close>): one pass over all stored messages, ordered by portal and newest first,
  that counts how the recoverable GUIDs overlap with the newest messages of each conversation. The
  pass is compared with a reference definition that looks at each portal on its own.
\<close>

record recycleBinPortalState =
  rb_PortalID :: portal_id
  rb_Total :: int
  rb_Recoverable :: int
  rb_RecoverableSuffix :: int
  rb_NewestTS :: millis
  rb_HasLiveMessages :: bool
  rb_HasDeletedMessages :: bool

definition recycleBinDeleteThreshold :: "int \<Rightarrow> int" where
  "recycleBinDeleteThreshold n = (if n \<le> 0 then 0 else if n < 3 then n else 3)"

definition LooksDeleted :: "recycleBinPortalState \<Rightarrow> bool" where
  "LooksDeleted st \<longleftrightarrow>
     (let threshold = recycleBinDeleteThreshold (rb_Total st)
      in threshold > 0 \<and> rb_RecoverableSuffix st \<ge> threshold)"

definition LooksRestored :: "recycleBinPortalState \<Rightarrow> bool" where
  "LooksRestored st \<longleftrightarrow> rb_Recoverable st > 0 \<and> \<not> LooksDeleted st"

definition NeedsUndelete :: "recycleBinPortalState \<Rightarrow> bool" where
  "NeedsUndelete st \<longleftrightarrow> LooksRestored st \<and> rb_HasDeletedMessages st \<and> \<not> rb_HasLiveMessages st"

definition plain_guid :: "string \<Rightarrow> guid" where
  "plain_guid g = (case index_of g ''|'' of None \<Rightarrow> g | Some idx \<Rightarrow> take idx g)"

definition normalizeRecoverableGUIDSet :: "string list \<Rightarrow> guid set" where
  "normalizeRecoverableGUIDSet recoverableGUIDs = set (filter (\<lambda>g. g \<noteq> []) (map plain_guid recoverableGUIDs))"

section \<open>The pass\<close>

text \<open>The columns the pass scans: portal, GUID, timestamp and the deleted flag.\<close>

type_synonym scan_row = "portal_id \<times> guid \<times> millis \<times> bool"

definition scan_portal :: "scan_row \<Rightarrow> portal_id" where
  "scan_portal r = fst r"

definition recycle_scan :: "cloudBackfillStore \<Rightarrow> cloud_db \<Rightarrow> scan_row list" where
  "recycle_scan s db =
     sort_key scan_portal
       (rev (sort_key (\<lambda>(p, g, ts, d). (ts, g))
         (map (\<lambda>r. (the (m_portal_id r), m_guid r, m_timestamp_ms r, m_deleted r))
           (filter (\<lambda>r. m_login_id r = loginID s \<and> text_present (m_portal_id r) \<and> m_record_name r \<noteq> [])
             (cloud_message db)))))"

text \<open>The loop state: the current portal, whether its suffix is still open, and the states of the portals
  seen so far, the current one first.\<close>

fun recycle_step ::
  "guid set \<Rightarrow> scan_row \<Rightarrow> portal_id \<times> bool \<times> recycleBinPortalState list \<Rightarrow> portal_id \<times> bool \<times> recycleBinPortalState list" where
  "recycle_step guidSet (portalID, guid, timestampMS, deleted) (cur, suffixOpen, states) =
     (let (suffixOpen, states) =
            (if portalID \<noteq> cur
             then (True, \<lparr>rb_PortalID = portalID, rb_Total = 0, rb_Recoverable = 0, rb_RecoverableSuffix = 0,
                rb_NewestTS = timestampMS, rb_HasLiveMessages = False, rb_HasDeletedMessages = False\<rparr> # states)
             else (suffixOpen, states))
      in case states of
           [] \<Rightarrow> (portalID, suffixOpen, [])
         | st # rest \<Rightarrow>
             let st = st\<lparr>rb_Total := rb_Total st + 1\<rparr>;
                 st = (if deleted then st\<lparr>rb_HasDeletedMessages := True\<rparr> else st\<lparr>rb_HasLiveMessages := True\<rparr>);
                 isRecoverable = (guid \<in> guidSet);
                 st = (if isRecoverable then st\<lparr>rb_Recoverable := rb_Recoverable st + 1\<rparr> else st);
                 st' = (if suffixOpen \<and> isRecoverable
                        then st\<lparr>rb_RecoverableSuffix := rb_RecoverableSuffix st + 1\<rparr> else st);
                 suffixOpen' = (suffixOpen \<and> isRecoverable)
             in (portalID, suffixOpen', st' # rest))"

definition classifyRecycleBinPortals ::
  "cloudBackfillStore \<Rightarrow> string list \<Rightarrow> cloud_db \<Rightarrow> recycleBinPortalState list" where
  "classifyRecycleBinPortals s recoverableGUIDs db =
     (let guidSet = normalizeRecoverableGUIDSet recoverableGUIDs
      in if guidSet = {} then []
         else case fold (recycle_step guidSet) (recycle_scan s db) ([], False, []) of
           (_, _, states) \<Rightarrow> filter (\<lambda>st. rb_Recoverable st \<noteq> 0) (rev states))"

section \<open>Reference definition\<close>

definition in_bin :: "guid set \<Rightarrow> scan_row \<Rightarrow> bool" where
  "in_bin G r \<longleftrightarrow> fst (snd r) \<in> G"

definition scan_deleted :: "scan_row \<Rightarrow> bool" where
  "scan_deleted r \<longleftrightarrow> snd (snd (snd r))"

text \<open>The state of one portal from its messages, newest first.\<close>

definition portal_state :: "guid set \<Rightarrow> portal_id \<Rightarrow> scan_row list \<Rightarrow> recycleBinPortalState" where
  "portal_state G p rows =
     \<lparr>rb_PortalID = p, rb_Total = int (length rows),
      rb_Recoverable = int (length (filter (in_bin G) rows)),
      rb_RecoverableSuffix = int (length (takeWhile (in_bin G) rows)),
      rb_NewestTS = (case rows of [] \<Rightarrow> 0 | (q, g, ts, d) # _ \<Rightarrow> ts),
      rb_HasLiveMessages = (\<exists>r \<in> set rows. \<not> scan_deleted r),
      rb_HasDeletedMessages = (\<exists>r \<in> set rows. scan_deleted r)\<rparr>"

definition count_row :: "bool \<Rightarrow> bool \<Rightarrow> bool \<Rightarrow> recycleBinPortalState \<Rightarrow> recycleBinPortalState" where
  "count_row opn rec d st = st\<lparr>rb_Total := rb_Total st + 1,
     rb_Recoverable := rb_Recoverable st + (if rec then 1 else 0),
     rb_RecoverableSuffix := rb_RecoverableSuffix st + (if opn \<and> rec then 1 else 0),
     rb_HasLiveMessages := rb_HasLiveMessages st \<or> \<not> d, rb_HasDeletedMessages := rb_HasDeletedMessages st \<or> d\<rparr>"

lemma step_same:
  "recycle_step G (p, g, ts, d) (p, opn, st # rest) = (p, opn \<and> g \<in> G, count_row opn (g \<in> G) d st # rest)"
  by (simp add: Let_def count_row_def)

lemma takeWhile_snoc:
  "length (takeWhile P (xs @ [x])) = length (takeWhile P xs) + (if list_all P xs \<and> P x then 1 else 0)"
  by (induction xs) auto

lemma portal_state_snoc:
  assumes "xs \<noteq> []"
  shows "portal_state G p (xs @ [(q, g, ts, d)]) = count_row (list_all (in_bin G) xs) (g \<in> G) d (portal_state G p xs)"
proof -
  obtain q0 g0 t0 d0 ys where xs: "xs = (q0, g0, t0, d0) # ys" using assms by (cases xs) auto
  have "int (length (takeWhile (in_bin G) (xs @ [(q, g, ts, d)]))) =
      int (length (takeWhile (in_bin G) xs)) + (if list_all (in_bin G) xs \<and> g \<in> G then 1 else 0)"
    unfolding takeWhile_snoc by (simp add: in_bin_def)
  moreover have "int (length (filter (in_bin G) (xs @ [(q, g, ts, d)]))) =
      int (length (filter (in_bin G) xs)) + (if g \<in> G then 1 else 0)" by (simp add: in_bin_def)
  moreover have "scan_deleted (q, g, ts, d) = d" by (simp add: scan_deleted_def)
  ultimately show ?thesis
    unfolding portal_state_def count_row_def using xs by (simp add: disj_ac)
qed

text \<open>One segment of rows of the same portal.\<close>

lemma fold_segment:
  assumes "xs \<noteq> []" "\<forall>x \<in> set xs. scan_portal x = p" "cur \<noteq> p"
  shows "fold (recycle_step G) xs (cur, open0, states) =
    (p, list_all (in_bin G) xs, portal_state G p xs # states)"
  using assms(1,2)
proof (induction xs rule: rev_nonempty_induct)
  case (single x)
  with assms(3) show ?case
    by (cases x) (simp add: scan_portal_def portal_state_def Let_def in_bin_def scan_deleted_def)
next
  case (snoc x xs)
  obtain g ts d where x: "x = (p, g, ts, d)" using snoc.prems by (cases x) (auto simp: scan_portal_def)
  have "fold (recycle_step G) (xs @ [x]) (cur, open0, states) =
      recycle_step G x (p, list_all (in_bin G) xs, portal_state G p xs # states)"
    using snoc by simp
  also have "\<dots> = (p, list_all (in_bin G) (xs @ [x]), portal_state G p (xs @ [x]) # states)"
    unfolding x step_same portal_state_snoc [OF snoc.hyps(1)] by (simp add: in_bin_def)
  finally show ?case .
qed

text \<open>The rows of a portal-sorted list, portal by portal.\<close>

function segments :: "scan_row list \<Rightarrow> (portal_id \<times> scan_row list) list" where
  "segments [] = []"
| "segments (x # xs) =
     (scan_portal x, takeWhile (\<lambda>y. scan_portal y = scan_portal x) (x # xs)) #
       segments (dropWhile (\<lambda>y. scan_portal y = scan_portal x) (x # xs))"
  by pat_completeness auto
termination by (relation "measure length") (auto simp: le_imp_less_Suc length_dropWhile_le)

lemma sorted_rest:
  assumes "sorted (map scan_portal (x # xs))"
  shows "sorted (map scan_portal (dropWhile (\<lambda>y. scan_portal y = scan_portal x) (x # xs)))"
    and "\<forall>y \<in> set (dropWhile (\<lambda>y. scan_portal y = scan_portal x) (x # xs)). scan_portal y \<noteq> scan_portal x"
proof -
  let ?same = "\<lambda>y. scan_portal y = scan_portal x"
  let ?seg = "takeWhile ?same (x # xs)" and ?rest = "dropWhile ?same (x # xs)"
  show sorted: "sorted (map scan_portal ?rest)"
  proof -
    have "sorted (map scan_portal ?seg @ map scan_portal ?rest)"
      using assms by (simp only: map_append [symmetric] takeWhile_dropWhile_id)
    then show ?thesis by (simp only: sorted_append)
  qed
  show "\<forall>y \<in> set ?rest. scan_portal y \<noteq> scan_portal x"
  proof
    fix y assume y: "y \<in> set ?rest"
    then have "?rest \<noteq> []" by (metis empty_iff empty_set)
    then obtain z zs where z: "?rest = z # zs" by (meson neq_Nil_conv)
    then have "scan_portal z \<noteq> scan_portal x" using hd_dropWhile [of ?same "x # xs"] by simp
    moreover have "scan_portal x \<le> scan_portal z"
    proof -
      have "z \<in> set (x # xs)" using z set_dropWhileD [of z ?same "x # xs"] by simp
      then show ?thesis using assms by auto
    qed
    moreover have "scan_portal z \<le> scan_portal y" using sorted y unfolding z by auto
    ultimately show "scan_portal y \<noteq> scan_portal x" by auto
  qed
qed

lemma fold_segments:
  "sorted (map scan_portal rows) \<Longrightarrow> \<forall>x \<in> set rows. scan_portal x \<noteq> cur \<Longrightarrow>
   \<exists>cur' o'. fold (recycle_step G) rows (cur, open0, states) =
     (cur', o', rev (map (\<lambda>(p, xs). portal_state G p xs) (segments rows)) @ states)"
proof (induction rows arbitrary: cur open0 states rule: segments.induct)
  case (2 x xs)
  let ?same = "\<lambda>y. scan_portal y = scan_portal x"
  let ?seg = "takeWhile ?same (x # xs)" and ?rest = "dropWhile ?same (x # xs)"
  note sorted = sorted_rest(1) [OF "2.prems"(1)] and rest = sorted_rest(2) [OF "2.prems"(1)]
  have seg: "fold (recycle_step G) ?seg (cur, open0, states) =
      (scan_portal x, list_all (in_bin G) ?seg, portal_state G (scan_portal x) ?seg # states)"
    using "2.prems"(2) by (intro fold_segment) (auto dest: set_takeWhileD)
  obtain cur' o' where "fold (recycle_step G) ?rest (scan_portal x, list_all (in_bin G) ?seg, portal_state G (scan_portal x) ?seg # states)
      = (cur', o', rev (map (\<lambda>(p, xs). portal_state G p xs) (segments ?rest)) @ portal_state G (scan_portal x) ?seg # states)"
    using "2.IH" [OF sorted rest] by blast
  with seg have "fold (recycle_step G) (?seg @ ?rest) (cur, open0, states) =
      (cur', o', rev (map (\<lambda>(p, xs). portal_state G p xs) (segments (x # xs))) @ states)"
    by (simp del: takeWhile.simps dropWhile.simps takeWhile_dropWhile_id)
  then show ?case by auto
qed simp

lemma segments_sorted:
  "sorted (map scan_portal rows) \<Longrightarrow>
   segments rows = map (\<lambda>p. (p, filter (\<lambda>r. scan_portal r = p) rows)) (remdups_adj (map scan_portal rows))"
proof (induction rows rule: segments.induct)
  case (2 x xs)
  let ?same = "\<lambda>y. scan_portal y = scan_portal x"
  let ?rest = "dropWhile ?same xs"
  have drop: "dropWhile ?same (x # xs) = ?rest" by simp
  note sorted = sorted_rest(1) [OF "2.prems", unfolded drop] and rest = sorted_rest(2) [OF "2.prems", unfolded drop]
  have adj: "remdups_adj (map scan_portal (x # xs)) = scan_portal x # remdups_adj (map scan_portal ?rest)"
    by (simp add: remdups_adj_Cons' dropWhile_map comp_def)
  have same: "filter ?same xs = takeWhile ?same xs"
  proof -
    have "filter ?same xs = filter ?same (takeWhile ?same xs) @ filter ?same ?rest"
      by (metis filter_append takeWhile_dropWhile_id)
    moreover have "filter ?same ?rest = []" unfolding filter_empty_conv by (rule rest)
    moreover have "filter ?same (takeWhile ?same xs) = takeWhile ?same xs"
      by (auto simp: filter_id_conv dest: set_takeWhileD)
    ultimately show ?thesis by simp
  qed
  have others: "filter (\<lambda>r. scan_portal r = p) (x # xs) = filter (\<lambda>r. scan_portal r = p) ?rest"
    if "p \<in> set (remdups_adj (map scan_portal ?rest))" for p
  proof -
    have "p \<in> scan_portal ` set ?rest" using that by (simp only: remdups_adj_set set_map)
    then obtain y where y: "p = scan_portal y" "y \<in> set ?rest" by (rule imageE)
    from rest y(2) have "scan_portal y \<noteq> scan_portal x" by (rule bspec)
    then have "p \<noteq> scan_portal x" unfolding y(1) .
    then have "filter (\<lambda>r. scan_portal r = p) (takeWhile ?same xs) = []"
      by (auto simp: filter_empty_conv dest: set_takeWhileD)
    moreover have "filter (\<lambda>r. scan_portal r = p) xs =
        filter (\<lambda>r. scan_portal r = p) (takeWhile ?same xs) @ filter (\<lambda>r. scan_portal r = p) ?rest"
      by (simp only: filter_append [symmetric] takeWhile_dropWhile_id)
    ultimately show ?thesis using \<open>p \<noteq> scan_portal x\<close> by simp
  qed
  have "map (\<lambda>p. (p, filter (\<lambda>r. scan_portal r = p) (x # xs))) (remdups_adj (map scan_portal ?rest)) =
      map (\<lambda>p. (p, filter (\<lambda>r. scan_portal r = p) ?rest)) (remdups_adj (map scan_portal ?rest))"
    by (rule map_cong [OF refl]) (simp only: others)
  moreover have "filter ?same (x # xs) = takeWhile ?same (x # xs)" by (simp add: same)
  ultimately show ?case
    unfolding adj segments.simps drop "2.IH" [unfolded drop, OF sorted] by (simp only: list.map)
qed simp

text \<open>The messages of one portal, newest first, as the pass sees them.\<close>

definition portal_scan :: "cloudBackfillStore \<Rightarrow> cloud_db \<Rightarrow> portal_id \<Rightarrow> scan_row list" where
  "portal_scan s db p =
     rev (sort_key (\<lambda>(p, g, ts, d). (ts, g))
       (map (\<lambda>r. (p, m_guid r, m_timestamp_ms r, m_deleted r))
         (filter (\<lambda>r. m_login_id r = loginID s \<and> m_portal_id r = Some p \<and> m_record_name r \<noteq> []) (cloud_message db))))"

definition scanned_portals :: "cloudBackfillStore \<Rightarrow> cloud_db \<Rightarrow> portal_id list" where
  "scanned_portals s db = sort (dedup (non_null (map m_portal_id
     (filter (\<lambda>r. m_login_id r = loginID s \<and> text_present (m_portal_id r) \<and> m_record_name r \<noteq> []) (cloud_message db)))))"

lemma filter_recycle_scan: "p \<noteq> [] \<Longrightarrow> filter (\<lambda>r. scan_portal r = p) (recycle_scan s db) = portal_scan s db p"
proof -
  assume p: "p \<noteq> []"
  have "filter (\<lambda>r. scan_portal r = p) (map (\<lambda>r. (the (m_portal_id r), m_guid r, m_timestamp_ms r, m_deleted r))
        (filter (\<lambda>r. m_login_id r = l \<and> text_present (m_portal_id r) \<and> m_record_name r \<noteq> []) rs)) =
      map (\<lambda>r. (p, m_guid r, m_timestamp_ms r, m_deleted r))
        (filter (\<lambda>r. m_login_id r = l \<and> m_portal_id r = Some p \<and> m_record_name r \<noteq> []) rs)" for l rs
    using p by (induction rs) (auto simp: scan_portal_def text_present_def)
  note rows = this
  have "filter (\<lambda>r. scan_portal r = p) (sort_key scan_portal (rev (sort_key k xs))) =
      rev (sort_key k (filter (\<lambda>r. scan_portal r = p) xs))" for k :: "scan_row \<Rightarrow> millis \<times> guid" and xs
    by (simp add: sort_key_stable filter_sort flip: rev_filter)
  then show ?thesis unfolding recycle_scan_def portal_scan_def by (simp only: rows)
qed

lemma portals_recycle_scan: "remdups_adj (map scan_portal (recycle_scan s db)) = scanned_portals s db"
proof (rule sorted_distinct_set_unique)
  have "sorted (map scan_portal (recycle_scan s db))" by (simp add: recycle_scan_def)
  then show "sorted (remdups_adj (map scan_portal (recycle_scan s db)))"
    and "distinct (remdups_adj (map scan_portal (recycle_scan s db)))"
    by (simp_all add: distinct_remdups_adj_sorted)
  show "set (remdups_adj (map scan_portal (recycle_scan s db))) = set (scanned_portals s db)"
    by (force simp: recycle_scan_def scanned_portals_def scan_portal_def text_present_def image_iff)
qed (simp_all add: scanned_portals_def)

lemma scanned_portals_nonempty: "p \<in> set (scanned_portals s db) \<Longrightarrow> p \<noteq> []"
  by (auto simp: scanned_portals_def text_present_def)

lemma classify_eq:
  "classifyRecycleBinPortals s gs db =
     filter (\<lambda>st. rb_Recoverable st \<noteq> 0)
       (map (\<lambda>p. portal_state (normalizeRecoverableGUIDSet gs) p (portal_scan s db p)) (scanned_portals s db))"
proof (cases "normalizeRecoverableGUIDSet gs = {}")
  case True
  then show ?thesis by (simp add: classifyRecycleBinPortals_def portal_state_def in_bin_def)
next
  case False
  let ?G = "normalizeRecoverableGUIDSet gs"
  have sorted: "sorted (map scan_portal (recycle_scan s db))" by (simp add: recycle_scan_def)
  have "\<forall>x \<in> set (recycle_scan s db). scan_portal x \<noteq> []"
    by (auto simp: recycle_scan_def scan_portal_def text_present_def)
  from fold_segments [OF sorted this, of ?G False "[]"] obtain cur' o' where
    "fold (recycle_step ?G) (recycle_scan s db) ([], False, []) =
      (cur', o', rev (map (\<lambda>(p, xs). portal_state ?G p xs) (segments (recycle_scan s db))))" by auto
  moreover have "map (\<lambda>(p, xs). portal_state ?G p xs) (segments (recycle_scan s db)) =
      map (\<lambda>p. portal_state ?G p (portal_scan s db p)) (scanned_portals s db)"
    unfolding segments_sorted [OF sorted] portals_recycle_scan
    by (simp add: filter_recycle_scan scanned_portals_nonempty)
  ultimately show ?thesis using False by (simp add: classifyRecycleBinPortals_def)
qed

lemma length_takeWhile_ge: "k \<le> length (takeWhile P xs) \<longleftrightarrow> k \<le> length xs \<and> list_all P (take k xs)"
proof (induction xs arbitrary: k)
  case (Cons x xs)
  then show ?case by (cases k) auto
qed simp

lemma LooksDeleted_iff: "LooksDeleted (portal_state G p rows) \<longleftrightarrow> rows \<noteq> [] \<and> list_all (in_bin G) (take 3 rows)"
proof -
  let ?n = "length rows"
  have "recycleBinDeleteThreshold (int ?n) = int (min 3 ?n)" by (simp add: recycleBinDeleteThreshold_def)
  then have "LooksDeleted (portal_state G p rows) \<longleftrightarrow> 0 < min 3 ?n \<and> min 3 ?n \<le> length (takeWhile (in_bin G) rows)"
    by (simp add: LooksDeleted_def portal_state_def)
  also have "\<dots> \<longleftrightarrow> rows \<noteq> [] \<and> list_all (in_bin G) (take (min 3 ?n) rows)"
    by (auto simp: length_takeWhile_ge)
  also have "take (min 3 ?n) rows = take 3 rows" by (simp add: min_def)
  finally show ?thesis .
qed

section \<open>Properties\<close>

text \<open> The single pass over all messages computes, for every portal with a recoverable message and in
  portal order, exactly the state of that portal on its own: its counts, its newest timestamp, whether
  it has live and deleted messages, and the length of the run of recoverable messages at its newest
  end. A portal looks deleted just when its newest three messages (or all, when it has fewer) are
  recoverable, and a portal never looks both deleted and restored.\<close>

lemma recycle_bin_classification:
  "classifyRecycleBinPortals s gs db =
     filter (\<lambda>st. rb_Recoverable st \<noteq> 0)
       (map (\<lambda>p. portal_state (normalizeRecoverableGUIDSet gs) p (portal_scan s db p)) (scanned_portals s db)) \<and>
   (LooksDeleted (portal_state (normalizeRecoverableGUIDSet gs) p (portal_scan s db p)) \<longleftrightarrow>
     portal_scan s db p \<noteq> [] \<and> list_all (in_bin (normalizeRecoverableGUIDSet gs)) (take 3 (portal_scan s db p))) \<and>
   \<not> (LooksDeleted st \<and> LooksRestored st)"
  by (simp add: classify_eq LooksDeleted_iff LooksRestored_def)

end
