(* ===== verification/Cloud_Sync_State.thy ===== *)
theory Cloud_Sync_State
  imports Cloud_Schema
begin

text \<open>
  Continuation tokens of the CloudKit zones and the versions of the sync (\<^verbatim>\<open>cloud_sync_state\<close>,
  \<^verbatim>\<open>cloud_backfill_store.go\<close> 660-828). The rows \<^verbatim>\<open>_version\<close> and \<^verbatim>\<open>_chat_version\<close> keep the two version
  numbers as decimal text in the token column.
\<close>

definition sync_row :: "cloudBackfillStore \<Rightarrow> string \<Rightarrow> cloud_db \<Rightarrow> cloud_sync_state_row option" where
  "sync_row s zone db = lookup sync_key (loginID s, zone) (cloud_sync_state db)"

definition getSyncState :: "cloudBackfillStore \<Rightarrow> string \<Rightarrow> cloud_db \<Rightarrow> string option" where
  "getSyncState s zone db =
     (case sync_row s zone db of None \<Rightarrow> None | Some r \<Rightarrow> z_continuation_token r)"

definition sync_success_merge :: "cloud_sync_state_row \<Rightarrow> cloud_sync_state_row \<Rightarrow> cloud_sync_state_row" where
  "sync_success_merge old new = old\<lparr>
     z_continuation_token := z_continuation_token new,
     z_last_success_ts := z_last_success_ts new,
     z_last_error := None,
     z_updated_ts := z_updated_ts new\<rparr>"

definition setSyncStateSuccess ::
  "cloudBackfillStore \<Rightarrow> millis \<Rightarrow> string \<Rightarrow> string option \<Rightarrow> cloud_db \<Rightarrow> cloud_db" where
  "setSyncStateSuccess s nowMS zone token db =
     db\<lparr>cloud_sync_state := upsert sync_key sync_success_merge
       \<lparr>z_login_id = loginID s, z_zone = zone, z_continuation_token = token,
        z_last_success_ts = Some nowMS, z_last_error = None, z_updated_ts = nowMS\<rparr>
       (cloud_sync_state db)\<rparr>"

definition clearSyncTokens :: "cloudBackfillStore \<Rightarrow> cloud_db \<Rightarrow> cloud_db" where
  "clearSyncTokens s db =
     db\<lparr>cloud_sync_state := delete_where
       (\<lambda>r. z_login_id r = loginID s \<and> z_zone r \<noteq> ''_version'') (cloud_sync_state db)\<rparr>"

definition clearZoneToken :: "cloudBackfillStore \<Rightarrow> string \<Rightarrow> cloud_db \<Rightarrow> cloud_db" where
  "clearZoneToken s zone db =
     db\<lparr>cloud_sync_state := delete_where
       (\<lambda>r. z_login_id r = loginID s \<and> z_zone r = zone) (cloud_sync_state db)\<rparr>"

text \<open>The token of a version row read with \<^verbatim>\<open>Sscanf\<close>; a missing, NULL or malformed one is 0.\<close>

definition version_token :: "cloud_sync_state_row option \<Rightarrow> int" where
  "version_token row = (case row of None \<Rightarrow> 0
     | Some r \<Rightarrow> (case z_continuation_token r of None \<Rightarrow> 0
         | Some t \<Rightarrow> (case sscanf_d t of None \<Rightarrow> 0 | Some v \<Rightarrow> v)))"

definition getSyncVersion :: "cloudBackfillStore \<Rightarrow> cloud_db \<Rightarrow> int" where
  "getSyncVersion s db = version_token (sync_row s ''_version'' db)"

definition sync_version_merge :: "cloud_sync_state_row \<Rightarrow> cloud_sync_state_row \<Rightarrow> cloud_sync_state_row" where
  "sync_version_merge old new = old\<lparr>
     z_continuation_token := z_continuation_token new, z_updated_ts := z_updated_ts new\<rparr>"

definition version_row :: "cloudBackfillStore \<Rightarrow> string \<Rightarrow> millis \<Rightarrow> int \<Rightarrow> cloud_sync_state_row" where
  "version_row s zone nowMS version =
     \<lparr>z_login_id = loginID s, z_zone = zone, z_continuation_token = Some (itoa version),
      z_last_success_ts = None, z_last_error = None, z_updated_ts = nowMS\<rparr>"

definition setSyncVersion :: "cloudBackfillStore \<Rightarrow> millis \<Rightarrow> int \<Rightarrow> cloud_db \<Rightarrow> cloud_db" where
  "setSyncVersion s nowMS version db =
     db\<lparr>cloud_sync_state := upsert sync_key sync_version_merge
       (version_row s ''_version'' nowMS version) (cloud_sync_state db)\<rparr>"

definition getChatSyncVersion :: "cloudBackfillStore \<Rightarrow> cloud_db \<Rightarrow> int" where
  "getChatSyncVersion s db = version_token (sync_row s ''_chat_version'' db)"

definition setChatSyncVersion :: "cloudBackfillStore \<Rightarrow> millis \<Rightarrow> int \<Rightarrow> cloud_db \<Rightarrow> cloud_db" where
  "setChatSyncVersion s nowMS version db =
     db\<lparr>cloud_sync_state := upsert sync_key sync_version_merge
       (version_row s ''_chat_version'' nowMS version) (cloud_sync_state db)\<rparr>"

definition clearAllData :: "cloudBackfillStore \<Rightarrow> cloud_db \<Rightarrow> cloud_db" where
  "clearAllData s db = db\<lparr>
     cloud_sync_state := delete_where (\<lambda>r. z_login_id r = loginID s) (cloud_sync_state db),
     cloud_chat := delete_where (\<lambda>r. c_login_id r = loginID s) (cloud_chat db),
     cloud_message := delete_where (\<lambda>r. m_login_id r = loginID s) (cloud_message db),
     cloud_attachment_cache := delete_where (\<lambda>r. a_login_id r = loginID s) (cloud_attachment_cache db),
     cloud_attachment_dead := delete_where (\<lambda>r. d_login_id r = loginID s) (cloud_attachment_dead db),
     cloud_maintenance := delete_where (\<lambda>r. t_login_id r = loginID s) (cloud_maintenance db)\<rparr>"

definition hasAnySyncState :: "cloudBackfillStore \<Rightarrow> cloud_db \<Rightarrow> bool" where
  "hasAnySyncState s db \<longleftrightarrow> 0 < rows_matching (\<lambda>r. z_login_id r = loginID s) (cloud_sync_state db)"

definition sync_error_merge :: "cloud_sync_state_row \<Rightarrow> cloud_sync_state_row \<Rightarrow> cloud_sync_state_row" where
  "sync_error_merge old new = old\<lparr>
     z_last_error := z_last_error new, z_updated_ts := z_updated_ts new\<rparr>"

definition setSyncStateError ::
  "cloudBackfillStore \<Rightarrow> millis \<Rightarrow> string \<Rightarrow> string \<Rightarrow> cloud_db \<Rightarrow> cloud_db" where
  "setSyncStateError s nowMS zone errMsg db =
     db\<lparr>cloud_sync_state := upsert sync_key sync_error_merge
       \<lparr>z_login_id = loginID s, z_zone = zone, z_continuation_token = None,
        z_last_success_ts = None, z_last_error = Some ''cloudkit_sync_failed'', z_updated_ts = nowMS\<rparr>
       (cloud_sync_state db)\<rparr>"

section \<open>Lemmas\<close>

interpretation sync_success: table_upsert sync_key sync_success_merge
  by unfold_locales (simp add: sync_key_def sync_success_merge_def)

interpretation sync_version: table_upsert sync_key sync_version_merge
  by unfold_locales (simp add: sync_key_def sync_version_merge_def)

interpretation sync_error: table_upsert sync_key sync_error_merge
  by unfold_locales (simp add: sync_key_def sync_error_merge_def)

lemma sync_row_success:
  "sync_row s z (setSyncStateSuccess s now zone token db) =
     (if z = zone then Some (case sync_row s zone db of
          None \<Rightarrow> \<lparr>z_login_id = loginID s, z_zone = zone, z_continuation_token = token,
            z_last_success_ts = Some now, z_last_error = None, z_updated_ts = now\<rparr>
        | Some r \<Rightarrow> r\<lparr>z_continuation_token := token, z_last_success_ts := Some now,
            z_last_error := None, z_updated_ts := now\<rparr>)
      else sync_row s z db)"
  by (simp add: sync_row_def setSyncStateSuccess_def sync_success.lookup_upsert sync_success_merge_def
      sync_key_def split: option.splits)

lemma sync_row_version:
  "sync_row s z (db\<lparr>cloud_sync_state := upsert sync_key sync_version_merge
       (version_row s zone now v) (cloud_sync_state db)\<rparr>) =
     (if z = zone then Some (case sync_row s zone db of
          None \<Rightarrow> version_row s zone now v
        | Some r \<Rightarrow> r\<lparr>z_continuation_token := Some (itoa v), z_updated_ts := now\<rparr>)
      else sync_row s z db)"
  by (simp add: sync_row_def sync_version.lookup_upsert sync_version_merge_def
      sync_key_def version_row_def split: option.splits)

lemma sync_row_error:
  "sync_row s z (setSyncStateError s now zone e db) =
     (if z = zone then Some (case sync_row s zone db of
          None \<Rightarrow> \<lparr>z_login_id = loginID s, z_zone = zone, z_continuation_token = None,
            z_last_success_ts = None, z_last_error = Some ''cloudkit_sync_failed'', z_updated_ts = now\<rparr>
        | Some r \<Rightarrow> r\<lparr>z_last_error := Some ''cloudkit_sync_failed'', z_updated_ts := now\<rparr>)
      else sync_row s z db)"
  by (simp add: sync_row_def setSyncStateError_def sync_error.lookup_upsert sync_error_merge_def
      sync_key_def split: option.splits)

lemma version_token_set:
  assumes "int64_ok v"
  shows "version_token (sync_row s zone (db\<lparr>cloud_sync_state := upsert sync_key sync_version_merge
       (version_row s zone now v) (cloud_sync_state db)\<rparr>)) = v"
  unfolding sync_row_version version_token_def
  by (simp add: version_row_def sscanf_itoa [OF assms] split: option.splits)

lemma set_getSyncState:
  "getSyncState s z (setSyncStateSuccess s now zone token db) =
     (if z = zone then token else getSyncState s z db)"
  by (simp add: getSyncState_def sync_row_success split: option.splits)

lemma getSyncState_empty: "getSyncState s z empty_db = None"
  by (simp add: getSyncState_def sync_row_def lookup_def empty_db_def)

lemma error_getSyncState: "getSyncState s z (setSyncStateError s now zone e db) = getSyncState s z db"
  by (simp add: getSyncState_def sync_row_error split: option.splits)

lemma sync_row_clearSyncTokens:
  "pk_ok db \<Longrightarrow> sync_row s z (clearSyncTokens s db) = (if z = ''_version'' then sync_row s z db else None)"
  by (simp add: sync_row_def clearSyncTokens_def sync_tbl.lookup_delete_where pk_ok_def split: option.splits)
    (auto dest!: sync_tbl.lookup_Some_in simp: sync_key_def)

lemma clear_getSyncState:
  "pk_ok db \<Longrightarrow> getSyncState s z (clearSyncTokens s db) = (if z = ''_version'' then getSyncState s z db else None)"
  by (simp add: getSyncState_def sync_row_clearSyncTokens)

lemma error_class:
  "map_option z_last_error (sync_row s zone (setSyncStateError s now zone e db)) =
     Some (Some ''cloudkit_sync_failed'')"
  by (simp add: sync_row_error split: option.splits)

lemma sync_ops [store_ops]:
  "db_stmt (loginID s) db (setSyncStateSuccess s now zone token db)"
  "db_stmt (loginID s) db (clearSyncTokens s db)"
  "db_stmt (loginID s) db (clearZoneToken s zone db)"
  "db_stmt (loginID s) db (setSyncVersion s now v db)"
  "db_stmt (loginID s) db (setChatSyncVersion s now v db)"
  "db_stmt (loginID s) db (clearAllData s db)"
  "db_stmt (loginID s) db (setSyncStateError s now zone e db)"
  unfolding db_stmt_def setSyncStateSuccess_def clearSyncTokens_def clearZoneToken_def
    setSyncVersion_def setChatSyncVersion_def clearAllData_def setSyncStateError_def
  by (simp; intro conjI stmt_intros;
      simp add: key_defs sync_success_merge_def sync_version_merge_def sync_error_merge_def version_row_def)+

section \<open>Properties\<close>

text \<open> The sync cursor: after a successful page the token of its zone is the one stored and every
  other zone keeps its own; recording an error never moves a token, so the sync resumes where it
  was, and what it stores is the constant class, whatever the error text; clearing the tokens forgets
  every zone but keeps the sync version.\<close>

lemma sync_cursor:
  assumes "pk_ok db"
  shows "getSyncState s z (setSyncStateSuccess s now zone token db) =
      (if z = zone then token else getSyncState s z db) \<and>
    getSyncState s z (setSyncStateError s now zone e db) = getSyncState s z db \<and>
    map_option z_last_error (sync_row s zone (setSyncStateError s now zone e db)) =
      Some (Some ''cloudkit_sync_failed'') \<and>
    getSyncState s z (clearSyncTokens s db) = (if z = ''_version'' then getSyncState s z db else None) \<and>
    getSyncVersion s (clearSyncTokens s db) = getSyncVersion s db"
  using assms
  by (simp add: set_getSyncState error_getSyncState error_class clear_getSyncState getSyncVersion_def
      sync_row_clearSyncTokens)

lemma sync_cursor_witness:
  "getSyncState \<lparr>loginID = ''a'', bridgeFiltered = False\<rparr> ''chatManateeZone''
     (setSyncStateSuccess \<lparr>loginID = ''a'', bridgeFiltered = False\<rparr> 5 ''messageManateeZone'' (Some ''t'') empty_db) = None"
  using sync_cursor [OF pk_ok_empty, THEN conjunct1] by (simp add: getSyncState_empty)

text \<open> The two version numbers are stored and read back exactly, for every 64-bit value, and do not
  disturb each other; clearing the tokens also resets the chat version to 0, which the comment on
  \<^verbatim>\<open>clearSyncTokens\<close> does not say.\<close>

lemma sync_versions:
  assumes "int64_ok v" "pk_ok db"
  shows "getSyncVersion s (setSyncVersion s now v db) = v \<and>
    getChatSyncVersion s (setChatSyncVersion s now v db) = v \<and>
    getChatSyncVersion s (setSyncVersion s now v db) = getChatSyncVersion s db \<and>
    getSyncVersion s (setChatSyncVersion s now v db) = getSyncVersion s db \<and>
    getChatSyncVersion s (clearSyncTokens s db) = 0"
  using assms
  by (simp add: getSyncVersion_def getChatSyncVersion_def setSyncVersion_def setChatSyncVersion_def
      version_token_set)
    (simp add: sync_row_version sync_row_clearSyncTokens version_token_def)

lemma sync_versions_witness:
  "getSyncVersion \<lparr>loginID = ''a'', bridgeFiltered = False\<rparr>
     (setSyncVersion \<lparr>loginID = ''a'', bridgeFiltered = False\<rparr> 5 (- 42) empty_db) = - 42"
  using sync_versions [OF _ pk_ok_empty, of "- 42"] by (simp add: int64_ok_def)

end
