(* ===== verification/Cloud_Chats.thy ===== *)
theory Cloud_Chats
  imports Cloud_Messages
begin

text \<open>
  Chats of the CloudKit cache (\<^verbatim>\<open>cloud_backfill_store.go\<close>): import and deletion of chat records,
  tombstones, the resolution of a CloudKit chat reference to a portal, rosters, names and photos,
  restore overrides, and the forward-backfill flag.
\<close>

section \<open>Import and deletion of chat records\<close>

record cloudChatUpsertRow =
  cu_CloudChatID :: string
  cu_RecordName :: string
  cu_GroupID :: string
  cu_PortalID :: portal_id
  cu_Service :: string
  cu_DisplayName :: "string option"
  cu_GroupPhotoGuid :: "string option"
  cu_ParticipantsJSON :: "string list json_text"
  cu_UpdatedTS :: millis
  cu_IsFiltered :: int

definition chat_newer :: "cloud_chat_row \<Rightarrow> cloud_chat_row \<Rightarrow> bool" where
  "chat_newer old new \<longleftrightarrow>
     (case c_updated_ts new of None \<Rightarrow> False
      | Some t \<Rightarrow> t \<ge> (case c_updated_ts old of None \<Rightarrow> 0 | Some u \<Rightarrow> u))"

text \<open>\<^verbatim>\<open>COALESCE(participants_json, '') IN ('', '[]')\<close>.\<close>

definition roster_blank :: "cloud_chat_row \<Rightarrow> bool" where
  "roster_blank r \<longleftrightarrow> c_participants_json r \<in> {None, Some JEmpty, Some (JDoc [])}"

definition upsert_chat_merge :: "cloud_chat_row \<Rightarrow> cloud_chat_row \<Rightarrow> cloud_chat_row" where
  "upsert_chat_merge old new = old\<lparr>
     c_record_name := c_record_name new,
     c_group_id := c_group_id new,
     c_portal_id := c_portal_id new,
     c_service := c_service new,
     c_display_name := (if chat_newer old new then c_display_name new else c_display_name old),
     c_group_photo_guid := (if chat_newer old new then c_group_photo_guid new else c_group_photo_guid old),
     c_participants_json := (if roster_blank old then c_participants_json new else c_participants_json old),
     c_updated_ts := (if chat_newer old new then c_updated_ts new else c_updated_ts old)\<rparr>"

definition upsertChat ::
  "cloudBackfillStore \<Rightarrow> millis \<Rightarrow> string \<Rightarrow> string \<Rightarrow> string \<Rightarrow> portal_id \<Rightarrow> string \<Rightarrow>
   string option \<Rightarrow> string option \<Rightarrow> string slice \<Rightarrow> millis \<Rightarrow> cloud_db \<Rightarrow> cloud_db" where
  "upsertChat s nowMS cloudChatID recordName groupID portalID service displayName groupPhotoGuid
     participants updatedTS db =
     db\<lparr>cloud_chat := upsert chat_key upsert_chat_merge
       \<lparr>c_login_id = loginID s, c_cloud_chat_id = cloudChatID, c_record_name = recordName,
        c_group_id = groupID, c_portal_id = portalID, c_service = Some service,
        c_display_name = displayName, c_group_photo_guid = groupPhotoGuid,
        c_participants_json = Some (json_marshal participants), c_updated_ts = Some updatedTS,
        c_created_ts = nowMS, c_deleted = False, c_is_filtered = 0, c_fwd_backfill_done = False\<rparr>
       (cloud_chat db)\<rparr>"

definition chat_of_upsert :: "cloudBackfillStore \<Rightarrow> millis \<Rightarrow> cloudChatUpsertRow \<Rightarrow> cloud_chat_row" where
  "chat_of_upsert s nowMS chat =
     \<lparr>c_login_id = loginID s, c_cloud_chat_id = cu_CloudChatID chat, c_record_name = cu_RecordName chat,
      c_group_id = cu_GroupID chat, c_portal_id = cu_PortalID chat, c_service = Some (cu_Service chat),
      c_display_name = cu_DisplayName chat, c_group_photo_guid = cu_GroupPhotoGuid chat,
      c_participants_json = Some (cu_ParticipantsJSON chat), c_updated_ts = Some (cu_UpdatedTS chat),
      c_created_ts = nowMS, c_deleted = False, c_is_filtered = cu_IsFiltered chat,
      c_fwd_backfill_done = False\<rparr>"

definition upsert_chat_batch_merge :: "cloud_chat_row \<Rightarrow> cloud_chat_row \<Rightarrow> cloud_chat_row" where
  "upsert_chat_batch_merge old new = (upsert_chat_merge old new)\<lparr>
     c_is_filtered := c_is_filtered new, c_deleted := c_deleted old\<rparr>"

definition upsertChatBatch :: "cloudBackfillStore \<Rightarrow> millis \<Rightarrow> cloudChatUpsertRow list \<Rightarrow> cloud_db \<Rightarrow> cloud_db" where
  "upsertChatBatch s nowMS chats db =
     (if chats = [] then db
      else db\<lparr>cloud_chat :=
        fold (\<lambda>chat. upsert chat_key upsert_chat_batch_merge (chat_of_upsert s nowMS chat)) chats
          (cloud_chat db)\<rparr>)"

definition deleteChatBatch :: "cloudBackfillStore \<Rightarrow> string list \<Rightarrow> cloud_db \<Rightarrow> cloud_db" where
  "deleteChatBatch s chatIDs db = db\<lparr>cloud_chat :=
     fold (\<lambda>chunk. delete_where (\<lambda>r. c_login_id r = loginID s \<and> c_cloud_chat_id r \<in> set chunk))
       (chunks 500 chatIDs) (cloud_chat db)\<rparr>"

definition lookupPortalIDsByRecordNames ::
  "cloudBackfillStore \<Rightarrow> string list \<Rightarrow> cloud_db \<Rightarrow> (string \<rightharpoonup> portal_id)" where
  "lookupPortalIDsByRecordNames s recordNames db =
     fold (\<lambda>chunk result.
         fold (\<lambda>r result. result(c_record_name r \<mapsto> c_portal_id r))
           (filter (\<lambda>r. c_login_id r = loginID s \<and> c_record_name r \<in> set chunk) (cloud_chat db)) result)
       (chunks 500 recordNames) Map.empty"

text \<open>The clock is read for every slice: \<open>clock i\<close> is its value at slice \<open>i\<close>.\<close>

definition deleteChatsByRecordNames ::
  "cloudBackfillStore \<Rightarrow> (nat \<Rightarrow> millis) \<Rightarrow> string list \<Rightarrow> cloud_db \<Rightarrow> cloud_db" where
  "deleteChatsByRecordNames s clock recordNames db = db\<lparr>cloud_chat :=
     fold (\<lambda>(i, chunk). update_where
         (\<lambda>r. (c_login_id r = loginID s \<and> \<not> c_deleted r) \<and> c_record_name r \<in> set chunk)
         (\<lambda>r. r\<lparr>c_deleted := True, c_updated_ts := Some (clock i)\<rparr>))
       (enumerate 0 (chunks 500 recordNames)) (cloud_chat db)\<rparr>"

definition insertDeletedChatTombstone ::
  "cloudBackfillStore \<Rightarrow> millis \<Rightarrow> string \<Rightarrow> portal_id \<Rightarrow> string \<Rightarrow> string \<Rightarrow> string \<Rightarrow>
   string option \<Rightarrow> string list json_text \<Rightarrow> cloud_db \<Rightarrow> cloud_db" where
  "insertDeletedChatTombstone s nowMS cloudChatID portalID recordName groupID service displayName
     participantsJSON db =
     db\<lparr>cloud_chat := upsert chat_key do_nothing
       \<lparr>c_login_id = loginID s, c_cloud_chat_id = cloudChatID, c_record_name = recordName,
        c_group_id = groupID, c_portal_id = portalID, c_service = Some service,
        c_display_name = displayName, c_group_photo_guid = None,
        c_participants_json = Some participantsJSON, c_updated_ts = Some nowMS,
        c_created_ts = nowMS, c_deleted = True, c_is_filtered = 0, c_fwd_backfill_done = False\<rparr>
       (cloud_chat db)\<rparr>"

section \<open>Which portal a chat reference means\<close>

definition chat_rows :: "cloudBackfillStore \<Rightarrow> (cloud_chat_row \<Rightarrow> bool) \<Rightarrow> cloud_db \<Rightarrow> cloud_chat_row list" where
  "chat_rows s p db = filter (\<lambda>r. c_login_id r = loginID s \<and> p r) (cloud_chat db)"

definition first_chat :: "cloudBackfillStore \<Rightarrow> (cloud_chat_row \<Rightarrow> bool) \<Rightarrow> cloud_db \<Rightarrow> cloud_chat_row option" where
  "first_chat s p db = find (\<lambda>r. c_login_id r = loginID s \<and> p r) (cloud_chat db)"

text \<open>The loop over service prefixes: the first candidate with a row on a non-empty portal.\<close>

fun first_prefixed :: "cloudBackfillStore \<Rightarrow> cloud_db \<Rightarrow> string list \<Rightarrow> string" where
  "first_prefixed s db [] = []"
| "first_prefixed s db (candidate # rest) =
     (case first_chat s (\<lambda>r. c_cloud_chat_id r = candidate \<or> c_record_name r = candidate) db of
        None \<Rightarrow> first_prefixed s db rest
      | Some r \<Rightarrow> if c_portal_id r \<noteq> [] then c_portal_id r else first_prefixed s db rest)"

abbreviation service_prefixes :: "string list" where
  "service_prefixes \<equiv> [''iMessage;-;'', ''any;-;'', ''SMS;-;'']"

lemma index_of_shorter: "index_of s sub = Some i \<Longrightarrow> sub \<noteq> [] \<Longrightarrow> length (drop (i + length sub) s) < length s"
  using index_of_Some [of s sub i] by (cases sub) auto

function getChatPortalID :: "cloudBackfillStore \<Rightarrow> cloud_db \<Rightarrow> string \<Rightarrow> portal_id" where
  "getChatPortalID s db cloudChatID =
     (case first_chat s (\<lambda>r. c_cloud_chat_id r = cloudChatID \<or> c_record_name r = cloudChatID
          \<or> ci_lower_eq (c_group_id r) cloudChatID) db of
        Some r \<Rightarrow> c_portal_id r
      | None \<Rightarrow>
          (case index_of cloudChatID '';-;'' of
             Some i \<Rightarrow>
               (let bareID = drop (i + length '';-;'') cloudChatID;
                    pid = getChatPortalID s db bareID
                in if pid \<noteq> [] then pid
                   else first_prefixed s db
                     (filter (\<lambda>c. c \<noteq> cloudChatID) (map (\<lambda>p. p @ bareID) service_prefixes)))
           | None \<Rightarrow>
               if \<not> contains cloudChatID '';''
               then first_prefixed s db (map (\<lambda>p. p @ cloudChatID) service_prefixes)
               else []))"
  by auto
termination
proof (relation "measure (\<lambda>(s, db, c). length c)", goal_cases)
  case (2 s db cloudChatID i x)
  then show ?case using index_of_shorter [of cloudChatID "'';-;''" i] by simp
qed simp

declare getChatPortalID.simps [simp del]

definition listDeletedPortalIDs :: "cloudBackfillStore \<Rightarrow> cloud_db \<Rightarrow> portal_id list" where
  "listDeletedPortalIDs s db =
     (let rows = chat_rows s (\<lambda>r. c_portal_id r \<noteq> []) db
      in filter (\<lambda>p. (\<exists>r \<in> set rows. c_portal_id r = p \<and> c_deleted r) \<and>
             \<not> (\<exists>r \<in> set rows. c_portal_id r = p \<and> \<not> c_deleted r))
           (dedup (map c_portal_id rows)))"

section \<open>Restore overrides\<close>

definition restore_override_merge :: "restore_override_row \<Rightarrow> restore_override_row \<Rightarrow> restore_override_row" where
  "restore_override_merge old new = old\<lparr>o_updated_ts := o_updated_ts new\<rparr>"

definition setRestoreOverride :: "cloudBackfillStore \<Rightarrow> millis \<Rightarrow> portal_id \<Rightarrow> cloud_db \<Rightarrow> cloud_db" where
  "setRestoreOverride s nowMS portalID db =
     db\<lparr>restore_override := upsert override_key restore_override_merge
       \<lparr>o_login_id = loginID s, o_portal_id = portalID, o_updated_ts = nowMS\<rparr> (restore_override db)\<rparr>"

definition clearRestoreOverride :: "cloudBackfillStore \<Rightarrow> portal_id \<Rightarrow> cloud_db \<Rightarrow> cloud_db" where
  "clearRestoreOverride s portalID db =
     db\<lparr>restore_override := delete_where
       (\<lambda>r. o_login_id r = loginID s \<and> o_portal_id r = portalID) (restore_override db)\<rparr>"

definition hasRestoreOverride :: "cloudBackfillStore \<Rightarrow> portal_id \<Rightarrow> cloud_db \<Rightarrow> bool" where
  "hasRestoreOverride s portalID db \<longleftrightarrow>
     0 < rows_matching (\<lambda>r. o_login_id r = loginID s \<and> o_portal_id r = portalID) (restore_override db)"

definition listRestoreOverrides :: "cloudBackfillStore \<Rightarrow> cloud_db \<Rightarrow> portal_id list" where
  "listRestoreOverrides s db =
     sort (map o_portal_id (filter (\<lambda>r. o_login_id r = loginID s) (restore_override db)))"

section \<open>State of a portal\<close>

definition portalHasChat :: "cloudBackfillStore \<Rightarrow> portal_id \<Rightarrow> cloud_db \<Rightarrow> bool" where
  "portalHasChat s portalID db \<longleftrightarrow> chat_rows s (\<lambda>r. c_portal_id r = portalID \<and> \<not> c_deleted r) db \<noteq> []"

definition portalIsExplicitlyDeleted :: "cloudBackfillStore \<Rightarrow> portal_id \<Rightarrow> cloud_db \<Rightarrow> bool" where
  "portalIsExplicitlyDeleted s portalID db \<longleftrightarrow> chat_rows s (\<lambda>r. c_portal_id r = portalID \<and> c_deleted r) db \<noteq> []"

record softDeletedPortalInfo =
  sd_NewestTS :: millis
  sd_Deleted :: bool

definition getSoftDeletedPortalInfo :: "cloudBackfillStore \<Rightarrow> portal_id \<Rightarrow> cloud_db \<Rightarrow> softDeletedPortalInfo" where
  "getSoftDeletedPortalInfo s portalID db =
     (let chats = chat_rows s (\<lambda>r. c_portal_id r = portalID) db;
          deletedCount = length (filter c_deleted chats);
          liveCount = length (filter (\<lambda>r. \<not> c_deleted r) chats);
          newestChatTS = sql_max (non_null (map c_updated_ts chats));
          newestMessageTS = sql_max (map m_timestamp_ms (filter (\<lambda>r. m_login_id r = loginID s \<and>
             col_eq (m_portal_id r) portalID \<and> m_deleted r) (cloud_message db)));
          ts0 = (case newestMessageTS of None \<Rightarrow> 0 | Some t \<Rightarrow> if t > 0 then t else 0);
          ts1 = (case newestChatTS of None \<Rightarrow> ts0 | Some t \<Rightarrow> if t > ts0 then t else ts0)
      in \<lparr>sd_NewestTS = ts1, sd_Deleted = (deletedCount > 0 \<and> liveCount = 0)\<rparr>)"

definition hasChat :: "cloudBackfillStore \<Rightarrow> string \<Rightarrow> cloud_db \<Rightarrow> bool" where
  "hasChat s cloudChatID db \<longleftrightarrow> chat_rows s (\<lambda>r. c_cloud_chat_id r = cloudChatID) db \<noteq> []"

definition hasChatBatch :: "cloudBackfillStore \<Rightarrow> string list \<Rightarrow> cloud_db \<Rightarrow> string set" where
  "hasChatBatch s chatIDs db =
     fold (\<lambda>chunk existing. existing \<union>
         set (map c_cloud_chat_id (chat_rows s (\<lambda>r. c_cloud_chat_id r \<in> set chunk) db)))
       (chunks 500 chatIDs) {}"

section \<open>Rosters, names, photos\<close>

definition gidSiblingChatWhere :: "string \<Rightarrow> cloud_chat_row \<Rightarrow> bool" where
  "gidSiblingChatWhere uuid r \<longleftrightarrow> ci_lower_eq (c_group_id r) uuid \<or> ci_lower_eq (c_cloud_chat_id r) uuid"

definition gid_uuid :: "portal_id \<Rightarrow> string option" where
  "gid_uuid portalID = (if has_prefix portalID ''gid:'' then Some (trim_prefix portalID ''gid:'') else None)"

definition normalize_roster :: "string list \<Rightarrow> string list" where
  "normalize_roster ps = filter (\<lambda>n. n \<noteq> []) (map normalizeIdentifierForPortalID ps)"

definition roster_row :: "cloudBackfillStore \<Rightarrow> portal_id \<Rightarrow> cloud_db \<Rightarrow> cloud_chat_row option" where
  "roster_row s portalID db =
     (case first_chat s (\<lambda>r. c_portal_id r = portalID \<and> json_present (c_participants_json r)) db of
        Some r \<Rightarrow> Some r
      | None \<Rightarrow> (case gid_uuid portalID of None \<Rightarrow> None
          | Some uuid \<Rightarrow> first_chat s (\<lambda>r. gidSiblingChatWhere uuid r \<and> json_present (c_participants_json r)) db))"

definition getChatParticipantsByPortalID ::
  "cloudBackfillStore \<Rightarrow> portal_id \<Rightarrow> cloud_db \<Rightarrow> store_error + string slice" where
  "getChatParticipantsByPortalID s portalID db =
     (case roster_row s portalID db of
        None \<Rightarrow> Inr None
      | Some r \<Rightarrow> (case json_unmarshal (the (c_participants_json r)) of
          Inl e \<Rightarrow> Inl e
        | Inr participants \<Rightarrow> Inr (Some (normalize_roster participants))))"

definition set_roster :: "string slice \<Rightarrow> millis \<Rightarrow> cloud_chat_row \<Rightarrow> cloud_chat_row" where
  "set_roster participants nowMS r =
     r\<lparr>c_participants_json := Some (json_marshal participants), c_updated_ts := Some nowMS\<rparr>"

definition updateChatParticipants ::
  "cloudBackfillStore \<Rightarrow> millis \<Rightarrow> portal_id \<Rightarrow> string slice \<Rightarrow> cloud_db \<Rightarrow> cloud_db" where
  "updateChatParticipants s nowMS portalID participants db =
     (let p = (\<lambda>r. c_login_id r = loginID s \<and> c_portal_id r = portalID);
          affected = rows_matching p (cloud_chat db);
          chats = update_where p (set_roster participants nowMS) (cloud_chat db)
      in case gid_uuid portalID of
           Some uuid \<Rightarrow>
             if affected = 0
             then db\<lparr>cloud_chat := update_where (\<lambda>r. c_login_id r = loginID s \<and> gidSiblingChatWhere uuid r)
                (set_roster participants nowMS) chats\<rparr>
             else db\<lparr>cloud_chat := chats\<rparr>
         | None \<Rightarrow> db\<lparr>cloud_chat := chats\<rparr>)"

text \<open>The result is the old member count, whether the roster was written, and the database.\<close>

definition syncStoredGroupRoster ::
  "cloudBackfillStore \<Rightarrow> millis \<Rightarrow> portal_id \<Rightarrow> string slice \<Rightarrow> (string \<Rightarrow> bool) option \<Rightarrow> cloud_db \<Rightarrow>
   store_error + nat \<times> bool \<times> cloud_db" where
  "syncStoredGroupRoster s nowMS portalID normalized isSelf db =
     (case getChatParticipantsByPortalID s portalID db of
        Inl e \<Rightarrow> Inl e
      | Inr existing \<Rightarrow>
          if slice_list existing = [] \<or> participantSetsMatch (slice_list existing) (slice_list normalized) isSelf
          then Inr (length (slice_list existing), False, db)
          else Inr (length (slice_list existing), True, updateChatParticipants s nowMS portalID normalized db))"

definition newest_chat :: "cloudBackfillStore \<Rightarrow> (cloud_chat_row \<Rightarrow> bool) \<Rightarrow> cloud_db \<Rightarrow> cloud_chat_row option" where
  "newest_chat s p db =
     (case sort_key (\<lambda>r. desc_null_last (c_updated_ts r)) (chat_rows s p db) of [] \<Rightarrow> None | r # _ \<Rightarrow> Some r)"

definition getDisplayNameByPortalID :: "cloudBackfillStore \<Rightarrow> portal_id \<Rightarrow> cloud_db \<Rightarrow> string" where
  "getDisplayNameByPortalID s portalID db =
     (case newest_chat s (\<lambda>r. c_portal_id r = portalID \<and> text_present (c_display_name r)) db of
        Some r \<Rightarrow> the (c_display_name r)
      | None \<Rightarrow> (case gid_uuid portalID of None \<Rightarrow> []
          | Some uuid \<Rightarrow>
              (case newest_chat s (\<lambda>r. gidSiblingChatWhere uuid r \<and> text_present (c_display_name r)) db of
                 Some r \<Rightarrow> the (c_display_name r) | None \<Rightarrow> [])))"

definition real_chat_id :: "cloud_chat_row \<Rightarrow> bool" where
  "real_chat_id r \<longleftrightarrow> c_cloud_chat_id r \<noteq> [] \<and> \<not> like_prefix (c_cloud_chat_id r) ''synthetic:'' \<and>
     \<not> like_prefix (c_cloud_chat_id r) ''recycle:''"

definition getChatIdentifierByPortalID :: "cloudBackfillStore \<Rightarrow> portal_id \<Rightarrow> cloud_db \<Rightarrow> string" where
  "getChatIdentifierByPortalID s portalID db =
     (case first_chat s (\<lambda>r. c_portal_id r = portalID \<and> real_chat_id r) db of
        None \<Rightarrow> [] | Some r \<Rightarrow> c_cloud_chat_id r)"

definition getRehydrateChatIdentifierByPortalID :: "cloudBackfillStore \<Rightarrow> portal_id \<Rightarrow> cloud_db \<Rightarrow> string" where
  "getRehydrateChatIdentifierByPortalID s portalID db =
     (case sort_key (\<lambda>r. (desc_null_last (c_updated_ts r), c_cloud_chat_id r))
        (chat_rows s (\<lambda>r. c_portal_id r = portalID \<and> real_chat_id r \<and> \<not> c_deleted r \<and>
           (bridgeFiltered s \<or> c_is_filtered r = 0)) db) of
        [] \<Rightarrow> [] | r # _ \<Rightarrow> c_cloud_chat_id r)"

definition getCloudRecordNamesByPortalID :: "cloudBackfillStore \<Rightarrow> portal_id \<Rightarrow> cloud_db \<Rightarrow> string list" where
  "getCloudRecordNamesByPortalID s portalID db =
     map c_record_name (chat_rows s (\<lambda>r. c_portal_id r = portalID \<and> c_record_name r \<noteq> []) db)"

definition getMessageRecordNamesByPortalID :: "cloudBackfillStore \<Rightarrow> portal_id \<Rightarrow> cloud_db \<Rightarrow> string list" where
  "getMessageRecordNamesByPortalID s portalID db =
     map m_record_name (filter (\<lambda>r. m_login_id r = loginID s \<and> col_eq (m_portal_id r) portalID \<and>
       m_record_name r \<noteq> []) (cloud_message db))"

definition getCloudRecordNamesByGroupID :: "cloudBackfillStore \<Rightarrow> string \<Rightarrow> cloud_db \<Rightarrow> string list" where
  "getCloudRecordNamesByGroupID s groupID db =
     map c_record_name (chat_rows s (\<lambda>r. gidSiblingChatWhere groupID r \<and> c_record_name r \<noteq> []) db)"

definition findPortalIDsByGroupID :: "cloudBackfillStore \<Rightarrow> string \<Rightarrow> cloud_db \<Rightarrow> portal_id list" where
  "findPortalIDsByGroupID s groupID db =
     dedup (map c_portal_id (chat_rows s (\<lambda>r. gidSiblingChatWhere groupID r \<and> c_portal_id r \<noteq> []) db))"

definition getGroupIDForPortalID :: "cloudBackfillStore \<Rightarrow> portal_id \<Rightarrow> cloud_db \<Rightarrow> string" where
  "getGroupIDForPortalID s portalID db =
     (case first_chat s (\<lambda>r. c_portal_id r = portalID \<and> c_group_id r \<noteq> []) db of
        Some r \<Rightarrow> c_group_id r
      | None \<Rightarrow> (case gid_uuid portalID of None \<Rightarrow> []
          | Some uuid \<Rightarrow>
              (case first_chat s (\<lambda>r. ci_lower_eq (c_cloud_chat_id r) uuid \<and> c_group_id r \<noteq> []) db of
                 Some r \<Rightarrow> c_group_id r | None \<Rightarrow> [])))"

definition getMessageRecordNamesByGroupID :: "cloudBackfillStore \<Rightarrow> string \<Rightarrow> cloud_db \<Rightarrow> string list" where
  "getMessageRecordNamesByGroupID s groupID db =
     concat (map (\<lambda>m. map (\<lambda>_. m_record_name m)
         (chat_rows s (\<lambda>c. col_eq (m_portal_id m) (c_portal_id c) \<and> ci_lower_eq (c_group_id c) groupID) db))
       (filter (\<lambda>m. m_login_id m = loginID s \<and> m_record_name m \<noteq> []) (cloud_message db)))"

definition gidSiblingPortalIDs :: "cloudBackfillStore \<Rightarrow> string \<Rightarrow> cloud_db \<Rightarrow> portal_id list" where
  "gidSiblingPortalIDs s groupUUID db =
     dedup (map c_portal_id (chat_rows s (\<lambda>r. c_portal_id r \<noteq> [] \<and> gidSiblingChatWhere groupUUID r) db))"

definition getGroupPhotoByPortalID :: "cloudBackfillStore \<Rightarrow> portal_id \<Rightarrow> cloud_db \<Rightarrow> string \<times> string" where
  "getGroupPhotoByPortalID s portalID db =
     (case newest_chat s (\<lambda>r. c_portal_id r = portalID \<and> text_present (c_group_photo_guid r)) db of
        None \<Rightarrow> ([], []) | Some r \<Rightarrow> (the (c_group_photo_guid r), c_record_name r))"

definition clearGroupPhotoGuid :: "cloudBackfillStore \<Rightarrow> portal_id \<Rightarrow> cloud_db \<Rightarrow> cloud_db" where
  "clearGroupPhotoGuid s portalID db = db\<lparr>cloud_chat :=
     update_where (\<lambda>r. c_login_id r = loginID s \<and> c_portal_id r = portalID)
       (\<lambda>r. r\<lparr>c_group_photo_guid := None\<rparr>) (cloud_chat db)\<rparr>"

definition photo_merge :: "group_photo_cache_row \<Rightarrow> group_photo_cache_row \<Rightarrow> group_photo_cache_row" where
  "photo_merge old new = old\<lparr>g_ts := g_ts new, g_data := g_data new\<rparr>"

definition saveGroupPhoto :: "cloudBackfillStore \<Rightarrow> portal_id \<Rightarrow> millis \<Rightarrow> string \<Rightarrow> cloud_db \<Rightarrow> cloud_db" where
  "saveGroupPhoto s portalID ts data db = db\<lparr>group_photo_cache := upsert photo_key photo_merge
     \<lparr>g_login_id = loginID s, g_portal_id = portalID, g_ts = ts, g_data = data\<rparr> (group_photo_cache db)\<rparr>"

definition getGroupPhoto :: "cloudBackfillStore \<Rightarrow> portal_id \<Rightarrow> cloud_db \<Rightarrow> millis \<times> string option" where
  "getGroupPhoto s portalID db =
     (case lookup photo_key (loginID s, portalID) (group_photo_cache db) of
        None \<Rightarrow> (0, None) | Some r \<Rightarrow> (g_ts r, Some (g_data r)))"

definition clearGroupPhoto :: "cloudBackfillStore \<Rightarrow> portal_id \<Rightarrow> cloud_db \<Rightarrow> cloud_db" where
  "clearGroupPhoto s portalID db = db\<lparr>group_photo_cache :=
     delete_where (\<lambda>r. g_login_id r = loginID s \<and> g_portal_id r = portalID) (group_photo_cache db)\<rparr>"

definition updateDisplayNameByPortalID :: "cloudBackfillStore \<Rightarrow> portal_id \<Rightarrow> string \<Rightarrow> cloud_db \<Rightarrow> cloud_db" where
  "updateDisplayNameByPortalID s portalID displayName db = db\<lparr>cloud_chat :=
     update_where (\<lambda>r. c_login_id r = loginID s \<and> c_portal_id r = portalID)
       (\<lambda>r. r\<lparr>c_display_name := Some displayName\<rparr>) (cloud_chat db)\<rparr>"

section \<open>Statements of one login\<close>

interpretation chat_upsert: table_upsert chat_key upsert_chat_merge
  by unfold_locales (simp add: chat_key_def upsert_chat_merge_def)

interpretation chat_batch: table_upsert chat_key upsert_chat_batch_merge
  by unfold_locales (simp add: chat_key_def upsert_chat_batch_merge_def upsert_chat_merge_def)

interpretation chat_tombstone: table_upsert chat_key do_nothing
  by unfold_locales (simp add: do_nothing_def)

interpretation override_upsert: table_upsert override_key restore_override_merge
  by unfold_locales (simp add: override_key_def restore_override_merge_def)

interpretation photo_upsert: table_upsert photo_key photo_merge
  by unfold_locales (simp add: photo_key_def photo_merge_def)

lemma chat_ops [store_ops]:
  "db_stmt (loginID s) db (upsertChat s now cid rn gid pid svc dn gp ps ts db)"
  "db_stmt (loginID s) db (upsertChatBatch s now chats db)"
  "db_stmt (loginID s) db (deleteChatBatch s cids db)"
  "db_stmt (loginID s) db (insertDeletedChatTombstone s now cid pid rn gid svc dn pj db)"
  "db_stmt (loginID s) db (setRestoreOverride s now pid db)"
  "db_stmt (loginID s) db (clearRestoreOverride s pid db)"
  "db_stmt (loginID s) db (clearGroupPhotoGuid s pid db)"
  "db_stmt (loginID s) db (saveGroupPhoto s pid ts data db)"
  "db_stmt (loginID s) db (clearGroupPhoto s pid db)"
  "db_stmt (loginID s) db (updateDisplayNameByPortalID s pid nm db)"
  unfolding db_stmt_def upsertChat_def upsertChatBatch_def deleteChatBatch_def
    insertDeletedChatTombstone_def setRestoreOverride_def clearRestoreOverride_def
    clearGroupPhotoGuid_def saveGroupPhoto_def clearGroupPhoto_def updateDisplayNameByPortalID_def
  by (simp add: stmt_refl; intro conjI impI stmt_intros;
      simp add: key_defs upsert_chat_merge_def upsert_chat_batch_merge_def do_nothing_def
        chat_of_upsert_def restore_override_merge_def photo_merge_def)+

lemma deleteChatsByRecordNames_op [store_ops]:
  "db_stmt (loginID s) db (deleteChatsByRecordNames s clock rns db)"
proof -
  have "stmt c_login_id chat_key (loginID s) rs
      ((case x of (i, chunk) \<Rightarrow> update_where
         (\<lambda>r. (c_login_id r = loginID s \<and> \<not> c_deleted r) \<and> c_record_name r \<in> set chunk)
         (\<lambda>r. r\<lparr>c_deleted := True, c_updated_ts := Some (clock i)\<rparr>)) rs)" for rs x
    by (cases x) (auto simp: key_defs intro!: stmt_update_where)
  then show ?thesis
    by (simp add: db_stmt_def deleteChatsByRecordNames_def stmt_refl stmt_fold)
qed

lemma updateChatParticipants_op [store_ops]:
  "db_stmt (loginID s) db (updateChatParticipants s now pid ps db)"
proof -
  have u: "stmt c_login_id chat_key (loginID s) rs
      (update_where (\<lambda>r. c_login_id r = loginID s \<and> q r) (set_roster ps now) rs)" for q rs
    by (rule stmt_update_where) (simp_all add: set_roster_def key_defs)
  show ?thesis
    using stmt_trans [OF u u] u
    by (simp add: db_stmt_def updateChatParticipants_def Let_def stmt_refl split: option.split)
qed

section \<open>Durability of chat tombstones\<close>

definition chat_tomb_le :: "cloud_chat_row \<Rightarrow> cloud_chat_row \<Rightarrow> bool" where
  "chat_tomb_le r r' \<longleftrightarrow> (c_deleted r \<longrightarrow> c_deleted r')"

interpretation chat_tomb: row_order chat_key chat_tomb_le
  by unfold_locales (auto simp: chat_tomb_le_def)

lemma upsertChatBatch_keeps: "chat_tomb.keeps (cloud_chat db) (cloud_chat (upsertChatBatch s now chats db))"
  by (auto simp: upsertChatBatch_def chat_tomb_le_def chat_key_def upsert_chat_batch_merge_def upsert_chat_merge_def
      chat_tomb.keeps_refl intro!: chat_tomb.keeps_fold chat_tomb.keeps_upsert)

lemma upsertChat_keeps:
  "chat_tomb.keeps (cloud_chat db) (cloud_chat (upsertChat s now cid rn gid pid svc dn gp ps ts db))"
  by (auto simp: upsertChat_def chat_tomb_le_def chat_key_def upsert_chat_merge_def intro!: chat_tomb.keeps_upsert)

lemma in_chat_rows: "r \<in> set (chat_rows s p db) \<longleftrightarrow> r \<in> set (cloud_chat db) \<and> c_login_id r = loginID s \<and> p r"
  by (auto simp: chat_rows_def)

lemma first_chat_Some: "first_chat s p db = Some r \<Longrightarrow> r \<in> set (cloud_chat db) \<and> c_login_id r = loginID s \<and> p r"
  by (auto simp: first_chat_def dest!: find_Some_set)

lemma first_prefixed_row:
  "first_prefixed s db cs \<noteq> [] \<Longrightarrow>
     \<exists>r \<in> set (cloud_chat db). c_login_id r = loginID s \<and> c_portal_id r = first_prefixed s db cs"
  by (induction s db cs rule: first_prefixed.induct)
    (auto split: option.splits if_splits dest!: first_chat_Some)

lemma getChatPortalID_row:
  "getChatPortalID s db c \<noteq> [] \<Longrightarrow>
     \<exists>r \<in> set (cloud_chat db). c_login_id r = loginID s \<and> c_portal_id r = getChatPortalID s db c"
proof (induction s db c rule: getChatPortalID.induct)
  case (1 s db c)
  note IH = "1.IH" and prem = "1.prems"
  show ?case
  proof (cases "first_chat s (\<lambda>r. c_cloud_chat_id r = c \<or> c_record_name r = c \<or> ci_lower_eq (c_group_id r) c) db")
    case (Some r)
    then show ?thesis using first_chat_Some [OF Some] by (subst getChatPortalID.simps) auto
  next
    case None
    show ?thesis
    proof (cases "index_of c '';-;''")
      case (Some i)
      let ?b = "drop (i + length '';-;'') c"
      show ?thesis
      proof (cases "getChatPortalID s db ?b = []")
        case True
        then have "getChatPortalID s db c = first_prefixed s db
            (filter (\<lambda>x. x \<noteq> c) (map (\<lambda>p. p @ ?b) service_prefixes))"
          using None Some by (subst getChatPortalID.simps) (simp add: Let_def)
        with prem show ?thesis by (metis first_prefixed_row)
      next
        case False
        then have "getChatPortalID s db c = getChatPortalID s db ?b"
          using None Some by (subst getChatPortalID.simps) (simp add: Let_def)
        with IH [OF None Some refl] False show ?thesis by simp
      qed
    next
      case no: None
      have "getChatPortalID s db c = (if \<not> contains c '';''
          then first_prefixed s db (map (\<lambda>p. p @ c) service_prefixes) else [])"
        using None no by (subst getChatPortalID.simps) simp
      with prem show ?thesis by (metis first_prefixed_row)
    qed
  qed
qed

lemma chat_reference_prefix:
  assumes "first_chat s (\<lambda>r. c_cloud_chat_id r = x \<or> c_record_name r = x \<or> ci_lower_eq (c_group_id r) x) db = Some r"
    "c_portal_id r \<noteq> []"
    "first_chat s (\<lambda>q. c_cloud_chat_id q = p @ '';-;'' @ x \<or> c_record_name q = p @ '';-;'' @ x
        \<or> ci_lower_eq (c_group_id q) (p @ '';-;'' @ x)) db = None"
    "CHR '';'' \<notin> set p"
  shows "getChatPortalID s db (p @ '';-;'' @ x) = c_portal_id r"
proof -
  have i: "index_of (p @ '';-;'' @ x) '';-;'' = Some (length p)"
    using assms(4) by (induction p) (auto simp: index_of.simps has_prefix_Cons)
  have "getChatPortalID s db x = c_portal_id r"
    using assms(1) by (subst getChatPortalID.simps) simp
  with i assms(2,3) show ?thesis by (subst getChatPortalID.simps) (simp add: Let_def)
qed

section \<open>Rosters\<close>

lemma set_roster_fields [simp]:
  "c_login_id (set_roster ps now r) = c_login_id r" "c_portal_id (set_roster ps now r) = c_portal_id r"
  "gidSiblingChatWhere u (set_roster ps now r) = gidSiblingChatWhere u r"
  "c_participants_json (set_roster ps now r) = Some (json_marshal ps)"
  by (simp_all add: set_roster_def gidSiblingChatWhere_def)

lemma json_present_marshal [simp]: "json_present (Some (json_marshal ps))"
  by (simp add: json_present_def json_marshal_def split: option.splits)

text \<open>After every row that satisfies \<open>q\<close> got the roster, the first such row has it.\<close>

lemma first_roster_updated:
  assumes "\<And>r. q (set_roster ps now r) = q r" "r0 \<in> set (cloud_chat db)" "c_login_id r0 = loginID s" "q r0"
  shows "\<exists>r. first_chat s (\<lambda>r. q r \<and> json_present (c_participants_json r))
      (db\<lparr>cloud_chat := update_where (\<lambda>r. c_login_id r = loginID s \<and> q r) (set_roster ps now) (cloud_chat db)\<rparr>) = Some r \<and>
    c_participants_json r = Some (json_marshal ps)"
proof -
  let ?chats = "update_where (\<lambda>r. c_login_id r = loginID s \<and> q r) (set_roster ps now) (cloud_chat db)"
  let ?P = "\<lambda>r. c_login_id r = loginID s \<and> q r \<and> json_present (c_participants_json r)"
  have mem: "set_roster ps now r0 \<in> set ?chats" 
    unfolding in_update_where using assms(2-4) by (intro bexI [of _ r0]) simp_all
  moreover have "?P (set_roster ps now r0)" using assms(1) [of r0] assms(3,4) by simp
  ultimately obtain r where r: "find ?P ?chats = Some r" using find_exists [of _ ?chats ?P] by blast
  from find_Some_set [OF r] have "r \<in> set ?chats" "c_login_id r = loginID s" "q r" by simp_all
  then have "c_participants_json r = Some (json_marshal ps)"
    unfolding in_update_where by (metis set_roster_fields(4))
  with r show ?thesis by (simp add: first_chat_def)
qed

lemma roster_after_update:
  assumes "roster_row s pid db = Some r0"
  shows "\<exists>r. roster_row s pid (updateChatParticipants s now pid ps db) = Some r \<and>
    c_participants_json r = Some (json_marshal ps)"
proof (cases "\<exists>r \<in> set (cloud_chat db). c_login_id r = loginID s \<and> c_portal_id r = pid")
  case True
  then obtain r1 where r1: "r1 \<in> set (cloud_chat db)" "c_login_id r1 = loginID s" "c_portal_id r1 = pid" by blast
  then have "rows_matching (\<lambda>r. c_login_id r = loginID s \<and> c_portal_id r = pid) (cloud_chat db) \<noteq> 0"
    by (auto simp: rows_matching_0)
  then have upd: "updateChatParticipants s now pid ps db = db\<lparr>cloud_chat :=
      update_where (\<lambda>r. c_login_id r = loginID s \<and> c_portal_id r = pid) (set_roster ps now) (cloud_chat db)\<rparr>"
    by (simp add: updateChatParticipants_def Let_def split: option.splits)
  from first_roster_updated [of "\<lambda>r. c_portal_id r = pid" ps now r1 db s] r1
  show ?thesis unfolding upd roster_row_def by fastforce
next
  case False
  then have none: "first_chat s (\<lambda>r. c_portal_id r = pid \<and> json_present (c_participants_json r)) db = None"
    by (auto simp: first_chat_def find_None_iff)
  with assms obtain uuid where u: "gid_uuid pid = Some uuid"
    and sib: "first_chat s (\<lambda>r. gidSiblingChatWhere uuid r \<and> json_present (c_participants_json r)) db = Some r0"
    by (auto simp: roster_row_def split: option.splits)
  from False have "rows_matching (\<lambda>r. c_login_id r = loginID s \<and> c_portal_id r = pid) (cloud_chat db) = 0"
    and same: "update_where (\<lambda>r. c_login_id r = loginID s \<and> c_portal_id r = pid) (set_roster ps now) (cloud_chat db) = cloud_chat db"
    by (auto simp: rows_matching_0 intro: update_where_none)
  then have upd: "updateChatParticipants s now pid ps db = db\<lparr>cloud_chat :=
      update_where (\<lambda>r. c_login_id r = loginID s \<and> gidSiblingChatWhere uuid r) (set_roster ps now) (cloud_chat db)\<rparr>"
    using u by (simp add: updateChatParticipants_def Let_def)
  have "first_chat s (\<lambda>r. c_portal_id r = pid \<and> json_present (c_participants_json r))
      (updateChatParticipants s now pid ps db) = None"
    using False unfolding upd by (auto simp: first_chat_def find_None_iff in_update_where)
  with first_roster_updated [of "gidSiblingChatWhere uuid" ps now r0 db s] first_chat_Some [OF sib] u
  show ?thesis unfolding upd [symmetric] roster_row_def by (auto simp: upd)
qed

lemma normalize_roster_canonical:
  "(\<And>p. p \<in> set xs \<Longrightarrow> normalizeIdentifierForPortalID p = p \<and> p \<noteq> []) \<Longrightarrow> normalize_roster xs = xs"
  by (induction xs) (auto simp: normalize_roster_def)

lemma participantSetsMatch_refl: "a \<noteq> [] \<Longrightarrow> participantSetsMatch a a isSelf"
  by (cases isSelf) (simp_all add: participantSetsMatch_iff)

lemma getChatParticipants_after_update:
  assumes "roster_row s pid db = Some r0" "\<And>p. p \<in> set xs \<Longrightarrow> normalizeIdentifierForPortalID p = p \<and> p \<noteq> []"
  shows "getChatParticipantsByPortalID s pid (updateChatParticipants s now pid (Some xs) db) = Inr (Some xs)"
  using roster_after_update [OF assms(1), of now "Some xs"] normalize_roster_canonical [OF assms(2)]
  by (auto simp: getChatParticipantsByPortalID_def json_roundtrip slice_list_def)

section \<open>Properties\<close>

text \<open> A chat reference resolves to a portal of this login only: whatever portal comes back is the one
  of some stored chat row of the login. A reference with a service prefix resolves like its bare
  identifier when only the bare one is stored, whatever the service.\<close>

lemma chat_reference_resolution:
  "(getChatPortalID s db c \<noteq> [] \<longrightarrow>
     (\<exists>r \<in> set (cloud_chat db). c_login_id r = loginID s \<and> c_portal_id r = getChatPortalID s db c)) \<and>
   (first_chat s (\<lambda>r. c_cloud_chat_id r = x \<or> c_record_name r = x \<or> ci_lower_eq (c_group_id r) x) db = Some r \<and>
    c_portal_id r \<noteq> [] \<and>
    first_chat s (\<lambda>q. c_cloud_chat_id q = p @ '';-;'' @ x \<or> c_record_name q = p @ '';-;'' @ x
        \<or> ci_lower_eq (c_group_id q) (p @ '';-;'' @ x)) db = None \<and>
    CHR '';'' \<notin> set p \<longrightarrow>
    getChatPortalID s db (p @ '';-;'' @ x) = c_portal_id r)"
  using getChatPortalID_row chat_reference_prefix by blast

text \<open>A chat as the sync stores it.\<close>

definition sample_chat :: "string \<Rightarrow> portal_id \<Rightarrow> string list \<Rightarrow> cloudChatUpsertRow" where
  "sample_chat cid pid ps = \<lparr>cu_CloudChatID = cid, cu_RecordName = ''rec'' @ cid, cu_GroupID = [],
     cu_PortalID = pid, cu_Service = ''iMessage'', cu_DisplayName = None, cu_GroupPhotoGuid = None,
     cu_ParticipantsJSON = JDoc ps, cu_UpdatedTS = 1, cu_IsFiltered = 0\<rparr>"

definition sample_chat_db :: cloud_db where
  "sample_chat_db = upsertChatBatch sample_store 1 [sample_chat ''a@x'' ''mailto:a@x'' [''mailto:a@x'']] empty_db"

lemma chat_reference_resolution_witness:
  "getChatPortalID sample_store sample_chat_db (''SMS'' @ '';-;'' @ ''a@x'') = ''mailto:a@x''"
proof -
  obtain r where "first_chat sample_store (\<lambda>r. c_cloud_chat_id r = ''a@x'' \<or> c_record_name r = ''a@x''
      \<or> ci_lower_eq (c_group_id r) ''a@x'') sample_chat_db = Some r" "c_portal_id r = ''mailto:a@x''"
    by (simp add: first_chat_def sample_chat_db_def upsertChatBatch_def sample_chat_def chat_of_upsert_def
        empty_db_def sample_store_def newCloudBackfillStore_def)
  moreover have "first_chat sample_store (\<lambda>q. c_cloud_chat_id q = ''SMS'' @ '';-;'' @ ''a@x''
      \<or> c_record_name q = ''SMS'' @ '';-;'' @ ''a@x''
      \<or> ci_lower_eq (c_group_id q) (''SMS'' @ '';-;'' @ ''a@x'')) sample_chat_db = None"
    by (simp add: first_chat_def sample_chat_db_def upsertChatBatch_def sample_chat_def chat_of_upsert_def
        empty_db_def sample_store_def newCloudBackfillStore_def ci_lower_eq_def to_lower_def)
  moreover have "CHR '';'' \<notin> set ''SMS''" by simp
  ultimately show ?thesis using chat_reference_resolution [THEN conjunct2] by fastforce
qed

text \<open> A deleted chat stays deleted under the CloudKit import: neither a batch nor a single upsert of
  the same chat record revives it, and the imported metadata never replaces a stored roster; the
  comment on \<^verbatim>\<open>insertDeletedChatTombstone\<close> says the batch sets the flag back.\<close>

lemma chat_tombstone_durable:
  assumes "r \<in> set (cloud_chat db)" "c_deleted r"
  shows "(\<exists>r' \<in> set (cloud_chat (upsertChatBatch s now chats db)). chat_key r' = chat_key r \<and> c_deleted r') \<and>
    (\<exists>r' \<in> set (cloud_chat (upsertChat s now cid rn gid pid svc dn gp ps ts db)). chat_key r' = chat_key r \<and> c_deleted r') \<and>
    (\<not> roster_blank r \<longrightarrow> c_participants_json (upsert_chat_batch_merge r new) = c_participants_json r)"
proof -
  have "\<exists>r' \<in> set (cloud_chat (upsertChatBatch s now chats db)). chat_key r' = chat_key r \<and> c_deleted r'"
    using chat_tomb.keeps_row [OF upsertChatBatch_keeps assms(1)] assms(2) by (auto simp: chat_tomb_le_def)
  moreover have "\<exists>r' \<in> set (cloud_chat (upsertChat s now cid rn gid pid svc dn gp ps ts db)). chat_key r' = chat_key r \<and> c_deleted r'"
    using chat_tomb.keeps_row [OF upsertChat_keeps assms(1)] assms(2) by (auto simp: chat_tomb_le_def)
  ultimately show ?thesis by (simp add: upsert_chat_batch_merge_def upsert_chat_merge_def)
qed

lemma chat_tombstone_durable_witness:
  "\<exists>r' \<in> set (cloud_chat (upsertChatBatch sample_store 3 [sample_chat ''a@x'' ''p'' []]
      (insertDeletedChatTombstone sample_store 2 ''a@x'' ''p'' [] [] ''SMS'' None (JDoc []) empty_db))).
     chat_key r' = (''alice'', ''a@x'') \<and> c_deleted r'"
proof -
  let ?db = "insertDeletedChatTombstone sample_store 2 ''a@x'' ''p'' [] [] ''SMS'' None (JDoc []) empty_db"
  obtain r where "r \<in> set (cloud_chat ?db)" "c_deleted r" "chat_key r = (''alice'', ''a@x'')"
    by (simp add: insertDeletedChatTombstone_def empty_db_def chat_key_def sample_store_def newCloudBackfillStore_def)
  then show ?thesis using chat_tombstone_durable [of r ?db, THEN conjunct1] by metis
qed

text \<open> The self-heal of a group roster: when it reports a write, the stored roster is exactly the given
  one, and running it again writes nothing; when it reports none, the database is untouched. This
  holds for rosters of canonical members, under the portal's own row and under a sibling row.\<close>

lemma roster_self_heal:
  assumes "\<And>p. p \<in> set xs \<Longrightarrow> normalizeIdentifierForPortalID p = p \<and> p \<noteq> []" "xs \<noteq> []"
    and "syncStoredGroupRoster s now pid (Some xs) isSelf db = Inr (n, written, db')"
  shows "(written \<longrightarrow> getChatParticipantsByPortalID s pid db' = Inr (Some xs) \<and>
      syncStoredGroupRoster s later pid (Some xs) isSelf db' = Inr (length xs, False, db')) \<and>
    (\<not> written \<longrightarrow> db' = db)"
proof (cases written)
  case True
  with assms(3) obtain existing where ex: "getChatParticipantsByPortalID s pid db = Inr existing"
    "slice_list existing \<noteq> []" and db': "db' = updateChatParticipants s now pid (Some xs) db"
    by (auto simp: syncStoredGroupRoster_def split: sum.splits if_splits)
  then obtain r0 where "roster_row s pid db = Some r0"
    by (auto simp: getChatParticipantsByPortalID_def slice_list_def split: option.splits)
  from getChatParticipants_after_update [OF this assms(1)] db'
  have got: "getChatParticipantsByPortalID s pid db' = Inr (Some xs)" by simp
  then have "syncStoredGroupRoster s later pid (Some xs) isSelf db' = Inr (length xs, False, db')"
    using assms(2) participantSetsMatch_refl [of xs] by (simp add: syncStoredGroupRoster_def slice_list_def)
  with got True show ?thesis by simp
next
  case False
  with assms(3) show ?thesis by (auto simp: syncStoredGroupRoster_def split: sum.splits if_splits)
qed

lemma roster_self_heal_witness:
  "\<exists>n db'. syncStoredGroupRoster sample_store 5 ''mailto:a@x'' (Some [''mailto:b@x'']) None sample_chat_db = Inr (n, True, db') \<and>
     getChatParticipantsByPortalID sample_store ''mailto:a@x'' db' = Inr (Some [''mailto:b@x''])"
proof -
  have fix_b: "\<And>p. p \<in> set [''mailto:b@x''] \<Longrightarrow> normalizeIdentifierForPortalID p = p \<and> p \<noteq> []"
  proof -
    have "normalizeIdentifierForPortalID ''mailto:b@x'' = ''mailto:b@x''" by code_simp
    then show "\<And>p. p \<in> set [''mailto:b@x''] \<Longrightarrow> normalizeIdentifierForPortalID p = p \<and> p \<noteq> []" by simp
  qed
  have "map_sum id (\<lambda>(n, w, db'). (n, w)) (syncStoredGroupRoster sample_store 5 ''mailto:a@x''
      (Some [''mailto:b@x'']) None sample_chat_db) = Inr (1, True)" by code_simp
  then obtain db' where "syncStoredGroupRoster sample_store 5 ''mailto:a@x'' (Some [''mailto:b@x'']) None sample_chat_db
      = Inr (1, True, db')"
    by (cases "syncStoredGroupRoster sample_store 5 ''mailto:a@x'' (Some [''mailto:b@x'']) None sample_chat_db") auto
  with roster_self_heal [OF fix_b _ this] show ?thesis by blast
qed

end
