(* ===== verification/Cloud_Portals.thy ===== *)
theory Cloud_Portals
  imports Cloud_Chats
begin

text \<open>
  Deletion, revival and re-keying of whole portals in the CloudKit cache
  (\<^verbatim>\<open>cloud_backfill_store.go\<close>), the roster search for duplicate groups, the repair of misrouted group
  messages, and the forward-backfill flag.
\<close>

section \<open>Tombstones and deletion\<close>

definition ensureDeletedChatTombstoneByPortalID ::
  "cloudBackfillStore \<Rightarrow> millis \<Rightarrow> portal_id \<Rightarrow> cloud_db \<Rightarrow> store_error + cloud_db" where
  "ensureDeletedChatTombstoneByPortalID s nowMS portalID db =
     (let ident = getChatIdentifierByPortalID s portalID db;
          chatID = (if ident = [] then ''synthetic:recoverable:'' @ portalID else ident);
          recordName = (case getCloudRecordNamesByPortalID s portalID db of [] \<Rightarrow> [] | n # _ \<Rightarrow> n);
          groupID = (if has_prefix portalID ''gid:'' then trim_prefix portalID ''gid:'' else []);
          displayName = nullif_empty (getDisplayNameByPortalID s portalID db)
      in case getChatParticipantsByPortalID s portalID db of
           Inl e \<Rightarrow> Inl e
         | Inr stored \<Rightarrow>
             let participants =
                   (if slice_list stored = [] \<and> \<not> has_prefix portalID ''gid:'' \<and> \<not> contains portalID '',''
                    then Some [portalID] else stored);
                 service = (if has_prefix chatID ''SMS'' then ''SMS'' else ''iMessage'')
             in Inr (insertDeletedChatTombstone s nowMS chatID portalID recordName groupID service
                  displayName (json_marshal participants) db))"

definition chat_deleted_at :: "millis \<Rightarrow> cloud_chat_row \<Rightarrow> cloud_chat_row" where
  "chat_deleted_at nowMS r = r\<lparr>c_deleted := True, c_updated_ts := Some nowMS\<rparr>"

definition message_deleted_at :: "millis \<Rightarrow> cloud_message_row \<Rightarrow> cloud_message_row" where
  "message_deleted_at nowMS r = (scrub_body r)\<lparr>m_deleted := True, m_updated_ts := nowMS\<rparr>"

definition deleteLocalChatByPortalID :: "cloudBackfillStore \<Rightarrow> millis \<Rightarrow> portal_id \<Rightarrow> cloud_db \<Rightarrow> cloud_db" where
  "deleteLocalChatByPortalID s nowMS portalID db =
     (let chats = update_where (\<lambda>r. c_login_id r = loginID s \<and> c_portal_id r = portalID \<and> \<not> c_deleted r)
            (chat_deleted_at nowMS) (cloud_chat db);
          msgs = update_where (\<lambda>r. m_login_id r = loginID s \<and> col_eq (m_portal_id r) portalID \<and> \<not> m_deleted r)
            (message_deleted_at nowMS) (cloud_message db)
      in case gid_uuid portalID of
           None \<Rightarrow> db\<lparr>cloud_chat := chats, cloud_message := msgs\<rparr>
         | Some uuid \<Rightarrow>
             let chats' = update_where (\<lambda>r. c_login_id r = loginID s \<and> gidSiblingChatWhere uuid r \<and> \<not> c_deleted r)
                   (chat_deleted_at nowMS) chats;
                 siblings = map c_portal_id (filter (\<lambda>r. c_login_id r = loginID s \<and> gidSiblingChatWhere uuid r) chats');
                 msgs' = update_where (\<lambda>r. m_login_id r = loginID s \<and> \<not> m_deleted r \<and>
                     m_portal_id r \<in> set (map Some siblings)) (message_deleted_at nowMS) msgs
             in db\<lparr>cloud_chat := chats', cloud_message := msgs'\<rparr>)"

text \<open>\<open>clock i\<close> is the time the \<open>i\<close>-th portal is deleted at.\<close>

definition deleteLocalChatByGroupID :: "cloudBackfillStore \<Rightarrow> (nat \<Rightarrow> millis) \<Rightarrow> string \<Rightarrow> cloud_db \<Rightarrow> cloud_db" where
  "deleteLocalChatByGroupID s clock groupID db =
     fold (\<lambda>(i, pid). deleteLocalChatByPortalID s (clock i) pid)
       (enumerate 0 (findPortalIDsByGroupID s groupID db)) db"

definition undeleteCloudChatByPortalID :: "cloudBackfillStore \<Rightarrow> millis \<Rightarrow> portal_id \<Rightarrow> cloud_db \<Rightarrow> cloud_db" where
  "undeleteCloudChatByPortalID s nowMS portalID db = db\<lparr>cloud_chat :=
     update_where (\<lambda>r. c_login_id r = loginID s \<and> c_portal_id r = portalID \<and> c_deleted r)
       (\<lambda>r. r\<lparr>c_deleted := False, c_updated_ts := Some nowMS, c_fwd_backfill_done := False\<rparr>) (cloud_chat db)\<rparr>"

definition hardDeleteMessagesByPortalID :: "cloudBackfillStore \<Rightarrow> portal_id \<Rightarrow> cloud_db \<Rightarrow> nat \<times> cloud_db" where
  "hardDeleteMessagesByPortalID s portalID db =
     (let p = (\<lambda>r. m_login_id r = loginID s \<and> col_eq (m_portal_id r) portalID)
      in (rows_matching p (cloud_message db), db\<lparr>cloud_message := delete_where p (cloud_message db)\<rparr>))"

definition resetForwardBackfillDone :: "cloudBackfillStore \<Rightarrow> portal_id \<Rightarrow> cloud_db \<Rightarrow> cloud_db" where
  "resetForwardBackfillDone s portalID db = db\<lparr>cloud_chat :=
     update_where (\<lambda>r. c_login_id r = loginID s \<and> c_portal_id r = portalID)
       (\<lambda>r. r\<lparr>c_fwd_backfill_done := False\<rparr>) (cloud_chat db)\<rparr>"

definition undeleteCloudMessagesByPortalID :: "cloudBackfillStore \<Rightarrow> millis \<Rightarrow> portal_id \<Rightarrow> cloud_db \<Rightarrow> nat \<times> cloud_db" where
  "undeleteCloudMessagesByPortalID s nowMS portalID db =
     (let chats = update_where (\<lambda>r. c_login_id r = loginID s \<and> c_portal_id r = portalID \<and> c_deleted r)
            (\<lambda>r. r\<lparr>c_deleted := False, c_updated_ts := Some nowMS\<rparr>) (cloud_chat db);
          chats' = update_where (\<lambda>r. c_login_id r = loginID s \<and> c_portal_id r = portalID)
            (\<lambda>r. r\<lparr>c_fwd_backfill_done := False\<rparr>) chats;
          p = (\<lambda>r. m_login_id r = loginID s \<and> col_eq (m_portal_id r) portalID \<and> m_deleted r \<and> \<not> m_message_deleted r)
      in (rows_matching p (cloud_message db),
          db\<lparr>cloud_chat := chats', cloud_message := update_where p
            (\<lambda>r. r\<lparr>m_deleted := False, m_updated_ts := nowMS\<rparr>) (cloud_message db)\<rparr>))"

definition undeleteRecycleBinMessages ::
  "cloudBackfillStore \<Rightarrow> millis \<Rightarrow> portal_id \<Rightarrow> guid list \<Rightarrow> cloud_db \<Rightarrow> nat \<times> cloud_db" where
  "undeleteRecycleBinMessages s nowMS portalID guids db =
     fold (\<lambda>chunk (restored, db).
         let p = (\<lambda>r. m_login_id r = loginID s \<and> col_eq (m_portal_id r) portalID \<and> m_guid r \<in> set chunk \<and>
               m_deleted r \<and> \<not> m_message_deleted r)
         in (restored + rows_matching p (cloud_message db),
             db\<lparr>cloud_message := update_where p (\<lambda>r. r\<lparr>m_deleted := False, m_updated_ts := nowMS\<rparr>)
               (cloud_message db)\<rparr>))
       (chunks 500 guids) (0, db)"

definition clearBodyScrubByPortalID :: "cloudBackfillStore \<Rightarrow> millis \<Rightarrow> portal_id \<Rightarrow> cloud_db \<Rightarrow> nat \<times> cloud_db" where
  "clearBodyScrubByPortalID s nowMS portalID db =
     (let p = (\<lambda>r. m_login_id r = loginID s \<and> col_eq (m_portal_id r) portalID \<and> m_body_scrubbed r \<and>
            \<not> m_message_deleted r)
      in (rows_matching p (cloud_message db),
          db\<lparr>cloud_message := update_where p (\<lambda>r. r\<lparr>m_body_scrubbed := False, m_updated_ts := nowMS\<rparr>)
            (cloud_message db)\<rparr>))"

definition clearAllBodyScrub :: "cloudBackfillStore \<Rightarrow> millis \<Rightarrow> cloud_db \<Rightarrow> nat \<times> cloud_db" where
  "clearAllBodyScrub s nowMS db =
     (let p = (\<lambda>r. m_login_id r = loginID s \<and> m_body_scrubbed r \<and> \<not> m_deleted r)
      in (rows_matching p (cloud_message db),
          db\<lparr>cloud_message := update_where p (\<lambda>r. r\<lparr>m_body_scrubbed := False, m_updated_ts := nowMS\<rparr>)
            (cloud_message db)\<rparr>))"

definition seed_chat_merge :: "cloud_chat_row \<Rightarrow> cloud_chat_row \<Rightarrow> cloud_chat_row" where
  "seed_chat_merge old new = old\<lparr>
     c_portal_id := c_portal_id new,
     c_display_name := coalesce (c_display_name new) (c_display_name old),
     c_group_photo_guid := coalesce (c_group_photo_guid new) (c_group_photo_guid old),
     c_participants_json := (if roster_blank old then c_participants_json new else c_participants_json old),
     c_deleted := False,
     c_updated_ts := c_updated_ts new\<rparr>"

definition seedChatFromRecycleBin ::
  "cloudBackfillStore \<Rightarrow> millis \<Rightarrow> portal_id \<Rightarrow> string \<Rightarrow> string \<Rightarrow> string \<Rightarrow> string \<Rightarrow> string list \<Rightarrow> cloud_db \<Rightarrow> cloud_db" where
  "seedChatFromRecycleBin s nowMS portalID chatID groupID displayName groupPhotoGuid participants db =
     db\<lparr>cloud_chat := upsert chat_key seed_chat_merge
       \<lparr>c_login_id = loginID s, c_cloud_chat_id = (if chatID = [] then ''recycle:'' @ portalID else chatID),
        c_record_name = [], c_group_id = groupID, c_portal_id = portalID, c_service = None,
        c_display_name = nullif_empty displayName, c_group_photo_guid = nullif_empty groupPhotoGuid,
        c_participants_json = Some (JDoc participants), c_updated_ts = Some nowMS, c_created_ts = nowMS,
        c_deleted = False, c_is_filtered = 0, c_fwd_backfill_done = False\<rparr> (cloud_chat db)\<rparr>"

text \<open>Messages of a portal the cache holds nothing of are seeded from the recycle bin, by a statement of
  \<^verbatim>\<open>recoverMessagesFromRecycleBin\<close> (\<^verbatim>\<open>client.go\<close>). A message deleted on its own stays deleted.\<close>

definition seed_message_merge :: "cloud_message_row \<Rightarrow> cloud_message_row \<Rightarrow> cloud_message_row" where
  "seed_message_merge old new = old\<lparr>m_deleted := m_message_deleted old, m_portal_id := m_portal_id new\<rparr>"

definition seedMessageFromRecycleBin ::
  "cloudBackfillStore \<Rightarrow> millis \<Rightarrow> portal_id \<Rightarrow> guid \<Rightarrow> string \<Rightarrow> millis \<Rightarrow> string \<Rightarrow> bool \<Rightarrow> string \<Rightarrow> string \<Rightarrow> cloud_db \<Rightarrow> cloud_db" where
  "seedMessageFromRecycleBin s nowMS portalID guid cloudChatID timestampMS sender isFromMe service recordName db =
     db\<lparr>cloud_message := upsert message_key seed_message_merge
       ((default_message (loginID s) guid (Some portalID) timestampMS isFromMe nowMS)
          \<lparr>m_chat_id := Some cloudChatID, m_sender := Some sender, m_service := Some service, m_record_name := recordName\<rparr>)
       (cloud_message db)\<rparr>"

section \<open>Re-keying\<close>

definition reKeyPortalID :: "cloudBackfillStore \<Rightarrow> millis \<Rightarrow> portal_id \<Rightarrow> portal_id \<Rightarrow> cloud_db \<Rightarrow> cloud_db" where
  "reKeyPortalID s nowMS oldPortalID newPortalID db =
     (if oldPortalID = [] \<or> newPortalID = [] \<or> oldPortalID = newPortalID then db
      else db\<lparr>
        cloud_chat := update_where (\<lambda>r. c_login_id r = loginID s \<and> c_portal_id r = oldPortalID)
          (\<lambda>r. r\<lparr>c_portal_id := newPortalID, c_fwd_backfill_done := False, c_updated_ts := Some nowMS\<rparr>) (cloud_chat db),
        cloud_message := update_where (\<lambda>r. m_login_id r = loginID s \<and> col_eq (m_portal_id r) oldPortalID)
          (\<lambda>r. r\<lparr>m_portal_id := Some newPortalID, m_updated_ts := nowMS\<rparr>) (cloud_message db)\<rparr>)"

definition normalizeGroupChatPortalIDs :: "cloudBackfillStore \<Rightarrow> cloud_db \<Rightarrow> nat \<times> cloud_db" where
  "normalizeGroupChatPortalIDs s db =
     (let p = (\<lambda>r. c_login_id r = loginID s \<and> c_group_id r \<noteq> [] \<and> like_prefix (c_portal_id r) ''gid:'' \<and>
            to_lower (drop 4 (c_portal_id r)) \<noteq> to_lower (c_group_id r))
      in (rows_matching p (cloud_chat db),
          db\<lparr>cloud_chat := update_where p (\<lambda>r. r\<lparr>c_portal_id := ''gid:'' @ to_lower (c_group_id r)\<rparr>) (cloud_chat db)\<rparr>))"

text \<open>Portals by lower-cased group and chat identifier, in the order of the query.\<close>

definition canonical_portals :: "cloudBackfillStore \<Rightarrow> cloud_db \<Rightarrow> string \<Rightarrow> portal_id list" where
  "canonical_portals s db key =
     concat (map (\<lambda>r. map (\<lambda>_. c_portal_id r)
         (filter (\<lambda>k. k \<noteq> [] \<and> k = key) [to_lower (c_group_id r), to_lower (c_cloud_chat_id r)]))
       (sort_key (\<lambda>r. (c_portal_id r, c_cloud_chat_id r)) (chat_rows s (\<lambda>r. c_portal_id r \<noteq> []) db)))"

definition portal_moves :: "cloudBackfillStore \<Rightarrow> cloud_db \<Rightarrow> (portal_id \<rightharpoonup> portal_id)" where
  "portal_moves s db =
     map_of (concat (map (\<lambda>p. case find (\<lambda>target. target \<noteq> p) (canonical_portals s db (to_lower (trim_prefix p ''gid:''))) of
           None \<Rightarrow> [] | Some target \<Rightarrow> [(p, target)])
       (dedup (non_null (map m_portal_id (filter (\<lambda>r. m_login_id r = loginID s \<and>
          (case m_portal_id r of None \<Rightarrow> False | Some p \<Rightarrow> has_prefix p ''gid:'')) (cloud_message db)))))))"

definition normalizeGroupMessagePortalIDs :: "cloudBackfillStore \<Rightarrow> cloud_db \<Rightarrow> nat \<times> cloud_db" where
  "normalizeGroupMessagePortalIDs s db =
     (let moves = portal_moves s db;
          moved = (\<lambda>r. m_login_id r = loginID s \<and> (case m_portal_id r of None \<Rightarrow> False | Some p \<Rightarrow> moves p \<noteq> None))
      in (rows_matching moved (cloud_message db),
          db\<lparr>cloud_message := update_where moved
            (\<lambda>r. r\<lparr>m_portal_id := moves (the (m_portal_id r))\<rparr>) (cloud_message db)\<rparr>))"

text \<open>\<^verbatim>\<open>SUBSTR(chat_id, INSTR(chat_id, ';+;') + 3)\<close>, for a chat id with that separator.\<close>

definition group_suffix :: "cloud_message_row \<Rightarrow> string option" where
  "group_suffix m = (case m_chat_id m of None \<Rightarrow> None
     | Some c \<Rightarrow> (case index_of c '';+;'' of None \<Rightarrow> None | Some i \<Rightarrow> Some (drop (i + 3) c)))"

definition heal_target :: "cloudBackfillStore \<Rightarrow> cloud_db \<Rightarrow> cloud_message_row \<Rightarrow> cloud_chat_row option" where
  "heal_target s db m =
     (case (group_suffix m, m_portal_id m) of
        (Some suffix, Some portal) \<Rightarrow>
          first_chat s (\<lambda>cc. ((c_cloud_chat_id cc \<noteq> [] \<and> to_lower (c_cloud_chat_id cc) = to_lower suffix) \<or>
              (like_prefix (c_portal_id cc) ''gid:'' \<and> to_lower (drop 4 (c_portal_id cc)) = to_lower suffix)) \<and>
            portal \<noteq> c_portal_id cc \<and> c_portal_id cc \<noteq> []) db
      | _ \<Rightarrow> None)"

definition healMisroutedGroupMessages :: "cloudBackfillStore \<Rightarrow> millis \<Rightarrow> cloud_db \<Rightarrow> nat \<times> cloud_db" where
  "healMisroutedGroupMessages s now db =
     (let p = (\<lambda>m. m_login_id m = loginID s \<and> heal_target s db m \<noteq> None);
          n = rows_matching p (cloud_message db);
          msgs = update_where p (\<lambda>m. m\<lparr>m_portal_id := map_option c_portal_id (heal_target s db m),
            m_updated_ts := now\<rparr>) (cloud_message db);
          chats = (if n > 0
             then update_where (\<lambda>r. c_login_id r = loginID s \<and> \<not> c_deleted r \<and>
                 \<not> like_prefix (c_portal_id r) ''gid:'' \<and> c_portal_id r \<noteq> [] \<and>
                 \<not> (\<exists>m \<in> set msgs. m_login_id m = loginID s \<and> col_eq (m_portal_id m) (c_portal_id r) \<and> \<not> m_deleted m))
               (chat_deleted_at now) (cloud_chat db)
             else cloud_chat db)
      in (n, db\<lparr>cloud_chat := chats, cloud_message := msgs\<rparr>))"

section \<open>Rosters across portals\<close>

record carrierGroupChatRow =
  cg_portalID :: portal_id
  cg_participants :: "string list"

definition sql_trim :: "string \<Rightarrow> string" where
  "sql_trim t = rev (dropWhile (\<lambda>c. c = CHR '' '') (rev (dropWhile (\<lambda>c. c = CHR '' '') t)))"

fun carrier_rows :: "portal_id list \<Rightarrow> (portal_id \<times> string list json_text) list \<Rightarrow> carrierGroupChatRow list" where
  "carrier_rows seen [] = []"
| "carrier_rows seen ((portalID, j) # rest) =
     (if portalID \<in> set seen then carrier_rows seen rest
      else case json_unmarshal j of
        Inl _ \<Rightarrow> carrier_rows seen rest
      | Inr raw \<Rightarrow>
          if normalize_roster raw = [] then carrier_rows seen rest
          else \<lparr>cg_portalID = portalID, cg_participants = normalize_roster raw\<rparr> # carrier_rows (portalID # seen) rest)"

definition listCarrierGroupChats :: "cloudBackfillStore \<Rightarrow> cloud_db \<Rightarrow> carrierGroupChatRow list" where
  "listCarrierGroupChats s db =
     carrier_rows [] (dedup (map (\<lambda>r. (c_portal_id r, the (c_participants_json r)))
       (chat_rows s (\<lambda>r. (case c_service r of None \<Rightarrow> False
            | Some v \<Rightarrow> to_upper (sql_trim v) \<in> set [''SMS'', ''RCS'', ''MMS'']) \<and> \<not> c_deleted r \<and>
          c_portal_id r \<noteq> [] \<and> json_present (c_participants_json r) \<and>
          (like_prefix (c_portal_id r) ''gid:'' \<or> contains (c_portal_id r) '','')) db)))"

fun match_rosters ::
  "string list \<Rightarrow> (string \<Rightarrow> bool) option \<Rightarrow> portal_id list \<Rightarrow> (portal_id \<times> string list json_text option) list \<Rightarrow>
   store_error + portal_id list" where
  "match_rosters target isSelf seen [] = Inr []"
| "match_rosters target isSelf seen ((portalID, None) # rest) = Inl ScanNull"
| "match_rosters target isSelf seen ((portalID, Some j) # rest) =
     (if portalID \<in> set seen then match_rosters target isSelf seen rest
      else case json_unmarshal j of
        Inl _ \<Rightarrow> match_rosters target isSelf seen rest
      | Inr participants \<Rightarrow>
          if participantSetsMatch (normalize_roster participants) target isSelf
          then map_sum id (\<lambda>ps. portalID # ps) (match_rosters target isSelf (portalID # seen) rest)
          else match_rosters target isSelf seen rest)"

definition findPortalIDsByParticipants ::
  "cloudBackfillStore \<Rightarrow> string list \<Rightarrow> (string \<Rightarrow> bool) option \<Rightarrow> cloud_db \<Rightarrow> store_error + portal_id list" where
  "findPortalIDsByParticipants s normalizedTarget isSelf db =
     match_rosters normalizedTarget isSelf []
       (dedup (map (\<lambda>r. (c_portal_id r, c_participants_json r))
         (chat_rows s (\<lambda>r. c_portal_id r \<noteq> [] \<and> \<not> c_deleted r) db)))"

section \<open>Deleted messages in a scope of portals\<close>

definition uniqueStrings :: "string list \<Rightarrow> string list" where
  "uniqueStrings values = dedup (filter (\<lambda>v. v \<noteq> []) values)"

definition delete_scope :: "cloudBackfillStore \<Rightarrow> portal_id list \<Rightarrow> cloud_db \<Rightarrow> portal_id list" where
  "delete_scope s portalIDs db =
     uniqueStrings (portalIDs @ concat (map (\<lambda>p. case gid_uuid p of None \<Rightarrow> []
       | Some uuid \<Rightarrow> gidSiblingPortalIDs s uuid db) portalIDs))"

definition deletedMessageGUIDsInPortals ::
  "cloudBackfillStore \<Rightarrow> portal_id list \<Rightarrow> guid list \<Rightarrow> cloud_db \<Rightarrow> guid set" where
  "deletedMessageGUIDsInPortals s portalIDs guids db =
     (let scope = delete_scope s portalIDs db
      in fold (\<lambda>chunk deleted. deleted \<union>
           set (map (\<lambda>r. to_upper (m_guid r)) (filter (\<lambda>r. m_login_id r = loginID s \<and> m_message_deleted r \<and> m_deleted r \<and>
             (\<not> text_present (m_portal_id r) \<or> m_portal_id r \<in> set (map Some scope)) \<and>
             to_upper (m_guid r) \<in> set (map to_upper chunk)) (cloud_message db))))
         (chunks 500 guids) {})"

section \<open>Forward backfill\<close>

definition markForwardBackfillDone :: "cloudBackfillStore \<Rightarrow> millis \<Rightarrow> portal_id \<Rightarrow> cloud_db \<Rightarrow> cloud_db" where
  "markForwardBackfillDone s nowMS portalID db =
     (let p = (\<lambda>r. c_login_id r = loginID s \<and> c_portal_id r = portalID);
          chats = update_where p (\<lambda>r. r\<lparr>c_fwd_backfill_done := True\<rparr>) (cloud_chat db)
      in if rows_matching p (cloud_chat db) = 0
         then db\<lparr>cloud_chat := upsert chat_key do_nothing
           \<lparr>c_login_id = loginID s, c_cloud_chat_id = ''synthetic:'' @ portalID, c_record_name = [],
            c_group_id = [], c_portal_id = portalID, c_service = None, c_display_name = None,
            c_group_photo_guid = None, c_participants_json = None, c_updated_ts = None,
            c_created_ts = nowMS, c_deleted = False, c_is_filtered = 0, c_fwd_backfill_done = True\<rparr> chats\<rparr>
         else db\<lparr>cloud_chat := chats\<rparr>)"

definition isForwardBackfillDone :: "cloudBackfillStore \<Rightarrow> portal_id \<Rightarrow> cloud_db \<Rightarrow> bool" where
  "isForwardBackfillDone s portalID db \<longleftrightarrow>
     chat_rows s (\<lambda>r. c_portal_id r = portalID \<and> c_fwd_backfill_done r) db \<noteq> []"

definition getForwardBackfillDonePortals :: "cloudBackfillStore \<Rightarrow> cloud_db \<Rightarrow> portal_id set" where
  "getForwardBackfillDonePortals s db = set (map c_portal_id (chat_rows s c_fwd_backfill_done db))"

section \<open>The record a restore uploads\<close>

record cloudChatRecord =
  cr_RecordName :: string
  cr_ChatIdentifier :: string
  cr_GroupID :: string
  cr_Style :: int
  cr_Service :: string
  cr_DisplayName :: "string option"
  cr_Participants :: "string list"

datatype record_error = NoRows | NullColumn

definition getCloudChatRecordByPortalID ::
  "cloudBackfillStore \<Rightarrow> portal_id \<Rightarrow> cloud_db \<Rightarrow> record_error + cloudChatRecord" where
  "getCloudChatRecordByPortalID s portalID db =
     (case first_chat s (\<lambda>r. c_portal_id r = portalID \<and> c_record_name r \<noteq> []) db of
        None \<Rightarrow> Inl NoRows
      | Some r \<Rightarrow>
          (case (c_service r, c_participants_json r) of
             (Some service, Some j) \<Rightarrow> Inr
               \<lparr>cr_RecordName = c_record_name r, cr_ChatIdentifier = c_cloud_chat_id r, cr_GroupID = c_group_id r,
                cr_Style = (if has_prefix portalID ''gid:'' then 43 else 45), cr_Service = service,
                cr_DisplayName = (if text_present (c_display_name r) then c_display_name r else None),
                cr_Participants = (case json_unmarshal j of Inl _ \<Rightarrow> [] | Inr ps \<Rightarrow> ps)\<rparr>
           | _ \<Rightarrow> Inl NullColumn))"

section \<open>Statements of one login\<close>

interpretation chat_seed: table_upsert chat_key seed_chat_merge
  by unfold_locales (simp add: chat_key_def seed_chat_merge_def)

lemma deleted_at_fields [simp]:
  "c_login_id (chat_deleted_at now r) = c_login_id r" "c_portal_id (chat_deleted_at now r) = c_portal_id r"
  "chat_key (chat_deleted_at now r) = chat_key r" "c_deleted (chat_deleted_at now r)"
  "gidSiblingChatWhere u (chat_deleted_at now r) = gidSiblingChatWhere u r"
  "m_login_id (message_deleted_at now m) = m_login_id m" "m_portal_id (message_deleted_at now m) = m_portal_id m"
  "message_key (message_deleted_at now m) = message_key m" "m_deleted (message_deleted_at now m)"
  "m_message_deleted (message_deleted_at now m) = m_message_deleted m" "body_gone (message_deleted_at now m)"
  by (simp_all add: chat_deleted_at_def message_deleted_at_def scrub_body_def chat_key_def message_key_def
      gidSiblingChatWhere_def body_gone_def)

lemma deleteLocalChatByPortalID_op [store_ops]:
  "db_stmt (loginID s) db (deleteLocalChatByPortalID s now pid db)"
proof -
  have c: "stmt c_login_id chat_key (loginID s) rs (update_where (\<lambda>r. c_login_id r = loginID s \<and> q r) (chat_deleted_at now) rs)" for q rs
    by (rule stmt_update_where) simp_all
  have m: "stmt m_login_id message_key (loginID s) rs (update_where (\<lambda>r. m_login_id r = loginID s \<and> q r) (message_deleted_at now) rs)" for q rs
    by (rule stmt_update_where) simp_all
  show ?thesis
    using stmt_trans [OF c c] stmt_trans [OF m m] c m
    by (simp add: db_stmt_def deleteLocalChatByPortalID_def Let_def stmt_refl split: option.split)
qed

lemma db_stmt_fold: "(\<And>x db. db_stmt l db (f x db)) \<Longrightarrow> db_stmt l db (fold f xs db)"
proof (induction xs arbitrary: db)
  case (Cons x xs)
  show ?case using db_stmt_trans [OF Cons.prems Cons.IH [OF Cons.prems]] by simp
qed simp

lemma deleteLocalChatByGroupID_op [store_ops]:
  "db_stmt (loginID s) db (deleteLocalChatByGroupID s clock gid db)"
  unfolding deleteLocalChatByGroupID_def
  by (rule db_stmt_fold) (simp add: deleteLocalChatByPortalID_op split: prod.split)

lemma portal_ops [store_ops]:
  "db_stmt (loginID s) db (undeleteCloudChatByPortalID s now pid db)"
  "db_stmt (loginID s) db (snd (hardDeleteMessagesByPortalID s pid db))"
  "db_stmt (loginID s) db (resetForwardBackfillDone s pid db)"
  "db_stmt (loginID s) db (snd (clearBodyScrubByPortalID s now pid db))"
  "db_stmt (loginID s) db (snd (clearAllBodyScrub s now db))"
  "db_stmt (loginID s) db (seedChatFromRecycleBin s now pid cid gid dn gp ps db)"
  "db_stmt (loginID s) db (seedMessageFromRecycleBin s now pid g mcid ts sndr me svc mrn db)"
  "db_stmt (loginID s) db (reKeyPortalID s now old new db)"
  "db_stmt (loginID s) db (snd (normalizeGroupChatPortalIDs s db))"
  "db_stmt (loginID s) db (snd (normalizeGroupMessagePortalIDs s db))"
  unfolding db_stmt_def seedMessageFromRecycleBin_def undeleteCloudChatByPortalID_def hardDeleteMessagesByPortalID_def
    resetForwardBackfillDone_def clearBodyScrubByPortalID_def clearAllBodyScrub_def
    seedChatFromRecycleBin_def reKeyPortalID_def normalizeGroupChatPortalIDs_def
    normalizeGroupMessagePortalIDs_def Let_def
  by (simp add: stmt_refl; intro conjI impI stmt_intros;
      simp add: key_defs seed_chat_merge_def seed_message_merge_def default_message_def)+

lemma undeleteCloudMessagesByPortalID_op [store_ops]:
  "db_stmt (loginID s) db (snd (undeleteCloudMessagesByPortalID s now pid db))"
proof -
  have c: "stmt c_login_id chat_key (loginID s) rs (update_where (\<lambda>r. c_login_id r = loginID s \<and> q r) f rs)"
    if "\<And>r. c_login_id (f r) = c_login_id r" "\<And>r. chat_key (f r) = chat_key r" for q f rs
    using that by (intro stmt_update_where) auto
  have m: "stmt m_login_id message_key (loginID s) rs (update_where (\<lambda>r. m_login_id r = loginID s \<and> q r) f rs)"
    if "\<And>r. m_login_id (f r) = m_login_id r" "\<And>r. message_key (f r) = message_key r" for q f rs
    using that by (intro stmt_update_where) auto
  show ?thesis
    by (simp add: db_stmt_def undeleteCloudMessagesByPortalID_def Let_def stmt_refl m key_defs
        stmt_trans [OF c c])
qed

lemma undeleteRecycleBinMessages_op [store_ops]:
  "db_stmt (loginID s) db (snd (undeleteRecycleBinMessages s now pid guids db))"
proof -
  have "db_stmt (loginID s) db (snd (fold (\<lambda>chunk (restored, db).
         let p = (\<lambda>r. m_login_id r = loginID s \<and> col_eq (m_portal_id r) pid \<and> m_guid r \<in> set chunk \<and>
               m_deleted r \<and> \<not> m_message_deleted r)
         in (restored + rows_matching p (cloud_message db),
             db\<lparr>cloud_message := update_where p (\<lambda>r. r\<lparr>m_deleted := False, m_updated_ts := now\<rparr>)
               (cloud_message db)\<rparr>)) cs (n, db)))" for cs n
  proof (induction cs arbitrary: n db)
    case (Cons c cs)
    have "db_stmt (loginID s) db (db\<lparr>cloud_message := update_where (\<lambda>r. m_login_id r = loginID s \<and>
        col_eq (m_portal_id r) pid \<and> m_guid r \<in> set c \<and> m_deleted r \<and> \<not> m_message_deleted r)
        (\<lambda>r. r\<lparr>m_deleted := False, m_updated_ts := now\<rparr>) (cloud_message db)\<rparr>)"
      by (simp add: db_stmt_def stmt_refl; rule stmt_update_where; simp)
    from db_stmt_trans [OF this Cons.IH] show ?case by (simp add: Let_def)
  qed simp
  then show ?thesis by (simp add: undeleteRecycleBinMessages_def)
qed

lemma healMisroutedGroupMessages_op [store_ops]:
  "db_stmt (loginID s) db (snd (healMisroutedGroupMessages s now db))"
  unfolding db_stmt_def healMisroutedGroupMessages_def Let_def
  by (simp add: stmt_refl; intro conjI impI stmt_intros; simp add: message_key_def)

lemma markForwardBackfillDone_op [store_ops]:
  "db_stmt (loginID s) db (markForwardBackfillDone s now pid db)"
proof -
  have u: "stmt c_login_id chat_key (loginID s) rs (update_where (\<lambda>r. c_login_id r = loginID s \<and> c_portal_id r = pid)
      (\<lambda>r. r\<lparr>c_fwd_backfill_done := True\<rparr>) rs)" for rs
    by (rule stmt_update_where) (simp_all add: key_defs)
  have i: "stmt c_login_id chat_key (loginID s) rs (upsert chat_key do_nothing new rs)"
    if "c_login_id new = loginID s" for new rs
    using that by (intro stmt_upsert) (simp_all add: key_defs do_nothing_def)
  show ?thesis
    by (simp add: db_stmt_def markForwardBackfillDone_def Let_def stmt_refl u stmt_trans [OF u i])
qed

lemma ensureDeletedChatTombstone_op:
  "ensureDeletedChatTombstoneByPortalID s now pid db = Inr db' \<Longrightarrow> db_stmt (loginID s) db db'"
  by (auto simp: ensureDeletedChatTombstoneByPortalID_def Let_def chat_ops split: sum.splits)

lemma syncStoredGroupRoster_op:
  "syncStoredGroupRoster s now pid ps isSelf db = Inr (n, w, db') \<Longrightarrow> db_stmt (loginID s) db db'"
  by (auto simp: syncStoredGroupRoster_def updateChatParticipants_op split: sum.splits if_splits)

section \<open>What deleting a portal leaves\<close>

lemma update_where_twice:
  "(\<And>r. \<not> q (f r)) \<Longrightarrow> update_where q f (update_where p f rs) = update_where (\<lambda>r. p r \<or> q r) f rs"
  by (auto simp: update_where_def)

lemma update_where_cong: "(\<And>r. p r = q r) \<Longrightarrow> update_where p f rs = update_where q f rs"
  by (simp add: update_where_def)

text \<open>The portals a delete covers: the portal itself and, for a group, those of its sibling rows.\<close>

definition delete_portals :: "cloudBackfillStore \<Rightarrow> portal_id \<Rightarrow> cloud_db \<Rightarrow> portal_id list" where
  "delete_portals s pid db = pid # (case gid_uuid pid of None \<Rightarrow> []
     | Some u \<Rightarrow> map c_portal_id (chat_rows s (gidSiblingChatWhere u) db))"

definition delete_chat :: "portal_id \<Rightarrow> cloud_chat_row \<Rightarrow> bool" where
  "delete_chat pid r \<longleftrightarrow> c_portal_id r = pid \<or>
     (case gid_uuid pid of None \<Rightarrow> False | Some u \<Rightarrow> gidSiblingChatWhere u r)"

lemma siblings_update:
  assumes "\<And>r. c_portal_id (f r) = c_portal_id r" "\<And>r. c_login_id (f r) = c_login_id r"
    "\<And>r. gidSiblingChatWhere u (f r) = gidSiblingChatWhere u r"
  shows "map c_portal_id (filter (\<lambda>r. c_login_id r = l \<and> gidSiblingChatWhere u r) (update_where p f rs)) =
    map c_portal_id (filter (\<lambda>r. c_login_id r = l \<and> gidSiblingChatWhere u r) rs)"
  using assms by (induction rs) (auto simp: update_where_def)

lemma deleteLocalChat_rows:
  "deleteLocalChatByPortalID s now pid db = db\<lparr>
     cloud_chat := update_where (\<lambda>r. c_login_id r = loginID s \<and> \<not> c_deleted r \<and> delete_chat pid r)
       (chat_deleted_at now) (cloud_chat db),
     cloud_message := update_where (\<lambda>r. m_login_id r = loginID s \<and> \<not> m_deleted r \<and>
         m_portal_id r \<in> Some ` set (delete_portals s pid db)) (message_deleted_at now) (cloud_message db)\<rparr>"
proof (cases "gid_uuid pid")
  case None
  then show ?thesis
    by (auto simp: deleteLocalChatByPortalID_def Let_def delete_chat_def delete_portals_def col_eq_def
        intro!: arg_cong2 [where f = "\<lambda>c m. db\<lparr>cloud_chat := c, cloud_message := m\<rparr>"] update_where_cong)
next
  case (Some u)
  let ?C = "update_where (\<lambda>r. c_login_id r = loginID s \<and> c_portal_id r = pid \<and> \<not> c_deleted r) (chat_deleted_at now) (cloud_chat db)"
  let ?C' = "update_where (\<lambda>r. c_login_id r = loginID s \<and> gidSiblingChatWhere u r \<and> \<not> c_deleted r) (chat_deleted_at now) ?C"
  have sib: "map c_portal_id (filter (\<lambda>r. c_login_id r = loginID s \<and> gidSiblingChatWhere u r) ?C') =
      map c_portal_id (chat_rows s (gidSiblingChatWhere u) db)"
    by (simp add: siblings_update chat_rows_def)
  have chats: "?C' = update_where (\<lambda>r. c_login_id r = loginID s \<and> \<not> c_deleted r \<and> delete_chat pid r)
       (chat_deleted_at now) (cloud_chat db)"
    by (subst update_where_twice) (auto simp: delete_chat_def Some intro!: update_where_cong)
  have msgs: "update_where (\<lambda>r. m_login_id r = loginID s \<and> \<not> m_deleted r \<and> m_portal_id r \<in> set (map Some ps))
        (message_deleted_at now) (update_where (\<lambda>r. m_login_id r = loginID s \<and> col_eq (m_portal_id r) pid \<and> \<not> m_deleted r)
          (message_deleted_at now) (cloud_message db)) =
      update_where (\<lambda>r. m_login_id r = loginID s \<and> \<not> m_deleted r \<and> m_portal_id r \<in> Some ` set (pid # ps))
        (message_deleted_at now) (cloud_message db)" for ps
    by (subst update_where_twice) (auto simp: col_eq_def intro!: update_where_cong)
  show ?thesis
    unfolding deleteLocalChatByPortalID_def Let_def Some option.case sib msgs delete_portals_def
    by (simp add: chats)
qed

lemma delete_portals_after: "delete_portals s pid (deleteLocalChatByPortalID s now pid db) = delete_portals s pid db"
  by (simp add: delete_portals_def deleteLocalChat_rows chat_rows_def siblings_update split: option.split)

lemma deleteLocalChat_idem:
  "deleteLocalChatByPortalID s later pid (deleteLocalChatByPortalID s now pid db) = deleteLocalChatByPortalID s now pid db"
proof -
  have c: "update_where (\<lambda>r. c_login_id r = loginID s \<and> \<not> c_deleted r \<and> delete_chat pid r) g
      (update_where (\<lambda>r. c_login_id r = loginID s \<and> \<not> c_deleted r \<and> delete_chat pid r) (chat_deleted_at now) rs) =
    update_where (\<lambda>r. c_login_id r = loginID s \<and> \<not> c_deleted r \<and> delete_chat pid r) (chat_deleted_at now) rs" for g rs
    by (rule update_where_none) (auto elim!: update_whereE)
  have m: "update_where (\<lambda>r. m_login_id r = loginID s \<and> \<not> m_deleted r \<and> m_portal_id r \<in> P) g
      (update_where (\<lambda>r. m_login_id r = loginID s \<and> \<not> m_deleted r \<and> m_portal_id r \<in> P) (message_deleted_at now) rs) =
    update_where (\<lambda>r. m_login_id r = loginID s \<and> \<not> m_deleted r \<and> m_portal_id r \<in> P) (message_deleted_at now) rs" for g P rs
    by (rule update_where_none) (auto elim!: update_whereE)
  show ?thesis
    by (subst deleteLocalChat_rows, subst delete_portals_after) (simp add: deleteLocalChat_rows c m)
qed

lemma deleteLocalChat_keeps:
  "tomb.keeps (cloud_message db) (cloud_message (deleteLocalChatByPortalID s now pid db))"
  unfolding deleteLocalChat_rows
  by (simp, rule tomb.keeps_update_where) (simp_all add: tomb_le_def)

lemma hasMessageUUID_update:
  "(\<And>r. message_key (f r) = message_key r) \<Longrightarrow>
   hasMessageUUID s u (db\<lparr>cloud_chat := cs, cloud_message := update_where p f (cloud_message db)\<rparr>) = hasMessageUUID s u db"
proof -
  assume "\<And>r. message_key (f r) = message_key r"
  then have gm: "guid_match s u (f r) = guid_match s u r" for r by (rule guid_match_key)
  show ?thesis
  proof
    assume "hasMessageUUID s u (db\<lparr>cloud_chat := cs, cloud_message := update_where p f (cloud_message db)\<rparr>)"
    then show "hasMessageUUID s u db" using gm by (auto simp: hasMessageUUID_iff elim!: update_whereE)
  next
    assume "hasMessageUUID s u db"
    then obtain r where "r \<in> set (cloud_message db)" "guid_match s u r" by (auto simp: hasMessageUUID_iff)
    then have "(if p r then f r else r) \<in> set (update_where p f (cloud_message db))"
      "guid_match s u (if p r then f r else r)" using gm by (auto simp: update_where_def)
    then show "hasMessageUUID s u (db\<lparr>cloud_chat := cs, cloud_message := update_where p f (cloud_message db)\<rparr>)"
      unfolding hasMessageUUID_iff by auto
  qed
qed

lemma deleteLocalChat_no_live:
  "\<forall>r \<in> set (cloud_message (deleteLocalChatByPortalID s now pid db)).
     m_login_id r = loginID s \<and> m_portal_id r \<in> Some ` set (delete_portals s pid db) \<longrightarrow> m_deleted r"
  by (auto simp: deleteLocalChat_rows elim!: update_whereE)

lemma update_where_all:
  "(\<And>r. q (f r)) \<Longrightarrow> \<forall>r \<in> set (update_where (\<lambda>r. p r \<and> \<not> q r) f rs). p r \<longrightarrow> q r"
  by (auto elim!: update_whereE)

lemma filter_update_where:
  "(\<And>r. q (if p r then f r else r) = q' r) \<Longrightarrow> filter q (update_where p f rs) = [] \<longleftrightarrow> filter q' rs = []"
  by (induction rs) (simp_all add: update_where_def)

lemma deleteLocalChat_no_chat: "\<not> portalHasChat s pid (deleteLocalChatByPortalID s now pid db)"
proof -
  let ?p = "\<lambda>r. c_login_id r = loginID s \<and> delete_chat pid r"
  have "\<forall>r \<in> set (update_where (\<lambda>r. ?p r \<and> \<not> c_deleted r) (chat_deleted_at now) (cloud_chat db)). ?p r \<longrightarrow> c_deleted r"
    by (rule update_where_all) simp
  moreover have "(\<lambda>r. ?p r \<and> \<not> c_deleted r) = (\<lambda>r. c_login_id r = loginID s \<and> \<not> c_deleted r \<and> delete_chat pid r)"
    by auto
  ultimately have "\<forall>r \<in> set (cloud_chat (deleteLocalChatByPortalID s now pid db)). ?p r \<longrightarrow> c_deleted r"
    by (simp add: deleteLocalChat_rows)
  then show ?thesis by (auto simp: portalHasChat_def chat_rows_def filter_empty_conv delete_chat_def)
qed

lemma undelete_hasChat:
  "portalHasChat s pid (snd (undeleteCloudMessagesByPortalID s later pid db)) \<longleftrightarrow>
     chat_rows s (\<lambda>r. c_portal_id r = pid) db \<noteq> []"
proof -
  let ?q = "\<lambda>r. c_login_id r = loginID s \<and> c_portal_id r = pid"
  let ?live = "\<lambda>r. c_login_id r = loginID s \<and> c_portal_id r = pid \<and> \<not> c_deleted r"
  have reset: "filter ?live (update_where ?q (\<lambda>r. r\<lparr>c_fwd_backfill_done := False\<rparr>) rs) = [] \<longleftrightarrow> filter ?live rs = []" for rs
    by (rule filter_update_where) simp
  have revive: "filter ?live (update_where (\<lambda>r. c_login_id r = loginID s \<and> c_portal_id r = pid \<and> c_deleted r)
      (\<lambda>r. r\<lparr>c_deleted := False, c_updated_ts := Some later\<rparr>) rs) = [] \<longleftrightarrow> filter ?q rs = []" for rs
    by (rule filter_update_where) auto
  have "filter ?live (update_where ?q (\<lambda>r. r\<lparr>c_fwd_backfill_done := False\<rparr>)
      (update_where (\<lambda>r. c_login_id r = loginID s \<and> c_portal_id r = pid \<and> c_deleted r)
        (\<lambda>r. r\<lparr>c_deleted := False, c_updated_ts := Some later\<rparr>) rs)) = [] \<longleftrightarrow> filter ?q rs = []" for rs
    unfolding reset revive ..
  then show ?thesis
    by (simp add: portalHasChat_def undeleteCloudMessagesByPortalID_def Let_def chat_rows_def)
qed

lemma chat_rows_deleteLocalChat:
  "chat_rows s (\<lambda>r. c_portal_id r = p) (deleteLocalChatByPortalID s now pid db) = [] \<longleftrightarrow>
     chat_rows s (\<lambda>r. c_portal_id r = p) db = []"
  by (simp add: chat_rows_def deleteLocalChat_rows, rule filter_update_where) simp

lemma rekey_filter:
  "old \<noteq> new \<Longrightarrow> map c_cloud_chat_id (filter (\<lambda>r. c_login_id r = l \<and> c_portal_id r = new)
     (update_where (\<lambda>r. c_login_id r = l \<and> c_portal_id r = old)
       (\<lambda>r. r\<lparr>c_portal_id := new, c_fwd_backfill_done := False, c_updated_ts := Some now\<rparr>) rs)) =
   map c_cloud_chat_id (filter (\<lambda>r. c_login_id r = l \<and> (c_portal_id r = old \<or> c_portal_id r = new)) rs)"
  by (induction rs) (auto simp: update_where_def)

text \<open>A NULL roster anywhere in the result set is an error.\<close>

lemma match_rosters_null: "(p, None) \<in> set rows \<Longrightarrow> match_rosters target isSelf seen rows = Inl ScanNull"
  by (induction target isSelf seen rows rule: match_rosters.induct) (auto split: sum.splits)

lemma markForward_inserts:
  assumes "\<forall>r \<in> set (cloud_chat db). c_login_id r = loginID s \<longrightarrow> c_portal_id r \<noteq> pid \<and> c_cloud_chat_id r \<noteq> ''synthetic:'' @ pid"
  shows "\<exists>new. cloud_chat (markForwardBackfillDone s now pid db) = cloud_chat db @ [new] \<and>
    c_login_id new = loginID s \<and> c_portal_id new = pid \<and> \<not> c_deleted new \<and> c_participants_json new = None"
proof -
  have "rows_matching (\<lambda>r. c_login_id r = loginID s \<and> c_portal_id r = pid) (cloud_chat db) = 0"
    "update_where (\<lambda>r. c_login_id r = loginID s \<and> c_portal_id r = pid) (\<lambda>r. r\<lparr>c_fwd_backfill_done := True\<rparr>) (cloud_chat db) = cloud_chat db"
    using assms by (auto simp: rows_matching_0 intro: update_where_none)
  moreover have "chat_key new \<notin> chat_key ` set (cloud_chat db)"
    if "c_login_id new = loginID s" "c_cloud_chat_id new = ''synthetic:'' @ pid" for new
    using assms that by (auto simp: chat_key_def)
  ultimately show ?thesis by (simp add: markForwardBackfillDone_def Let_def upsert_new)
qed

section \<open>Properties\<close>

text \<open>C3. Deleting a portal leaves no live chat and no live message of it (for a group, none under the
  portals of its sibling rows either), takes the text of every message it deletes, and forgets no
  message: echo detection still knows every GUID. Deleting again, at any later time, changes nothing, so
  the time of the deletion is never moved and later traffic is compared with the true tail.\<close>

theorem portal_delete_effect:
  "\<not> portalHasChat s pid (deleteLocalChatByPortalID s now pid db) \<and>
   (\<forall>r \<in> set (cloud_message (deleteLocalChatByPortalID s now pid db)).
      m_login_id r = loginID s \<and> m_portal_id r \<in> Some ` set (delete_portals s pid db) \<longrightarrow> m_deleted r) \<and>
   (\<forall>r \<in> set (cloud_message (deleteLocalChatByPortalID s now pid db)).
      r \<in> set (cloud_message db) \<or> m_deleted r \<and> body_gone r) \<and>
   hasMessageUUID s u (deleteLocalChatByPortalID s now pid db) = hasMessageUUID s u db \<and>
   deleteLocalChatByPortalID s later pid (deleteLocalChatByPortalID s now pid db) = deleteLocalChatByPortalID s now pid db"
proof (intro conjI)
  show "\<forall>r \<in> set (cloud_message (deleteLocalChatByPortalID s now pid db)).
      r \<in> set (cloud_message db) \<or> m_deleted r \<and> body_gone r"
    by (auto simp: deleteLocalChat_rows elim!: update_whereE)
  show "hasMessageUUID s u (deleteLocalChatByPortalID s now pid db) = hasMessageUUID s u db"
    unfolding deleteLocalChat_rows by (rule hasMessageUUID_update) simp
qed (fact deleteLocalChat_no_chat deleteLocalChat_no_live deleteLocalChat_idem)+

definition sample_group_db :: cloud_db where
  "sample_group_db = upsertMessageBatch sample_store 1 [sample_row ''g1'' ''gid:aa'' 5 ''hi'', sample_row ''g2'' ''gid:bb'' 6 ''ho'']
     (upsertChatBatch sample_store 1 [(sample_chat ''AA'' ''gid:bb'' [])\<lparr>cu_GroupID := ''bb''\<rparr>] empty_db)"

theorem portal_delete_effect_witness:
  "let db' = deleteLocalChatByPortalID sample_store 9 ''gid:aa'' sample_group_db
   in list_all m_deleted (cloud_message db') \<and> length (cloud_message db') = 2"
proof -
  let ?db = "deleteLocalChatByPortalID sample_store 9 ''gid:aa'' sample_group_db"
  have "list_all (\<lambda>r. m_login_id r = loginID sample_store \<and>
      m_portal_id r \<in> Some ` set (delete_portals sample_store ''gid:aa'' sample_group_db)) (cloud_message ?db) \<and>
    length (cloud_message ?db) = 2" by code_simp
  with portal_delete_effect [THEN conjunct2, THEN conjunct1, of sample_store 9 "''gid:aa''" sample_group_db]
  show ?thesis unfolding list_all_iff Let_def by blast
qed

text \<open>C4. Restoring a deleted portal revives its chat rows and exactly those of its messages that were not
  deleted or unsent one by one: after the restore a message of the portal is deleted just when it
  carries its own delete mark, and the reported count is the number of messages revived.\<close>

theorem portal_restore_effect:
  fixes s pid now db0 later
  defines "db \<equiv> deleteLocalChatByPortalID s now pid db0"
  shows "(\<forall>r \<in> set (cloud_message (snd (undeleteCloudMessagesByPortalID s later pid db))).
      m_login_id r = loginID s \<and> m_portal_id r = Some pid \<longrightarrow> m_deleted r = m_message_deleted r) \<and>
    (portalHasChat s pid (snd (undeleteCloudMessagesByPortalID s later pid db)) \<longleftrightarrow>
      chat_rows s (\<lambda>r. c_portal_id r = pid) db0 \<noteq> []) \<and>
    fst (undeleteCloudMessagesByPortalID s later pid db) =
      length (filter (\<lambda>r. m_login_id r = loginID s \<and> m_portal_id r = Some pid \<and> \<not> m_message_deleted r) (cloud_message db))"
proof (intro conjI)
  have del: "m_deleted r" if "r \<in> set (cloud_message db)" "m_login_id r = loginID s" "m_portal_id r = Some pid" for r
    using deleteLocalChat_no_live [of s now pid db0] that by (auto simp: db_def delete_portals_def)
  show "\<forall>r \<in> set (cloud_message (snd (undeleteCloudMessagesByPortalID s later pid db))).
      m_login_id r = loginID s \<and> m_portal_id r = Some pid \<longrightarrow> m_deleted r = m_message_deleted r"
    using del by (auto simp: undeleteCloudMessagesByPortalID_def Let_def col_eq_def elim!: update_whereE)
  show "fst (undeleteCloudMessagesByPortalID s later pid db) =
      length (filter (\<lambda>r. m_login_id r = loginID s \<and> m_portal_id r = Some pid \<and> \<not> m_message_deleted r) (cloud_message db))"
    using del by (auto simp: undeleteCloudMessagesByPortalID_def Let_def rows_matching_def col_eq_def
        intro!: arg_cong [where f = length] filter_cong)
  show "portalHasChat s pid (snd (undeleteCloudMessagesByPortalID s later pid db)) \<longleftrightarrow>
      chat_rows s (\<lambda>r. c_portal_id r = pid) db0 \<noteq> []"
    by (simp add: undelete_hasChat db_def chat_rows_deleteLocalChat)
qed

theorem portal_restore_effect_witness:
  "let db = deleteLocalChatByPortalID sample_store 9 ''gid:aa'' (softDeleteMessageByGUID sample_store 8 ''g3'' ''gid:aa'' sample_group_db);
       db' = snd (undeleteCloudMessagesByPortalID sample_store 10 ''gid:aa'' db)
   in list_all (\<lambda>r. m_deleted r = m_message_deleted r) (filter (\<lambda>r. m_portal_id r = Some ''gid:aa'') (cloud_message db')) \<and>
      map m_guid (filter (\<lambda>r. m_portal_id r = Some ''gid:aa'') (cloud_message db')) = [''g1'', ''g3'']"
proof -
  let ?base = "softDeleteMessageByGUID sample_store 8 ''g3'' ''gid:aa'' sample_group_db"
  let ?db' = "snd (undeleteCloudMessagesByPortalID sample_store 10 ''gid:aa'' (deleteLocalChatByPortalID sample_store 9 ''gid:aa'' ?base))"
  have "list_all (\<lambda>r. m_login_id r = loginID sample_store) (cloud_message ?db') \<and>
      map m_guid (filter (\<lambda>r. m_portal_id r = Some ''gid:aa'') (cloud_message ?db')) = [''g1'', ''g3'']" by code_simp
  with portal_restore_effect [THEN conjunct1, of sample_store 10 "''gid:aa''" 9 ?base]
  show ?thesis unfolding list_all_iff Let_def by auto
qed

text \<open> Re-keying a portal moves everything and loses nothing: no chat and no message of the login stays
  under the old key, every message and chat keeps its identity, the new key gets exactly the rows of
  both, and the moved chats are due for forward backfill again.\<close>

lemma rekey_effect:
  assumes "old \<noteq> []" "new \<noteq> []" "old \<noteq> new"
  shows "getMessageRecordNamesByPortalID s old (reKeyPortalID s now old new db) = [] \<and>
    chat_rows s (\<lambda>r. c_portal_id r = old) (reKeyPortalID s now old new db) = [] \<and>
    map message_key (cloud_message (reKeyPortalID s now old new db)) = map message_key (cloud_message db) \<and>
    map chat_key (cloud_chat (reKeyPortalID s now old new db)) = map chat_key (cloud_chat db) \<and>
    map c_cloud_chat_id (chat_rows s (\<lambda>r. c_portal_id r = new) (reKeyPortalID s now old new db)) =
      map c_cloud_chat_id (chat_rows s (\<lambda>r. c_portal_id r \<in> {old, new}) db) \<and>
    (\<forall>r \<in> set (cloud_chat db). c_login_id r = loginID s \<and> c_portal_id r = old \<longrightarrow>
      (\<exists>r' \<in> set (cloud_chat (reKeyPortalID s now old new db)). chat_key r' = chat_key r \<and> c_portal_id r' = new \<and> \<not> c_fwd_backfill_done r'))"
proof (intro conjI)
  let ?db = "reKeyPortalID s now old new db"
  note d = reKeyPortalID_def
  show "getMessageRecordNamesByPortalID s old ?db = []"
    using assms by (auto simp: d getMessageRecordNamesByPortalID_def filter_empty_conv col_eq_def elim!: update_whereE)
  show "chat_rows s (\<lambda>r. c_portal_id r = old) ?db = []"
    using assms by (auto simp: d chat_rows_def filter_empty_conv elim!: update_whereE)
  show "map message_key (cloud_message ?db) = map message_key (cloud_message db)"
    using assms by (simp add: d message_tbl.map_key_update_where)
  show "map chat_key (cloud_chat ?db) = map chat_key (cloud_chat db)"
    using assms by (simp add: d chat_tbl.map_key_update_where chat_key_def)
  show "map c_cloud_chat_id (chat_rows s (\<lambda>r. c_portal_id r = new) ?db) =
      map c_cloud_chat_id (chat_rows s (\<lambda>r. c_portal_id r \<in> {old, new}) db)"
    using assms by (simp add: d chat_rows_def rekey_filter)
  show "\<forall>r \<in> set (cloud_chat db). c_login_id r = loginID s \<and> c_portal_id r = old \<longrightarrow>
      (\<exists>r' \<in> set (cloud_chat ?db). chat_key r' = chat_key r \<and> c_portal_id r' = new \<and> \<not> c_fwd_backfill_done r')"
  proof (intro ballI impI)
    fix r assume r: "r \<in> set (cloud_chat db)" "c_login_id r = loginID s \<and> c_portal_id r = old"
    let ?r = "r\<lparr>c_portal_id := new, c_fwd_backfill_done := False, c_updated_ts := Some now\<rparr>"
    have "?r \<in> set (cloud_chat ?db)" 
      using assms r update_where_hit [of r "cloud_chat db" "\<lambda>r. c_login_id r = loginID s \<and> c_portal_id r = old"
        "\<lambda>r. r\<lparr>c_portal_id := new, c_fwd_backfill_done := False, c_updated_ts := Some now\<rparr>"] by (simp add: d)
    then show "\<exists>r' \<in> set (cloud_chat ?db). chat_key r' = chat_key r \<and> c_portal_id r' = new \<and> \<not> c_fwd_backfill_done r'"
      by (rule rev_bexI) (simp add: chat_key_def)
  qed
qed

lemma rekey_effect_witness:
  "map c_cloud_chat_id (chat_rows sample_store (\<lambda>r. c_portal_id r = ''gid:cc'')
     (reKeyPortalID sample_store 9 ''gid:bb'' ''gid:cc'' sample_group_db)) =
   map c_cloud_chat_id (chat_rows sample_store (\<lambda>r. c_portal_id r \<in> {''gid:bb'', ''gid:cc''}) sample_group_db)"
  using rekey_effect [of "''gid:bb''" "''gid:cc''" sample_store 9 sample_group_db] by simp

text \<open>C34. The search for duplicate groups by roster stops working once a forward backfill finishes for a
  portal with no chat row: \<^verbatim>\<open>markForwardBackfillDone\<close> then inserts a live row whose roster is NULL, and
  the search scans the roster of every live row into a string, which fails for NULL, so that it
  returns the error whatever it looks for.\<close>

theorem roster_search_broken_by_synthetic_row:
  assumes "pid \<noteq> []" "chat_rows s (\<lambda>r. c_portal_id r = pid \<or> c_cloud_chat_id r = ''synthetic:'' @ pid) db = []"
  shows "findPortalIDsByParticipants s target isSelf (markForwardBackfillDone s now pid db) = Inl ScanNull"
proof -
  have none: "\<forall>r \<in> set (cloud_chat db). c_login_id r = loginID s \<longrightarrow> c_portal_id r \<noteq> pid \<and> c_cloud_chat_id r \<noteq> ''synthetic:'' @ pid"
    using assms(2) by (auto simp: chat_rows_def filter_empty_conv)
  obtain new where new: "cloud_chat (markForwardBackfillDone s now pid db) = cloud_chat db @ [new]"
    "c_login_id new = loginID s" "c_portal_id new = pid" "\<not> c_deleted new" "c_participants_json new = None"
    using markForward_inserts [OF none] by blast
  then have "(pid, None) \<in> set (dedup (map (\<lambda>r. (c_portal_id r, c_participants_json r))
      (chat_rows s (\<lambda>r. c_portal_id r \<noteq> [] \<and> \<not> c_deleted r) (markForwardBackfillDone s now pid db))))"
    using assms(1) by (auto simp: chat_rows_def image_iff)
  then show ?thesis unfolding findPortalIDsByParticipants_def by (rule match_rosters_null)
qed

theorem roster_search_broken_by_synthetic_row_witness:
  "findPortalIDsByParticipants sample_store [''mailto:a@x''] None
     (markForwardBackfillDone sample_store 9 ''gid:zz'' sample_chat_db) = Inl ScanNull"
  by (rule roster_search_broken_by_synthetic_row)
    (simp_all add: chat_rows_def sample_chat_db_def upsertChatBatch_def sample_chat_def chat_of_upsert_def empty_db_def)

end
