(* ===== verification/Paging.thy ===== *)
theory Paging
  imports Prelude
begin

text \<open>
  Keyset pagination: \<^verbatim>\<open>WHERE key > cursor ORDER BY key LIMIT n\<close>, repeated with the last key of each page
  until a short page comes back. \<open>paged\<close> is the loop; its pages are the sorted rows behind the first
  cursor, cut in pieces of \<open>n\<close>, each row once.
\<close>

definition page_after :: "('r \<Rightarrow> 'k::linorder) \<Rightarrow> nat \<Rightarrow> 'k \<Rightarrow> 'r list \<Rightarrow> 'r list" where
  "page_after key n cur rows = take n (sort_key key (filter (\<lambda>r. cur < key r) rows))"

definition page_before :: "('r \<Rightarrow> 'k::linorder) \<Rightarrow> nat \<Rightarrow> 'k \<Rightarrow> 'r list \<Rightarrow> 'r list" where
  "page_before key n cur rows = take n (rev (sort_key key (filter (\<lambda>r. key r < cur) rows)))"

lemma set_page_after: "r \<in> set (page_after key n cur rows) \<Longrightarrow> r \<in> set rows \<and> cur < key r"
  by (auto simp: page_after_def dest!: in_set_takeD)

lemma filter_subset_shrinks:
  assumes "\<And>r. q r \<Longrightarrow> p r" "x \<in> set rows" "p x" "\<not> q x"
  shows "length (filter q rows) < length (filter p rows)"
  using assms(2)
proof (induction rows)
  case (Cons r rows)
  have "length (filter q rows) \<le> length (filter p rows)" by (induction rows) (use assms(1) in auto)
  with Cons assms show ?case by auto
qed simp

lemma page_advances:
  assumes "page_after key n cur rows \<noteq> []"
  shows "length (filter (\<lambda>r. key (last (page_after key n cur rows)) < key r) rows) <
    length (filter (\<lambda>r. cur < key r) rows)"
proof -
  let ?l = "last (page_after key n cur rows)"
  have "?l \<in> set rows \<and> cur < key ?l" using assms set_page_after last_in_set by metis
  then show ?thesis by (intro filter_subset_shrinks [of _ _ ?l]) (auto intro: less_trans)
qed

function paged :: "('r \<Rightarrow> 'k::linorder) \<Rightarrow> nat \<Rightarrow> 'r list \<Rightarrow> 'k \<Rightarrow> 'r list list" where
  "paged key n rows cur =
     (let page = page_after key n cur rows
      in if length page < n \<or> n = 0 then [page] else page # paged key n rows (key (last page)))"
  by auto
termination
proof (relation "measure (\<lambda>(key, n, rows, cur). length (filter (\<lambda>r. cur < key r) rows))", goal_cases)
  case (2 key n rows cur page)
  then have "page_after key n cur rows \<noteq> []" by (auto simp: not_less)
  from page_advances [OF this] 2(1) show ?case by simp
qed simp

declare paged.simps [simp del]

text \<open>With distinct keys, what is behind the last key of a page is what the page left out.\<close>

lemma rest_after_page:
  assumes "distinct (map key rows)" "n \<le> length (filter (\<lambda>r. cur < key r) rows)" "0 < n"
  shows "sort_key key (filter (\<lambda>r. key (last (page_after key n cur rows)) < key r) rows) =
    drop n (sort_key key (filter (\<lambda>r. cur < key r) rows))"
proof -
  let ?ys = "sort_key key (filter (\<lambda>r. cur < key r) rows)"
  let ?l = "last (page_after key n cur rows)"
  have len: "n \<le> length ?ys" using assms(2) by simp
  have "take n ?ys \<noteq> []" using len assms(3) by (metis length_greater_0_conv length_take less_le_trans min_less_iff_conj)
  then have l: "?l = ?ys ! (n - 1)"
    using len assms(3) last_conv_nth [of "take n ?ys"] by (simp add: page_after_def min_def)
  have dist: "distinct (map key ?ys)"
    using assms(1) distinct_map_filter [OF assms(1)] by (simp add: distinct_map)
  have sorted: "sorted (map key ?ys)" by simp
  have strict: "sorted_wrt (<) (map key ?ys)" using sorted dist by (simp add: strict_sorted_iff)
  have idx: "i < j \<Longrightarrow> j < length ?ys \<Longrightarrow> key (?ys ! i) < key (?ys ! j)" for i j
    using sorted_wrt_nth_less [OF strict, of i j] by simp
  have take_le: "filter (\<lambda>r. key ?l < key r) (take n ?ys) = []"
  proof (simp add: filter_empty_conv, rule ballI)
    fix r assume "r \<in> set (take n ?ys)"
    then obtain i where i: "i < n" "r = ?ys ! i" using len by (auto simp: in_set_conv_nth)
    then have "i < n - 1 \<or> i = n - 1" by auto
    moreover have "n - 1 < length ?ys" using len assms(3) by simp
    ultimately show "\<not> key ?l < key r" using idx [of i "n - 1"] unfolding i(2) l by (metis less_asym less_irrefl)
  qed
  have drop_gt: "filter (\<lambda>r. key ?l < key r) (drop n ?ys) = drop n ?ys"
  proof (simp add: filter_id_conv, rule ballI)
    fix r assume "r \<in> set (drop n ?ys)"
    then obtain j where "j < length (drop n ?ys)" "r = drop n ?ys ! j" unfolding in_set_conv_nth by blast
    then have j: "n + j < length ?ys" "r = ?ys ! (n + j)" using len by simp_all
    then show "key ?l < key r" using idx [of "n - 1" "n + j"] l assms(3) by simp
  qed
  have "cur < key ?l"
  proof -
    have "n - 1 < length ?ys" using len assms(3) by simp
    then have "?l \<in> set ?ys" unfolding l by (rule nth_mem)
    then show ?thesis by simp
  qed
  then have "filter (\<lambda>r. key ?l < key r) rows = filter (\<lambda>r. key ?l < key r) (filter (\<lambda>r. cur < key r) rows)"
    by (auto intro!: filter_cong)
  then have "sort_key key (filter (\<lambda>r. key ?l < key r) rows) = filter (\<lambda>r. key ?l < key r) ?ys"
    by (simp add: filter_sort)
  also have "\<dots> = filter (\<lambda>r. key ?l < key r) (take n ?ys) @ filter (\<lambda>r. key ?l < key r) (drop n ?ys)"
    by (simp only: filter_append [symmetric] append_take_drop_id)
  finally show ?thesis using take_le drop_gt by simp
qed

text \<open>A row behind the cursor is on a full page or behind its last key.\<close>

lemma page_covers:
  assumes "distinct (map key (filter sel rs))" "r \<in> set rs" "page_after key n cur (filter sel rs) \<noteq> []"
    "n \<le> length (page_after key n cur (filter sel rs))"
  shows "sel r \<and> cur < key r \<longleftrightarrow> r \<in> set (page_after key n cur (filter sel rs)) \<or>
    sel r \<and> key (last (page_after key n cur (filter sel rs))) < key r"
proof -
  let ?page = "page_after key n cur (filter sel rs)"
  let ?ys = "sort_key key (filter (\<lambda>r. cur < key r) (filter sel rs))"
  have n: "0 < n" using assms(3) by (cases n) (auto simp: page_after_def)
  have len: "n \<le> length (filter (\<lambda>r. cur < key r) (filter sel rs))" using assms(4) by (simp add: page_after_def)
  have "set ?ys = set ?page \<union> set (drop n ?ys)"
    by (metis append_take_drop_id page_after_def set_append)
  moreover have "set (drop n ?ys) = set (filter (\<lambda>r. key (last ?page) < key r) (filter sel rs))"
    using rest_after_page [OF assms(1) len n] by (metis set_sort)
  ultimately have "r \<in> set ?ys \<longleftrightarrow> r \<in> set ?page \<or> r \<in> set (filter (\<lambda>r. key (last ?page) < key r) (filter sel rs))"
    by blast
  with assms(2) show ?thesis by auto
qed

lemma concat_paged:
  "distinct (map key rows) \<Longrightarrow> 0 < n \<Longrightarrow>
   concat (paged key n rows cur) = sort_key key (filter (\<lambda>r. cur < key r) rows)"
proof (induction key n rows cur rule: paged.induct)
  case (1 key n rows cur)
  let ?page = "page_after key n cur rows"
  show ?case
  proof (cases "length ?page < n")
    case True
    then have "?page = sort_key key (filter (\<lambda>r. cur < key r) rows)" by (simp add: page_after_def)
    with True show ?thesis by (subst paged.simps) simp
  next
    case False
    with 1 have "concat (paged key n rows cur) = ?page @ sort_key key (filter (\<lambda>r. key (last ?page) < key r) rows)"
      by (subst paged.simps) (simp add: Let_def)
    also have "\<dots> = ?page @ drop n (sort_key key (filter (\<lambda>r. cur < key r) rows))"
      using False 1(2,3) by (subst rest_after_page) (simp_all add: page_after_def)
    finally show ?thesis by (simp add: page_after_def)
  qed
qed

lemma length_paged: "p \<in> set (paged key n rows cur) \<Longrightarrow> length p \<le> n"
proof (induction key n rows cur rule: paged.induct)
  case (1 key n rows cur)
  then show ?case by (subst (asm) (2) paged.simps) (auto simp: Let_def page_after_def split: if_splits)
qed

section \<open>Sweeps\<close>

text \<open>
  A sweep pages through the selected rows of a table and deletes, page by page and in slices of \<open>c\<close>, the
  candidates it found, with a statement that rechecks each row.
\<close>

lemma length_filter_delete: "length (filter p (delete_where q rs)) \<le> length (filter p rs)"
  by (induction rs) (auto simp: delete_where_def)

lemma length_filter_fold_delete: "length (filter p (fold (\<lambda>x. delete_where (q x)) xs rs)) \<le> length (filter p rs)"
proof (induction xs arbitrary: rs)
  case (Cons x xs)
  have "length (filter p (fold (\<lambda>x. delete_where (q x)) xs (delete_where (q x) rs))) \<le> length (filter p (delete_where (q x) rs))"
    by (rule Cons.IH)
  also have "\<dots> \<le> length (filter p rs)" by (rule length_filter_delete)
  finally show ?case by simp
qed simp

function sweep ::
  "('r \<Rightarrow> bool) \<Rightarrow> ('r \<Rightarrow> 'k::linorder) \<Rightarrow> nat \<Rightarrow> nat \<Rightarrow> ('r \<Rightarrow> bool) \<Rightarrow> ('k list \<Rightarrow> 'r \<Rightarrow> bool) \<Rightarrow> 'k \<Rightarrow> 'r list \<Rightarrow> 'r list" where
  "sweep sel key n c cand q cur rs =
     (let page = page_after key n cur (filter sel rs);
          rs' = fold (\<lambda>chunk. delete_where (q chunk)) (chunks c (map key (filter cand page))) rs
      in if length page < n \<or> n = 0 then rs' else sweep sel key n c cand q (key (last page)) rs')"
  by auto
termination
proof (relation "measure (\<lambda>(sel, key, n, c, cand, q, cur, rs). length (filter (\<lambda>r. cur < key r) (filter sel rs)))", goal_cases)
  case (2 sel key n c cand q cur rs page rs')
  then have "page_after key n cur (filter sel rs) \<noteq> []" by (auto simp: not_less)
  from page_advances [OF this] have
    "length (filter (\<lambda>r. key (last page) < key r) (filter sel rs)) < length (filter (\<lambda>r. cur < key r) (filter sel rs))"
    using 2(1) by simp
  moreover have "length (filter (\<lambda>r. key (last page) < key r) (filter sel rs')) \<le>
      length (filter (\<lambda>r. key (last page) < key r) (filter sel rs))"
    using length_filter_fold_delete [of "\<lambda>r. sel r \<and> key (last page) < key r" q] 2(2) by (simp add: conj_commute)
  ultimately show ?case by simp
qed simp

declare sweep.simps [simp del]

lemma sweep_invariant:
  assumes "\<And>chunk rs. P rs \<Longrightarrow> P (delete_where (q chunk) rs)"
  shows "P rs \<Longrightarrow> P (sweep sel key n c cand q cur rs)"
  using assms
proof (induction sel key n c cand q cur rs rule: sweep.induct)
  case (1 sel key n c cand q cur rs)
  let ?page = "page_after key n cur (filter sel rs)"
  let ?rs = "fold (\<lambda>chunk. delete_where (q chunk)) (chunks c (map key (filter cand ?page))) rs"
  have rs: "P ?rs" by (rule fold_invariant) (rule 1(2), erule 1(3))
  show ?case
  proof (cases "length ?page < n \<or> n = 0")
    case True
    then show ?thesis using rs by (subst sweep.simps) (simp add: Let_def)
  next
    case False
    have "P (sweep sel key n c cand q (key (last ?page)) ?rs)" by (rule 1(1) [OF refl refl False rs 1(3)])
    then show ?thesis using False by (subst sweep.simps) (simp add: Let_def)
  qed
qed

lemma fold_delete_where_any:
  "fold (\<lambda>x. delete_where (q x)) xs rs = delete_where (\<lambda>r. \<exists>x \<in> set xs. q x r) rs"
proof (induction xs arbitrary: rs)
  case (Cons x xs)
  show ?case unfolding fold_simps Cons.IH comp_def by (auto simp: delete_where_def intro!: filter_cong)
qed (simp add: delete_where_def)

lemma in_chunks: "0 < c \<Longrightarrow> (\<exists>chunk \<in> set (chunks c xs). x \<in> set chunk) \<longleftrightarrow> x \<in> set xs"
  by (metis concat_chunks set_concat UN_iff)

lemma distinct_key_eq: "distinct (map key xs) \<Longrightarrow> x \<in> set xs \<Longrightarrow> y \<in> set xs \<Longrightarrow> key x = key y \<Longrightarrow> x = y"
  by (auto simp: distinct_map inj_on_def)

lemma page_delete:
  fixes key :: "'r \<Rightarrow> 'k::linorder"
  assumes "\<And>chunk r. q chunk r \<Longrightarrow> sel r \<and> key r \<in> set chunk"
    "\<And>chunk r. sel r \<Longrightarrow> cand r \<Longrightarrow> key r \<in> set chunk \<Longrightarrow> q chunk r"
    "0 < c" "distinct (map key (filter sel rs))" "set page \<subseteq> set (filter sel rs)"
  shows "fold (\<lambda>chunk. delete_where (q chunk)) (chunks c (map key (filter cand page))) rs =
    delete_where (\<lambda>r. r \<in> set page \<and> cand r) rs"
proof -
  have "(\<exists>chunk \<in> set (chunks c (map key (filter cand page))). q chunk r) \<longleftrightarrow> r \<in> set page \<and> cand r"
    if r: "r \<in> set rs" for r
  proof
    assume "\<exists>chunk \<in> set (chunks c (map key (filter cand page))). q chunk r"
    then obtain chunk where chunk: "chunk \<in> set (chunks c (map key (filter cand page)))" "q chunk r" by blast
    from assms(1) [OF chunk(2)] have sel: "sel r" and key: "key r \<in> set chunk" by simp_all
    from key chunk(1) have "key r \<in> set (map key (filter cand page))"
      by (subst in_chunks [OF assms(3), symmetric]) (rule bexI)
    then obtain r' where r': "r' \<in> set page" "cand r'" "key r' = key r" by auto
    have "r' = r" using distinct_key_eq [OF assms(4), of r' r] r' sel r assms(5) by auto
    with r' show "r \<in> set page \<and> cand r" by simp
  next
    assume *: "r \<in> set page \<and> cand r"
    then have "key r \<in> set (map key (filter cand page))" by auto
    then obtain chunk where chunk: "chunk \<in> set (chunks c (map key (filter cand page)))" "key r \<in> set chunk"
      by (subst (asm) in_chunks [OF assms(3), symmetric]) blast
    have "sel r" using * assms(5) by auto
    then have "q chunk r" using * chunk(2) by (intro assms(2)) simp_all
    with chunk(1) show "\<exists>chunk \<in> set (chunks c (map key (filter cand page))). q chunk r" by (rule rev_bexI)
  qed
  then show ?thesis unfolding fold_delete_where_any by (auto simp: delete_where_def intro!: filter_cong)
qed

lemma sweep_deletes:
  fixes key :: "'r \<Rightarrow> 'k::linorder"
  assumes "\<And>chunk r. q chunk r \<Longrightarrow> sel r \<and> key r \<in> set chunk"
    "\<And>chunk r. sel r \<Longrightarrow> cand r \<Longrightarrow> key r \<in> set chunk \<Longrightarrow> q chunk r" "0 < c" "0 < n"
  shows "distinct (map key (filter sel rs)) \<Longrightarrow>
    sweep sel key n c cand q cur rs = delete_where (\<lambda>r. sel r \<and> cur < key r \<and> cand r) rs"
proof (induction "length (filter (\<lambda>r. cur < key r) (filter sel rs))" arbitrary: cur rs rule: less_induct)
  case (less cur rs)
  let ?page = "page_after key n cur (filter sel rs)"
  let ?rs = "delete_where (\<lambda>r. r \<in> set ?page \<and> cand r) rs"
  have sub: "set ?page \<subseteq> set (filter sel rs)" using set_page_after by fastforce
  have step: "fold (\<lambda>chunk. delete_where (q chunk)) (chunks c (map key (filter cand ?page))) rs = ?rs"
    using assms(1,2) by (intro page_delete [OF _ _ assms(3) less.prems sub])
  show ?case
  proof (cases "length ?page < n")
    case True
    then have "?page = sort_key key (filter (\<lambda>r. cur < key r) (filter sel rs))" by (simp add: page_after_def)
    then have "r \<in> set ?page \<longleftrightarrow> r \<in> set rs \<and> sel r \<and> cur < key r" for r by auto
    then have "?rs = delete_where (\<lambda>r. sel r \<and> cur < key r \<and> cand r) rs"
      by (auto simp: delete_where_def intro!: filter_cong)
    with True step show ?thesis by (subst sweep.simps) (simp add: Let_def)
  next
    case False
    let ?l = "key (last ?page)"
    have ne: "?page \<noteq> []" using False assms(4) by auto
    have dist: "distinct (map key (filter sel ?rs))"
      using distinct_map_filter [OF less.prems, of "\<lambda>r. \<not> (r \<in> set ?page \<and> cand r)"]
      by (simp only: delete_where_def filter_filter conj_commute)
    have "length (filter (\<lambda>r. ?l < key r) (filter sel ?rs)) < length (filter (\<lambda>r. cur < key r) (filter sel rs))"
      using page_advances [OF ne] length_filter_delete [of "\<lambda>r. sel r \<and> ?l < key r"]
      by (simp add: conj_commute) (metis (no_types, lifting) dual_order.strict_trans2)
    from less.hyps [OF this dist] have IH: "sweep sel key n c cand q ?l ?rs = delete_where (\<lambda>r. sel r \<and> ?l < key r \<and> cand r) ?rs" .
    have split: "sel r \<and> cur < key r \<longleftrightarrow> r \<in> set ?page \<or> sel r \<and> ?l < key r" if "r \<in> set rs" for r
      using page_covers [OF less.prems that ne] False by (simp add: not_less)
    have "sweep sel key n c cand q cur rs = delete_where (\<lambda>r. sel r \<and> ?l < key r \<and> cand r) ?rs"
      using False assms(4) step IH by (subst sweep.simps) (simp add: Let_def)
    also have "\<dots> = delete_where (\<lambda>r. sel r \<and> cur < key r \<and> cand r) rs"
      using split by (auto simp: delete_where_def intro!: filter_cong)
    finally show ?thesis .
  qed
qed

end
