(* ===== verification/Cloud_Backfill.thy ===== *)
theory Cloud_Backfill
  imports Cloud_Portals Paging
begin

text \<open>
  Which messages of the CloudKit cache a backfill may read, and in which order
  (\<^verbatim>\<open>cloud_backfill_store.go\<close> 3051-3690, 4323-4570): the source filter of a message row, the rows that can
  become a Matrix event, the paged listings in both directions, the portal overview of a sync, and
  the re-arming of stranded backfills. SQL's \<^verbatim>\<open>TRIM\<close> with the store's list of blanks is \<^verbatim>\<open>TrimSpace\<close>:
  the list is Unicode's white space.
\<close>

section \<open>Filters\<close>

definition cloudChatPortalSyncCandidateWhere :: "cloudBackfillStore \<Rightarrow> cloud_chat_row \<Rightarrow> bool" where
  "cloudChatPortalSyncCandidateWhere s c \<longleftrightarrow> c_login_id c = loginID s \<and> c_portal_id c \<noteq> [] \<and> \<not> c_deleted c \<and>
     (bridgeFiltered s \<or> c_is_filtered c = 0)"

definition same_chat :: "cloud_chat_row \<Rightarrow> cloud_message_row \<Rightarrow> bool" where
  "same_chat c m \<longleftrightarrow> (case m_chat_id m of None \<Rightarrow> False | Some i \<Rightarrow> ci_lower_eq (c_cloud_chat_id c) i)"

definition cloudMessageChatFilterWhere :: "cloudBackfillStore \<Rightarrow> cloud_db \<Rightarrow> cloud_message_row \<Rightarrow> bool" where
  "cloudMessageChatFilterWhere s db m \<longleftrightarrow>
     (\<exists>matched \<in> set (cloud_chat db). c_login_id matched = loginID s \<and> same_chat matched m \<and>
        col_eq (m_portal_id m) (c_portal_id matched) \<and> \<not> c_deleted matched \<and>
        (bridgeFiltered s \<or> c_is_filtered matched = 0)) \<or>
     (\<not> (\<exists>source \<in> set (cloud_chat db). c_login_id source = loginID s \<and> same_chat source m) \<and>
      (bridgeFiltered s \<or>
       \<not> (\<exists>live \<in> set (cloud_chat db). c_login_id live = loginID s \<and>
          col_eq (m_portal_id m) (c_portal_id live) \<and>
          \<not> has_prefix (c_cloud_chat_id live) ''synthetic:'' \<and> \<not> has_prefix (c_cloud_chat_id live) ''recycle:'' \<and>
          \<not> c_deleted live \<and> c_is_filtered live \<noteq> 0)))"

text \<open>The object replacement character U+FFFC, which stands for an attachment, is removed from a text.\<close>

definition strip_object_char :: "string \<Rightarrow> string" where
  "strip_object_char t = concat (map snd (filter (\<lambda>x. fst x \<noteq> 65532) (runes t)))"

definition text_or_empty :: "string option \<Rightarrow> string" where
  "text_or_empty c = (case c of None \<Rightarrow> [] | Some t \<Rightarrow> t)"

definition normalized_text :: "string option \<Rightarrow> string" where
  "normalized_text c = trim_space (strip_object_char (text_or_empty c))"

definition cloudBackfillableEventWhere :: "cloudBackfillStore \<Rightarrow> cloud_db \<Rightarrow> cloud_message_row \<Rightarrow> bool" where
  "cloudBackfillableEventWhere s db m \<longleftrightarrow>
     m_login_id m = loginID s \<and> text_present (m_portal_id m) \<and> \<not> m_deleted m \<and> m_record_name m \<noteq> [] \<and>
     \<not> m_body_scrubbed m \<and>
     (case m_tapback_type m of None \<Rightarrow> True | Some t \<Rightarrow> t < 2000) \<and>
     (m_is_from_me m \<or> text_present (m_sender m) \<or>
       (\<not> like_prefix (the (m_portal_id m)) ''gid:'' \<and> \<not> contains (the (m_portal_id m)) '','')) \<and>
     (normalized_text (m_text m) \<noteq> [] \<or> trim_space (text_or_empty (m_subject m)) \<noteq> [] \<or>
       json_present (m_attachments_json m)) \<and>
     cloudMessageChatFilterWhere s db m \<and>
     \<not> (\<exists>sc \<in> set (cloud_chat db). c_login_id sc = loginID s \<and> col_eq (m_portal_id m) (c_portal_id sc) \<and>
         text_present (c_display_name sc) \<and> normalized_text (m_text m) = normalized_text (c_display_name sc) \<and>
         \<not> json_present (m_attachments_json m) \<and> m_tapback_type m = None)"

definition cloudPortalSyncCandidateWhere :: "cloudBackfillStore \<Rightarrow> cloud_db \<Rightarrow> cloud_message_row \<Rightarrow> bool" where
  "cloudPortalSyncCandidateWhere s db m \<longleftrightarrow>
     m_login_id m = loginID s \<and> text_present (m_portal_id m) \<and> \<not> m_deleted m \<and> m_record_name m \<noteq> [] \<and>
     cloudMessageChatFilterWhere s db m \<and>
     ((case m_tapback_type m of None \<Rightarrow> False | Some t \<Rightarrow> t \<ge> 2000) \<or> cloudBackfillableEventWhere s db m)"

text \<open>The rows of a portal that \<^verbatim>\<open>FetchMessages\<close> reads.\<close>

definition readable :: "cloudBackfillStore \<Rightarrow> cloud_db \<Rightarrow> portal_id \<Rightarrow> cloud_message_row \<Rightarrow> bool" where
  "readable s db portalID m \<longleftrightarrow> m_login_id m = loginID s \<and> col_eq (m_portal_id m) portalID \<and> \<not> m_deleted m \<and>
     m_record_name m \<noteq> [] \<and> cloudMessageChatFilterWhere s db m"

definition readable_rows :: "cloudBackfillStore \<Rightarrow> cloud_db \<Rightarrow> portal_id \<Rightarrow> cloud_message_row list" where
  "readable_rows s db portalID = filter (readable s db portalID) (cloud_message db)"

section \<open>Counts and newest timestamps\<close>

definition live_filtered_rows :: "cloudBackfillStore \<Rightarrow> cloud_db \<Rightarrow> portal_id \<Rightarrow> cloud_message_row list" where
  "live_filtered_rows s db portalID =
     filter (\<lambda>m. m_login_id m = loginID s \<and> col_eq (m_portal_id m) portalID \<and> \<not> m_deleted m \<and>
       cloudMessageChatFilterWhere s db m) (cloud_message db)"

definition getOldestMessageTimestamp :: "cloudBackfillStore \<Rightarrow> portal_id \<Rightarrow> cloud_db \<Rightarrow> millis" where
  "getOldestMessageTimestamp s portalID db =
     (case sql_min (map m_timestamp_ms (live_filtered_rows s db portalID)) of None \<Rightarrow> 0 | Some ts \<Rightarrow> ts)"

definition getNewestMessageTimestamp :: "cloudBackfillStore \<Rightarrow> portal_id \<Rightarrow> cloud_db \<Rightarrow> millis" where
  "getNewestMessageTimestamp s portalID db =
     (case sql_max (map m_timestamp_ms (live_filtered_rows s db portalID)) of None \<Rightarrow> 0 | Some ts \<Rightarrow> ts)"

definition backfillable_rows :: "cloudBackfillStore \<Rightarrow> portal_id \<Rightarrow> bool \<Rightarrow> cloud_db \<Rightarrow> cloud_message_row list" where
  "backfillable_rows s portalID requireContentful db =
     filter (\<lambda>m. m_login_id m = loginID s \<and> col_eq (m_portal_id m) portalID \<and> \<not> m_deleted m \<and> m_record_name m \<noteq> [] \<and>
       (if requireContentful then cloudBackfillableEventWhere s db m else cloudMessageChatFilterWhere s db m))
       (cloud_message db)"

definition getNewestBackfillableMessageTimestamp :: "cloudBackfillStore \<Rightarrow> portal_id \<Rightarrow> bool \<Rightarrow> cloud_db \<Rightarrow> millis" where
  "getNewestBackfillableMessageTimestamp s portalID requireContentful db =
     (case sql_max (map m_timestamp_ms (backfillable_rows s portalID requireContentful db)) of
        None \<Rightarrow> 0 | Some ts \<Rightarrow> ts)"

definition countBackfillableMessages :: "cloudBackfillStore \<Rightarrow> portal_id \<Rightarrow> bool \<Rightarrow> cloud_db \<Rightarrow> nat" where
  "countBackfillableMessages s portalID requireContentful db = length (backfillable_rows s portalID requireContentful db)"

definition hasPortalMessages :: "cloudBackfillStore \<Rightarrow> portal_id \<Rightarrow> cloud_db \<Rightarrow> bool" where
  "hasPortalMessages s portalID db \<longleftrightarrow> readable_rows s db portalID \<noteq> []"

definition hasContentfulMessages :: "cloudBackfillStore \<Rightarrow> portal_id \<Rightarrow> cloud_db \<Rightarrow> bool" where
  "hasContentfulMessages s portalID db \<longleftrightarrow>
     (\<exists>m \<in> set (cloud_message db). cloudBackfillableEventWhere s db m \<and> col_eq (m_portal_id m) portalID)"

section \<open>Paged listings\<close>

definition message_pos :: "cloud_message_row \<Rightarrow> millis \<times> guid" where
  "message_pos m = (m_timestamp_ms m, m_guid m)"

definition write_activity :: "cloud_message_row \<Rightarrow> millis" where
  "write_activity m = max (m_created_ts m) (m_updated_ts m)"

definition newest_first :: "cloud_message_row list \<Rightarrow> cloud_message_row list" where
  "newest_first ms = rev (sort_key message_pos ms)"

definition hasContentfulMessagesInLatestWindow :: "cloudBackfillStore \<Rightarrow> portal_id \<Rightarrow> int \<Rightarrow> cloud_db \<Rightarrow> bool" where
  "hasContentfulMessagesInLatestWindow s portalID maxInitialMessages db =
     (if maxInitialMessages \<le> 0 \<or> maxInitialMessages \<ge> 2 ^ 31 - 1 then hasContentfulMessages s portalID db
      else 0 < length (filter (cloudBackfillableEventWhere s db)
        (take (nat maxInitialMessages) (newest_first (readable_rows s db portalID)))))"

definition attachments_text :: "cloudAttachmentRow list json_text option \<Rightarrow> cloudAttachmentRow list json_text" where
  "attachments_text c = (case c of None \<Rightarrow> JEmpty | Some j \<Rightarrow> j)"

text \<open>The columns of \<^verbatim>\<open>cloudMessageSelectCols\<close>, scanned into the Go row; the record name is not selected.\<close>

definition row_of_message :: "cloud_message_row \<Rightarrow> cloudMessageRow" where
  "row_of_message m =
     \<lparr>row_GUID = m_guid m, row_RecordName = [], row_CloudChatID = text_or_empty (m_chat_id m),
      row_PortalID = text_or_empty (m_portal_id m), row_TimestampMS = m_timestamp_ms m,
      row_Sender = text_or_empty (m_sender m), row_IsFromMe = m_is_from_me m, row_Text = text_or_empty (m_text m),
      row_Subject = text_or_empty (m_subject m), row_Service = text_or_empty (m_service m), row_Deleted = m_deleted m,
      row_TapbackType = m_tapback_type m, row_TapbackTargetGUID = text_or_empty (m_tapback_target_guid m),
      row_TapbackEmoji = text_or_empty (m_tapback_emoji m), row_AttachmentsJSON = attachments_text (m_attachments_json m),
      row_DateReadMS = m_date_read_ms m, row_HasBody = m_has_body m, row_ReplyToGUID = text_or_empty (m_reply_to_guid m),
      row_ReplyToPart = text_or_empty (m_reply_to_part m), row_BodyScrubbed = m_body_scrubbed m,
      row_WriteActivityTS = write_activity m\<rparr>"

definition listBackwardMessages ::
  "cloudBackfillStore \<Rightarrow> portal_id \<Rightarrow> millis \<Rightarrow> guid \<Rightarrow> nat \<Rightarrow> cloud_db \<Rightarrow> cloudMessageRow list" where
  "listBackwardMessages s portalID beforeTS beforeGUID count db =
     map row_of_message
       (if beforeTS > 0 \<or> beforeGUID \<noteq> []
        then page_before message_pos count (beforeTS, beforeGUID) (readable_rows s db portalID)
        else take count (newest_first (readable_rows s db portalID)))"

definition listForwardMessages ::
  "cloudBackfillStore \<Rightarrow> portal_id \<Rightarrow> millis \<Rightarrow> guid \<Rightarrow> nat \<Rightarrow> cloud_db \<Rightarrow> cloudMessageRow list" where
  "listForwardMessages s portalID afterTS afterGUID count db =
     map row_of_message (page_after message_pos count (afterTS, afterGUID) (readable_rows s db portalID))"

definition listForwardMessagesByWriteActivity ::
  "cloudBackfillStore \<Rightarrow> portal_id \<Rightarrow> millis \<Rightarrow> guid \<Rightarrow> nat \<Rightarrow> cloud_db \<Rightarrow> cloudMessageRow list" where
  "listForwardMessagesByWriteActivity s portalID afterWriteTS afterGUID count db =
     map row_of_message (take count (sort_key (\<lambda>m. (write_activity m, m_guid m))
       (filter (\<lambda>m. write_activity m > afterWriteTS \<or>
           (afterGUID \<noteq> [] \<and> write_activity m = afterWriteTS \<and> m_guid m > afterGUID)) (readable_rows s db portalID))))"

definition listLatestMessages :: "cloudBackfillStore \<Rightarrow> portal_id \<Rightarrow> nat \<Rightarrow> cloud_db \<Rightarrow> cloudMessageRow list" where
  "listLatestMessages s portalID count db = map row_of_message (take count (newest_first (readable_rows s db portalID)))"

definition listOldestMessages :: "cloudBackfillStore \<Rightarrow> portal_id \<Rightarrow> nat \<Rightarrow> cloud_db \<Rightarrow> cloudMessageRow list" where
  "listOldestMessages s portalID count db =
     map row_of_message (take count (sort_key message_pos (readable_rows s db portalID)))"

definition listPendingAttachmentMessages :: "cloudBackfillStore \<Rightarrow> cloud_db \<Rightarrow> cloudMessageRow list" where
  "listPendingAttachmentMessages s db =
     map row_of_message (sort_key message_pos (filter (\<lambda>m. m_login_id m = loginID s \<and> \<not> m_deleted m \<and>
         json_present (m_attachments_json m) \<and> cloudMessageChatFilterWhere s db m \<and>
         \<not> (\<exists>cc \<in> set (cloud_chat db). c_login_id cc = m_login_id m \<and> col_eq (m_portal_id m) (c_portal_id cc) \<and>
             c_fwd_backfill_done cc)) (cloud_message db)))"

definition loadCurrentAttachmentRetryRow ::
  "cloudBackfillStore \<Rightarrow> guid \<Rightarrow> string \<Rightarrow> cloud_db \<Rightarrow> store_error + (cloudMessageRow \<times> cloudAttachmentRow \<times> nat) option" where
  "loadCurrentAttachmentRetryRow s guid recordName db =
     (case map row_of_message (filter (\<lambda>m. m_login_id m = loginID s \<and> m_guid m = guid \<and> \<not> m_deleted m \<and>
        cloudMessageChatFilterWhere s db m) (cloud_message db)) of
        [] \<Rightarrow> Inr None
      | row # _ \<Rightarrow>
          if row_AttachmentsJSON row = JEmpty then Inr None
          else (case json_unmarshal (row_AttachmentsJSON row) of
              Inl e \<Rightarrow> Inl e
            | Inr attachments \<Rightarrow>
                (case find (\<lambda>(i, a). att_RecordName a = recordName) (enumerate 0 attachments) of
                   None \<Rightarrow> Inr None | Some (i, a) \<Rightarrow> Inr (Some (row, a, i)))))"

definition getConversationReadByMe :: "cloudBackfillStore \<Rightarrow> portal_id \<Rightarrow> cloud_db \<Rightarrow> bool" where
  "getConversationReadByMe s portalID db =
     (case newest_first (filter (\<lambda>m. m_login_id m = loginID s \<and> col_eq (m_portal_id m) portalID \<and> \<not> m_deleted m \<and>
        m_tapback_type m = None) (cloud_message db)) of
        m # _ \<Rightarrow> m_is_from_me m
      | [] \<Rightarrow> chat_rows s (\<lambda>c. c_portal_id c = portalID \<and> \<not> c_deleted c \<and> c_is_filtered c = 0) db \<noteq> [])"

section \<open>Attachment cache\<close>

definition attachment_cache_merge ::
  "cloud_attachment_cache_row \<Rightarrow> cloud_attachment_cache_row \<Rightarrow> cloud_attachment_cache_row" where
  "attachment_cache_merge old new = old\<lparr>a_content_json := a_content_json new, a_created_ts := a_created_ts new\<rparr>"

definition saveAttachmentCacheEntry :: "cloudBackfillStore \<Rightarrow> millis \<Rightarrow> string \<Rightarrow> string \<Rightarrow> cloud_db \<Rightarrow> cloud_db" where
  "saveAttachmentCacheEntry s nowMS recordName contentJSON db =
     db\<lparr>cloud_attachment_cache := upsert attachment_cache_key attachment_cache_merge
       \<lparr>a_login_id = loginID s, a_record_name = recordName, a_content_json = contentJSON, a_created_ts = nowMS\<rparr>
       (cloud_attachment_cache db)\<rparr>"

definition loadAttachmentCacheJSON :: "cloudBackfillStore \<Rightarrow> string list \<Rightarrow> cloud_db \<Rightarrow> (string \<rightharpoonup> string)" where
  "loadAttachmentCacheJSON s recordNames db =
     fold (\<lambda>chunk cache. fold (\<lambda>r cache. cache(a_record_name r \<mapsto> a_content_json r))
         (filter (\<lambda>r. a_login_id r = loginID s \<and> a_record_name r \<in> set chunk) (cloud_attachment_cache db)) cache)
       (chunks 400 recordNames) Map.empty"

definition loadDeadAttachments :: "cloudBackfillStore \<Rightarrow> cloud_db \<Rightarrow> string list" where
  "loadDeadAttachments s db = map d_record_name (filter (\<lambda>r. d_login_id r = loginID s) (cloud_attachment_dead db))"

definition saveDeadAttachment :: "cloudBackfillStore \<Rightarrow> millis \<Rightarrow> string \<Rightarrow> string \<Rightarrow> cloud_db \<Rightarrow> cloud_db" where
  "saveDeadAttachment s nowMS recordName reason db =
     db\<lparr>cloud_attachment_dead := upsert attachment_dead_key do_nothing
       \<lparr>d_login_id = loginID s, d_record_name = recordName, d_reason = reason, d_failed_at = nowMS\<rparr>
       (cloud_attachment_dead db)\<rparr>"

section \<open>Statements of one login\<close>

interpretation attachment_cache_upsert: table_upsert attachment_cache_key attachment_cache_merge
  by unfold_locales (simp add: attachment_cache_key_def attachment_cache_merge_def)

interpretation attachment_dead_insert: table_upsert attachment_dead_key do_nothing
  by unfold_locales (simp add: do_nothing_def)

lemma attachment_ops [store_ops]:
  "db_stmt (loginID s) db (saveAttachmentCacheEntry s now rn cj db)"
  "db_stmt (loginID s) db (saveDeadAttachment s now rn why db)"
  unfolding db_stmt_def saveAttachmentCacheEntry_def saveDeadAttachment_def
  by (simp add: stmt_refl; intro conjI impI stmt_intros; simp add: key_defs attachment_cache_merge_def do_nothing_def)+

section \<open>Listings\<close>

lemma distinct_pos:
  assumes "pk_ok db"
  shows "distinct (map message_pos (readable_rows s db p))"
proof -
  have "distinct (map message_key (filter (readable s db p) (cloud_message db)))"
    using assms by (simp add: pk_ok_def unique_key_def distinct_map_filter)
  then show ?thesis
    unfolding readable_rows_def distinct_map
    by (auto simp: inj_on_def message_key_def message_pos_def readable_def)
qed

lemma page_is_hd: "hd (paged key n rows cur) = page_after key n cur rows"
  by (subst paged.simps) (simp add: Let_def)

lemma readable_rows_after_delete:
  assumes "q \<in> set (delete_portals s pid db)"
  shows "readable_rows s (deleteLocalChatByPortalID s now pid db) q = []"
proof -
  have "\<not> readable s (deleteLocalChatByPortalID s now pid db) q m"
    if "m \<in> set (cloud_message (deleteLocalChatByPortalID s now pid db))" for m
    using bspec [OF deleteLocalChat_no_live that] assms by (auto simp: readable_def col_eq_def)
  then show ?thesis by (simp add: readable_rows_def filter_empty_conv)
qed

lemma contentful_readable:
  "cloudBackfillableEventWhere s db m \<and> col_eq (m_portal_id m) p \<Longrightarrow> readable s db p m"
  by (auto simp: cloudBackfillableEventWhere_def readable_def)

lemma hasContentful_readable: "hasContentfulMessages s p db \<Longrightarrow> hasPortalMessages s p db"
  using contentful_readable by (fastforce simp: hasContentfulMessages_def hasPortalMessages_def readable_rows_def filter_empty_conv)

section \<open>Properties\<close>

text \<open>C33. Forward paging is complete and ordered: paging from a cursor with the position of the last row of
  each page, in pages of any positive size, delivers every readable message of the portal behind the
  cursor exactly once, in order of time and GUID; each page is what the listing returns for its cursor,
  and the listing of the oldest messages is the same order from the start.\<close>

theorem forward_paging_complete:
  assumes "pk_ok db" "0 < n"
  shows "listForwardMessages s p ts g n db = map row_of_message (hd (paged message_pos n (readable_rows s db p) (ts, g))) \<and>
    concat (paged message_pos n (readable_rows s db p) (ts, g)) =
      sort_key message_pos (filter (\<lambda>m. (ts, g) < message_pos m) (readable_rows s db p)) \<and>
    distinct (map message_pos (concat (paged message_pos n (readable_rows s db p) (ts, g)))) \<and>
    listOldestMessages s p n db = map row_of_message (take n (sort_key message_pos (readable_rows s db p)))"
proof (intro conjI)
  show "listForwardMessages s p ts g n db = map row_of_message (hd (paged message_pos n (readable_rows s db p) (ts, g)))"
    by (simp add: listForwardMessages_def page_is_hd)
  show eq: "concat (paged message_pos n (readable_rows s db p) (ts, g)) =
      sort_key message_pos (filter (\<lambda>m. (ts, g) < message_pos m) (readable_rows s db p))"
    by (rule concat_paged [OF distinct_pos [OF assms(1)] assms(2)])
  have "distinct (map message_pos (filter (\<lambda>m. (ts, g) < message_pos m) (readable_rows s db p)))"
    by (rule distinct_map_filter [OF distinct_pos [OF assms(1)]])
  then show "distinct (map message_pos (concat (paged message_pos n (readable_rows s db p) (ts, g))))"
    unfolding eq by (simp add: distinct_map)
qed (simp add: listOldestMessages_def)

theorem forward_paging_complete_witness:
  "listForwardMessages sample_store ''gid:bb'' 0 [] 1 sample_group_db =
     map row_of_message (hd (paged message_pos 1 (readable_rows sample_store sample_group_db ''gid:bb'') (0, [])))"
proof -
  have "pk_ok sample_group_db"
    unfolding sample_group_db_def
    by (intro db_stmt_pk [OF message_ops(1)] db_stmt_pk [OF chat_ops(2)] pk_ok_empty)
  from forward_paging_complete [OF this] show ?thesis by simp
qed

text \<open> A deleted portal is not brought back by a backfill: after the delete no listing, count or
  overview query finds a message of it, nor of the sibling portals the delete covered.\<close>

lemma deleted_portal_not_backfilled:
  assumes "q \<in> set (delete_portals s pid db)"
  shows "\<not> hasPortalMessages s q (deleteLocalChatByPortalID s now pid db) \<and>
    \<not> hasContentfulMessages s q (deleteLocalChatByPortalID s now pid db) \<and>
    \<not> hasContentfulMessagesInLatestWindow s q w (deleteLocalChatByPortalID s now pid db) \<and>
    countBackfillableMessages s q c (deleteLocalChatByPortalID s now pid db) = 0 \<and>
    getNewestBackfillableMessageTimestamp s q c (deleteLocalChatByPortalID s now pid db) = 0 \<and>
    listLatestMessages s q n (deleteLocalChatByPortalID s now pid db) = [] \<and>
    listForwardMessages s q ts g n (deleteLocalChatByPortalID s now pid db) = [] \<and>
    listBackwardMessages s q ts g n (deleteLocalChatByPortalID s now pid db) = []"
proof -
  let ?db = "deleteLocalChatByPortalID s now pid db"
  note empty = readable_rows_after_delete [OF assms, of now]
  then have no: "\<not> hasPortalMessages s q ?db" by (simp add: hasPortalMessages_def)
  then have nc: "\<not> hasContentfulMessages s q ?db" using hasContentful_readable by blast
  have "backfillable_rows s q c ?db = []"
  proof -
    have "\<not> readable s ?db q m" if "m \<in> set (cloud_message ?db)" for m
      using empty that by (auto simp: readable_rows_def filter_empty_conv)
    then show ?thesis
      by (auto simp: backfillable_rows_def filter_empty_conv readable_def cloudBackfillableEventWhere_def split: if_splits)
  qed
  with no nc empty show ?thesis
    by (simp add: hasContentfulMessagesInLatestWindow_def countBackfillableMessages_def newest_first_def
        getNewestBackfillableMessageTimestamp_def sql_max_def listLatestMessages_def listForwardMessages_def
        listBackwardMessages_def page_after_def page_before_def)
qed

lemma deleted_portal_not_backfilled_witness:
  "listLatestMessages sample_store ''gid:bb'' 5 (deleteLocalChatByPortalID sample_store 9 ''gid:aa'' sample_group_db) = []"
proof -
  have "''gid:bb'' \<in> set (delete_portals sample_store ''gid:aa'' sample_group_db)" by code_simp
  from deleted_portal_not_backfilled [OF this] show ?thesis by blast
qed

end
