(* ===== verification/Cloud_Maintenance.thy ===== *)
theory Cloud_Maintenance
  imports Cloud_Backfill
begin

text \<open>
  Housekeeping of the CloudKit cache (\<^verbatim>\<open>cloud_backfill_store.go\<close> 495-655, 4408-4530, 4766-4910, 5577-5690):
  the two one-time repairs recorded in \<^verbatim>\<open>cloud_maintenance\<close>, the sweep of orphaned tombstones, the
  pruning of the attachment cache, and the re-arming of stranded backfill tasks. The sweeps read pages
  by key and delete in slices with a statement that rechecks each row; they are instances of
  \<open>sweep\<close>, and the lemmas on \<open>sweep\<close> say that the pages and slices together are one statement. The
  numbers of touched rows that the operations return for the log are left out.

  The tables \<^verbatim>\<open>message\<close> and \<^verbatim>\<open>backfill_task\<close> belong to the bridge framework: their rows are arguments.
\<close>

section \<open>One-time repairs\<close>

definition legacySystemMessageCleanupTask :: string where
  "legacySystemMessageCleanupTask = ''legacy-system-messages-v1''"

definition legacyMessageDeleteClassificationTask :: string where
  "legacyMessageDeleteClassificationTask = ''legacy-message-delete-classification-v1''"

definition task_completed :: "cloudBackfillStore \<Rightarrow> string \<Rightarrow> cloud_db \<Rightarrow> bool" where
  "task_completed s task db \<longleftrightarrow>
     0 < rows_matching (\<lambda>r. t_login_id r = loginID s \<and> t_task r = task) (cloud_maintenance db)"

definition task_merge :: "cloud_maintenance_row \<Rightarrow> cloud_maintenance_row \<Rightarrow> cloud_maintenance_row" where
  "task_merge old new = old\<lparr>t_completed_ts := t_completed_ts new\<rparr>"

definition record_task :: "cloudBackfillStore \<Rightarrow> millis \<Rightarrow> string \<Rightarrow> cloud_db \<Rightarrow> cloud_db" where
  "record_task s nowMS task db = db\<lparr>cloud_maintenance :=
     upsert maintenance_key task_merge \<lparr>t_login_id = loginID s, t_task = task, t_completed_ts = nowMS\<rparr>
       (cloud_maintenance db)\<rparr>"

text \<open>The one-shot UPDATE of \<^verbatim>\<open>ensureSchema\<close> over rows that were deleted before bodies were scrubbed.\<close>

definition scrubSoftDeletedRows :: "cloudBackfillStore \<Rightarrow> cloud_db \<Rightarrow> cloud_db" where
  "scrubSoftDeletedRows s db = db\<lparr>cloud_message :=
     update_where (\<lambda>r. m_login_id r = loginID s \<and> m_deleted r \<and> \<not> m_body_scrubbed r) scrub_body (cloud_message db)\<rparr>"

definition classifyLegacyMessageDeletes :: "cloudBackfillStore \<Rightarrow> millis \<Rightarrow> cloud_db \<Rightarrow> cloud_db" where
  "classifyLegacyMessageDeletes s nowMS db =
     (if task_completed s legacyMessageDeleteClassificationTask db then db
      else record_task s nowMS legacyMessageDeleteClassificationTask
        (db\<lparr>cloud_message := update_where
           (\<lambda>r. m_login_id r = loginID s \<and> m_deleted r \<and> \<not> m_message_deleted r \<and> \<not> text_present (m_portal_id r))
           (\<lambda>r. r\<lparr>m_message_deleted := True\<rparr>) (cloud_message db)\<rparr>))"

text \<open>\<open>displayNames\<close> holds the non-empty display names of every portal.\<close>

definition legacy_display_names :: "cloudBackfillStore \<Rightarrow> cloud_db \<Rightarrow> (portal_id \<times> string) list" where
  "legacy_display_names s db =
     map (\<lambda>c. (c_portal_id c, the (c_display_name c)))
       (filter (\<lambda>c. c_login_id c = loginID s \<and> text_present (c_display_name c)) (cloud_chat db))"

definition legacy_system_candidate :: "(portal_id \<times> string) list \<Rightarrow> cloud_message_row \<Rightarrow> bool" where
  "legacy_system_candidate displayNames r \<longleftrightarrow>
     \<not> (json_present (m_attachments_json r) \<or> m_tapback_type r \<noteq> None) \<and>
     (\<not> m_has_body r \<or>
       m_portal_id r \<noteq> None \<and> text_present (m_text r) \<and>
       (the (m_portal_id r), the (m_text r)) \<in> set displayNames)"

text \<open>The recheck of the DELETE statement.\<close>

definition legacy_system_recheck :: "cloudBackfillStore \<Rightarrow> cloud_db \<Rightarrow> guid list \<Rightarrow> cloud_message_row \<Rightarrow> bool" where
  "legacy_system_recheck s db chunk r \<longleftrightarrow>
     m_login_id r = loginID s \<and> m_guid r \<in> set chunk \<and> \<not> json_present (m_attachments_json r) \<and>
     m_tapback_type r = None \<and>
     (\<not> m_has_body r \<or>
       text_present (m_text r) \<and>
       (\<exists>c \<in> set (cloud_chat db). c_login_id c = loginID s \<and> text_present (c_display_name c) \<and>
          c_display_name c = m_text r \<and> col_eq (m_portal_id r) (c_portal_id c)))"

definition deleteLegacySystemMessages :: "cloudBackfillStore \<Rightarrow> millis \<Rightarrow> cloud_db \<Rightarrow> cloud_db" where
  "deleteLegacySystemMessages s nowMS db =
     (if task_completed s legacySystemMessageCleanupTask db then db
      else record_task s nowMS legacySystemMessageCleanupTask
        (db\<lparr>cloud_message :=
           sweep (\<lambda>r. m_login_id r = loginID s) m_guid 1000 250
             (legacy_system_candidate (legacy_display_names s db)) (legacy_system_recheck s db) []
             (cloud_message db)\<rparr>))"

section \<open>Orphaned tombstones\<close>

definition chat_portals :: "cloudBackfillStore \<Rightarrow> cloud_db \<Rightarrow> portal_id list" where
  "chat_portals s db = remdups (map c_portal_id (filter (\<lambda>c. c_login_id c = loginID s) (cloud_chat db)))"

definition orphan_candidate :: "portal_id list \<Rightarrow> cloud_message_row \<Rightarrow> bool" where
  "orphan_candidate chatPortals r \<longleftrightarrow>
     \<not> (\<not> m_deleted r \<or> m_message_deleted r \<or> m_portal_id r = None) \<and> the (m_portal_id r) \<notin> set chatPortals"

definition orphan_recheck :: "cloudBackfillStore \<Rightarrow> cloud_db \<Rightarrow> guid list \<Rightarrow> cloud_message_row \<Rightarrow> bool" where
  "orphan_recheck s db chunk r \<longleftrightarrow>
     m_login_id r = loginID s \<and> m_deleted r \<and> \<not> m_message_deleted r \<and> m_guid r \<in> set chunk \<and>
     (case m_portal_id r of None \<Rightarrow> False | Some p \<Rightarrow> p \<notin> set (chat_portals s db))"

definition deleteOrphanedMessages :: "cloudBackfillStore \<Rightarrow> cloud_db \<Rightarrow> cloud_db" where
  "deleteOrphanedMessages s db = db\<lparr>cloud_message :=
     sweep (\<lambda>r. m_login_id r = loginID s) m_guid 1000 250
       (orphan_candidate (chat_portals s db)) (orphan_recheck s db) [] (cloud_message db)\<rparr>"

section \<open>The attachment cache\<close>

text \<open>The record names that a page of messages refers to; JSON that does not decode ends the scan.\<close>

fun collect_references :: "cloud_message_row list \<Rightarrow> string list \<Rightarrow> store_error + string list" where
  "collect_references [] referenced = Inr referenced"
| "collect_references (m # ms) referenced =
     (case json_unmarshal (the (m_attachments_json m)) of
        Inl e \<Rightarrow> Inl e
      | Inr atts \<Rightarrow> collect_references ms (referenced @ filter (\<lambda>n. n \<noteq> []) (map att_RecordName atts)))"

definition reference_rows :: "cloudBackfillStore \<Rightarrow> cloud_db \<Rightarrow> cloud_message_row list" where
  "reference_rows s db =
     filter (\<lambda>m. m_login_id m = loginID s \<and> \<not> m_deleted m \<and> json_present (m_attachments_json m)) (cloud_message db)"

definition orphaned_cache_where ::
  "cloudBackfillStore \<Rightarrow> millis \<Rightarrow> string list \<Rightarrow> cloud_attachment_cache_row \<Rightarrow> bool" where
  "orphaned_cache_where s cutoff recordNames r \<longleftrightarrow>
     a_login_id r = loginID s \<and> a_created_ts r < cutoff \<and> a_record_name r \<in> set recordNames"

definition pruneOrphanedAttachmentCache :: "cloudBackfillStore \<Rightarrow> millis \<Rightarrow> cloud_db \<Rightarrow> store_error + cloud_db" where
  "pruneOrphanedAttachmentCache s scanStart db =
     (case collect_references (concat (paged message_pos 500 (reference_rows s db) (0, []))) [] of
        Inl e \<Rightarrow> Inl e
      | Inr referenced \<Rightarrow> Inr (db\<lparr>cloud_attachment_cache :=
          sweep (\<lambda>r. a_login_id r = loginID s \<and> a_created_ts r < scanStart) a_record_name 500 250
            (\<lambda>r. a_record_name r \<notin> set referenced) (orphaned_cache_where s scanStart) []
            (cloud_attachment_cache db)\<rparr>))"

section \<open>Stranded backfill tasks\<close>

text \<open>Rows of the bridge framework's tables, with the columns the store reads and writes.\<close>

record backfill_task_row =
  bt_bridge_id :: string
  bt_portal_id :: portal_id
  bt_portal_receiver :: string
  bt_user_login_id :: login_id
  bt_is_done :: bool
  bt_queue_done :: bool
  bt_completed_at :: int
  bt_next_dispatch_min_ts :: int

record bridge_message_row =
  bm_bridge_id :: string
  bm_id :: string
  bm_room_id :: portal_id
  bm_room_receiver :: string

definition strandedBackfillReconciliationQuery ::
  "cloudBackfillStore \<Rightarrow> bridge_message_row list \<Rightarrow> cloud_db \<Rightarrow> backfill_task_row \<Rightarrow> bool" where
  "strandedBackfillReconciliationQuery s messages db bt \<longleftrightarrow>
     bt_user_login_id bt = loginID s \<and> bt_is_done bt \<and>
     (\<exists>cm \<in> set (cloud_message db). m_login_id cm = loginID s \<and> col_eq (m_portal_id cm) (bt_portal_id bt) \<and> \<not> m_deleted cm) \<and>
     \<not> (\<exists>m \<in> set messages. bm_bridge_id m = bt_bridge_id bt \<and> bm_room_id m = bt_portal_id bt \<and>
         bm_room_receiver m = bt_portal_receiver bt) \<and>
     \<not> (\<exists>r \<in> set (cloud_backfill_reconciled db). b_login_id r = loginID s \<and> b_portal_id r = bt_portal_id bt)"

definition rearm :: "backfill_task_row \<Rightarrow> backfill_task_row" where
  "rearm bt = bt\<lparr>bt_is_done := False, bt_queue_done := False, bt_next_dispatch_min_ts := 0\<rparr>"

definition reconciled_merge :: "cloud_backfill_reconciled_row \<Rightarrow> cloud_backfill_reconciled_row \<Rightarrow> cloud_backfill_reconciled_row" where
  "reconciled_merge old new = old\<lparr>b_reconciled_ts := b_reconciled_ts new\<rparr>"

fun reconcile_step ::
  "cloudBackfillStore \<Rightarrow> millis \<Rightarrow> backfill_task_row \<Rightarrow> backfill_task_row list \<times> cloud_db \<Rightarrow> backfill_task_row list \<times> cloud_db" where
  "reconcile_step s nowMS st (tasks, db) =
     (update_where (\<lambda>bt. bt_bridge_id bt = bt_bridge_id st \<and> bt_portal_id bt = bt_portal_id st \<and>
          bt_portal_receiver bt = bt_portal_receiver st) rearm tasks,
      db\<lparr>cloud_backfill_reconciled := upsert reconciled_key reconciled_merge
        \<lparr>b_login_id = loginID s, b_portal_id = bt_portal_id st, b_reconciled_ts = nowMS\<rparr>
        (cloud_backfill_reconciled db)\<rparr>)"

definition reconcileStrandedBackfills ::
  "cloudBackfillStore \<Rightarrow> millis \<Rightarrow> bridge_message_row list \<Rightarrow> backfill_task_row list \<Rightarrow> cloud_db \<Rightarrow>
   backfill_task_row list \<times> cloud_db \<times> nat" where
  "reconcileStrandedBackfills s nowMS messages tasks db =
     (let found = filter (strandedBackfillReconciliationQuery s messages db) tasks;
          (tasks', db') = fold (reconcile_step s nowMS) found (tasks, db)
      in (tasks', db', length found))"

text \<open>
  Portals a sync may skip. \<^verbatim>\<open>completed_at\<close> is in nanoseconds and positive here, so SQL's truncating
  division is \<open>div\<close>; SQLite's two-argument \<^verbatim>\<open>MAX\<close> is NULL when an argument is, and NULL is not greater.
\<close>

definition portalsFullyBackfilledNoNewContent :: "cloudBackfillStore \<Rightarrow> backfill_task_row list \<Rightarrow> cloud_db \<Rightarrow> portal_id set" where
  "portalsFullyBackfilledNoNewContent s tasks db =
     set (map bt_portal_id (filter (\<lambda>bt. bt_user_login_id bt = loginID s \<and> bt_is_done bt \<and> bt_completed_at bt > 0 \<and>
       \<not> (\<exists>cm \<in> set (cloud_message db). m_login_id cm = loginID s \<and> col_eq (m_portal_id cm) (bt_portal_id bt) \<and>
           \<not> m_deleted cm \<and> m_updated_ts cm > bt_completed_at bt div 1000000) \<and>
       \<not> (\<exists>cc \<in> set (cloud_chat db). c_login_id cc = loginID s \<and> c_portal_id cc = bt_portal_id bt \<and> \<not> c_deleted cc \<and>
           (case c_updated_ts cc of None \<Rightarrow> False | Some u \<Rightarrow> max (c_created_ts cc) u > bt_completed_at bt div 1000000)))
       tasks))"

definition completedBackfillWriteWatermark :: "cloudBackfillStore \<Rightarrow> portal_id \<Rightarrow> backfill_task_row list \<Rightarrow> millis" where
  "completedBackfillWriteWatermark s portalID tasks =
     (case sql_max (map bt_completed_at (filter (\<lambda>bt. bt_user_login_id bt = loginID s \<and> bt_portal_id bt = portalID \<and>
         bt_is_done bt \<and> bt_completed_at bt > 0) tasks)) of
        None \<Rightarrow> 0 | Some t \<Rightarrow> t div 1000000)"

section \<open>Lemmas\<close>

interpretation task_upsert: table_upsert maintenance_key task_merge
  by unfold_locales (simp add: maintenance_key_def task_merge_def)

interpretation reconciled_upsert: table_upsert reconciled_key reconciled_merge
  by unfold_locales (simp add: reconciled_key_def reconciled_merge_def)

lemma stmt_sweep [stmt_intros]:
  assumes "\<And>chunk r. q chunk r \<Longrightarrow> own r = l"
  shows "stmt own key l rs (sweep sel k n c cand q cur rs)"
proof (rule sweep_invariant [where P = "stmt own key l rs"])
  show "stmt own key l rs (delete_where (q chunk) rs')" if "stmt own key l rs rs'" for chunk rs'
    using assms by (rule stmt_trans [OF that stmt_delete_where])
qed (rule stmt_refl)

lemma maintenance_ops [store_ops]:
  "db_stmt (loginID s) db (classifyLegacyMessageDeletes s now db)"
  "db_stmt (loginID s) db (deleteLegacySystemMessages s now db)"
  "db_stmt (loginID s) db (deleteOrphanedMessages s db)"
  "db_stmt (loginID s) db (scrubSoftDeletedRows s db)"
  unfolding db_stmt_def scrubSoftDeletedRows_def classifyLegacyMessageDeletes_def deleteLegacySystemMessages_def deleteOrphanedMessages_def
  by (simp add: stmt_refl record_task_def; intro conjI impI stmt_intros;
      simp add: key_defs task_merge_def legacy_system_recheck_def orphan_recheck_def scrub_body_def)+

lemma prune_op: "pruneOrphanedAttachmentCache s now db = Inr db' \<Longrightarrow> db_stmt (loginID s) db db'"
  unfolding pruneOrphanedAttachmentCache_def db_stmt_def
  by (auto split: sum.splits intro!: stmt_intros simp: orphaned_cache_where_def)

lemma reconcile_eq:
  "reconcileStrandedBackfills s now ms ts db =
     (let found = filter (strandedBackfillReconciliationQuery s ms db) ts; r = fold (reconcile_step s now) found (ts, db)
      in (fst r, snd r, length found))"
  by (simp add: reconcileStrandedBackfills_def Let_def split: prod.splits)

lemma reconcile_op: "db_stmt (loginID s) db (fst (snd (reconcileStrandedBackfills s now ms ts db)))"
proof -
  have "db_stmt (loginID s) db (snd (fold (reconcile_step s now) found (ts, db)))" for found
  proof (induction found arbitrary: ts db)
    case (Cons st found)
    have "db_stmt (loginID s) db (snd (reconcile_step s now st (ts, db)))"
      by (simp add: db_stmt_def stmt_refl) (intro stmt_intros; simp add: key_defs reconciled_merge_def)
    from db_stmt_trans [OF this] Cons.IH show ?case by (cases "reconcile_step s now st (ts, db)") auto
  qed simp
  then show ?thesis by (simp add: reconcile_eq Let_def)
qed

text \<open>Within one login the GUID alone is a key, and so is the record name of a cache entry.\<close>

lemma distinct_guids: "pk_ok db \<Longrightarrow> distinct (map m_guid (filter (\<lambda>r. m_login_id r = l) (cloud_message db)))"
  unfolding pk_ok_def unique_key_def
  by (elim conjE) (drule distinct_map_filter [where P = "\<lambda>r. m_login_id r = l" and xs = "cloud_message db"],
      auto simp: distinct_map inj_on_def message_key_def)

lemma distinct_cache_names:
  "pk_ok db \<Longrightarrow> distinct (map a_record_name (filter (\<lambda>r. a_login_id r = l \<and> a_created_ts r < t) (cloud_attachment_cache db)))"
  unfolding pk_ok_def unique_key_def
  by (elim conjE) (drule distinct_map_filter [where P = "\<lambda>r. a_login_id r = l \<and> a_created_ts r < t" and xs = "cloud_attachment_cache db"],
      auto simp: distinct_map inj_on_def attachment_cache_key_def)

section \<open>Sweeps as single statements\<close>

lemma deleteOrphanedMessages_eq:
  assumes "pk_ok db"
  shows "cloud_message (deleteOrphanedMessages s db) =
    delete_where (\<lambda>r. m_login_id r = loginID s \<and> [] < m_guid r \<and> orphan_candidate (chat_portals s db) r) (cloud_message db)"
  unfolding deleteOrphanedMessages_def using distinct_guids [OF assms]
  by (simp, subst sweep_deletes) (auto simp: orphan_recheck_def orphan_candidate_def split: option.splits)

lemma legacy_recheck: "legacy_system_recheck s db chunk r \<longleftrightarrow>
    m_login_id r = loginID s \<and> m_guid r \<in> set chunk \<and> legacy_system_candidate (legacy_display_names s db) r"
  by (auto simp: legacy_system_recheck_def legacy_system_candidate_def legacy_display_names_def col_eq_def text_present_def)

lemma deleteLegacySystemMessages_eq:
  assumes "pk_ok db" "\<not> task_completed s legacySystemMessageCleanupTask db"
  shows "cloud_message (deleteLegacySystemMessages s now db) =
    delete_where (\<lambda>r. m_login_id r = loginID s \<and> [] < m_guid r \<and> legacy_system_candidate (legacy_display_names s db) r)
      (cloud_message db)"
  unfolding deleteLegacySystemMessages_def using distinct_guids [OF assms(1)] assms(2)
  by (simp add: record_task_def, subst sweep_deletes) (auto simp: legacy_recheck)

lemma record_task_completed: "task_completed s task (record_task s now task db)"
proof -
  have "(loginID s, task) \<in> set (map maintenance_key (cloud_maintenance (record_task s now task db)))"
    unfolding record_task_def by (simp add: task_upsert.keys_upsert) (auto simp: maintenance_key_def)
  then show ?thesis
    by (auto simp: task_completed_def rows_matching_def maintenance_key_def filter_empty_conv)
qed

lemma prune_eq:
  assumes "pk_ok db"
  shows "sweep (\<lambda>r. a_login_id r = loginID s \<and> a_created_ts r < t) a_record_name 500 250
      (\<lambda>r. a_record_name r \<notin> set referenced) (orphaned_cache_where s t) [] (cloud_attachment_cache db) =
    delete_where (\<lambda>r. (a_login_id r = loginID s \<and> a_created_ts r < t) \<and> [] < a_record_name r \<and> a_record_name r \<notin> set referenced)
      (cloud_attachment_cache db)"
  using distinct_cache_names [OF assms] by (subst sweep_deletes) (auto simp: orphaned_cache_where_def)

text \<open>What the reference scan collects when every page decodes, and when it gives up.\<close>

definition row_references :: "cloud_message_row \<Rightarrow> string list" where
  "row_references m = (case json_unmarshal (the (m_attachments_json m)) of
     Inl _ \<Rightarrow> [] | Inr atts \<Rightarrow> filter (\<lambda>n. n \<noteq> []) (map att_RecordName atts))"

definition decodes :: "cloud_message_row \<Rightarrow> bool" where
  "decodes m \<longleftrightarrow> json_unmarshal (the (m_attachments_json m)) \<noteq> Inl JsonError"

lemma collect_references_eq:
  "collect_references ms acc =
     (if list_all decodes ms then Inr (acc @ concat (map row_references ms)) else Inl JsonError)"
  by (induction ms acc rule: collect_references.induct)
     (auto simp: row_references_def decodes_def json_unmarshal_def comp_def split: json_text.splits sum.splits
       intro!: arg_cong [of _ _ concat] map_cong)

lemma reconcile_tasks:
  "fst (fold (reconcile_step s now) found (ts, db)) =
     update_where (\<lambda>bt. \<exists>st \<in> set found. bt_bridge_id bt = bt_bridge_id st \<and> bt_portal_id bt = bt_portal_id st \<and>
       bt_portal_receiver bt = bt_portal_receiver st) rearm ts"
proof (induction found arbitrary: ts db)
  case (Cons st found)
  show ?case by (auto simp: Cons.IH update_where_def rearm_def)
qed (simp add: update_where_def)

lemma reconcile_db:
  "cloud_message (snd (fold (reconcile_step s now) found (ts, db))) = cloud_message db"
  "cloud_chat (snd (fold (reconcile_step s now) found (ts, db))) = cloud_chat db"
  "(\<exists>r \<in> set (cloud_backfill_reconciled (snd (fold (reconcile_step s now) found (ts, db)))). reconciled_key r = k) \<longleftrightarrow>
     k \<in> reconciled_key ` set (cloud_backfill_reconciled db) \<or> (\<exists>st \<in> set found. k = (loginID s, bt_portal_id st))"
proof (induction found arbitrary: ts db)
  case (Cons st found)
  { case 1 show ?case by (simp add: Cons.IH) }
  { case 2 show ?case by (simp add: Cons.IH) }
  { case 3
    have "reconciled_key ` set (upsert reconciled_key reconciled_merge r rs) = insert (reconciled_key r) (reconciled_key ` set rs)" for r rs
      using arg_cong [OF reconciled_upsert.keys_upsert [of r rs], of set] by (auto split: if_splits)
    then show ?case by (simp add: Cons.IH) (auto simp: reconciled_key_def) }
qed auto

lemma stranded_iff:
  "strandedBackfillReconciliationQuery s ms (snd (fold (reconcile_step s now) found (ts, db))) bt \<longleftrightarrow>
     strandedBackfillReconciliationQuery s ms db bt \<and> bt_portal_id bt \<notin> bt_portal_id ` set found"
proof -
  have key: "b_login_id r = loginID s \<and> b_portal_id r = bt_portal_id bt \<longleftrightarrow> reconciled_key r = (loginID s, bt_portal_id bt)" for r
    by (simp add: reconciled_key_def)
  have "(loginID s, bt_portal_id bt) \<in> reconciled_key ` set rs \<longleftrightarrow> (\<exists>r \<in> set rs. reconciled_key r = (loginID s, bt_portal_id bt))" for rs
    by (metis image_iff)
  moreover have "(\<exists>st \<in> set found. (loginID s, bt_portal_id bt) = (loginID s, bt_portal_id st)) \<longleftrightarrow> bt_portal_id bt \<in> bt_portal_id ` set found"
    by auto
  ultimately show ?thesis unfolding strandedBackfillReconciliationQuery_def reconcile_db key by blast
qed

section \<open>Properties\<close>

text \<open> The paged orphan sweep is one statement: it removes exactly the deleted rows of this login whose
  portal has no chat row and that are not per-message tombstones (a row with an empty GUID is out of
  its reach). Live rows, per-message tombstones and rows without a portal all stay, and a second sweep
  finds nothing.\<close>

lemma orphan_sweep_effect:
  assumes "pk_ok db"
  shows "cloud_message (deleteOrphanedMessages s db) =
      delete_where (\<lambda>r. m_login_id r = loginID s \<and> m_guid r \<noteq> [] \<and> m_deleted r \<and> \<not> m_message_deleted r \<and>
        m_portal_id r \<noteq> None \<and> the (m_portal_id r) \<notin> set (chat_portals s db)) (cloud_message db) \<and>
    deleteOrphanedMessages s (deleteOrphanedMessages s db) = deleteOrphanedMessages s db"
proof
  let ?p = "\<lambda>r. m_login_id r = loginID s \<and> m_guid r \<noteq> [] \<and> m_deleted r \<and> \<not> m_message_deleted r \<and>
        m_portal_id r \<noteq> None \<and> the (m_portal_id r) \<notin> set (chat_portals s db)"
  have p: "m_login_id r = loginID s \<and> [] < m_guid r \<and> orphan_candidate (chat_portals s db) r \<longleftrightarrow> ?p r" for r
    by (cases "m_guid r") (auto simp: orphan_candidate_def)
  show eq: "cloud_message (deleteOrphanedMessages s db) = delete_where ?p (cloud_message db)"
    unfolding deleteOrphanedMessages_eq [OF assms] p ..
  have pk: "pk_ok (deleteOrphanedMessages s db)" by (rule db_stmt_pk [OF maintenance_ops(3) assms])
  have chats: "chat_portals s (deleteOrphanedMessages s db) = chat_portals s db"
    by (simp add: chat_portals_def deleteOrphanedMessages_def)
  have "cloud_message (deleteOrphanedMessages s (deleteOrphanedMessages s db)) =
      delete_where ?p (delete_where ?p (cloud_message db))"
    unfolding deleteOrphanedMessages_eq [OF pk] chats p eq ..
  also have "\<dots> = cloud_message (deleteOrphanedMessages s db)" unfolding eq by (simp add: delete_where_def)
  finally show "deleteOrphanedMessages s (deleteOrphanedMessages s db) = deleteOrphanedMessages s db"
    by (simp add: deleteOrphanedMessages_def)
qed

lemma pk_sample_group_db: "pk_ok sample_group_db"
  unfolding sample_group_db_def
  by (intro db_stmt_pk [OF message_ops(1)] db_stmt_pk [OF chat_ops(2)] pk_ok_empty)

lemma orphan_sweep_effect_witness:
  "map m_guid (cloud_message (deleteOrphanedMessages sample_store (deleteLocalChatByPortalID sample_store 9 ''gid:aa'' sample_group_db))) =
     [''g2'']"
proof -
  have "pk_ok (deleteLocalChatByPortalID sample_store 9 ''gid:aa'' sample_group_db)"
    by (rule db_stmt_pk [OF deleteLocalChatByPortalID_op pk_sample_group_db])
  from orphan_sweep_effect [OF this, THEN conjunct1] show ?thesis by (rule ssubst) code_simp
qed

text \<open> The two one-time repairs: the first run marks exactly the unrouted tombstones as per-message
  deletes, and removes exactly the rows of the old importer that are no messages (no body, or a text
  that is the name of their own chat; never one with attachments or a reaction). Each records its task,
  and every later run of it changes nothing.\<close>

lemma legacy_repairs_once:
  assumes "pk_ok db" "\<not> task_completed s legacySystemMessageCleanupTask db"
    "\<not> task_completed s legacyMessageDeleteClassificationTask db"
  shows "cloud_message (deleteLegacySystemMessages s now db) =
      delete_where (\<lambda>r. m_login_id r = loginID s \<and> m_guid r \<noteq> [] \<and>
        legacy_system_candidate (legacy_display_names s db) r) (cloud_message db) \<and>
    deleteLegacySystemMessages s later (deleteLegacySystemMessages s now db) = deleteLegacySystemMessages s now db \<and>
    cloud_message (classifyLegacyMessageDeletes s now db) =
      update_where (\<lambda>r. m_login_id r = loginID s \<and> m_deleted r \<and> \<not> m_message_deleted r \<and> \<not> text_present (m_portal_id r))
        (\<lambda>r. r\<lparr>m_message_deleted := True\<rparr>) (cloud_message db) \<and>
    classifyLegacyMessageDeletes s later (classifyLegacyMessageDeletes s now db) = classifyLegacyMessageDeletes s now db"
proof (intro conjI)
  have p: "[] < m_guid r \<longleftrightarrow> m_guid r \<noteq> []" for r by (cases "m_guid r") auto
  show "cloud_message (deleteLegacySystemMessages s now db) =
      delete_where (\<lambda>r. m_login_id r = loginID s \<and> m_guid r \<noteq> [] \<and>
        legacy_system_candidate (legacy_display_names s db) r) (cloud_message db)"
    unfolding deleteLegacySystemMessages_eq [OF assms(1,2)] p ..
  show "deleteLegacySystemMessages s later (deleteLegacySystemMessages s now db) = deleteLegacySystemMessages s now db"
    using assms(2) record_task_completed by (simp add: deleteLegacySystemMessages_def)
  show "classifyLegacyMessageDeletes s later (classifyLegacyMessageDeletes s now db) = classifyLegacyMessageDeletes s now db"
    using assms(3) record_task_completed by (simp add: classifyLegacyMessageDeletes_def)
qed (use assms(3) in \<open>simp add: classifyLegacyMessageDeletes_def record_task_def\<close>)

lemma legacy_repairs_once_witness:
  "let db = upsertMessageBatch sample_store 2 [(sample_row ''g3'' ''gid:aa'' 7 [])\<lparr>row_HasBody := False\<rparr>] sample_group_db
   in map m_guid (cloud_message (deleteLegacySystemMessages sample_store 9 db)) = [''g1'', ''g2'']"
proof -
  let ?db = "upsertMessageBatch sample_store 2 [(sample_row ''g3'' ''gid:aa'' 7 [])\<lparr>row_HasBody := False\<rparr>] sample_group_db"
  have "pk_ok ?db" by (rule db_stmt_pk [OF message_ops(1) pk_sample_group_db])
  moreover have "\<not> task_completed sample_store legacySystemMessageCleanupTask ?db" by code_simp
  moreover have "\<not> task_completed sample_store legacyMessageDeleteClassificationTask ?db" by code_simp
  ultimately have "cloud_message (deleteLegacySystemMessages sample_store 9 ?db) =
      delete_where (\<lambda>r. m_login_id r = loginID sample_store \<and> m_guid r \<noteq> [] \<and>
        legacy_system_candidate (legacy_display_names sample_store ?db) r) (cloud_message ?db)"
    by (rule legacy_repairs_once [THEN conjunct1])
  moreover have "map m_guid (delete_where (\<lambda>r. m_login_id r = loginID sample_store \<and> m_guid r \<noteq> [] \<and>
        legacy_system_candidate (legacy_display_names sample_store ?db) r) (cloud_message ?db)) = [''g1'', ''g2'']" by code_simp
  ultimately show ?thesis by (simp add: Let_def)
qed

lemma distinct_reference_pos: "pk_ok db \<Longrightarrow> distinct (map message_pos (reference_rows s db))"
  unfolding pk_ok_def unique_key_def reference_rows_def
  by (elim conjE) (drule distinct_map_filter [where P = "\<lambda>m. m_login_id m = loginID s \<and> \<not> m_deleted m \<and> json_present (m_attachments_json m)"
        and xs = "cloud_message db"], auto simp: distinct_map inj_on_def message_key_def message_pos_def)

text \<open> Pruning the attachment cache never drops an entry that a live message refers to (from the epoch on,
  where the paged reference scan starts) or that was written since the scan began, removes every other
  entry of the login with a name, and gives up without deleting anything when the attachment list of
  one of these messages does not decode.\<close>

lemma cache_prune_safe:
  fixes s db t
  defines "scanned \<equiv> filter (\<lambda>m. (0, []) < message_pos m) (reference_rows s db)"
  assumes "pk_ok db"
  shows "pruneOrphanedAttachmentCache s t db =
    (if list_all decodes scanned
     then Inr (db\<lparr>cloud_attachment_cache := filter (\<lambda>r. a_login_id r \<noteq> loginID s \<or> t \<le> a_created_ts r \<or> a_record_name r = [] \<or>
         a_record_name r \<in> set (concat (map row_references scanned))) (cloud_attachment_cache db)\<rparr>)
     else Inl JsonError)"
proof -
  have pages: "concat (paged message_pos 500 (reference_rows s db) (0, [])) = sort_key message_pos scanned"
    unfolding scanned_def by (rule concat_paged [OF distinct_reference_pos [OF assms(2)]]) simp
  have nonempty: "[] < n \<longleftrightarrow> n \<noteq> []" for n :: string by (cases n) auto
  have kept: "\<not> ((a_login_id r = loginID s \<and> a_created_ts r < t) \<and> [] < a_record_name r \<and>
        a_record_name r \<notin> set (concat (map row_references (sort_key message_pos scanned)))) \<longleftrightarrow>
      a_login_id r \<noteq> loginID s \<or> t \<le> a_created_ts r \<or> a_record_name r = [] \<or>
        a_record_name r \<in> set (concat (map row_references scanned))" for r
    unfolding nonempty by (auto simp: not_less)
  have all: "list_all decodes (sort_key message_pos scanned) \<longleftrightarrow> list_all decodes scanned" by (simp add: list_all_iff)
  show ?thesis
    unfolding pruneOrphanedAttachmentCache_def pages collect_references_eq all
    by (simp only: append.simps prune_eq [OF assms(2)] delete_where_def kept sum.case split: if_splits) simp
qed

definition sample_attachment :: "string \<Rightarrow> cloudAttachmentRow" where
  "sample_attachment rn = \<lparr>att_GUID = ''a'', att_MimeType = ''image/png'', att_UTIType = [], att_Filename = ''x.png'',
     att_FileSize = 1, att_RecordName = rn, att_HideAttachment = False, att_HasAvid = False\<rparr>"

definition sample_cache_db :: cloud_db where
  "sample_cache_db = saveAttachmentCacheEntry sample_store 2 ''r2'' ''{}'' (saveAttachmentCacheEntry sample_store 1 ''r1'' ''{}''
     (upsertMessageBatch sample_store 1 [(sample_row ''g1'' ''p'' 5 [])\<lparr>row_AttachmentsJSON := JDoc [sample_attachment ''r1'']\<rparr>] empty_db))"

lemma cache_prune_safe_witness:
  "map_sum id (\<lambda>db. map a_record_name (cloud_attachment_cache db)) (pruneOrphanedAttachmentCache sample_store 5 sample_cache_db) =
     Inr [''r1'']"
proof -
  have "pk_ok sample_cache_db"
    unfolding sample_cache_db_def
    by (intro db_stmt_pk [OF attachment_ops(1)] db_stmt_pk [OF message_ops(1)] pk_ok_empty)
  from cache_prune_safe [OF this] show ?thesis by (rule ssubst) code_simp
qed

text \<open> Stranded backfill tasks are re-armed once per portal: the repair re-opens exactly the finished tasks
  whose portal has a live CloudKit message, no bridged message and no earlier repair; it is recorded,
  so that a portal repaired once is never stranded again, whatever tasks and bridged messages there are
  later, and repeating the repair changes nothing.\<close>

lemma reconcile_one_shot:
  fixes s now ms ts db
  defines "r \<equiv> reconcileStrandedBackfills s now ms ts db"
  defines "found \<equiv> filter (strandedBackfillReconciliationQuery s ms db) ts"
  shows "fst r = update_where (\<lambda>bt. \<exists>st \<in> set found. bt_bridge_id bt = bt_bridge_id st \<and> bt_portal_id bt = bt_portal_id st \<and>
        bt_portal_receiver bt = bt_portal_receiver st) rearm ts \<and>
    (strandedBackfillReconciliationQuery s ms' (fst (snd r)) bt \<longleftrightarrow>
       strandedBackfillReconciliationQuery s ms' db bt \<and> bt_portal_id bt \<notin> bt_portal_id ` set found) \<and>
    reconcileStrandedBackfills s later ms (fst r) (fst (snd r)) = (fst r, fst (snd r), 0)"
proof (intro conjI)
  let ?match = "\<lambda>bt st. bt_bridge_id bt = bt_bridge_id st \<and> bt_portal_id bt = bt_portal_id st \<and> bt_portal_receiver bt = bt_portal_receiver st"
  have r: "fst r = fst (fold (reconcile_step s now) found (ts, db))" "fst (snd r) = snd (fold (reconcile_step s now) found (ts, db))"
    by (simp_all add: r_def found_def reconcile_eq Let_def)
  show tasks: "fst r = update_where (\<lambda>bt. \<exists>st \<in> set found. ?match bt st) rearm ts"
    by (simp add: r reconcile_tasks)
  show "strandedBackfillReconciliationQuery s ms' (fst (snd r)) bt \<longleftrightarrow>
       strandedBackfillReconciliationQuery s ms' db bt \<and> bt_portal_id bt \<notin> bt_portal_id ` set found"
    by (simp add: r stranded_iff)
  have "\<not> strandedBackfillReconciliationQuery s ms (fst (snd r)) bt" if "bt \<in> set (fst r)" for bt
    using that unfolding tasks
  proof (cases rule: update_whereE)
    case (hit st)
    then show ?thesis by (simp add: strandedBackfillReconciliationQuery_def rearm_def)
  next
    case miss
    then show ?thesis by (auto simp: r stranded_iff found_def)
  qed
  then have "filter (strandedBackfillReconciliationQuery s ms (fst (snd r))) (fst r) = []" by (simp add: filter_empty_conv)
  then show "reconcileStrandedBackfills s later ms (fst r) (fst (snd r)) = (fst r, fst (snd r), 0)"
    by (simp add: reconcile_eq)
qed

definition sample_task :: backfill_task_row where
  "sample_task = \<lparr>bt_bridge_id = ''b'', bt_portal_id = ''gid:bb'', bt_portal_receiver = ''alice'', bt_user_login_id = ''alice'',
     bt_is_done = True, bt_queue_done = True, bt_completed_at = 7000000, bt_next_dispatch_min_ts = 9\<rparr>"

lemma reconcile_one_shot_witness:
  "fst (reconcileStrandedBackfills sample_store 3 [] [sample_task] sample_group_db) = [rearm sample_task]"
proof -
  have "fst (reconcileStrandedBackfills sample_store 3 [] [sample_task] sample_group_db) =
      update_where (\<lambda>bt. \<exists>st \<in> set (filter (strandedBackfillReconciliationQuery sample_store [] sample_group_db) [sample_task]).
        bt_bridge_id bt = bt_bridge_id st \<and> bt_portal_id bt = bt_portal_id st \<and> bt_portal_receiver bt = bt_portal_receiver st)
        rearm [sample_task]"
    by (rule reconcile_one_shot [THEN conjunct1])
  also have "\<dots> = [rearm sample_task]" by code_simp
  finally show ?thesis .
qed

end
