(* ===== verification/Body_Scrub.thy ===== *)
theory Body_Scrub
  imports Cloud_Maintenance
begin

text \<open>
  The privacy scrubbers of the CloudKit cache (\<^verbatim>\<open>cloud_backfill_store.go\<close> 4092-4262, 4911-5576): plaintext of
  a message is nulled once it is delivered to Matrix, can never be delivered, or lies beyond the
  backfill window; the clear and re-scrub pair of an automatic rehydrate attempt. The bridge
  framework's \<^verbatim>\<open>message\<close> table is an argument; so are the clock readings, in milliseconds. A pass of the
  main scrubber reads both again for every batch, so they are functions of the number of the read.
  \<open>privacyOff\<close> is the development-only switch \<^verbatim>\<open>debugDisablePrivacy\<close>; the lock that serializes passes and
  the pauses between batches are left out, and so are the row counts kept for the log.
\<close>

section \<open>Predicates\<close>

definition pendingBackfillScrubHold :: millis where
  "pendingBackfillScrubHold = 24 * 60 * 60 * 1000"

definition chat_id_blank :: "cloud_message_row \<Rightarrow> bool" where
  "chat_id_blank m \<longleftrightarrow> \<not> text_present (m_chat_id m)"

definition pending_chat_row :: "cloudBackfillStore \<Rightarrow> cloud_db \<Rightarrow> millis \<Rightarrow> cloud_message_row \<Rightarrow> cloud_chat_row \<Rightarrow> bool" where
  "pending_chat_row s db hold m pending \<longleftrightarrow>
     c_login_id pending = loginID s \<and> col_eq (m_portal_id m) (c_portal_id pending) \<and> \<not> c_deleted pending \<and>
     (bridgeFiltered s \<or> c_is_filtered pending = 0) \<and>
     (chat_id_blank m \<or> same_chat pending m \<or>
       \<not> (\<exists>known \<in> set (cloud_chat db). c_login_id known = loginID s \<and>
           col_eq (m_portal_id m) (c_portal_id known) \<and> same_chat known m)) \<and>
     \<not> c_fwd_backfill_done pending \<and> c_created_ts pending \<ge> hold"

definition delivered_chat_row :: "cloudBackfillStore \<Rightarrow> cloud_message_row \<Rightarrow> cloud_chat_row \<Rightarrow> bool" where
  "delivered_chat_row s m delivered \<longleftrightarrow>
     c_login_id delivered = loginID s \<and> col_eq (m_portal_id m) (c_portal_id delivered) \<and> \<not> c_deleted delivered \<and>
     c_fwd_backfill_done delivered \<and> (bridgeFiltered s \<or> c_is_filtered delivered = 0) \<and>
     \<not> chat_id_blank m \<and> same_chat delivered m"

definition pendingBackfillGateSQL :: "cloudBackfillStore \<Rightarrow> cloud_db \<Rightarrow> millis \<Rightarrow> cloud_message_row \<Rightarrow> bool" where
  "pendingBackfillGateSQL s db hold m \<longleftrightarrow>
     \<not> ((\<exists>pending \<in> set (cloud_chat db). pending_chat_row s db hold m pending) \<and>
        \<not> (\<exists>delivered \<in> set (cloud_chat db). delivered_chat_row s m delivered))"

definition permanentlyFilteredMessageWhere :: "cloudBackfillStore \<Rightarrow> cloud_db \<Rightarrow> cloud_message_row \<Rightarrow> bool" where
  "permanentlyFilteredMessageWhere s db m \<longleftrightarrow>
     (\<exists>source \<in> set (cloud_chat db). c_login_id source = loginID s \<and> same_chat source m \<and>
        col_eq (m_portal_id m) (c_portal_id source)) \<and>
     \<not> (\<exists>eligible \<in> set (cloud_chat db). c_login_id eligible = loginID s \<and> same_chat eligible m \<and>
        col_eq (m_portal_id m) (c_portal_id eligible) \<and> \<not> c_deleted eligible \<and>
        (bridgeFiltered s \<or> c_is_filtered eligible = 0)) \<or>
     \<not> bridgeFiltered s \<and>
     \<not> (\<exists>source \<in> set (cloud_chat db). c_login_id source = loginID s \<and> same_chat source m) \<and>
     (\<exists>live \<in> set (cloud_chat db). c_login_id live = loginID s \<and> col_eq (m_portal_id m) (c_portal_id live) \<and>
        \<not> has_prefix (c_cloud_chat_id live) ''synthetic:'' \<and> \<not> has_prefix (c_cloud_chat_id live) ''recycle:'' \<and>
        \<not> c_deleted live \<and> c_is_filtered live \<noteq> 0)"

definition forceWhere :: "cloudBackfillStore \<Rightarrow> cloud_db \<Rightarrow> cloud_message_row \<Rightarrow> bool" where
  "forceWhere s db m \<longleftrightarrow> m_deleted m \<or> permanentlyFilteredMessageWhere s db m"

definition not_reaction :: "cloud_message_row \<Rightarrow> bool" where
  "not_reaction m \<longleftrightarrow> (case m_tapback_type m of None \<Rightarrow> True | Some t \<Rightarrow> t < 2000)"

text \<open>The conditions every statement of a scrubber repeats.\<close>

definition scrub_base :: "cloudBackfillStore \<Rightarrow> millis \<Rightarrow> cloud_message_row \<Rightarrow> bool" where
  "scrub_base s cutoff m \<longleftrightarrow>
     m_login_id m = loginID s \<and> \<not> m_body_scrubbed m \<and> not_reaction m \<and> m_updated_ts m < cutoff"

section \<open>Delivered messages\<close>

type_synonym delivery_witnesses = "guid \<times> portal_id \<rightharpoonup> string"

definition add_witness :: "guid \<times> portal_id \<Rightarrow> string \<Rightarrow> delivery_witnesses \<Rightarrow> delivery_witnesses" where
  "add_witness key i witnesses = (if witnesses key \<noteq> None then witnesses else witnesses(key \<mapsto> i))"

definition bridged_step :: "bridge_message_row \<Rightarrow> delivery_witnesses \<Rightarrow> delivery_witnesses" where
  "bridged_step m witnesses =
     (let normalized = to_lower (bm_id m);
          witnesses' = add_witness (normalized, bm_room_id m) (bm_id m) witnesses
      in case index_of normalized ''_'' of
           Some suffix \<Rightarrow>
             if suffix > 0 then add_witness (take suffix normalized, bm_room_id m) (bm_id m) witnesses' else witnesses'
         | None \<Rightarrow> witnesses')"

definition receiver_ok :: "cloudBackfillStore \<Rightarrow> string \<Rightarrow> bridge_message_row \<Rightarrow> bool" where
  "receiver_ok s bridgeID m \<longleftrightarrow>
     bm_bridge_id m = bridgeID \<and> (bm_room_receiver m = loginID s \<or> bm_room_receiver m = [])"

definition loadBridgedMessageIDs :: "cloudBackfillStore \<Rightarrow> string \<Rightarrow> bridge_message_row list \<Rightarrow> delivery_witnesses" where
  "loadBridgedMessageIDs s bridgeID messages = fold bridged_step (filter (receiver_ok s bridgeID) messages) Map.empty"

section \<open>Delivered, deleted and unreachable bodies\<close>

record cloudScrubCandidate =
  sc_guid :: guid
  sc_portalID :: portal_id
  sc_forceScrub :: bool

definition not_excluded :: "portal_id list \<Rightarrow> cloud_message_row \<Rightarrow> bool" where
  "not_excluded excludePortals m \<longleftrightarrow>
     excludePortals = [] \<or> (case m_portal_id m of None \<Rightarrow> False | Some p \<Rightarrow> p \<notin> set excludePortals)"

definition scrubCandidates ::
  "cloudBackfillStore \<Rightarrow> millis \<Rightarrow> millis \<Rightarrow> portal_id list \<Rightarrow> cloud_db \<Rightarrow> cloudScrubCandidate list" where
  "scrubCandidates s cutoff holdCutoff excludePortals db =
     map (\<lambda>m. \<lparr>sc_guid = m_guid m, sc_portalID = text_or_empty (m_portal_id m), sc_forceScrub = forceWhere s db m\<rparr>)
       (sort_key m_updated_ts (filter (\<lambda>m. scrub_base s cutoff m \<and>
          (forceWhere s db m \<or> pendingBackfillGateSQL s db holdCutoff m \<and> cloudMessageChatFilterWhere s db m) \<and>
          not_excluded excludePortals m) (cloud_message db)))"

record deliveryProof =
  dp_guid :: guid
  dp_portalID :: portal_id
  dp_messageID :: string

definition delivery_proofs :: "delivery_witnesses \<Rightarrow> cloudScrubCandidate list \<Rightarrow> deliveryProof list" where
  "delivery_proofs bridged candidates =
     concat (map (\<lambda>c. if sc_forceScrub c then []
       else (case bridged (to_lower (sc_guid c), sc_portalID c) of
           None \<Rightarrow> []
         | Some messageID \<Rightarrow> [\<lparr>dp_guid = sc_guid c, dp_portalID = sc_portalID c, dp_messageID = messageID\<rparr>])) candidates)"

text \<open>The two branches of the UPDATE: a forced GUID, and a GUID whose exact witness is still there.\<close>

definition scrub_eligible ::
  "cloudBackfillStore \<Rightarrow> string \<Rightarrow> millis \<Rightarrow> bridge_message_row list \<Rightarrow> guid list \<Rightarrow> deliveryProof list \<Rightarrow>
   cloud_db \<Rightarrow> cloud_message_row \<Rightarrow> bool" where
  "scrub_eligible s bridgeID holdCutoff messages forceGUIDs delivered db m \<longleftrightarrow>
     m_guid m \<in> set forceGUIDs \<and> forceWhere s db m \<or>
     (\<exists>proof' \<in> set delivered. \<exists>d \<in> set messages. receiver_ok s bridgeID d \<and>
        bm_room_id d = dp_portalID proof' \<and> bm_id d = dp_messageID proof' \<and>
        dp_guid proof' = m_guid m \<and> col_eq (m_portal_id m) (dp_portalID proof')) \<and>
     pendingBackfillGateSQL s db holdCutoff m \<and> cloudMessageChatFilterWhere s db m"

definition scrubBatchIfEligible ::
  "cloudBackfillStore \<Rightarrow> string \<Rightarrow> millis \<Rightarrow> millis \<Rightarrow> bridge_message_row list \<Rightarrow> delivery_witnesses \<Rightarrow>
   cloudScrubCandidate list \<Rightarrow> cloud_db \<Rightarrow> cloud_db" where
  "scrubBatchIfEligible s bridgeID cutoff holdCutoff messages bridged candidates db =
     (let forceGUIDs = map sc_guid (filter sc_forceScrub candidates);
          delivered = delivery_proofs bridged candidates
      in if forceGUIDs = [] \<and> delivered = [] then db
         else db\<lparr>cloud_message := update_where (\<lambda>m. scrub_base s cutoff m \<and>
             scrub_eligible s bridgeID holdCutoff messages forceGUIDs delivered db m) scrub_body (cloud_message db)\<rparr>)"

text \<open>
  One pass. \<open>clock 0\<close> is read for the cutoff, \<open>clock 1\<close> for the candidates, \<open>clock (i + 2)\<close> in batch \<open>i\<close>;
  \<open>msgs 0\<close> is the delivery snapshot and \<open>msgs (i + 1)\<close> the table batch \<open>i\<close> joins. \<open>others i\<close> is what other
  writers do to the cache after the candidates are listed, or after the batch before, until batch \<open>i\<close> runs.
\<close>

definition scrub_step ::
  "cloudBackfillStore \<Rightarrow> (nat \<Rightarrow> millis) \<Rightarrow> (nat \<Rightarrow> bridge_message_row list) \<Rightarrow> string \<Rightarrow> millis \<Rightarrow> delivery_witnesses \<Rightarrow>
   nat \<Rightarrow> cloudScrubCandidate list \<Rightarrow> cloud_db \<Rightarrow> cloud_db" where
  "scrub_step s clock msgs bridgeID cutoff bridged i batch =
     scrubBatchIfEligible s bridgeID cutoff (clock (i + 2) - pendingBackfillScrubHold) (msgs (i + 1)) bridged batch"

definition scrub_snapshot ::
  "cloudBackfillStore \<Rightarrow> string \<Rightarrow> bridge_message_row list \<Rightarrow> cloudScrubCandidate list \<Rightarrow> delivery_witnesses" where
  "scrub_snapshot s bridgeID messages candidates =
     (if list_all sc_forceScrub candidates then Map.empty else loadBridgedMessageIDs s bridgeID messages)"

definition scrubBridgedBodies ::
  "bool \<Rightarrow> cloudBackfillStore \<Rightarrow> (nat \<Rightarrow> millis) \<Rightarrow> (nat \<Rightarrow> bridge_message_row list) \<Rightarrow> (nat \<Rightarrow> cloud_db \<Rightarrow> cloud_db) \<Rightarrow>
   string \<Rightarrow> millis \<Rightarrow> portal_id list \<Rightarrow> cloud_db \<Rightarrow> cloud_db" where
  "scrubBridgedBodies privacyOff s clock msgs others bridgeID graceWindow excludePortals db =
     (if privacyOff then db
      else let cutoff = clock 0 - graceWindow;
               candidates = scrubCandidates s cutoff (clock 1 - pendingBackfillScrubHold) excludePortals db;
               bridged = scrub_snapshot s bridgeID (msgs 0) candidates
           in fold (\<lambda>(i, batch) db. scrub_step s clock msgs bridgeID cutoff bridged i batch (others i db))
                (enumerate 0 (chunks 1000 candidates)) db)"

text \<open>A cache nobody else writes to during the pass.\<close>

abbreviation quiet :: "nat \<Rightarrow> cloud_db \<Rightarrow> cloud_db" where
  "quiet \<equiv> \<lambda>_ db. db"

section \<open>Reaction texts\<close>

definition reaction_base :: "cloudBackfillStore \<Rightarrow> millis \<Rightarrow> cloud_message_row \<Rightarrow> bool" where
  "reaction_base s cutoff m \<longleftrightarrow> m_login_id m = loginID s \<and> \<not> m_body_scrubbed m \<and>
     (case m_tapback_type m of None \<Rightarrow> False | Some t \<Rightarrow> t \<ge> 2000) \<and> m_updated_ts m < cutoff"

definition reactionScrubCandidates :: "cloudBackfillStore \<Rightarrow> millis \<Rightarrow> nat \<Rightarrow> cloud_message_row list \<Rightarrow> guid list" where
  "reactionScrubCandidates s cutoff limit rs =
     map m_guid (take limit (filter (\<lambda>m. reaction_base s cutoff m \<and> (text_present (m_text m) \<or> text_present (m_subject m))) rs))"

definition scrub_reaction :: "cloud_message_row \<Rightarrow> cloud_message_row" where
  "scrub_reaction m = m\<lparr>m_text := None, m_subject := None, m_body_scrubbed := True\<rparr>"

lemma reaction_base_scrubbed: "\<not> reaction_base s cutoff (scrub_reaction m)"
  by (simp add: reaction_base_def scrub_reaction_def)

text \<open>A statement that ends its own condition leaves fewer rows that satisfy it.\<close>

lemma rows_matching_decreases:
  assumes "\<And>r. \<not> p (f r)" "\<And>r. q r \<Longrightarrow> p r" "0 < rows_matching q rs"
  shows "rows_matching p (update_where q f rs) < rows_matching p rs"
proof -
  have le: "rows_matching p (update_where q f rs) \<le> rows_matching p rs" for rs
    using assms(1,2) by (induction rs) (auto simp: rows_matching_def update_where_def)
  show ?thesis using assms(3)
  proof (induction rs)
    case (Cons r rs)
    show ?case
    proof (cases "q r")
      case True
      with assms(1,2) le [of rs] show ?thesis by (simp add: rows_matching_def update_where_def)
    next
      case False
      with Cons show ?thesis by (auto simp: rows_matching_def update_where_def)
    qed
  qed (simp add: rows_matching_def)
qed

function scrub_reactions :: "cloudBackfillStore \<Rightarrow> millis \<Rightarrow> cloud_message_row list \<Rightarrow> cloud_message_row list" where
  "scrub_reactions s cutoff rs =
     (let guids = reactionScrubCandidates s cutoff 1000 rs;
          hit = (\<lambda>m. reaction_base s cutoff m \<and> m_guid m \<in> set guids);
          rs' = update_where hit scrub_reaction rs
      in if guids = [] then rs
         else if length guids < 1000 \<or> rows_matching hit rs = 0 then rs'
         else scrub_reactions s cutoff rs')"
  by auto
termination
proof (relation "measure (\<lambda>(s, cutoff, rs). rows_matching (reaction_base s cutoff) rs)", goal_cases)
  case (2 s cutoff rs guids hit rs')
  then show ?case by (auto intro!: rows_matching_decreases simp: reaction_base_scrubbed)
qed simp

declare scrub_reactions.simps [simp del]

definition scrubReactionText :: "bool \<Rightarrow> cloudBackfillStore \<Rightarrow> millis \<Rightarrow> millis \<Rightarrow> cloud_db \<Rightarrow> cloud_db" where
  "scrubReactionText privacyOff s now graceWindow db =
     (if privacyOff then db
      else db\<lparr>cloud_message := scrub_reactions s (now - graceWindow) (cloud_message db)\<rparr>)"

section \<open>The tail beyond the backfill window\<close>

definition tail_where ::
  "cloudBackfillStore \<Rightarrow> cloud_db \<Rightarrow> portal_id \<Rightarrow> millis \<Rightarrow> millis \<Rightarrow> cloud_message_row \<Rightarrow> bool" where
  "tail_where s db pid cutoff threshold m \<longleftrightarrow>
     m_login_id m = loginID s \<and> col_eq (m_portal_id m) pid \<and> cloudMessageChatFilterWhere s db m \<and>
     \<not> m_body_scrubbed m \<and> not_reaction m \<and> m_updated_ts m < cutoff \<and> m_timestamp_ms m < threshold"

function drain_tail :: "(cloud_message_row \<Rightarrow> bool) \<Rightarrow> cloud_message_row list \<Rightarrow> cloud_message_row list" where
  "drain_tail old rs =
     (let tail = (\<lambda>m. old m \<and> \<not> m_body_scrubbed m);
          guids = map m_guid (take 1000 (filter tail rs));
          hit = (\<lambda>m. tail m \<and> m_guid m \<in> set guids);
          rs' = update_where hit scrub_body rs
      in if rows_matching hit rs < 1000 then rs' else drain_tail old rs')"
  by auto
termination
proof (relation "measure (\<lambda>(old, rs). rows_matching (\<lambda>m. old m \<and> \<not> m_body_scrubbed m) rs)", goal_cases)
  case (2 old rs tail guids hit rs')
  then show ?case by (auto intro!: rows_matching_decreases simp: scrub_body_def)
qed simp

declare drain_tail.simps [simp del]

definition tail_portals :: "cloudBackfillStore \<Rightarrow> millis \<Rightarrow> int \<Rightarrow> cloud_db \<Rightarrow> portal_id list" where
  "tail_portals s holdCutoff keepPerPortal db =
     (let rows = filter (\<lambda>m. m_login_id m = loginID s \<and> \<not> m_deleted m \<and> m_record_name m \<noteq> [] \<and> m_portal_id m \<noteq> None \<and>
            cloudMessageChatFilterWhere s db m \<and> pendingBackfillGateSQL s db holdCutoff m) (cloud_message db)
      in filter (\<lambda>p. int (length (filter (\<lambda>m. m_portal_id m = Some p) rows)) > keepPerPortal)
           (remdups (map (\<lambda>m. the (m_portal_id m)) rows)))"

definition tail_threshold :: "cloudBackfillStore \<Rightarrow> portal_id \<Rightarrow> int \<Rightarrow> cloud_db \<Rightarrow> millis option" where
  "tail_threshold s pid keepPerPortal db =
     (case drop (nat (keepPerPortal - 1)) (newest_first (readable_rows s db pid)) of
        [] \<Rightarrow> None | m # _ \<Rightarrow> Some (m_timestamp_ms m))"

definition scrub_portal_tail :: "cloudBackfillStore \<Rightarrow> millis \<Rightarrow> int \<Rightarrow> portal_id \<Rightarrow> cloud_db \<Rightarrow> cloud_db" where
  "scrub_portal_tail s cutoff keepPerPortal pid db =
     (case tail_threshold s pid keepPerPortal db of
        None \<Rightarrow> db
      | Some threshold \<Rightarrow> db\<lparr>cloud_message := drain_tail (tail_where s db pid cutoff threshold) (cloud_message db)\<rparr>)"

definition scrubUnbridgedTail ::
  "bool \<Rightarrow> cloudBackfillStore \<Rightarrow> millis \<Rightarrow> millis \<Rightarrow> int \<Rightarrow> millis \<Rightarrow> portal_id list \<Rightarrow> cloud_db \<Rightarrow> cloud_db" where
  "scrubUnbridgedTail privacyOff s now now2 keepPerPortal graceWindow excludePortals db =
     (if privacyOff then db
      else if keepPerPortal \<le> 0 then db
      else fold (\<lambda>pid db. if pid \<in> set excludePortals then db
               else scrub_portal_tail s (now - graceWindow) keepPerPortal pid db)
             (tail_portals s (now2 - pendingBackfillScrubHold) keepPerPortal db) db)"

section \<open>Rehydrate attempts\<close>

record rehydrateScrubRow =
  rs_GUID :: guid
  rs_UpdatedTS :: millis

record rehydrateScrubAttempt =
  ra_Rows :: "rehydrateScrubRow list"
  ra_MarkerTS :: millis

definition rehydrate_where :: "cloudBackfillStore \<Rightarrow> cloud_db \<Rightarrow> portal_id \<Rightarrow> cloud_message_row \<Rightarrow> bool" where
  "rehydrate_where s db portalID m \<longleftrightarrow>
     m_login_id m = loginID s \<and> col_eq (m_portal_id m) portalID \<and> m_body_scrubbed m \<and> \<not> m_deleted m \<and>
     cloudMessageChatFilterWhere s db m"

definition clearBodyScrubForRehydrate ::
  "cloudBackfillStore \<Rightarrow> millis \<Rightarrow> portal_id \<Rightarrow> cloud_db \<Rightarrow> rehydrateScrubAttempt \<times> cloud_db" where
  "clearBodyScrubForRehydrate s now portalID db =
     (let rows = map (\<lambda>m. \<lparr>rs_GUID = m_guid m, rs_UpdatedTS = m_updated_ts m\<rparr>)
            (filter (rehydrate_where s db portalID) (cloud_message db));
          marker = now - 1000
      in (\<lparr>ra_Rows = rows, ra_MarkerTS = marker\<rparr>,
          db\<lparr>cloud_message := fold (\<lambda>chunk. update_where (\<lambda>m. rehydrate_where s db portalID m \<and> m_guid m \<in> rs_GUID ` set chunk)
              (\<lambda>m. m\<lparr>m_body_scrubbed := False, m_updated_ts := marker\<rparr>)) (chunks 500 rows) (cloud_message db)\<rparr>))"

text \<open>\<^verbatim>\<open>CASE guid WHEN ... THEN ... ELSE updated_ts END\<close> takes the first matching pair.\<close>

definition rescrub_row :: "millis \<Rightarrow> rehydrateScrubRow list \<Rightarrow> cloud_message_row \<Rightarrow> cloud_message_row" where
  "rescrub_row marker chunk m = m\<lparr>m_body_scrubbed := True,
     m_updated_ts := (if m_updated_ts m = marker
       then (case find (\<lambda>r. rs_GUID r = m_guid m) chunk of Some r \<Rightarrow> rs_UpdatedTS r | None \<Rightarrow> m_updated_ts m)
       else m_updated_ts m)\<rparr>"

definition rescrub_where :: "cloudBackfillStore \<Rightarrow> portal_id \<Rightarrow> millis \<Rightarrow> rehydrateScrubRow list \<Rightarrow> cloud_message_row \<Rightarrow> bool" where
  "rescrub_where s portalID marker chunk m \<longleftrightarrow>
     m_login_id m = loginID s \<and> col_eq (m_portal_id m) portalID \<and> \<not> m_body_scrubbed m \<and>
     (m_updated_ts m = marker \<or>
       \<not> text_present (m_text m) \<and> \<not> text_present (m_subject m) \<and> \<not> json_present (m_attachments_json m)) \<and>
     m_guid m \<in> rs_GUID ` set chunk"

definition rescrubClearedRows :: "cloudBackfillStore \<Rightarrow> portal_id \<Rightarrow> rehydrateScrubAttempt \<Rightarrow> cloud_db \<Rightarrow> cloud_db" where
  "rescrubClearedRows s portalID attempt db =
     (if ra_Rows attempt = [] then db
      else db\<lparr>cloud_message := fold (\<lambda>chunk. update_where (rescrub_where s portalID (ra_MarkerTS attempt) chunk)
          (rescrub_row (ra_MarkerTS attempt) chunk)) (chunks 200 (ra_Rows attempt)) (cloud_message db)\<rparr>)"

section \<open>A pass as one statement\<close>

lemma fold_update_where_any:
  assumes "\<And>x r. \<not> P x (f r)"
  shows "fold (\<lambda>x. update_where (P x) f) xs rs = update_where (\<lambda>r. \<exists>x \<in> set xs. P x r) f rs"
proof (induction xs arbitrary: rs)
  case (Cons x xs)
  show ?case unfolding fold_simps Cons.IH comp_def using assms by (auto simp: update_where_def)
qed (simp add: update_where_def)

text \<open>Everything the eligibility of a row depends on besides the row: the chats.\<close>

lemma chats_only:
  assumes "cloud_chat db' = cloud_chat db"
  shows "cloudMessageChatFilterWhere s db' = cloudMessageChatFilterWhere s db"
    "pendingBackfillGateSQL s db' = pendingBackfillGateSQL s db"
    "forceWhere s db' = forceWhere s db"
    "scrub_eligible s b h ms fg ps db' = scrub_eligible s b h ms fg ps db"
    "tail_where s db' = tail_where s db"
    "rehydrate_where s db' = rehydrate_where s db"
  using assms
  by (simp_all add: fun_eq_iff cloudMessageChatFilterWhere_def pendingBackfillGateSQL_def pending_chat_row_def
      forceWhere_def permanentlyFilteredMessageWhere_def scrub_eligible_def tail_where_def rehydrate_where_def)

lemma scrub_base_scrubbed [simp]: "\<not> scrub_base s cutoff (scrub_body m)"
  by (simp add: scrub_base_def scrub_body_def)

lemma scrubBatch_eq:
  "scrubBatchIfEligible s b cutoff hold ms bridged cs db =
     db\<lparr>cloud_message := update_where (\<lambda>m. scrub_base s cutoff m \<and>
       scrub_eligible s b hold ms (map sc_guid (filter sc_forceScrub cs)) (delivery_proofs bridged cs) db m) scrub_body (cloud_message db)\<rparr>"
proof (cases "filter sc_forceScrub cs = [] \<and> delivery_proofs bridged cs = []")
  case True
  then show ?thesis by (simp add: scrubBatchIfEligible_def scrub_eligible_def update_where_def)
qed (auto simp: scrubBatchIfEligible_def Let_def)

definition batch_eligible ::
  "cloudBackfillStore \<Rightarrow> (nat \<Rightarrow> millis) \<Rightarrow> (nat \<Rightarrow> bridge_message_row list) \<Rightarrow> string \<Rightarrow> millis \<Rightarrow> delivery_witnesses \<Rightarrow>
   cloud_db \<Rightarrow> nat \<times> cloudScrubCandidate list \<Rightarrow> cloud_message_row \<Rightarrow> bool" where
  "batch_eligible s clock msgs b cutoff bridged db x m \<longleftrightarrow> scrub_base s cutoff m \<and>
     scrub_eligible s b (clock (fst x + 2) - pendingBackfillScrubHold) (msgs (fst x + 1))
       (map sc_guid (filter sc_forceScrub (snd x))) (delivery_proofs bridged (snd x)) db m"

lemma fold_batches:
  "fold (\<lambda>(i, batch) db. scrub_step s clock msgs b cutoff bridged i batch (quiet i db)) xs db =
     db\<lparr>cloud_message := update_where (\<lambda>m. \<exists>x \<in> set xs. batch_eligible s clock msgs b cutoff bridged db x m) scrub_body (cloud_message db)\<rparr>"
proof -
  have "fold (\<lambda>(i, batch) db. scrub_step s clock msgs b cutoff bridged i batch (quiet i db)) xs db =
      db\<lparr>cloud_message := fold (\<lambda>x. update_where (batch_eligible s clock msgs b cutoff bridged db x) scrub_body) xs (cloud_message db)\<rparr>"
  proof (induction xs arbitrary: db)
    case (Cons x xs)
    have "batch_eligible s clock msgs b cutoff bridged (db\<lparr>cloud_message := rs\<rparr>) = batch_eligible s clock msgs b cutoff bridged db" for rs
      using chats_only(4) [of "db\<lparr>cloud_message := rs\<rparr>" db] by (simp add: batch_eligible_def fun_eq_iff)
    moreover have "(case x of (i, batch) \<Rightarrow> \<lambda>db. scrub_step s clock msgs b cutoff bridged i batch (quiet i db)) db =
        db\<lparr>cloud_message := update_where (batch_eligible s clock msgs b cutoff bridged db x) scrub_body (cloud_message db)\<rparr>"
      by (cases x) (simp add: scrub_step_def scrubBatch_eq batch_eligible_def [abs_def])
    ultimately show ?case by (simp only: fold_simps comp_def Cons.IH) simp
  qed simp
  also have "\<dots> = db\<lparr>cloud_message := update_where (\<lambda>m. \<exists>x \<in> set xs. batch_eligible s clock msgs b cutoff bridged db x m) scrub_body (cloud_message db)\<rparr>"
    by (subst fold_update_where_any) (simp_all add: batch_eligible_def)
  finally show ?thesis .
qed

section \<open>Delivery witnesses\<close>

definition id_names :: "string \<Rightarrow> guid \<Rightarrow> bool" where
  "id_names i g \<longleftrightarrow> to_lower i = g \<or>
     (case index_of (to_lower i) ''_'' of None \<Rightarrow> False | Some k \<Rightarrow> k > 0 \<and> take k (to_lower i) = g)"

text \<open>A message of the portal with that GUID, or a part of one, is bridged.\<close>

definition delivered_in :: "cloudBackfillStore \<Rightarrow> string \<Rightarrow> bridge_message_row list \<Rightarrow> cloud_message_row \<Rightarrow> bool" where
  "delivered_in s bridgeID messages m \<longleftrightarrow>
     (\<exists>d \<in> set messages. receiver_ok s bridgeID d \<and> m_portal_id m = Some (bm_room_id d) \<and>
        id_names (bm_id d) (to_lower (m_guid m)))"

lemma bridged_step_eq:
  "bridged_step d w = (\<lambda>(g, p). if w (g, p) = None \<and> bm_room_id d = p \<and> id_names (bm_id d) g then Some (bm_id d) else w (g, p))"
proof (cases "index_of (to_lower (bm_id d)) ''_''")
  case None
  then have "id_names (bm_id d) g \<longleftrightarrow> to_lower (bm_id d) = g" for g
    by (simp add: id_names_def del: index_of_char_None)
  with None show ?thesis
    by (auto simp: bridged_step_def Let_def add_witness_def fun_eq_iff simp del: index_of_char_None)
next
  case (Some k)
  then have "id_names (bm_id d) g \<longleftrightarrow> to_lower (bm_id d) = g \<or> k > 0 \<and> take k (to_lower (bm_id d)) = g" for g
    by (auto simp: id_names_def)
  with Some show ?thesis
    by (auto simp: bridged_step_def Let_def add_witness_def fun_eq_iff)
qed

lemma fold_bridged:
  "fold bridged_step ds w (g, p) = None \<longleftrightarrow> w (g, p) = None \<and> \<not> (\<exists>d \<in> set ds. bm_room_id d = p \<and> id_names (bm_id d) g)"
  by (induction ds arbitrary: w) (auto simp: bridged_step_eq)

lemma fold_bridged_val:
  "fold bridged_step ds w (g, p) = Some i \<Longrightarrow>
     w (g, p) = Some i \<or> (\<exists>d \<in> set ds. bm_room_id d = p \<and> id_names (bm_id d) g \<and> i = bm_id d)"
proof (induction ds arbitrary: w)
  case (Cons d ds)
  then have "fold bridged_step ds (bridged_step d w) (g, p) = Some i" by simp
  from Cons.IH [OF this] show ?case by (auto simp: bridged_step_eq split: if_splits)
qed simp

lemma loadBridged_None:
  "loadBridgedMessageIDs s b ms (g, p) = None \<longleftrightarrow> \<not> (\<exists>d \<in> set ms. receiver_ok s b d \<and> bm_room_id d = p \<and> id_names (bm_id d) g)"
  using fold_bridged [of "filter (receiver_ok s b) ms" Map.empty g p] by (auto simp: loadBridgedMessageIDs_def)

lemma loadBridged_Some:
  "loadBridgedMessageIDs s b ms (g, p) = Some i \<Longrightarrow>
     \<exists>d \<in> set ms. receiver_ok s b d \<and> bm_room_id d = p \<and> id_names (bm_id d) g \<and> i = bm_id d"
  using fold_bridged_val [of "filter (receiver_ok s b) ms" Map.empty g p i] by (auto simp: loadBridgedMessageIDs_def)

lemma same_guid_row:
  "pk_ok db \<Longrightarrow> m \<in> set (cloud_message db) \<Longrightarrow> m' \<in> set (cloud_message db) \<Longrightarrow> m_login_id m = m_login_id m' \<Longrightarrow>
   m_guid m = m_guid m' \<Longrightarrow> m = m'"
  by (rule distinct_key_eq [of message_key]) (simp_all add: pk_ok_def unique_key_def message_key_def)

lemma candidate_row:
  assumes "c \<in> set (scrubCandidates s cutoff hold ex db)"
  obtains m where "m \<in> set (cloud_message db)" "scrub_base s cutoff m" "not_excluded ex m"
    "forceWhere s db m \<or> pendingBackfillGateSQL s db hold m \<and> cloudMessageChatFilterWhere s db m"
    "c = \<lparr>sc_guid = m_guid m, sc_portalID = text_or_empty (m_portal_id m), sc_forceScrub = forceWhere s db m\<rparr>"
  using assms that by (auto simp: scrubCandidates_def)

lemma proof_candidate:
  assumes "pr \<in> set (delivery_proofs bridged cs)"
  obtains c where "c \<in> set cs" "\<not> sc_forceScrub c" "dp_guid pr = sc_guid c" "dp_portalID pr = sc_portalID c"
    "bridged (to_lower (sc_guid c), sc_portalID c) = Some (dp_messageID pr)"
  using assms that by (fastforce simp: delivery_proofs_def split: if_splits option.splits)

text \<open>What a batch may touch, whatever the tables and the clock show when it runs.\<close>

lemma batch_eligible_sound:
  assumes "pk_ok db" "m \<in> set (cloud_message db)" "set batch \<subseteq> set (scrubCandidates s cutoff hold ex db)"
    "\<And>g p i. bridged (g, p) = Some i \<Longrightarrow> id_names i g"
    "batch_eligible s clock msgs b cutoff bridged db (n, batch) m"
  shows "not_excluded ex m \<and> (forceWhere s db m \<or> pendingBackfillGateSQL s db hold m) \<and>
    (forceWhere s db m \<or> delivered_in s b (msgs (n + 1)) m \<and>
      pendingBackfillGateSQL s db (clock (n + 2) - pendingBackfillScrubHold) m \<and> cloudMessageChatFilterWhere s db m)"
proof -
  have base: "scrub_base s cutoff m" using assms(5) by (simp add: batch_eligible_def)
  have own: "not_excluded ex m \<and> (forceWhere s db m \<or> pendingBackfillGateSQL s db hold m)" if "c \<in> set batch" "sc_guid c = m_guid m" for c
  proof -
    from that(1) assms(3) have "c \<in> set (scrubCandidates s cutoff hold ex db)" by blast
    then obtain m' where m': "m' \<in> set (cloud_message db)" "scrub_base s cutoff m'" "not_excluded ex m'" "sc_guid c = m_guid m'"
        "forceWhere s db m' \<or> pendingBackfillGateSQL s db hold m'"
      by (rule candidate_row) auto
    then have "m' = m" using that(2) base assms(1,2) by (intro same_guid_row) (simp_all add: scrub_base_def)
    with m'(3,5) show ?thesis by simp
  qed
  from assms(5) consider (force) "m_guid m \<in> sc_guid ` set batch" "forceWhere s db m"
    | (delivered) pr d where "pr \<in> set (delivery_proofs bridged batch)" "d \<in> set (msgs (n + 1))" "receiver_ok s b d"
        "bm_room_id d = dp_portalID pr" "bm_id d = dp_messageID pr" "dp_guid pr = m_guid m" "col_eq (m_portal_id m) (dp_portalID pr)"
        "pendingBackfillGateSQL s db (clock (n + 2) - pendingBackfillScrubHold) m" "cloudMessageChatFilterWhere s db m"
    by (auto simp: batch_eligible_def scrub_eligible_def)
  then show ?thesis
  proof cases
    case force
    then show ?thesis using own by auto
  next
    case delivered
    from delivered(1) obtain c where c: "c \<in> set batch" "dp_guid pr = sc_guid c"
        "bridged (to_lower (sc_guid c), sc_portalID c) = Some (dp_messageID pr)"
      by (rule proof_candidate)
    from assms(4) [OF c(3)] have "id_names (bm_id d) (to_lower (m_guid m))" using delivered c(2) by simp
    with delivered have "delivered_in s b (msgs (n + 1)) m" by (auto simp: delivered_in_def col_eq_def)
    with delivered own [OF c(1)] c(2) show ?thesis by simp
  qed
qed

text \<open>A candidate that is forced, or delivered in the snapshot and in the table its batch joins, is scrubbed.\<close>

lemma batch_eligible_complete:
  assumes "scrub_base s cutoff m" "c \<in> set batch"
    "c = \<lparr>sc_guid = m_guid m, sc_portalID = text_or_empty (m_portal_id m), sc_forceScrub = forceWhere s db m\<rparr>"
    "forceWhere s db m \<or> delivered_in s b M m \<and> bridged = loadBridgedMessageIDs s b M \<and> msgs (n + 1) = M \<and>
       pendingBackfillGateSQL s db (clock (n + 2) - pendingBackfillScrubHold) m \<and> cloudMessageChatFilterWhere s db m"
  shows "batch_eligible s clock msgs b cutoff bridged db (n, batch) m"
proof (cases "forceWhere s db m")
  case True
  then have "m_guid m \<in> set (map sc_guid (filter sc_forceScrub batch))" using assms(2,3) by force
  with True assms(1) show ?thesis by (simp add: batch_eligible_def scrub_eligible_def)
next
  case False
  with assms(4) have d: "delivered_in s b M m" and br: "bridged = loadBridgedMessageIDs s b M" and M: "msgs (n + 1) = M"
    and rest: "pendingBackfillGateSQL s db (clock (n + 2) - pendingBackfillScrubHold) m" "cloudMessageChatFilterWhere s db m" by auto
  from d obtain p where p: "m_portal_id m = Some p" by (auto simp: delivered_in_def)
  with d have "loadBridgedMessageIDs s b M (to_lower (m_guid m), p) \<noteq> None" by (auto simp: loadBridged_None delivered_in_def)
  then obtain i where i: "loadBridgedMessageIDs s b M (to_lower (m_guid m), p) = Some i" by blast
  let ?pr = "\<lparr>dp_guid = m_guid m, dp_portalID = p, dp_messageID = i\<rparr>"
  have "?pr \<in> set (delivery_proofs bridged batch)"
    unfolding delivery_proofs_def using False assms(2,3) i br p by (auto simp: text_or_empty_def intro!: bexI [of _ c])
  moreover from loadBridged_Some [OF i] obtain d where "d \<in> set M" "receiver_ok s b d" "bm_room_id d = p" "bm_id d = i" by blast
  ultimately show ?thesis
    using rest p assms(1) M by (auto simp: batch_eligible_def scrub_eligible_def col_eq_def intro!: bexI [of _ ?pr] bexI [of _ d])
qed

lemma gate_mono: "hold \<le> hold' \<Longrightarrow> pendingBackfillGateSQL s db hold m \<Longrightarrow> pendingBackfillGateSQL s db hold' m"
  by (auto simp: pendingBackfillGateSQL_def pending_chat_row_def)

lemma scrubBridged_eq:
  fixes s clock msgs b grace ex db
  defines "cutoff \<equiv> clock 0 - grace"
  defines "cs \<equiv> scrubCandidates s cutoff (clock 1 - pendingBackfillScrubHold) ex db"
  shows "scrubBridgedBodies False s clock msgs quiet b grace ex db =
    db\<lparr>cloud_message := update_where (\<lambda>m. \<exists>x \<in> set (enumerate 0 (chunks 1000 cs)). batch_eligible s clock msgs b cutoff
      (scrub_snapshot s b (msgs 0) cs) db x m) scrub_body (cloud_message db)\<rparr>"
  unfolding cs_def cutoff_def scrubBridgedBodies_def Let_def by (simp only: if_False fold_batches)

lemma in_batches:
  assumes "c \<in> set cs" "0 < k"
  obtains n batch where "(n, batch) \<in> set (enumerate 0 (chunks k cs))" "c \<in> set batch"
proof -
  from assms obtain batch where batch: "batch \<in> set (chunks k cs)" "c \<in> set batch" using in_chunks by metis
  then obtain n where "n < length (chunks k cs)" "chunks k cs ! n = batch" by (auto simp: in_set_conv_nth)
  then have "(n, batch) \<in> set (enumerate 0 (chunks k cs))" by (simp add: in_set_enumerate_eq)
  with batch(2) show ?thesis by (rule that [rotated])
qed

lemma chunk_subset:
  assumes "chunk \<in> set (chunks k cs)"
  shows "set chunk \<subseteq> set cs"
proof
  have k: "0 < k" using assms by (cases k) (auto simp: chunks.simps)
  fix c assume "c \<in> set chunk"
  with assms have "\<exists>chunk \<in> set (chunks k cs). c \<in> set chunk" by (rule rev_bexI)
  then show "c \<in> set cs" by (rule in_chunks [OF k, THEN iffD1])
qed

lemma batch_subset: "(n, batch) \<in> set (enumerate 0 (chunks k cs)) \<Longrightarrow> set batch \<subseteq> set cs"
  by (rule chunk_subset [of _ k]) (auto simp: in_set_enumerate_eq)

section \<open>Loops that drain\<close>

lemma length_filter_take: "length (take n ys) \<le> length (filter (\<lambda>y. f y \<in> f ` set (take n ys)) ys)"
proof -
  let ?p = "\<lambda>y. f y \<in> f ` set (take n ys)"
  have "filter ?p ys = filter ?p (take n ys) @ filter ?p (drop n ys)"
    by (simp only: filter_append [symmetric] append_take_drop_id)
  moreover have "filter ?p (take n ys) = take n ys" by (simp add: filter_id_conv)
  ultimately show ?thesis by simp
qed

text \<open>A batch statement that ends its own condition, repeated while it is full, is the statement run once.\<close>

lemma drain_tail_eq:
  "drain_tail old rs = update_where (\<lambda>m. old m \<and> \<not> m_body_scrubbed m) scrub_body rs"
proof (induction old rs rule: drain_tail.induct)
  case (1 old rs)
  let ?tail = "\<lambda>m. old m \<and> \<not> m_body_scrubbed m"
  let ?guids = "map m_guid (take 1000 (filter ?tail rs))"
  let ?hit = "\<lambda>m. ?tail m \<and> m_guid m \<in> set ?guids"
  have twice: "update_where ?tail scrub_body (update_where ?hit scrub_body rs) = update_where ?tail scrub_body rs"
    by (auto simp: update_where_def scrub_body_def)
  show ?case
  proof (cases "rows_matching ?hit rs < 1000")
    case True
    have "length (filter ?tail rs) < 1000"
    proof (rule ccontr)
      assume "\<not> ?thesis"
      then have "1000 \<le> length (take 1000 (filter ?tail rs))" by simp
      also have "\<dots> \<le> rows_matching ?hit rs"
        using length_filter_take [of 1000 "filter ?tail rs" m_guid] by (simp add: rows_matching_def conj_commute)
      finally show False using True by simp
    qed
    then have "take 1000 (filter ?tail rs) = filter ?tail rs" by simp
    then have "update_where ?hit scrub_body rs = update_where ?tail scrub_body rs"
      by (auto simp: update_where_def)
    with True show ?thesis by (subst drain_tail.simps) (simp add: Let_def)
  next
    case False
    then show ?thesis using 1 [OF refl refl refl refl False] twice by (subst drain_tail.simps) (simp add: Let_def)
  qed
qed

lemma own_guids_scrub_reaction:
  "map m_guid (filter (\<lambda>m. m_login_id m = l) (update_where P scrub_reaction rs)) = map m_guid (filter (\<lambda>m. m_login_id m = l) rs)"
  by (induction rs) (auto simp: update_where_def scrub_reaction_def)

lemma scrub_reactions_eq:
  "distinct (map m_guid (filter (\<lambda>m. m_login_id m = loginID s) rs)) \<Longrightarrow>
   scrub_reactions s cutoff rs =
     update_where (\<lambda>m. reaction_base s cutoff m \<and> (text_present (m_text m) \<or> text_present (m_subject m))) scrub_reaction rs"
proof (induction s cutoff rs rule: scrub_reactions.induct)
  case (1 s cutoff rs)
  let ?cand = "\<lambda>m. reaction_base s cutoff m \<and> (text_present (m_text m) \<or> text_present (m_subject m))"
  let ?guids = "reactionScrubCandidates s cutoff 1000 rs"
  let ?hit = "\<lambda>m. reaction_base s cutoff m \<and> m_guid m \<in> set ?guids"
  let ?rs = "update_where ?hit scrub_reaction rs"
  have hit: "?hit m \<longleftrightarrow> ?cand m \<and> m_guid m \<in> set ?guids" if "m \<in> set rs" for m
  proof -
    have "?cand m" if "?hit m"
    proof -
      from that obtain m' where m': "m' \<in> set rs" "?cand m'" "m_guid m' = m_guid m"
        by (auto simp: reactionScrubCandidates_def dest!: in_set_takeD)
      with that \<open>m \<in> set rs\<close> have "m' = m"
        by (intro distinct_key_eq [OF 1(2)]) (auto simp: reaction_base_def)
      with m' show ?thesis by simp
    qed
    then show ?thesis by blast
  qed
  have dist: "distinct (map m_guid (filter (\<lambda>m. m_login_id m = loginID s) ?rs))"
    using 1(2) by (simp only: own_guids_scrub_reaction)
  have twice: "update_where ?cand scrub_reaction ?rs = update_where ?cand scrub_reaction rs"
    using hit reaction_base_scrubbed by (auto simp: update_where_def)
  show ?case
  proof (cases "length ?guids < 1000 \<or> rows_matching ?hit rs = 0")
    case True
    have "take 1000 (filter ?cand rs) = filter ?cand rs"
    proof (cases "length ?guids < 1000")
      case False
      then have "take 1000 (filter ?cand rs) \<noteq> []" by (auto simp: reactionScrubCandidates_def)
      then obtain m where m: "m \<in> set (take 1000 (filter ?cand rs))" using hd_in_set by blast
      then have "m \<in> set (filter ?cand rs)" by (rule in_set_takeD)
      moreover from m have "m_guid m \<in> set ?guids" by (simp add: reactionScrubCandidates_def)
      ultimately have "m \<in> set rs" "?cand m" "m_guid m \<in> set ?guids" by auto
      with True False show ?thesis by (auto simp: rows_matching_0)
    qed (simp add: reactionScrubCandidates_def)
    then have "?guids = map m_guid (filter ?cand rs)" by (simp add: reactionScrubCandidates_def)
    then have "?rs = update_where ?cand scrub_reaction rs" using hit by (auto simp: update_where_def)
    moreover have "?guids = [] \<Longrightarrow> ?rs = rs" by (auto simp: update_where_def)
    ultimately show ?thesis using True by (subst scrub_reactions.simps) (auto simp: Let_def)
  next
    case False
    then have "?guids \<noteq> []" by auto
    with False 1(1) [OF refl refl refl _ _ dist] twice show ?thesis by (subst scrub_reactions.simps) (simp add: Let_def)
  qed
qed

section \<open>The window stays readable\<close>

lemma sort_key_map_key: "(\<And>x. k (g x) = k x) \<Longrightarrow> sort_key k (map g xs) = map g (sort_key k xs)"
proof (induction xs)
  case (Cons x xs)
  have "insort_key k (g x) (map g ys) = map g (insort_key k x ys)" for ys
    using Cons.prems by (induction ys) simp_all
  with Cons show ?case by simp
qed simp

lemma readable_scrub_body: "readable s db p (scrub_body m) = readable s db p m"
  by (simp add: readable_def scrub_body_def cloudMessageChatFilterWhere_def same_chat_def)

lemma readable_rows_scrub:
  "readable_rows s (db\<lparr>cloud_message := update_where P scrub_body (cloud_message db)\<rparr>) p =
     update_where P scrub_body (readable_rows s db p)"
proof -
  have "readable s (db\<lparr>cloud_message := rs\<rparr>) p = readable s db p" for rs
    by (simp add: fun_eq_iff readable_def chats_only(1) [of "db\<lparr>cloud_message := rs\<rparr>" db])
  then have "readable_rows s (db\<lparr>cloud_message := update_where P scrub_body (cloud_message db)\<rparr>) p =
      filter (readable s db p) (map (\<lambda>m. if P m then scrub_body m else m) (cloud_message db))"
    by (simp add: readable_rows_def update_where_def)
  also have "\<dots> = map (\<lambda>m. if P m then scrub_body m else m) (filter (readable s db p) (cloud_message db))"
    by (induction "cloud_message db" rule: list.induct) (simp_all add: filter_map comp_def if_distrib [of "readable s db p"] readable_scrub_body)
  finally show ?thesis by (simp add: readable_rows_def update_where_def)
qed

lemma newest_first_scrub: "newest_first (update_where P scrub_body ms) = update_where P scrub_body (newest_first ms)"
  unfolding newest_first_def update_where_def rev_map [symmetric]
  by (subst sort_key_map_key) (simp_all add: message_pos_def scrub_body_def)

text \<open>The newest messages of a portal, as the first backfill of a room reads them.\<close>

definition window :: "cloudBackfillStore \<Rightarrow> nat \<Rightarrow> portal_id \<Rightarrow> cloud_db \<Rightarrow> cloud_message_row list" where
  "window s n p db = take n (newest_first (readable_rows s db p))"

lemma window_scrub:
  "window s n p (db\<lparr>cloud_message := update_where P scrub_body (cloud_message db)\<rparr>) = update_where P scrub_body (window s n p db)"
  by (simp add: window_def readable_rows_scrub newest_first_scrub) (simp add: update_where_def take_map)

lemma window_threshold:
  assumes "tail_threshold s p k db = Some th" "m \<in> set (window s (nat k) p db)" "0 < k"
  shows "th \<le> m_timestamp_ms m"
proof -
  let ?ys = "newest_first (readable_rows s db p)"
  let ?n = "nat (k - 1)"
  from assms(1) obtain m' rest where d: "drop ?n ?ys = m' # rest" "th = m_timestamp_ms m'"
    by (auto simp: tail_threshold_def split: list.splits)
  have n: "nat k = Suc ?n" using assms(3) by simp
  have lt: "?n < length ?ys" using d(1) by (metis drop_eq_Nil leI list.distinct(1))
  have nth: "?ys ! ?n = m'" using d(1) lt by (metis hd_drop_conv_nth list.sel(1))
  from assms(2) obtain j where j: "j < Suc ?n" "j < length ?ys" "?ys ! j = m"
    unfolding window_def n by (auto simp: in_set_conv_nth)
  have sorted: "sorted (map message_pos (rev ?ys))" by (simp add: newest_first_def)
  have "message_pos (rev ?ys ! (length ?ys - Suc ?n)) \<le> message_pos (rev ?ys ! (length ?ys - Suc j))"
    using sorted_nth_mono [OF sorted, of "length ?ys - Suc ?n" "length ?ys - Suc j"] j lt by simp
  then have "message_pos m' \<le> message_pos m" using j lt nth by (simp add: rev_nth)
  then show ?thesis using d(2) by (auto simp: message_pos_def less_eq_prod_def)
qed

lemma scrub_portal_tail_eq:
  "scrub_portal_tail s cutoff k pid db = db\<lparr>cloud_message :=
     update_where (\<lambda>m. \<exists>th. tail_threshold s pid k db = Some th \<and> tail_where s db pid cutoff th m) scrub_body (cloud_message db)\<rparr>"
proof (cases "tail_threshold s pid k db")
  case (Some th)
  have "tail_where s db pid cutoff th m \<and> \<not> m_body_scrubbed m \<longleftrightarrow> tail_where s db pid cutoff th m" for m
    by (auto simp: tail_where_def)
  with Some show ?thesis by (simp add: scrub_portal_tail_def drain_tail_eq)
qed (simp add: scrub_portal_tail_def update_where_def)

lemma window_portal_tail:
  assumes "0 < k"
  shows "window s (nat k) p (scrub_portal_tail s cutoff k pid db) = window s (nat k) p db"
  unfolding scrub_portal_tail_eq window_scrub
proof (rule update_where_none, intro ballI notI, elim exE conjE)
  fix m th
  assume m: "m \<in> set (window s (nat k) p db)" and th: "tail_threshold s pid k db = Some th" and tail: "tail_where s db pid cutoff th m"
  have "m \<in> set (newest_first (readable_rows s db p))" using m unfolding window_def by (rule in_set_takeD)
  then have "col_eq (m_portal_id m) p" by (simp add: newest_first_def readable_rows_def readable_def)
  with tail have "pid = p" by (simp add: tail_where_def col_eq_def)
  with window_threshold [OF _ m assms] th have "th \<le> m_timestamp_ms m" by simp
  with tail show False by (simp add: tail_where_def)
qed

lemma tail_threshold_scrub:
  "tail_threshold s p k (db\<lparr>cloud_message := update_where P scrub_body (cloud_message db)\<rparr>) = tail_threshold s p k db"
  by (simp add: tail_threshold_def readable_rows_scrub newest_first_scrub)
     (simp add: update_where_def drop_map scrub_body_def split: list.splits)

text \<open>The portals in turn are one statement: no portal's tail depends on another's.\<close>

definition in_tails ::
  "cloudBackfillStore \<Rightarrow> cloud_db \<Rightarrow> millis \<Rightarrow> int \<Rightarrow> portal_id list \<Rightarrow> portal_id list \<Rightarrow> cloud_message_row \<Rightarrow> bool" where
  "in_tails s db cutoff k ex pids m \<longleftrightarrow> (\<exists>pid \<in> set pids. pid \<notin> set ex \<and>
     (\<exists>th. tail_threshold s pid k db = Some th \<and> tail_where s db pid cutoff th m))"

lemma fold_tails:
  "fold (\<lambda>pid db. if pid \<in> set ex then db else scrub_portal_tail s cutoff k pid db) pids db =
     db\<lparr>cloud_message := update_where (in_tails s db cutoff k ex pids) scrub_body (cloud_message db)\<rparr>"
proof (induction pids arbitrary: db)
  case (Cons pid pids)
  let ?P = "\<lambda>m. \<exists>th. tail_threshold s pid k db = Some th \<and> tail_where s db pid cutoff th m"
  have same: "in_tails s (db\<lparr>cloud_message := update_where P scrub_body (cloud_message db)\<rparr>) cutoff k ex pids = in_tails s db cutoff k ex pids" for P
    using chats_only(5) [of "db\<lparr>cloud_message := update_where P scrub_body (cloud_message db)\<rparr>" db]
    by (simp add: in_tails_def fun_eq_iff tail_threshold_scrub)
  have gone: "\<not> in_tails s db cutoff k ex pids (scrub_body m)" for m
    by (simp add: in_tails_def tail_where_def scrub_body_def)
  show ?case
  proof (cases "pid \<in> set ex")
    case True
    then have "in_tails s db cutoff k ex (pid # pids) = in_tails s db cutoff k ex pids" by (auto simp: in_tails_def fun_eq_iff)
    with True show ?thesis by (simp add: Cons.IH)
  next
    case False
    then have "in_tails s db cutoff k ex (pid # pids) = (\<lambda>m. ?P m \<or> in_tails s db cutoff k ex pids m)" by (auto simp: in_tails_def fun_eq_iff)
    moreover have "update_where (in_tails s db cutoff k ex pids) scrub_body (update_where ?P scrub_body (cloud_message db)) =
        update_where (\<lambda>m. ?P m \<or> in_tails s db cutoff k ex pids m) scrub_body (cloud_message db)"
      using gone by (auto simp: update_where_def)
    ultimately show ?thesis using False by (simp add: Cons.IH scrub_portal_tail_eq same)
  qed
qed (simp add: in_tails_def update_where_def)

section \<open>Rehydrate attempts\<close>

definition clear_row :: "millis \<Rightarrow> cloud_message_row \<Rightarrow> cloud_message_row" where
  "clear_row marker m = m\<lparr>m_body_scrubbed := False, m_updated_ts := marker\<rparr>"

lemma clear_rows_eq:
  "cloud_message (snd (clearBodyScrubForRehydrate s now p db)) =
     update_where (rehydrate_where s db p) (clear_row (now - 1000)) (cloud_message db)"
proof -
  let ?rows = "map (\<lambda>m. \<lparr>rs_GUID = m_guid m, rs_UpdatedTS = m_updated_ts m\<rparr>) (filter (rehydrate_where s db p) (cloud_message db))"
  have "rs_GUID ` set ?rows = m_guid ` set (filter (rehydrate_where s db p) (cloud_message db))" by force
  then have all: "(\<exists>chunk \<in> set (chunks 500 ?rows). rehydrate_where s db p m \<and> m_guid m \<in> rs_GUID ` set chunk) \<longleftrightarrow> rehydrate_where s db p m"
    if "m \<in> set (cloud_message db)" for m
  proof -
    have "(\<exists>chunk \<in> set (chunks 500 ?rows). m_guid m \<in> rs_GUID ` set chunk) \<longleftrightarrow> m_guid m \<in> rs_GUID ` set (concat (chunks 500 ?rows))"
      unfolding set_concat image_Union by blast
    with \<open>rs_GUID ` set ?rows = _\<close> that show ?thesis by (auto simp del: set_concat)
  qed
  have "cloud_message (snd (clearBodyScrubForRehydrate s now p db)) =
      fold (\<lambda>chunk. update_where (\<lambda>m. rehydrate_where s db p m \<and> m_guid m \<in> rs_GUID ` set chunk) (clear_row (now - 1000)))
        (chunks 500 ?rows) (cloud_message db)"
    by (simp add: clearBodyScrubForRehydrate_def Let_def clear_row_def [abs_def])
  also have "\<dots> = update_where (\<lambda>m. \<exists>chunk \<in> set (chunks 500 ?rows). rehydrate_where s db p m \<and> m_guid m \<in> rs_GUID ` set chunk)
      (clear_row (now - 1000)) (cloud_message db)"
    by (rule fold_update_where_any) (simp add: rehydrate_where_def clear_row_def)
  also have "\<dots> = update_where (rehydrate_where s db p) (clear_row (now - 1000)) (cloud_message db)"
    unfolding update_where_def by (rule map_cong [OF refl]) (simp only: all)
  finally show ?thesis .
qed

lemma fold_update_rows:
  "fold (\<lambda>x. update_where (P x) (f x)) xs rs = map (\<lambda>r. fold (\<lambda>x r. if P x r then f x r else r) xs r) rs"
  by (induction xs arbitrary: rs) (simp_all add: update_where_def comp_def)

lemma fold_rows_miss: "\<forall>x \<in> set xs. \<not> P x r \<Longrightarrow> fold (\<lambda>x r. if P x r then f x r else r) xs r = r"
  by (induction xs) auto

lemma fold_rows_hit:
  assumes "x \<in> set xs" "P x r" "\<And>x. x \<in> set xs \<Longrightarrow> P x r \<Longrightarrow> f x r = r'" "\<And>x. \<not> P x r'"
  shows "fold (\<lambda>x r. if P x r then f x r else r) xs r = r'"
proof -
  obtain ys z zs where xs: "xs = ys @ z # zs" "P z r" "\<forall>y \<in> set ys. \<not> P y r"
    using split_list_first_prop [of xs "\<lambda>x. P x r"] assms(1,2) by auto
  then show ?thesis using assms(3) [of z] assms(4) by (simp add: fold_rows_miss)
qed

lemma rescrub_restores:
  fixes s p db
  assumes "pk_ok db" "m \<in> set (cloud_message db)"
  defines "rows \<equiv> map (\<lambda>m. \<lparr>rs_GUID = m_guid m, rs_UpdatedTS = m_updated_ts m\<rparr>) (filter (rehydrate_where s db p) (cloud_message db))"
  shows "fold (\<lambda>chunk r. if rescrub_where s p t chunk r then rescrub_row t chunk r else r) (chunks 200 rows)
    (if rehydrate_where s db p m then clear_row t m else m) = m"
proof -
  let ?row = "\<lambda>m. \<lparr>rs_GUID = m_guid m, rs_UpdatedTS = m_updated_ts m\<rparr>"
  have uniq: "rehydrate_where s db p m \<and> r = ?row m" if "r \<in> set rows" "rs_GUID r = m_guid m" "m_login_id m = loginID s" for r
  proof -
    from that(1) obtain m' where m': "m' \<in> set (cloud_message db)" "rehydrate_where s db p m'" "r = ?row m'"
      by (auto simp: rows_def)
    then have "m' = m" using that(2,3) assms(1,2) by (intro same_guid_row) (simp_all add: rehydrate_where_def)
    with m' show ?thesis by simp
  qed
  show ?thesis
  proof (cases "rehydrate_where s db p m")
    case True
    then have own: "m_login_id m = loginID s" by (simp add: rehydrate_where_def)
    have "?row m \<in> set rows" using True assms(2) by (auto simp: rows_def)
    then obtain chunk where chunk: "chunk \<in> set (chunks 200 rows)" "?row m \<in> set chunk"
      using in_chunks [of 200 rows "?row m"] by auto
    have "fold (\<lambda>chunk r. if rescrub_where s p t chunk r then rescrub_row t chunk r else r) (chunks 200 rows) (clear_row t m) = m"
    proof (rule fold_rows_hit [OF chunk(1)])
      show "rescrub_where s p t chunk (clear_row t m)"
        using True chunk(2) by (force simp: rescrub_where_def rehydrate_where_def clear_row_def)
      show "\<not> rescrub_where s p t c m" for c using True by (simp add: rescrub_where_def rehydrate_where_def)
      show "rescrub_row t c (clear_row t m) = m" if c: "c \<in> set (chunks 200 rows)" "rescrub_where s p t c (clear_row t m)" for c
      proof -
        from c(2) have "m_guid m \<in> rs_GUID ` set c" by (simp add: rescrub_where_def clear_row_def)
        then obtain r' where r': "r' \<in> set c" "rs_GUID r' = m_guid m" by (metis imageE)
        from find_exists [OF r'(1), of "\<lambda>r. rs_GUID r = m_guid m"] r'(2)
        obtain r where r: "find (\<lambda>r. rs_GUID r = m_guid m) c = Some r" by blast
        from find_Some_set [OF r] have "r = ?row m" using uniq own chunk_subset [OF c(1)] by auto
        with r True show ?thesis by (simp add: rescrub_row_def clear_row_def rehydrate_where_def)
      qed
    qed
    with True show ?thesis by simp
  next
    case False
    have "\<not> rescrub_where s p t chunk m" if c: "chunk \<in> set (chunks 200 rows)" for chunk
    proof
      assume w: "rescrub_where s p t chunk m"
      then obtain r where r: "r \<in> set chunk" "rs_GUID r = m_guid m" by (auto simp: rescrub_where_def)
      from uniq [OF subsetD [OF chunk_subset [OF c] r(1)] r(2)] w False show False by (simp add: rescrub_where_def)
    qed
    with False show ?thesis by (simp add: fold_rows_miss)
  qed
qed

lemma rescrub_after_clear:
  assumes "pk_ok db" "clearBodyScrubForRehydrate s now p db = (attempt, db')"
  shows "rescrubClearedRows s p attempt db' = db"
proof -
  let ?rows = "map (\<lambda>m. \<lparr>rs_GUID = m_guid m, rs_UpdatedTS = m_updated_ts m\<rparr>) (filter (rehydrate_where s db p) (cloud_message db))"
  have a: "attempt = \<lparr>ra_Rows = ?rows, ra_MarkerTS = now - 1000\<rparr>"
    using assms(2) by (auto simp: clearBodyScrubForRehydrate_def Let_def)
  have d: "db' = db\<lparr>cloud_message := update_where (rehydrate_where s db p) (clear_row (now - 1000)) (cloud_message db)\<rparr>"
    using assms(2) clear_rows_eq [of s now p db] by (auto simp: clearBodyScrubForRehydrate_def Let_def)
  have "fold (\<lambda>chunk. update_where (rescrub_where s p (now - 1000) chunk) (rescrub_row (now - 1000) chunk)) (chunks 200 ?rows)
      (update_where (rehydrate_where s db p) (clear_row (now - 1000)) (cloud_message db)) = cloud_message db"
    unfolding fold_update_rows update_where_def map_map
    by (rule map_idI) (simp only: comp_def rescrub_restores [OF assms(1)])
  moreover have "?rows = [] \<Longrightarrow> db' = db"
    unfolding d by (auto simp: filter_empty_conv update_where_none)
  ultimately show ?thesis by (auto simp: rescrubClearedRows_def a d)
qed

section \<open>Statements of one login\<close>

lemma stmt_scrub_rows:
  "(\<And>m. P m \<Longrightarrow> m_login_id m = l) \<Longrightarrow> stmt m_login_id message_key l rs (update_where P scrub_body rs)"
  by (rule stmt_update_where) (simp_all add: message_key_def scrub_body_def)

lemma db_stmt_messages:
  "stmt m_login_id message_key l (cloud_message db) rs \<Longrightarrow> db_stmt l db (db\<lparr>cloud_message := rs\<rparr>)"
  by (simp add: db_stmt_def stmt_refl)

lemma scrub_ops [store_ops]:
  "db_stmt (loginID s) db (scrubBatchIfEligible s b cutoff hold ms bridged cs db)"
  "db_stmt (loginID s) db (scrubUnbridgedTail off s now hold k grace ex db)"
  "db_stmt (loginID s) db (scrubBridgedBodies off s clock msgs quiet b grace ex db)"
proof -
  show "db_stmt (loginID s) db (scrubBridgedBodies off s clock msgs quiet b grace ex db)"
  proof (cases off)
    case False
    then have "off = False" by simp
    then show ?thesis by (simp only: scrubBridged_eq, intro db_stmt_messages stmt_scrub_rows)
      (auto simp: batch_eligible_def scrub_base_def)
  qed (simp add: scrubBridgedBodies_def)
  show "db_stmt (loginID s) db (scrubBatchIfEligible s b cutoff hold ms bridged cs db)"
    unfolding scrubBatch_eq by (intro db_stmt_messages stmt_scrub_rows) (simp add: scrub_base_def)
  show "db_stmt (loginID s) db (scrubUnbridgedTail off s now hold k grace ex db)"
    by (auto simp: scrubUnbridgedTail_def fold_tails in_tails_def tail_where_def intro!: db_stmt_messages stmt_scrub_rows)
qed

lemma scrub_reactions_op [store_ops]: "db_stmt (loginID s) db (scrubReactionText off s now grace db)"
proof -
  have "stmt m_login_id message_key (loginID s) rs (scrub_reactions s cutoff rs)" for cutoff rs
  proof (induction s cutoff rs rule: scrub_reactions.induct)
    case (1 s cutoff rs)
    let ?guids = "reactionScrubCandidates s cutoff 1000 rs"
    let ?hit = "\<lambda>m. reaction_base s cutoff m \<and> m_guid m \<in> set ?guids"
    have step: "stmt m_login_id message_key (loginID s) rs (update_where ?hit scrub_reaction rs)"
      by (rule stmt_update_where) (simp_all add: message_key_def scrub_reaction_def reaction_base_def)
    from stmt_trans [OF this 1 [OF refl refl refl]] step show ?case
      by (subst scrub_reactions.simps) (simp add: Let_def stmt_refl)
  qed
  then show ?thesis by (simp add: scrubReactionText_def db_stmt_messages)
qed

lemma rehydrate_ops [store_ops]:
  "db_stmt (loginID s) db (snd (clearBodyScrubForRehydrate s now p db))"
  "db_stmt (loginID s) db (rescrubClearedRows s p attempt db)"
  unfolding db_stmt_def clearBodyScrubForRehydrate_def rescrubClearedRows_def Let_def snd_conv
  by (simp add: stmt_refl; intro conjI impI stmt_intros;
      simp add: key_defs rehydrate_where_def rescrub_where_def rescrub_row_def)+

section \<open>Properties\<close>

text \<open>
  The batches of a pass, each with its number, the cache it finds and the cache it leaves.
\<close>

fun scrub_trace ::
  "(nat \<Rightarrow> cloudScrubCandidate list \<Rightarrow> cloud_db \<Rightarrow> cloud_db) \<Rightarrow> (nat \<Rightarrow> cloud_db \<Rightarrow> cloud_db) \<Rightarrow>
   (nat \<times> cloudScrubCandidate list) list \<Rightarrow> cloud_db \<Rightarrow> (nat \<times> cloud_db \<times> cloud_db) list" where
  "scrub_trace step others [] db = []"
| "scrub_trace step others ((i, batch) # xs) db =
     (let found = others i db; left = step i batch found in (i, found, left) # scrub_trace step others xs left)"

lemma scrub_trace_end:
  "fold (\<lambda>(i, batch) db. step i batch (others i db)) xs db =
     (if xs = [] then db else snd (snd (last (scrub_trace step others xs db))))"
  by (induction xs arbitrary: db) (auto simp: Let_def split: prod.splits elim: scrub_trace.elims)

lemma scrub_trace_mem:
  "(i, found, left) \<in> set (scrub_trace step others xs db) \<Longrightarrow> \<exists>batch. (i, batch) \<in> set xs \<and> left = step i batch found"
  by (induction step others xs db rule: scrub_trace.induct) (auto simp: Let_def)

text \<open>What a batch may clear in the cache it finds, whatever happened since its rows were listed.\<close>

lemma batch_rows_sound:
  assumes "\<And>g p i. bridged (g, p) = Some i \<Longrightarrow> id_names i g"
    "scrub_eligible s b hold ms (map sc_guid (filter sc_forceScrub batch)) (delivery_proofs bridged batch) db m"
  shows "m_guid m \<in> sc_guid ` set batch \<and>
    (forceWhere s db m \<or> delivered_in s b ms m \<and> pendingBackfillGateSQL s db hold m \<and> cloudMessageChatFilterWhere s db m)"
proof -
  from assms(2) consider (force) "m_guid m \<in> sc_guid ` set batch" "forceWhere s db m"
    | (delivered) pr d where "pr \<in> set (delivery_proofs bridged batch)" "d \<in> set ms" "receiver_ok s b d"
        "bm_room_id d = dp_portalID pr" "bm_id d = dp_messageID pr" "dp_guid pr = m_guid m" "col_eq (m_portal_id m) (dp_portalID pr)"
        "pendingBackfillGateSQL s db hold m" "cloudMessageChatFilterWhere s db m"
    by (auto simp: scrub_eligible_def)
  then show ?thesis
  proof cases
    case delivered
    from delivered(1) obtain c where c: "c \<in> set batch" "dp_guid pr = sc_guid c"
        "bridged (to_lower (sc_guid c), sc_portalID c) = Some (dp_messageID pr)"
      by (rule proof_candidate)
    from assms(1) [OF c(3)] have "id_names (bm_id d) (to_lower (m_guid m))" using delivered c(2) by simp
    with delivered have "delivered_in s b ms m" by (auto simp: delivered_in_def col_eq_def)
    with delivered c show ?thesis by (metis image_eqI)
  qed auto
qed

text \<open>C6. The scrubber is safe while others write: whatever other writers do to the cache before each batch of a
  pass, and whatever the clock and the framework's message table then show, a batch changes a row only if
  the row, as the batch finds it, is an unscrubbed row of this login past the grace window that is deleted
  or can never be delivered, or whose delivery to Matrix is recorded for its own portal when the batch
  runs and whose portal is not waiting for its first backfill; and only if a row of that GUID, in no
  excluded portal and past the grace window, was listed at the start. The row loses its plaintext and
  nothing else. What the pass leaves is what its last batch leaves.\<close>

theorem scrub_only_delivered:
  fixes s clock msgs others b grace ex db
  defines "cutoff \<equiv> clock 0 - grace"
  defines "cs \<equiv> scrubCandidates s cutoff (clock 1 - pendingBackfillScrubHold) ex db"
  defines "trace \<equiv> scrub_trace (scrub_step s clock msgs b cutoff (scrub_snapshot s b (msgs 0) cs)) others
    (enumerate 0 (chunks 1000 cs)) db"
  shows "scrubBridgedBodies False s clock msgs others b grace ex db = (if cs = [] then db else snd (snd (last trace))) \<and>
    (\<forall>(i, found, left) \<in> set trace.
      left = found\<lparr>cloud_message := cloud_message left\<rparr> \<and> length (cloud_message left) = length (cloud_message found) \<and>
      (\<forall>j < length (cloud_message found). cloud_message left ! j = cloud_message found ! j \<or>
         (let m = cloud_message found ! j in
           cloud_message left ! j = scrub_body m \<and> scrub_base s cutoff m \<and>
           (forceWhere s found m \<or> delivered_in s b (msgs (i + 1)) m \<and>
              pendingBackfillGateSQL s found (clock (i + 2) - pendingBackfillScrubHold) m \<and> cloudMessageChatFilterWhere s found m) \<and>
           (\<exists>listed \<in> set (cloud_message db). m_guid listed = m_guid m \<and> scrub_base s cutoff listed \<and> not_excluded ex listed))))"
proof (intro conjI)
  have "enumerate 0 (chunks 1000 cs) = [] \<longleftrightarrow> cs = []" by (simp add: enumerate_eq_zip chunks_Nil_iff)
  moreover have "scrubBridgedBodies False s clock msgs others b grace ex db =
      fold (\<lambda>(i, batch) db. scrub_step s clock msgs b cutoff (scrub_snapshot s b (msgs 0) cs) i batch (others i db))
        (enumerate 0 (chunks 1000 cs)) db"
    by (simp only: scrubBridgedBodies_def Let_def if_False cutoff_def cs_def)
  ultimately show "scrubBridgedBodies False s clock msgs others b grace ex db = (if cs = [] then db else snd (snd (last trace)))"
    by (simp only: scrub_trace_end trace_def)
  have named: "id_names i g" if "scrub_snapshot s b (msgs 0) cs (g, p) = Some i" for g p i
    using that loadBridged_Some [of s b "msgs 0" g p i] by (auto simp: scrub_snapshot_def split: if_splits)
  show "\<forall>(i, found, left) \<in> set trace.
      left = found\<lparr>cloud_message := cloud_message left\<rparr> \<and> length (cloud_message left) = length (cloud_message found) \<and>
      (\<forall>j < length (cloud_message found). cloud_message left ! j = cloud_message found ! j \<or>
         (let m = cloud_message found ! j in
           cloud_message left ! j = scrub_body m \<and> scrub_base s cutoff m \<and>
           (forceWhere s found m \<or> delivered_in s b (msgs (i + 1)) m \<and>
              pendingBackfillGateSQL s found (clock (i + 2) - pendingBackfillScrubHold) m \<and> cloudMessageChatFilterWhere s found m) \<and>
           (\<exists>listed \<in> set (cloud_message db). m_guid listed = m_guid m \<and> scrub_base s cutoff listed \<and> not_excluded ex listed)))"
  proof (clarify)
    fix i found left assume "(i, found, left) \<in> set trace"
    then obtain batch where batch: "(i, batch) \<in> set (enumerate 0 (chunks 1000 cs))"
        "left = scrub_step s clock msgs b cutoff (scrub_snapshot s b (msgs 0) cs) i batch found"
      unfolding trace_def by (blast dest: scrub_trace_mem)
    let ?P = "\<lambda>m. scrub_base s cutoff m \<and> scrub_eligible s b (clock (i + 2) - pendingBackfillScrubHold) (msgs (i + 1))
      (map sc_guid (filter sc_forceScrub batch)) (delivery_proofs (scrub_snapshot s b (msgs 0) cs) batch) found m"
    have left: "left = found\<lparr>cloud_message := update_where ?P scrub_body (cloud_message found)\<rparr>"
      by (simp add: batch(2) scrub_step_def scrubBatch_eq)
    have sound: "(forceWhere s found m \<or> delivered_in s b (msgs (i + 1)) m \<and>
              pendingBackfillGateSQL s found (clock (i + 2) - pendingBackfillScrubHold) m \<and> cloudMessageChatFilterWhere s found m) \<and>
           (\<exists>listed \<in> set (cloud_message db). m_guid listed = m_guid m \<and> scrub_base s cutoff listed \<and> not_excluded ex listed)"
      if "?P m" for m
    proof -
      have ok: "m_guid m \<in> sc_guid ` set batch \<and> (forceWhere s found m \<or> delivered_in s b (msgs (i + 1)) m \<and>
          pendingBackfillGateSQL s found (clock (i + 2) - pendingBackfillScrubHold) m \<and> cloudMessageChatFilterWhere s found m)"
        by (rule batch_rows_sound [OF _ conjunct2 [OF that]]) (rule named)
      then obtain c where "c \<in> set batch" "sc_guid c = m_guid m" by auto
      moreover from this(1) have "c \<in> set cs" using batch_subset [OF batch(1)] by blast
      ultimately have "\<exists>listed \<in> set (cloud_message db). m_guid listed = m_guid m \<and> scrub_base s cutoff listed \<and> not_excluded ex listed"
        unfolding cs_def by (elim candidate_row) auto
      with ok show ?thesis by blast
    qed
    show "left = found\<lparr>cloud_message := cloud_message left\<rparr> \<and> length (cloud_message left) = length (cloud_message found) \<and>
      (\<forall>j < length (cloud_message found). cloud_message left ! j = cloud_message found ! j \<or>
         (let m = cloud_message found ! j in
           cloud_message left ! j = scrub_body m \<and> scrub_base s cutoff m \<and>
           (forceWhere s found m \<or> delivered_in s b (msgs (i + 1)) m \<and>
              pendingBackfillGateSQL s found (clock (i + 2) - pendingBackfillScrubHold) m \<and> cloudMessageChatFilterWhere s found m) \<and>
           (\<exists>listed \<in> set (cloud_message db). m_guid listed = m_guid m \<and> scrub_base s cutoff listed \<and> not_excluded ex listed)))"
      unfolding left Let_def update_where_def using sound by auto
  qed
qed

definition sample_delivery :: bridge_message_row where
  "sample_delivery = \<lparr>bm_bridge_id = ''b'', bm_id = ''G1_0'', bm_room_id = ''gid:aa'', bm_room_receiver = ''alice''\<rparr>"

text \<open>Another writer undeletes and re-ingests the deleted row before its batch: the row keeps its text.\<close>

definition sample_undelete :: "nat \<Rightarrow> cloud_db \<Rightarrow> cloud_db" where
  "sample_undelete i db = upsertMessageBatch sample_store 1000000000 [sample_row ''g1'' ''gid:aa'' 5 ''hi'']
     (db\<lparr>cloud_message := map (\<lambda>m. m\<lparr>m_deleted := False\<rparr>) (cloud_message db)\<rparr>)"

definition sample_deleted_db :: cloud_db where
  "sample_deleted_db = sample_group_db\<lparr>cloud_message := map (\<lambda>m. m\<lparr>m_deleted := True\<rparr>) (cloud_message sample_group_db)\<rparr>"

theorem scrub_only_delivered_witness:
  "m_text (cloud_message (scrubBridgedBodies False sample_store (\<lambda>_. 1000000000) (\<lambda>_. []) sample_undelete ''b'' 300000 []
     sample_deleted_db) ! 0) = Some ''hi''"
proof -
  let ?cs = "scrubCandidates sample_store (1000000000 - 300000) (1000000000 - pendingBackfillScrubHold) [] sample_deleted_db"
  let ?tr = "scrub_trace (scrub_step sample_store (\<lambda>_. 1000000000) (\<lambda>_. []) ''b'' (1000000000 - 300000) (scrub_snapshot sample_store ''b'' [] ?cs))
    sample_undelete (enumerate 0 (chunks 1000 ?cs)) sample_deleted_db"
  have cs: "length ?cs = 2" by code_simp
  then have "chunks 1000 ?cs = [?cs]" by (intro chunks_single) (auto simp only: list.size)
  then have batch: "enumerate 0 (chunks 1000 ?cs) = [(0, ?cs)]" by (simp only: enumerate_simps)
  let ?found = "sample_undelete 0 sample_deleted_db"
  obtain left where tr: "?tr = [(0, ?found, left)]" unfolding batch by (simp add: Let_def)
  have "(0, ?found, left) \<in> set ?tr" unfolding tr by (rule list.set_intros)
  note step = bspec [OF scrub_only_delivered [THEN conjunct2] this, unfolded prod.case, THEN conjunct2, THEN conjunct2, THEN spec, of 0]
  have "\<not> scrub_base sample_store (1000000000 - 300000) (cloud_message ?found ! 0)" "0 < length (cloud_message ?found)" by code_simp+
  with step have row: "cloud_message ?found ! 0 = cloud_message left ! 0" unfolding Let_def by metis
  have "?cs \<noteq> []" using cs by (metis list.size(3) zero_neq_numeral)
  then have "scrubBridgedBodies False sample_store (\<lambda>_. 1000000000) (\<lambda>_. []) sample_undelete ''b'' 300000 [] sample_deleted_db =
      snd (snd (last ?tr))"
    by (rule trans [OF scrub_only_delivered [THEN conjunct1] if_not_P])
  then have "scrubBridgedBodies False sample_store (\<lambda>_. 1000000000) (\<lambda>_. []) sample_undelete ''b'' 300000 [] sample_deleted_db = left"
    by (simp only: tr last_ConsL snd_conv)
  moreover have "m_text (cloud_message ?found ! 0) = Some ''hi''" by code_simp
  ultimately show ?thesis by (simp only: row)
qed

lemma scrub_pass_stmt:
  assumes "pk_ok db" "\<And>n. clock 1 \<le> clock (n + 2)"
  shows "scrubBridgedBodies False s clock (\<lambda>_. M) quiet b grace ex db = db\<lparr>cloud_message := update_where
    (\<lambda>m. scrub_base s (clock 0 - grace) m \<and> not_excluded ex m \<and>
      (forceWhere s db m \<or> delivered_in s b M m \<and>
        pendingBackfillGateSQL s db (clock 1 - pendingBackfillScrubHold) m \<and> cloudMessageChatFilterWhere s db m))
    scrub_body (cloud_message db)\<rparr>" (is "_ = db\<lparr>cloud_message := update_where ?Q scrub_body _\<rparr>")
proof -
  let ?hold = "clock 1 - pendingBackfillScrubHold"
  let ?cs = "scrubCandidates s (clock 0 - grace) ?hold ex db"
  let ?br = "scrub_snapshot s b M ?cs"
  let ?P = "\<lambda>m. \<exists>x \<in> set (enumerate 0 (chunks 1000 ?cs)). batch_eligible s clock (\<lambda>_. M) b (clock 0 - grace) ?br db x m"
  have named: "id_names i g" if "?br (g, p) = Some i" for g p i
    using that loadBridged_Some [of s b M g p i] by (auto simp: scrub_snapshot_def split: if_splits)
  have "?P m \<longleftrightarrow> ?Q m" if m: "m \<in> set (cloud_message db)" for m
  proof
    assume "?P m"
    then obtain n batch where x: "(n, batch) \<in> set (enumerate 0 (chunks 1000 ?cs))"
      "batch_eligible s clock (\<lambda>_. M) b (clock 0 - grace) ?br db (n, batch) m" by (metis surj_pair)
    have "not_excluded ex m \<and> (forceWhere s db m \<or> pendingBackfillGateSQL s db ?hold m) \<and>
        (forceWhere s db m \<or> delivered_in s b M m \<and>
          pendingBackfillGateSQL s db (clock (n + 2) - pendingBackfillScrubHold) m \<and> cloudMessageChatFilterWhere s db m)"
      by (rule batch_eligible_sound [OF assms(1) m batch_subset [OF x(1)] _ x(2)]) (rule named)
    moreover have "scrub_base s (clock 0 - grace) m" using x(2) by (simp add: batch_eligible_def)
    ultimately show "?Q m" by blast
  next
    assume Q: "?Q m"
    let ?c = "\<lparr>sc_guid = m_guid m, sc_portalID = text_or_empty (m_portal_id m), sc_forceScrub = forceWhere s db m\<rparr>"
    have c: "?c \<in> set ?cs" using m Q by (auto simp: scrubCandidates_def)
    then obtain n batch where x: "(n, batch) \<in> set (enumerate 0 (chunks 1000 ?cs))" "?c \<in> set batch"
      by (rule in_batches [where k = 1000]) simp_all
    have "?hold \<le> clock (n + 2) - pendingBackfillScrubHold" using assms(2) [of n] by linarith
    then have "pendingBackfillGateSQL s db ?hold m \<Longrightarrow> pendingBackfillGateSQL s db (clock (n + 2) - pendingBackfillScrubHold) m"
      by (rule gate_mono)
    moreover have "\<not> forceWhere s db m \<Longrightarrow> ?br = loadBridgedMessageIDs s b M" using c by (auto simp: scrub_snapshot_def list_all_iff)
    ultimately have "batch_eligible s clock (\<lambda>_. M) b (clock 0 - grace) ?br db (n, batch) m"
      using Q by (intro batch_eligible_complete [OF _ x(2) refl, where M = M]) auto
    with x(1) show "?P m" by blast
  qed
  then have "update_where ?P scrub_body (cloud_message db) = update_where ?Q scrub_body (cloud_message db)"
    unfolding update_where_def by (intro map_cong refl) simp
  then show ?thesis by (simp only: scrubBridged_eq)
qed

text \<open>C7. A pass over a quiet message table is exact: listing the candidates, loading delivery witnesses by
  normalized GUID and portal, and rechecking slice by slice comes to one statement, which clears every
  row past the grace window that is deleted, unreachable, or delivered to its portal with no first
  backfill pending, outside the excluded portals; the clock need only not run backwards.\<close>

theorem scrub_pass_exact:
  assumes "pk_ok db" "\<And>n. clock 1 \<le> clock (n + 2)"
  shows "scrubBridgedBodies False s clock (\<lambda>_. M) quiet b grace ex db = db\<lparr>cloud_message := update_where
    (\<lambda>m. scrub_base s (clock 0 - grace) m \<and> not_excluded ex m \<and>
      (forceWhere s db m \<or> delivered_in s b M m \<and>
        pendingBackfillGateSQL s db (clock 1 - pendingBackfillScrubHold) m \<and> cloudMessageChatFilterWhere s db m))
    scrub_body (cloud_message db)\<rparr>"
  by (rule scrub_pass_stmt [OF assms])

theorem scrub_pass_exact_witness:
  "map m_text (cloud_message (scrubBridgedBodies False sample_store (\<lambda>_. 1000000000) (\<lambda>_. [sample_delivery]) quiet ''b'' 300000 [] sample_group_db)) =
     [None, Some ''ho'']"
proof -
  have "(1000000000::int) \<le> 1000000000" by simp
  from scrub_pass_exact [OF pk_sample_group_db this] show ?thesis by (rule ssubst) code_simp
qed

text \<open>C8. Scrubbing the tail never touches the backfill window: whatever the clock, the excluded portals and the
  number of rows, the newest \<open>keepPerPortal\<close> messages that the first backfill of a room reads are read
  afterwards exactly as before. The loop of full batches over every portal comes to one statement, which
  clears the old rows below each portal's threshold. (The comment in \<^verbatim>\<open>scrubUnbridgedTail\<close> says that the rows
  it counts and those \<^verbatim>\<open>listLatestMessages\<close> reads are not the same set; the two queries have the same conditions.)\<close>

theorem tail_scrub_keeps_window:
  "listLatestMessages s p (nat k) (scrubUnbridgedTail off s now hold k grace ex db) = listLatestMessages s p (nat k) db \<and>
   cloud_message (scrubUnbridgedTail off s now hold k grace ex db) =
     (if off \<or> k \<le> 0 then cloud_message db
      else update_where (in_tails s db (now - grace) k ex (tail_portals s (hold - pendingBackfillScrubHold) k db)) scrub_body
        (cloud_message db))"
proof
  have "window s (nat k) p (fold (\<lambda>pid db. if pid \<in> set ex then db else scrub_portal_tail s cutoff k pid db) pids db) =
      window s (nat k) p db" if "0 < k" for cutoff pids
    by (rule fold_invariant [where P = "\<lambda>db'. window s (nat k) p db' = window s (nat k) p db"])
       (simp_all add: window_portal_tail that)
  then have "window s (nat k) p (scrubUnbridgedTail off s now hold k grace ex db) = window s (nat k) p db"
    by (simp add: scrubUnbridgedTail_def)
  then show "listLatestMessages s p (nat k) (scrubUnbridgedTail off s now hold k grace ex db) = listLatestMessages s p (nat k) db"
    by (simp add: listLatestMessages_def window_def)
qed (simp add: scrubUnbridgedTail_def fold_tails)

text \<open> Reactions lose exactly their quoted text: past the grace window every reaction with a text or a subject
  is scrubbed, however many batches that takes, and keeps its sender, its emoji and its target.\<close>

lemma reaction_scrub_exact:
  assumes "pk_ok db"
  shows "scrubReactionText off s now grace db = (if off then db else db\<lparr>cloud_message := update_where
      (\<lambda>m. reaction_base s (now - grace) m \<and> (text_present (m_text m) \<or> text_present (m_subject m))) scrub_reaction (cloud_message db)\<rparr>) \<and>
    map (\<lambda>m. (m_sender m, m_tapback_emoji m, m_tapback_target_guid m)) (cloud_message (scrubReactionText off s now grace db)) =
      map (\<lambda>m. (m_sender m, m_tapback_emoji m, m_tapback_target_guid m)) (cloud_message db)"
  using scrub_reactions_eq [OF distinct_guids [OF assms]]
  by (simp add: scrubReactionText_def) (simp add: update_where_def scrub_reaction_def)

lemma reaction_scrub_exact_witness:
  "let db = upsertMessageBatch sample_store 1 [(sample_row ''r1'' ''p'' 5 ''Loved x'')\<lparr>row_TapbackType := Some 2000\<rparr>] sample_group_db
   in map m_text (cloud_message (scrubReactionText False sample_store 9 1 db)) = [Some ''hi'', Some ''ho'', None]"
proof -
  let ?db = "upsertMessageBatch sample_store 1 [(sample_row ''r1'' ''p'' 5 ''Loved x'')\<lparr>row_TapbackType := Some 2000\<rparr>] sample_group_db"
  have "pk_ok ?db" by (rule db_stmt_pk [OF message_ops(1) pk_sample_group_db])
  from reaction_scrub_exact [OF this, THEN conjunct1, of False sample_store 9 1]
  show ?thesis unfolding Let_def by (rule ssubst) code_simp
qed

text \<open>C9. A rehydrate attempt that CloudKit answers with nothing leaves no trace: clearing the scrub marks of a
  portal and re-scrubbing the rows of the same attempt restores the cache exactly, timestamps included.\<close>

theorem rehydrate_roundtrip:
  assumes "pk_ok db"
  shows "rescrubClearedRows s p (fst (clearBodyScrubForRehydrate s now p db)) (snd (clearBodyScrubForRehydrate s now p db)) = db"
  by (rule rescrub_after_clear [OF assms]) simp

definition sample_scrubbed_db :: cloud_db where
  "sample_scrubbed_db = scrubBridgedBodies False sample_store (\<lambda>_. 1000000000) (\<lambda>_. [sample_delivery]) quiet ''b'' 300000 [] sample_group_db"

theorem rehydrate_roundtrip_witness:
  "rescrubClearedRows sample_store ''gid:aa'' (fst (clearBodyScrubForRehydrate sample_store 9 ''gid:aa'' sample_scrubbed_db))
     (snd (clearBodyScrubForRehydrate sample_store 9 ''gid:aa'' sample_scrubbed_db)) = sample_scrubbed_db \<and>
   length (ra_Rows (fst (clearBodyScrubForRehydrate sample_store 9 ''gid:aa'' sample_scrubbed_db))) = 1"
proof
  have "pk_ok sample_scrubbed_db"
    unfolding sample_scrubbed_db_def by (rule db_stmt_pk [OF scrub_ops(3) pk_sample_group_db])
  then show "rescrubClearedRows sample_store ''gid:aa'' (fst (clearBodyScrubForRehydrate sample_store 9 ''gid:aa'' sample_scrubbed_db))
     (snd (clearBodyScrubForRehydrate sample_store 9 ''gid:aa'' sample_scrubbed_db)) = sample_scrubbed_db"
    by (rule rehydrate_roundtrip)
qed code_simp

end
