(* ===== verification/Store_Runs.thy ===== *)
theory Store_Runs
  imports Cloud_Sync_State Body_Scrub
begin

text \<open>
  Runs of the CloudKit store: the operations that write, as data, and what every interleaving of them
  by any number of logins keeps. An operation that ends in an error leaves the database as it was.
\<close>

section \<open>Operations\<close>

datatype sync_op =
    SetSyncSuccess millis string "string option" | SetSyncError millis string string
  | ClearSyncTokens | ClearZoneToken string | SetSyncVersion millis int | SetChatSyncVersion millis int | ClearAllData

datatype message_op =
    UpsertMessages millis "cloudMessageRow list" | DeleteMessages millis "guid list"
  | DeleteMessagesOfChats "string list" | SoftDelete millis guid portal_id | MarkContinuation millis guid portal_id
  | PersistMessage millis guid portal_id millis bool | PersistTapback millis guid portal_id millis bool int
  | SaveAttachment millis string string | SaveDead millis string string

datatype chat_op =
    UpsertChat millis string string string portal_id string "string option" "string option" "string slice" millis
  | UpsertChats millis "cloudChatUpsertRow list" | DeleteChats "string list" | DeleteChatsByRecord "nat \<Rightarrow> millis" "string list"
  | ChatTombstone millis string portal_id string string string "string option" "string list json_text"
  | SetOverride millis portal_id | ClearOverride portal_id
  | UpdateRoster millis portal_id "string slice" | SyncRoster millis portal_id "string slice" "(string \<Rightarrow> bool) option"
  | ClearPhotoGuid portal_id | SavePhoto portal_id millis string | ClearPhoto portal_id | RenameChat portal_id string

datatype portal_op =
    EnsureTombstone millis portal_id | DeletePortal millis portal_id | DeleteGroup "nat \<Rightarrow> millis" string
  | UndeleteChat millis portal_id | HardDeleteMessages portal_id | ResetForwardDone portal_id | MarkForwardDone millis portal_id
  | UndeleteMessages millis portal_id | UndeleteRecycled millis portal_id "guid list"
  | SeedMessage millis portal_id guid string millis string bool string string
  | SeedChat millis portal_id string string string string "string list" | ReKey millis portal_id portal_id
  | NormalizeChats | NormalizeMessages | HealMisrouted millis

datatype upkeep_op =
    ScrubDeleted | ClassifyLegacy millis | DeleteLegacy millis | DeleteOrphans | PruneCache millis
  | Reconcile millis "bridge_message_row list" "backfill_task_row list"
  | ScrubBridged bool "nat \<Rightarrow> millis" "nat \<Rightarrow> bridge_message_row list" string millis "portal_id list"
  | ScrubBatch string millis millis "bridge_message_row list" delivery_witnesses "cloudScrubCandidate list"
  | ScrubReactions bool millis millis | ScrubTail bool millis millis int millis "portal_id list"
  | ClearScrub millis portal_id | ClearAllScrub millis | ClearForRehydrate millis portal_id
  | Rescrub portal_id rehydrateScrubAttempt

datatype store_op = Sync sync_op | Message message_op | Chat chat_op | Portal portal_op | Upkeep upkeep_op

fun exec_sync :: "cloudBackfillStore \<Rightarrow> sync_op \<Rightarrow> cloud_db \<Rightarrow> cloud_db" where
  "exec_sync s (SetSyncSuccess now zone token) db = setSyncStateSuccess s now zone token db"
| "exec_sync s (SetSyncError now zone e) db = setSyncStateError s now zone e db"
| "exec_sync s ClearSyncTokens db = clearSyncTokens s db"
| "exec_sync s (ClearZoneToken zone) db = clearZoneToken s zone db"
| "exec_sync s (SetSyncVersion now v) db = setSyncVersion s now v db"
| "exec_sync s (SetChatSyncVersion now v) db = setChatSyncVersion s now v db"
| "exec_sync s ClearAllData db = clearAllData s db"

fun exec_message :: "cloudBackfillStore \<Rightarrow> message_op \<Rightarrow> cloud_db \<Rightarrow> cloud_db" where
  "exec_message s (UpsertMessages now rows) db = upsertMessageBatch s now rows db"
| "exec_message s (DeleteMessages now gs) db = deleteMessageBatch s now gs db"
| "exec_message s (DeleteMessagesOfChats cs) db = deleteMessagesByChatIDs s cs db"
| "exec_message s (SoftDelete now g p) db = softDeleteMessageByGUID s now g p db"
| "exec_message s (MarkContinuation now g p) db = markContinuationChunk s now g p db"
| "exec_message s (PersistMessage now u p ts me) db = persistMessageUUID s now u p ts me db"
| "exec_message s (PersistTapback now u p ts me tb) db = persistTapbackUUID s now u p ts me tb db"
| "exec_message s (SaveAttachment now rn cj) db = saveAttachmentCacheEntry s now rn cj db"
| "exec_message s (SaveDead now rn why) db = saveDeadAttachment s now rn why db"

fun exec_chat :: "cloudBackfillStore \<Rightarrow> chat_op \<Rightarrow> cloud_db \<Rightarrow> cloud_db" where
  "exec_chat s (UpsertChat now cid rn gid pid svc dn gp ps ts) db = upsertChat s now cid rn gid pid svc dn gp ps ts db"
| "exec_chat s (UpsertChats now chats) db = upsertChatBatch s now chats db"
| "exec_chat s (DeleteChats cids) db = deleteChatBatch s cids db"
| "exec_chat s (DeleteChatsByRecord clock rns) db = deleteChatsByRecordNames s clock rns db"
| "exec_chat s (ChatTombstone now cid pid rn gid svc dn pj) db = insertDeletedChatTombstone s now cid pid rn gid svc dn pj db"
| "exec_chat s (SetOverride now pid) db = setRestoreOverride s now pid db"
| "exec_chat s (ClearOverride pid) db = clearRestoreOverride s pid db"
| "exec_chat s (UpdateRoster now pid ps) db = updateChatParticipants s now pid ps db"
| "exec_chat s (SyncRoster now pid ps isSelf) db =
     (case syncStoredGroupRoster s now pid ps isSelf db of Inl _ \<Rightarrow> db | Inr (_, _, db') \<Rightarrow> db')"
| "exec_chat s (ClearPhotoGuid pid) db = clearGroupPhotoGuid s pid db"
| "exec_chat s (SavePhoto pid ts data) db = saveGroupPhoto s pid ts data db"
| "exec_chat s (ClearPhoto pid) db = clearGroupPhoto s pid db"
| "exec_chat s (RenameChat pid nm) db = updateDisplayNameByPortalID s pid nm db"

fun exec_portal :: "cloudBackfillStore \<Rightarrow> portal_op \<Rightarrow> cloud_db \<Rightarrow> cloud_db" where
  "exec_portal s (EnsureTombstone now pid) db =
     (case ensureDeletedChatTombstoneByPortalID s now pid db of Inl _ \<Rightarrow> db | Inr db' \<Rightarrow> db')"
| "exec_portal s (DeletePortal now pid) db = deleteLocalChatByPortalID s now pid db"
| "exec_portal s (DeleteGroup clock gid) db = deleteLocalChatByGroupID s clock gid db"
| "exec_portal s (UndeleteChat now pid) db = undeleteCloudChatByPortalID s now pid db"
| "exec_portal s (HardDeleteMessages pid) db = snd (hardDeleteMessagesByPortalID s pid db)"
| "exec_portal s (ResetForwardDone pid) db = resetForwardBackfillDone s pid db"
| "exec_portal s (MarkForwardDone now pid) db = markForwardBackfillDone s now pid db"
| "exec_portal s (UndeleteMessages now pid) db = snd (undeleteCloudMessagesByPortalID s now pid db)"
| "exec_portal s (UndeleteRecycled now pid gs) db = snd (undeleteRecycleBinMessages s now pid gs db)"
| "exec_portal s (SeedMessage now pid g cid ts sender me svc rn) db =
     seedMessageFromRecycleBin s now pid g cid ts sender me svc rn db"
| "exec_portal s (SeedChat now pid cid gid dn gp ps) db = seedChatFromRecycleBin s now pid cid gid dn gp ps db"
| "exec_portal s (ReKey now old new) db = reKeyPortalID s now old new db"
| "exec_portal s NormalizeChats db = snd (normalizeGroupChatPortalIDs s db)"
| "exec_portal s NormalizeMessages db = snd (normalizeGroupMessagePortalIDs s db)"
| "exec_portal s (HealMisrouted now) db = snd (healMisroutedGroupMessages s now db)"

fun exec_upkeep :: "cloudBackfillStore \<Rightarrow> upkeep_op \<Rightarrow> cloud_db \<Rightarrow> cloud_db" where
  "exec_upkeep s ScrubDeleted db = scrubSoftDeletedRows s db"
| "exec_upkeep s (ClassifyLegacy now) db = classifyLegacyMessageDeletes s now db"
| "exec_upkeep s (DeleteLegacy now) db = deleteLegacySystemMessages s now db"
| "exec_upkeep s DeleteOrphans db = deleteOrphanedMessages s db"
| "exec_upkeep s (PruneCache now) db = (case pruneOrphanedAttachmentCache s now db of Inl _ \<Rightarrow> db | Inr db' \<Rightarrow> db')"
| "exec_upkeep s (Reconcile now ms ts) db = fst (snd (reconcileStrandedBackfills s now ms ts db))"
| "exec_upkeep s (ScrubBridged off clock msgs b grace ex) db = scrubBridgedBodies off s clock msgs quiet b grace ex db"
| "exec_upkeep s (ScrubBatch b cutoff hold ms bridged cs) db = scrubBatchIfEligible s b cutoff hold ms bridged cs db"
| "exec_upkeep s (ScrubReactions off now grace) db = scrubReactionText off s now grace db"
| "exec_upkeep s (ScrubTail off now hold k grace ex) db = scrubUnbridgedTail off s now hold k grace ex db"
| "exec_upkeep s (ClearScrub now pid) db = snd (clearBodyScrubByPortalID s now pid db)"
| "exec_upkeep s (ClearAllScrub now) db = snd (clearAllBodyScrub s now db)"
| "exec_upkeep s (ClearForRehydrate now pid) db = snd (clearBodyScrubForRehydrate s now pid db)"
| "exec_upkeep s (Rescrub pid attempt) db = rescrubClearedRows s pid attempt db"

fun exec :: "cloudBackfillStore \<Rightarrow> store_op \<Rightarrow> cloud_db \<Rightarrow> cloud_db" where
  "exec s (Sync opn) db = exec_sync s opn db"
| "exec s (Message opn) db = exec_message s opn db"
| "exec s (Chat opn) db = exec_chat s opn db"
| "exec s (Portal opn) db = exec_portal s opn db"
| "exec s (Upkeep opn) db = exec_upkeep s opn db"

definition run :: "(cloudBackfillStore \<times> store_op) list \<Rightarrow> cloud_db \<Rightarrow> cloud_db" where
  "run ops db = fold (\<lambda>(s, opn). exec s opn) ops db"

text \<open>The databases the stores of a process can produce from the empty schema.\<close>

inductive reachable :: "cloud_db \<Rightarrow> bool" where
  reachable_init: "reachable empty_db"
| reachable_step: "reachable db \<Longrightarrow> reachable (exec s opn db)"

section \<open>Every operation is a statement of its login\<close>

lemma exec_stmt: "db_stmt (loginID s) db (exec s opn db)"
proof (cases opn)
  case (Sync x)
  then show ?thesis by (cases x) (simp_all add: store_ops)
next
  case (Message x)
  then show ?thesis by (cases x) (simp_all add: store_ops)
next
  case (Chat x)
  then show ?thesis
    by (cases x) (auto simp: store_ops split: sum.splits dest: syncStoredGroupRoster_op)
next
  case (Portal x)
  then show ?thesis
    by (cases x) (auto simp: store_ops split: sum.splits dest: ensureDeletedChatTombstone_op)
next
  case (Upkeep x)
  then show ?thesis by (cases x) (auto simp: store_ops reconcile_op split: sum.splits dest: prune_op)
qed

lemma run_Cons: "run (x # ops) db = run ops (exec (fst x) (snd x) db)"
  by (simp add: run_def split_beta)

lemma run_Nil [simp]: "run [] db = db"
  by (simp add: run_def)

section \<open>Tombstones\<close>

text \<open>A message the user deleted: its row stays deleted and empty. Four operations purge such rows.\<close>

definition tombstone :: "cloud_message_row \<Rightarrow> bool" where
  "tombstone r \<longleftrightarrow> m_deleted r \<and> m_message_deleted r \<and> body_gone r"

definition purges :: "store_op \<Rightarrow> bool" where
  "purges opn \<longleftrightarrow> (case opn of
      Sync ClearAllData \<Rightarrow> True
    | Message (DeleteMessagesOfChats _) \<Rightarrow> True
    | Portal (HardDeleteMessages _) \<Rightarrow> True
    | Upkeep (DeleteLegacy _) \<Rightarrow> True
    | _ \<Rightarrow> False)"

text \<open>The GUIDs an operation may insert a row for.\<close>

definition written_guids :: "store_op \<Rightarrow> guid set" where
  "written_guids opn = (case opn of
      Message (UpsertMessages _ rows) \<Rightarrow> set (map row_GUID rows)
    | Message (SoftDelete _ g _) \<Rightarrow> {g}
    | Message (MarkContinuation _ g _) \<Rightarrow> {g}
    | Message (PersistMessage _ g _ _ _) \<Rightarrow> {g}
    | Message (PersistTapback _ g _ _ _ _) \<Rightarrow> {g}
    | Portal (SeedMessage _ _ g _ _ _ _ _ _) \<Rightarrow> {g}
    | _ \<Rightarrow> {})"

abbreviation written_keys :: "cloudBackfillStore \<Rightarrow> store_op \<Rightarrow> (login_id \<times> guid) set" where
  "written_keys s opn \<equiv> Pair (loginID s) ` written_guids opn"

interpretation graves: survivors message_key tombstone .

lemmas grave_simps = tombstone_def body_gone_def scrub_body_def message_key_def

lemma sync_survive: "\<not> purges (Sync opn) \<Longrightarrow> cloud_message (exec_sync s opn db) = cloud_message db"
  by (cases opn) (simp_all add: purges_def setSyncStateSuccess_def setSyncStateError_def clearSyncTokens_def
      clearZoneToken_def setSyncVersion_def setChatSyncVersion_def)

lemma softDeleteRow_survive:
  assumes "(loginID s, g) \<in> W"
  shows "graves.survive W (cloud_message db) (cloud_message (softDeleteRow s now g p md db))"
proof -
  have key: "message_key (deleted_stub s now g p md) \<in> W" using assms by (simp add: message_key_def deleted_stub_def default_message_def)
  have "graves.survive W (cloud_message db) (update_where (guid_match s g) (soft_delete_row_update p md) (cloud_message db))"
    by (rule graves.survive_update_where) (simp_all add: grave_simps soft_delete_row_update_def)
  moreover from this have "graves.survive W (cloud_message db) (upsert message_key do_nothing (deleted_stub s now g p md)
      (update_where (guid_match s g) (soft_delete_row_update p md) (cloud_message db)))"
    by (rule graves.survive_trans) (rule graves.survive_upsert, simp_all add: do_nothing_def key)
  ultimately show ?thesis by (simp add: softDeleteRow_def Let_def)
qed

lemma message_survive:
  assumes "\<not> purges (Message opn)"
  shows "graves.survive (written_keys s (Message opn)) (cloud_message db) (cloud_message (exec_message s opn db))"
proof (cases opn)
  case (UpsertMessages now rows)
  have "set (dedupe_rows rows) \<subseteq> set rows" by (rule dedupe_rows_subset)
  with UpsertMessages show ?thesis
    by (auto simp: upsertMessageBatch_def graves.survive_refl written_guids_def
        intro!: graves.survive_fold graves.survive_upsert simp: grave_simps upsert_message_merge_def message_of_row_def)
next
  case (DeleteMessages now gs)
  then show ?thesis
    by (auto simp: deleteMessageBatch_def intro!: graves.survive_fold graves.survive_update_where simp: grave_simps)
next
  case (PersistMessage now u p ts me)
  then show ?thesis
    by (auto simp: persistMessageUUID_def written_guids_def default_message_def
        intro!: graves.survive_upsert simp: grave_simps persist_message_merge_def)
next
  case (PersistTapback now u p ts me tb)
  then show ?thesis
    by (auto simp: persistTapbackUUID_def do_nothing_def written_guids_def default_message_def message_key_def
        intro!: graves.survive_upsert)
qed (use assms in \<open>simp_all add: purges_def softDeleteMessageByGUID_def markContinuationChunk_def softDeleteRow_survive
  saveAttachmentCacheEntry_def saveDeadAttachment_def graves.survive_refl written_guids_def\<close>)

lemma chat_survive: "cloud_message (exec_chat s opn db) = cloud_message db"
  by (cases opn) (auto simp: upsertChat_def upsertChatBatch_def deleteChatBatch_def deleteChatsByRecordNames_def
      insertDeletedChatTombstone_def setRestoreOverride_def clearRestoreOverride_def updateChatParticipants_def
      syncStoredGroupRoster_def clearGroupPhotoGuid_def saveGroupPhoto_def clearGroupPhoto_def
      updateDisplayNameByPortalID_def Let_def split: sum.splits option.splits)

lemma survive_update:
  "(\<And>r. p r \<Longrightarrow> tombstone r \<Longrightarrow> tombstone (f r)) \<Longrightarrow> (\<And>r. message_key (f r) = message_key r) \<Longrightarrow>
   graves.survive W (cloud_message db) (cloud_message (db\<lparr>cloud_message := update_where p f (cloud_message db)\<rparr>))"
  using graves.survive_update_where [where rs = "cloud_message db"] by simp

lemma deleteLocalChat_survive: "graves.survive W (cloud_message db) (cloud_message (deleteLocalChatByPortalID s now pid db))"
  unfolding deleteLocalChat_rows by (auto intro!: graves.survive_update_where simp: tombstone_def message_key_def message_deleted_at_def scrub_body_def)

lemma survive_fold_db:
  "(\<And>x db. graves.survive W (cloud_message db) (cloud_message (f x db))) \<Longrightarrow>
   graves.survive W (cloud_message db) (cloud_message (fold f xs db))"
proof (induction xs arbitrary: db)
  case (Cons x xs)
  show ?case using graves.survive_trans [OF Cons.prems Cons.IH [OF Cons.prems]] by simp
qed (simp add: graves.survive_refl)

lemma undeleteRecycleBin_survive:
  "graves.survive W (cloud_message db) (cloud_message (snd (undeleteRecycleBinMessages s now pid gs db)))"
proof -
  have "graves.survive W (cloud_message db) (cloud_message (snd (fold (\<lambda>chunk (restored, db).
         let p = (\<lambda>r. m_login_id r = loginID s \<and> col_eq (m_portal_id r) pid \<and> m_guid r \<in> set chunk \<and>
               m_deleted r \<and> \<not> m_message_deleted r)
         in (restored + rows_matching p (cloud_message db),
             db\<lparr>cloud_message := update_where p (\<lambda>r. r\<lparr>m_deleted := False, m_updated_ts := now\<rparr>)
               (cloud_message db)\<rparr>)) cs (n, db))))" for cs n
  proof (induction cs arbitrary: n db)
    case (Cons chunk cs)
    show ?case unfolding fold_simps comp_def Let_def prod.case
      by (rule graves.survive_trans [OF survive_update Cons.IH [unfolded Let_def]]) (auto simp: tombstone_def message_key_def)
  qed (simp add: graves.survive_refl)
  then show ?thesis unfolding undeleteRecycleBinMessages_def .
qed

lemma portal_survive:
  assumes "\<not> purges (Portal opn)"
  shows "graves.survive (written_keys s (Portal opn)) (cloud_message db) (cloud_message (exec_portal s opn db))"
proof (cases opn)
  case (EnsureTombstone now pid)
  then show ?thesis
    by (auto simp: ensureDeletedChatTombstoneByPortalID_def insertDeletedChatTombstone_def Let_def graves.survive_refl
        split: sum.splits option.splits)
next
  case (DeleteGroup clock gid)
  have "graves.survive (written_keys s (Portal opn)) (cloud_message db) (cloud_message (deleteLocalChatByGroupID s clock gid db))"
    unfolding deleteLocalChatByGroupID_def by (rule survive_fold_db) (simp add: deleteLocalChat_survive split: prod.splits)
  with DeleteGroup show ?thesis by simp
next
  case (UndeleteMessages now pid)
  then show ?thesis
    by (auto simp: undeleteCloudMessagesByPortalID_def Let_def intro!: graves.survive_update_where simp: tombstone_def message_key_def)
next
  case (SeedMessage now pid g cid ts sender me svc rn)
  then show ?thesis
    by (auto simp: seedMessageFromRecycleBin_def written_guids_def default_message_def
        intro!: graves.survive_upsert simp: grave_simps seed_message_merge_def)
next
  case (ReKey now old new)
  then show ?thesis
    by (auto simp: reKeyPortalID_def graves.survive_refl intro!: graves.survive_update_where simp: grave_simps)
next
  case NormalizeMessages
  then show ?thesis
    by (auto simp: normalizeGroupMessagePortalIDs_def Let_def intro!: graves.survive_update_where simp: grave_simps)
next
  case (HealMisrouted now)
  then show ?thesis
    by (auto simp: healMisroutedGroupMessages_def Let_def intro!: graves.survive_update_where simp: grave_simps)
qed (use assms in \<open>simp_all add: purges_def deleteLocalChat_survive undeleteRecycleBin_survive undeleteCloudChatByPortalID_def
  resetForwardBackfillDone_def markForwardBackfillDone_def seedChatFromRecycleBin_def normalizeGroupChatPortalIDs_def
  Let_def graves.survive_refl\<close>)

lemma scrub_reactions_survive: "graves.survive W rs (scrub_reactions s cutoff rs)"
proof (induction s cutoff rs rule: scrub_reactions.induct)
  case (1 s cutoff rs)
  let ?hit = "\<lambda>m. reaction_base s cutoff m \<and> m_guid m \<in> set (reactionScrubCandidates s cutoff 1000 rs)"
  have step: "graves.survive W rs (update_where ?hit scrub_reaction rs)"
    by (rule graves.survive_update_where) (auto simp: grave_simps scrub_reaction_def)
  from graves.survive_trans [OF this 1 [OF refl refl refl]] step show ?case
    by (subst scrub_reactions.simps) (simp add: Let_def graves.survive_refl)
qed

lemma upkeep_survive:
  assumes "\<not> purges (Upkeep opn)"
  shows "graves.survive (written_keys s (Upkeep opn)) (cloud_message db) (cloud_message (exec_upkeep s opn db))"
proof (cases opn)
  case (ClassifyLegacy now)
  then show ?thesis
    by (auto simp: classifyLegacyMessageDeletes_def record_task_def graves.survive_refl intro!: graves.survive_update_where simp: grave_simps)
next
  case DeleteOrphans
  have "graves.survive (written_keys s (Upkeep opn)) rs (sweep (\<lambda>r. m_login_id r = loginID s) m_guid 1000 250 c (orphan_recheck s db) [] rs)" for c rs
    by (rule sweep_invariant [OF _ graves.survive_refl])
       (erule graves.survive_trans, rule graves.survive_delete_where, auto simp: orphan_recheck_def tombstone_def)
  with DeleteOrphans show ?thesis by (simp add: deleteOrphanedMessages_def)
next
  case (PruneCache now)
  then show ?thesis by (auto simp: pruneOrphanedAttachmentCache_def graves.survive_refl split: sum.splits)
next
  case (Reconcile now ms ts)
  then show ?thesis by (simp add: reconcile_eq Let_def reconcile_db graves.survive_refl)
next
  case (ScrubBridged off clock msgs b grace ex)
  show ?thesis
  proof (cases off)
    case False
    with ScrubBridged show ?thesis by (auto simp: scrubBridged_eq intro!: graves.survive_update_where simp: grave_simps)
  qed (simp add: ScrubBridged scrubBridgedBodies_def graves.survive_refl)
next
  case (ScrubBatch b cutoff hold ms bridged cs)
  then show ?thesis by (auto simp: scrubBatch_eq intro!: graves.survive_update_where simp: grave_simps)
next
  case ScrubDeleted
  then show ?thesis by (auto simp: scrubSoftDeletedRows_def intro!: graves.survive_update_where simp: grave_simps)
next
  case (ScrubReactions off now grace)
  then show ?thesis by (simp add: scrubReactionText_def scrub_reactions_survive graves.survive_refl)
next
  case (ScrubTail off now hold k grace ex)
  then show ?thesis
    by (auto simp: scrubUnbridgedTail_def fold_tails graves.survive_refl intro!: graves.survive_update_where simp: grave_simps)
next
  case (ClearScrub now pid)
  then show ?thesis
    by (auto simp: clearBodyScrubByPortalID_def Let_def intro!: graves.survive_update_where simp: tombstone_def message_key_def)
next
  case (ClearAllScrub now)
  then show ?thesis
    by (auto simp: clearAllBodyScrub_def Let_def intro!: graves.survive_update_where simp: tombstone_def message_key_def)
next
  case (ClearForRehydrate now pid)
  then show ?thesis
    by (auto simp: clear_rows_eq intro!: graves.survive_update_where simp: tombstone_def message_key_def rehydrate_where_def clear_row_def)
next
  case (Rescrub pid attempt)
  then show ?thesis
    by (auto simp: rescrubClearedRows_def graves.survive_refl
        intro!: graves.survive_fold graves.survive_update_where simp: grave_simps rescrub_row_def)
qed (use assms in \<open>simp add: purges_def\<close>)

lemma exec_graves: "\<not> purges opn \<Longrightarrow> graves.survive (written_keys s opn) (cloud_message db) (cloud_message (exec s opn db))"
  by (cases opn) (simp_all add: sync_survive chat_survive message_survive portal_survive upkeep_survive graves.survive_refl)

lemma exec_other_rows:
  "loginID s \<noteq> m_login_id r \<Longrightarrow> r \<in> set (cloud_message (exec s opn db)) \<longleftrightarrow> r \<in> set (cloud_message db)"
  using db_stmt_other [OF exec_stmt [where s = s and opn = opn and db = db], of "m_login_id r"]
  by (auto simp: login_view_def owned_by_def dest: arg_cong [where f = "\<lambda>rs. r \<in> set rs"])

lemma exec_survive:
  assumes "purges opn \<longrightarrow> loginID s \<noteq> m_login_id r" "r \<in> set (cloud_message db)" "tombstone r"
  shows "\<exists>r' \<in> set (cloud_message (exec s opn db)). message_key r' = message_key r \<and> tombstone r'"
proof (cases "purges opn")
  case True
  with assms exec_other_rows [of s r opn db] show ?thesis by blast
next
  case False
  from graves.survive_row [OF exec_graves [OF this] assms(2,3)] show ?thesis .
qed

lemma exec_keys:
  assumes "purges opn \<longrightarrow> loginID s \<noteq> m_login_id r" "r \<in> set (cloud_message (exec s opn db))"
  shows "message_key r \<in> message_key ` set (cloud_message db) \<or> message_key r \<in> written_keys s opn"
proof (cases "purges opn")
  case True
  with assms exec_other_rows [of s r opn db] show ?thesis by blast
next
  case False
  from graves.survive_keys [OF exec_graves [OF this] assms(2)] show ?thesis .
qed

lemma run_survive:
  assumes "list_all (\<lambda>(s, opn). purges opn \<longrightarrow> loginID s \<noteq> l) ops" "r \<in> set (cloud_message db)" "tombstone r" "m_login_id r = l"
  shows "\<exists>r' \<in> set (cloud_message (run ops db)). message_key r' = message_key r \<and> tombstone r'"
  using assms
proof (induction ops arbitrary: db r)
  case (Cons x ops)
  obtain s opn where x: "x = (s, opn)" by (cases x)
  with Cons.prems have "purges opn \<longrightarrow> loginID s \<noteq> m_login_id r" by simp
  from exec_survive [OF this Cons.prems(2,3)] obtain q where q: "q \<in> set (cloud_message (exec s opn db))"
    "message_key q = message_key r" "tombstone q" by blast
  moreover have "list_all (\<lambda>(s, opn). purges opn \<longrightarrow> loginID s \<noteq> l) ops" using Cons.prems(1) by simp
  moreover have "m_login_id q = l" using q(2) Cons.prems(4) by (simp add: message_key_def)
  ultimately show ?case using Cons.IH [of q "exec s opn db"] by (simp add: run_Cons x)
qed auto

lemma run_keys:
  assumes "list_all (\<lambda>(s, opn). purges opn \<longrightarrow> loginID s \<noteq> m_login_id r) ops" "r \<in> set (cloud_message (run ops db))"
  shows "message_key r \<in> message_key ` set (cloud_message db) \<or> (\<exists>(s, opn) \<in> set ops. message_key r \<in> written_keys s opn)"
  using assms
proof (induction ops arbitrary: db)
  case (Cons x ops)
  obtain s opn where x: "x = (s, opn)" by (cases x)
  from Cons.IH [of "exec s opn db"] Cons.prems consider "message_key r \<in> message_key ` set (cloud_message (exec s opn db))"
    | "\<exists>(s, opn) \<in> set ops. message_key r \<in> written_keys s opn" by (auto simp: run_Cons x)
  then show ?case
  proof cases
    case 1
    then obtain q where "q \<in> set (cloud_message (exec s opn db))" "message_key q = message_key r" by auto
    moreover from this(2) have "m_login_id q = m_login_id r" by (simp add: message_key_def)
    ultimately show ?thesis using exec_keys [of opn s q db] Cons.prems(1) by (auto simp: x)
  qed (auto simp: x)
qed simp

lemma run_pk: "pk_ok db \<Longrightarrow> pk_ok (run ops db)"
  by (induction ops arbitrary: db) (auto simp: run_Cons intro: db_stmt_pk [OF exec_stmt])

lemma same_key_row: "pk_ok db \<Longrightarrow> r \<in> set (cloud_message db) \<Longrightarrow> q \<in> set (cloud_message db) \<Longrightarrow> message_key r = message_key q \<Longrightarrow> r = q"
  by (auto simp: pk_ok_def unique_key_def distinct_map dest: inj_onD)

text \<open>All spellings of the GUID are deleted, and one row at least is there.\<close>

lemma softDelete_all:
  assumes "r \<in> set (cloud_message (softDeleteMessageByGUID s now g p db))" "guid_match s g r"
  shows "tombstone r"
proof -
  have upd: "tombstone r" if "r \<in> set (update_where (guid_match s g) (soft_delete_row_update p True) (cloud_message db))"
    using that assms(2) by (elim update_whereE) (auto simp: grave_simps soft_delete_row_update_def)
  show ?thesis
  proof (cases "rows_matching (guid_match s g) (cloud_message db) = 0")
    case True
    from message_stub.set_upsert [OF assms(1) [unfolded softDeleteMessageByGUID_def softDeleteRow_def Let_def True, simplified]] upd show ?thesis
      by (auto simp: do_nothing_def tombstone_def body_gone_def deleted_stub_def default_message_def)
  next
    case False
    with assms(1) upd show ?thesis by (simp add: softDeleteMessageByGUID_def softDeleteRow_def Let_def)
  qed
qed

lemma softDelete_tombstone:
  "\<exists>r \<in> set (cloud_message (softDeleteMessageByGUID s now g p db)). guid_match s g r \<and> tombstone r"
proof (cases "rows_matching (guid_match s g) (cloud_message db) = 0")
  case True
  let ?stub = "deleted_stub s now g p True"
  have none: "\<not> guid_match s g r" if "r \<in> set (cloud_message db)" for r using True that by (simp add: rows_matching_0)
  have key: "message_key ?stub = (loginID s, g)" by (simp add: message_key_def deleted_stub_def default_message_def)
  have "(loginID s, g) \<notin> message_key ` set (cloud_message db)"
  proof
    assume "(loginID s, g) \<in> message_key ` set (cloud_message db)"
    then obtain r where "r \<in> set (cloud_message db)" "m_login_id r = loginID s" "m_guid r = g" by (auto simp: message_key_def)
    with none [of r] show False by (simp add: guid_match_def)
  qed
  then have "upsert message_key do_nothing ?stub (cloud_message db) = cloud_message db @ [?stub]"
    by (metis key upsert_new)
  then have "?stub \<in> set (cloud_message (softDeleteMessageByGUID s now g p db))"
    using True none by (simp add: softDeleteMessageByGUID_def softDeleteRow_def Let_def update_where_none)
  moreover have "guid_match s g ?stub \<and> tombstone ?stub"
    by (simp add: guid_match_def tombstone_def body_gone_def deleted_stub_def default_message_def)
  ultimately show ?thesis by blast
next
  case False
  then obtain r where r: "r \<in> set (cloud_message db)" "guid_match s g r" by (auto simp: rows_matching_0)
  then have "soft_delete_row_update p True r \<in> set (cloud_message (softDeleteMessageByGUID s now g p db))"
    using False by (simp add: softDeleteMessageByGUID_def softDeleteRow_def Let_def update_where_hit)
  moreover have "guid_match s g (soft_delete_row_update p True r) \<and> tombstone (soft_delete_row_update p True r)"
    using r(2) by (simp add: guid_match_def grave_simps soft_delete_row_update_def)
  ultimately show ?thesis by blast
qed

section \<open>Properties\<close>

text \<open>C1. Invariant and isolation of the cache: in every database the stores of any logins can produce, the
  primary keys of all tables are unique, and no sequence of operations of other logins changes anything
  one login sees.\<close>

theorem store_runs_invariant:
  assumes "reachable db" "list_all (\<lambda>(s, opn). loginID s \<noteq> l) ops"
  shows "pk_ok db \<and> reachable (run ops db) \<and> login_view l (run ops db) = login_view l db"
proof (intro conjI)
  show "pk_ok db" using assms(1)
    by (induction rule: reachable.induct) (auto intro: db_stmt_pk [OF exec_stmt])
  have "reachable (run ops db) \<and> login_view l (run ops db) = login_view l db" using assms
  proof (induction ops arbitrary: db)
    case (Cons x ops)
    obtain s opn where x: "x = (s, opn)" by (cases x)
    with Cons.prems(2) have "login_view l (exec s opn db) = login_view l db"
      by (intro db_stmt_other [OF exec_stmt]) auto
    with Cons.IH [OF reachable_step [OF Cons.prems(1), of s opn]] Cons.prems(2) show ?case by (simp add: run_Cons x)
  qed simp
  then show "reachable (run ops db)" "login_view l (run ops db) = login_view l db" by blast+
qed

definition bob_store :: cloudBackfillStore where
  "bob_store = newCloudBackfillStore ''bob'' []"

theorem store_runs_invariant_witness:
  "let db = run [(sample_store, Message (UpsertMessages 1 [sample_row ''g'' ''p'' 2 ''hi'']))] empty_db
   in login_view ''alice'' (run [(bob_store, Message (UpsertMessages 2 [sample_row ''g'' ''p'' 3 ''yo''])), (bob_store, Sync ClearAllData)] db) =
     login_view ''alice'' db"
proof -
  let ?db = "run [(sample_store, Message (UpsertMessages 1 [sample_row ''g'' ''p'' 2 ''hi'']))] empty_db"
  let ?ops = "[(bob_store, Message (UpsertMessages 2 [sample_row ''g'' ''p'' 3 ''yo''])), (bob_store, Sync ClearAllData)]"
  have "reachable ?db" unfolding run_Cons run_Nil by (rule reachable_step [OF reachable_init])
  moreover have "list_all (\<lambda>(s, opn). loginID s \<noteq> ''alice'') ?ops" by code_simp
  ultimately show ?thesis unfolding Let_def by (rule store_runs_invariant [THEN conjunct2, THEN conjunct2])
qed

text \<open>C2. A message deleted one by one stays deleted. After the delete the cache has a row of the message, even
  if the message had not arrived yet, and every row of it, in whatever letter case its GUID is spelled,
  is marked deleted and holds no body. Every later sequence of imports, restores, re-keyings, scrubs,
  rehydrations and repairs, of this and other logins, leaves each of these rows deleted and empty.
  A row of the message that is not can only have come later, from an operation of this login that wrote
  the GUID in a spelling no row had at the delete. The four operations that purge rows of this login
  are excepted.\<close>

theorem deleted_message_stays_deleted:
  assumes "pk_ok db" "list_all (\<lambda>(s', opn). purges opn \<longrightarrow> loginID s' \<noteq> loginID s) ops"
  shows "let gone = exec s (Message (SoftDelete now g p)) db; later = run ops gone
    in (\<exists>r \<in> set (cloud_message gone). guid_match s g r) \<and>
      (\<forall>r \<in> set (cloud_message gone). guid_match s g r \<longrightarrow>
         tombstone r \<and> (\<exists>r' \<in> set (cloud_message later). message_key r' = message_key r \<and> tombstone r')) \<and>
      (\<forall>r \<in> set (cloud_message later). guid_match s g r \<longrightarrow> tombstone r \<or>
         message_key r \<notin> message_key ` set (cloud_message gone) \<and>
         (\<exists>(s', opn) \<in> set ops. loginID s' = loginID s \<and> m_guid r \<in> written_guids opn))"
proof -
  define gone where "gone = exec s (Message (SoftDelete now g p)) db"
  have pk: "pk_ok (run ops gone)" unfolding gone_def by (intro run_pk db_stmt_pk [OF exec_stmt] assms(1))
  have found: "\<exists>r \<in> set (cloud_message gone). guid_match s g r"
    using softDelete_tombstone [of s now g p db] by (auto simp: gone_def)
  have grave: "tombstone r" if "r \<in> set (cloud_message gone)" "guid_match s g r" for r
    using softDelete_all that by (simp add: gone_def)
  have stays: "\<exists>r' \<in> set (cloud_message (run ops gone)). message_key r' = message_key r \<and> tombstone r'"
    if "r \<in> set (cloud_message gone)" "guid_match s g r" for r
    using run_survive [OF assms(2) that(1) grave [OF that]] that(2) by (simp add: guid_match_def)
  have late: "tombstone r \<or> message_key r \<notin> message_key ` set (cloud_message gone) \<and>
      (\<exists>(s', opn) \<in> set ops. loginID s' = loginID s \<and> m_guid r \<in> written_guids opn)"
    if r: "r \<in> set (cloud_message (run ops gone))" "guid_match s g r" for r
  proof (cases "message_key r \<in> message_key ` set (cloud_message gone)")
    case True
    then obtain q where q: "q \<in> set (cloud_message gone)" "message_key q = message_key r" by auto
    with r(2) have "guid_match s g q" by (simp add: guid_match_def message_key_def)
    from stays [OF q(1) this] q(2) same_key_row [OF pk r(1)] show ?thesis by metis
  next
    case False
    have "m_login_id r = loginID s" using r(2) by (simp add: guid_match_def)
    with run_keys [OF _ r(1)] assms(2) False show ?thesis by (auto simp: message_key_def)
  qed
  show ?thesis unfolding Let_def gone_def [symmetric] using found grave stays late by blast
qed

theorem deleted_message_stays_deleted_witness:
  "let later = run [(sample_store, Portal (UndeleteMessages 5 ''p'')), (sample_store, Message (UpsertMessages 6 [sample_row ''g'' ''p'' 2 ''hi'']))]
     (exec sample_store (Message (SoftDelete 3 ''G'' ''p'')) (exec sample_store (Message (UpsertMessages 1 [sample_row ''g'' ''p'' 2 ''hi''])) empty_db))
   in length (cloud_message later) = 1 \<and> (\<forall>r \<in> set (cloud_message later). guid_match sample_store ''G'' r \<longrightarrow> tombstone r)"
proof -
  let ?db = "exec sample_store (Message (UpsertMessages 1 [sample_row ''g'' ''p'' 2 ''hi''])) empty_db"
  let ?gone = "exec sample_store (Message (SoftDelete 3 ''G'' ''p'')) ?db"
  let ?ops = "[(sample_store, Portal (UndeleteMessages 5 ''p'')), (sample_store, Message (UpsertMessages 6 [sample_row ''g'' ''p'' 2 ''hi'']))]"
  have pk: "pk_ok ?db" by (rule db_stmt_pk [OF exec_stmt]) code_simp
  have ops: "list_all (\<lambda>(s', opn). purges opn \<longrightarrow> loginID s' \<noteq> loginID sample_store) ?ops" by code_simp
  have "tombstone r" if "r \<in> set (cloud_message (run ?ops ?gone))" "guid_match sample_store ''G'' r" for r
  proof -
    have "list_all (\<lambda>r. message_key r \<in> set (map message_key (cloud_message ?gone))) (cloud_message (run ?ops ?gone))" by code_simp
    with that(1) have "message_key r \<in> message_key ` set (cloud_message ?gone)" by (simp only: list_all_iff set_map)
    with deleted_message_stays_deleted [OF pk ops, of 3 "''G''" "''p''", unfolded Let_def, THEN conjunct2, THEN conjunct2] that
    show ?thesis by blast
  qed
  moreover have "length (cloud_message (run ?ops ?gone)) = 1" by code_simp
  ultimately show ?thesis unfolding Let_def by blast
qed

end
