(* ===== verification/Text_Parts.thy ===== *)
theory Text_Parts
  imports Prelude
begin

text \<open>
  Splitting long texts (\<^verbatim>\<open>client.go\<close> 12723-12995): the chunks an outbound Matrix text is sent in, and the
  Matrix events an iMessage text becomes, each measured against the size the homeserver accepts. The
  marshaled size of an event content, which depends on the JSON encoder and the framework's event type,
  is the argument \<open>measured\<close>; the remaining fields of a link preview are carried as one value.
\<close>

definition maxTextContentBytes :: int where
  "maxTextContentBytes = 40000"

definition maxOutboundTextBytes :: int where
  "maxOutboundTextBytes = 45000"

definition maxSubjectBytes :: int where
  "maxSubjectBytes = 2048"

definition maxPreviewFieldBytes :: int where
  "maxPreviewFieldBytes = 2048"

section \<open>Cutting at a rune boundary\<close>

text \<open>\<^verbatim>\<open>utf8.RuneStart\<close>, and the loop that moves a cut back to such a byte.\<close>

definition rune_start :: "char \<Rightarrow> bool" where
  "rune_start c \<longleftrightarrow> \<not> (128 \<le> byte c \<and> byte c < 192)"

fun rune_cut :: "string \<Rightarrow> nat \<Rightarrow> nat" where
  "rune_cut s 0 = 0"
| "rune_cut s (Suc n) = (if rune_start (s ! Suc n) then Suc n else rune_cut s n)"

definition truncateBytes :: "string \<Rightarrow> int \<Rightarrow> string" where
  "truncateBytes s mx = (if mx \<le> 0 \<or> int (length s) \<le> mx then s else take (rune_cut s (nat mx)) s)"

text \<open>\<^verbatim>\<open>strings.LastIndexByte\<close>.\<close>

definition last_index_byte :: "string \<Rightarrow> char \<Rightarrow> int" where
  "last_index_byte s c = (if c \<in> set s then int (length s) - 1 - int (length (takeWhile (\<lambda>x. x \<noteq> c) (rev s))) else -1)"

definition firstChunk :: "string \<Rightarrow> int \<Rightarrow> string" where
  "firstChunk body mx =
     (if mx \<le> 0 \<or> int (length body) \<le> mx then body
      else
        let cut = rune_cut body (nat mx);
            nl = last_index_byte (take cut body) (CHR 0x0A);
            sp = last_index_byte (take cut body) (CHR '' '');
            cut' = (if nl > mx * 3 div 4 then nat (nl + 1)
                    else if sp > mx * 3 div 4 then nat (sp + 1) else cut);
            cut'' = (if cut' = 0 then nat mx else cut')
        in take cut'' body)"

lemma firstChunk_prefix: "\<exists>k. firstChunk body mx = take k body"
proof -
  have "body = take (length body) body" by simp
  then show ?thesis unfolding firstChunk_def Let_def by metis
qed

lemma rune_cut_le: "rune_cut s n \<le> n"
  by (induction s n rule: rune_cut.induct) (auto intro: le_SucI)

lemma last_index_byte_bound: "last_index_byte s c < int (length s)" "- 1 \<le> last_index_byte s c"
proof -
  have "length (takeWhile (\<lambda>x. x \<noteq> c) (rev s)) < length s" if "c \<in> set s"
    using that by (metis (mono_tags, lifting) length_rev length_takeWhile_le linorder_le_less_linear
        nat_less_le set_rev takeWhile_eq_all_conv takeWhile_eq_take take_all)
  then show "last_index_byte s c < int (length s)" "- 1 \<le> last_index_byte s c"
    by (auto simp: last_index_byte_def)
qed

text \<open>The cut that \<open>firstChunk\<close> settles on.\<close>

lemma firstChunk_cut:
  assumes "0 < mx" "mx < int (length body)"
  obtains k where "firstChunk body mx = take k body" "0 < k" "k \<le> nat mx" "k < length body"
    "k = rune_cut body (nat mx) \<or> k = nat mx \<and> rune_cut body (nat mx) = 0 \<or>
     (\<exists>c \<in> {CHR 0x0A, CHR '' ''}. k \<le> rune_cut body (nat mx) \<and> int k = last_index_byte (take (rune_cut body (nat mx)) body) c + 1)"
proof -
  let ?cut = "rune_cut body (nat mx)"
  let ?nl = "last_index_byte (take ?cut body) (CHR 0x0A)"
  let ?sp = "last_index_byte (take ?cut body) (CHR '' '')"
  let ?k = "if ?nl > mx * 3 div 4 then nat (?nl + 1) else if ?sp > mx * 3 div 4 then nat (?sp + 1) else ?cut"
  let ?k' = "if ?k = 0 then nat mx else ?k"
  have cut: "?cut \<le> nat mx" by (rule rune_cut_le)
  have pos: "0 \<le> mx * 3 div 4" using assms(1) by simp
  have len: "length (take ?cut body) = ?cut" using cut assms(2) by simp
  have nl: "?nl < int ?cut" and sp: "?sp < int ?cut" using last_index_byte_bound(1) len by metis+
  have k: "?k \<le> ?cut" using nl sp by (simp add: nat_le_iff)
  have "firstChunk body mx = take ?k' body" using assms by (simp add: firstChunk_def Let_def)
  moreover have "0 < ?k'" using assms(1) by simp
  moreover have k': "?k' \<le> nat mx" using k cut by simp
  moreover have "?k' < length body" using k' assms by linarith
  moreover have "?k' = ?cut \<or> ?k' = nat mx \<and> ?cut = 0 \<or>
     (\<exists>c \<in> {CHR 0x0A, CHR '' ''}. ?k' \<le> ?cut \<and> int ?k' = last_index_byte (take ?cut body) c + 1)"
    using nl sp pos by (auto simp: nat_le_iff)
  ultimately show ?thesis by (rule that)
qed

lemma firstChunk_nonempty: "body \<noteq> [] \<Longrightarrow> firstChunk body mx \<noteq> []"
proof (cases "mx \<le> 0 \<or> int (length body) \<le> mx")
  case False
  then have "0 < mx" "mx < int (length body)" by simp_all
  from firstChunk_cut [OF this] show "body \<noteq> [] \<Longrightarrow> ?thesis" by (metis gr_implies_not0 take_eq_Nil)
qed (simp add: firstChunk_def)

function split_chunks :: "string \<Rightarrow> int \<Rightarrow> string list" where
  "split_chunks body mx =
     (if int (length body) > mx \<and> body \<noteq> []
      then let chunk = firstChunk body mx in chunk # split_chunks (drop (length chunk) body) mx
      else if body \<noteq> [] then [body] else [])"
  by auto
termination
proof (relation "measure (\<lambda>(body, mx). length body)", goal_cases)
  case (2 body mx chunk)
  then show ?case using firstChunk_nonempty [of body mx] by simp
qed simp

declare split_chunks.simps [simp del]

definition splitTextChunks :: "string \<Rightarrow> int \<Rightarrow> string list" where
  "splitTextChunks body mx = (if mx \<le> 0 \<or> int (length body) \<le> mx then [body] else split_chunks body mx)"

section \<open>Valid UTF-8\<close>

definition valid_utf8 :: "string \<Rightarrow> bool" where
  "valid_utf8 s \<longleftrightarrow> (\<exists>rs. (\<forall>r \<in> set rs. scalar r) \<and> s = concat (map encode_rune rs))"

lemma encode_rune_cont:
  assumes "scalar r" "0 < i" "i < length (encode_rune r)"
  shows "\<not> rune_start (encode_rune r ! i)"
proof -
  have "128 \<le> encode_bytes r ! i \<and> encode_bytes r ! i < 192"
    using assms(2,3) by (auto simp: length_encode_rune encode_bytes_def nth_Cons split: if_splits nat.splits)
  moreover have "byte (encode_rune r ! i) = encode_bytes r ! i"
    using map_byte_encode [OF assms(1)] assms(3) by (metis nth_map)
  ultimately show ?thesis by (simp add: rune_start_def)
qed

lemma encode_rune_single:
  assumes "scalar r" "i < length (encode_rune r)" "byte (encode_rune r ! i) < 128"
  shows "length (encode_rune r) = 1"
proof -
  have "byte (encode_rune r ! i) = encode_bytes r ! i"
    using map_byte_encode [OF assms(1)] assms(2) by (metis nth_map)
  with assms(2,3) show ?thesis
    by (auto simp: length_encode_rune encode_bytes_def nth_Cons split: if_splits nat.splits)
qed

lemma valid_utf8_Nil [simp]: "valid_utf8 []"
  by (auto simp: valid_utf8_def intro: exI [of _ "[]"])

lemma valid_utf8_encode: "scalar r \<Longrightarrow> valid_utf8 s \<Longrightarrow> valid_utf8 (encode_rune r @ s)"
  unfolding valid_utf8_def by (metis concat.simps(2) list.simps(9) set_ConsD)

lemma valid_utf8_induct [consumes 1, case_names Nil rune]:
  assumes "valid_utf8 s" "P []" "\<And>r s. scalar r \<Longrightarrow> valid_utf8 s \<Longrightarrow> P s \<Longrightarrow> P (encode_rune r @ s)"
  shows "P s"
proof -
  have "\<forall>r \<in> set rs. scalar r \<Longrightarrow> P (concat (map encode_rune rs))" for rs
  proof (induction rs)
    case (Cons r rs)
    moreover have "valid_utf8 (concat (map encode_rune rs))" using Cons.prems by (auto simp: valid_utf8_def)
    ultimately show ?case using assms(3) by simp
  qed (simp add: assms(2))
  with assms(1) show ?thesis by (auto simp: valid_utf8_def)
qed

text \<open>A cut before a start byte, and one behind an ASCII byte, separates runes.\<close>

lemma cut_before_start:
  "valid_utf8 s \<Longrightarrow> i < length s \<Longrightarrow> rune_start (s ! i) \<Longrightarrow> valid_utf8 (take i s) \<and> valid_utf8 (drop i s)"
proof (induction arbitrary: i rule: valid_utf8_induct)
  case (rune r s)
  show ?case
  proof (cases "i < length (encode_rune r)")
    case True
    then have "i = 0" using rune.prems encode_rune_cont [OF rune.hyps(1), of i] by (auto simp: nth_append)
    then show ?thesis using valid_utf8_encode [OF rune.hyps(1,2)] by simp
  next
    case False
    then show ?thesis using rune.IH [of "i - length (encode_rune r)"] rune.prems valid_utf8_encode [OF rune.hyps(1)]
      by (simp add: nth_append)
  qed
qed simp

lemma cut_after_ascii:
  "valid_utf8 s \<Longrightarrow> i < length s \<Longrightarrow> byte (s ! i) < 128 \<Longrightarrow> valid_utf8 (take (Suc i) s) \<and> valid_utf8 (drop (Suc i) s)"
proof (induction arbitrary: i rule: valid_utf8_induct)
  case (rune r s)
  show ?case
  proof (cases "i < length (encode_rune r)")
    case True
    then have "length (encode_rune r) = 1" using rune.prems encode_rune_single [OF rune.hyps(1), of i] by (simp add: nth_append)
    then show ?thesis using True rune.hyps valid_utf8_encode [OF rune.hyps(1) valid_utf8_Nil] by simp
  next
    case False
    then show ?thesis using rune.IH [of "i - length (encode_rune r)"] rune.prems valid_utf8_encode [OF rune.hyps(1)]
      by (simp add: nth_append Suc_diff_le)
  qed
qed simp

lemma rune_cut_start: "rune_cut s n = 0 \<or> rune_start (s ! rune_cut s n)"
  by (induction s n rule: rune_cut.induct) auto

text \<open>A rune has at most three continuation bytes, so the cut moves back at most three bytes.\<close>

lemma encode_rune_first:
  assumes "scalar r"
  shows "rune_start (encode_rune r ! 0)"
proof -
  have "\<not> (128 \<le> encode_bytes r ! 0 \<and> encode_bytes r ! 0 < 192)"
    by (auto simp: encode_bytes_def)
  moreover have "byte (encode_rune r ! 0) = encode_bytes r ! 0"
    using map_byte_encode [OF assms] by (metis encode_rune_nonempty length_greater_0_conv nth_map)
  ultimately show ?thesis by (simp add: rune_start_def)
qed

lemma three_back: "valid_utf8 s \<Longrightarrow> i < length s \<Longrightarrow> \<exists>j \<le> i. i \<le> j + 3 \<and> rune_start (s ! j)"
proof (induction arbitrary: i rule: valid_utf8_induct)
  case (rune r s)
  show ?case
  proof (cases "i < length (encode_rune r)")
    case True
    then have "i \<le> 3" using length_encode_bytes(2) [of r] by (simp add: length_encode_rune)
    then show ?thesis
      using encode_rune_first [OF rune.hyps(1)] by (intro exI [of _ 0]) (simp add: nth_append)
  next
    case False
    then have "i - length (encode_rune r) < length s" using rune.prems by auto
    from rune.IH [OF this] obtain j
      where "j \<le> i - length (encode_rune r)" "i - length (encode_rune r) \<le> j + 3" "rune_start (s ! j)" by auto
    with False show ?thesis by (intro exI [of _ "j + length (encode_rune r)"]) (simp add: nth_append, arith)
  qed
qed simp

lemma rune_cut_above: "j \<le> n \<Longrightarrow> rune_start (s ! j) \<Longrightarrow> j \<le> rune_cut s n"
  by (induction s n rule: rune_cut.induct) (auto simp: le_Suc_eq)

lemma rune_cut_near: "valid_utf8 s \<Longrightarrow> n < length s \<Longrightarrow> n \<le> rune_cut s n + 3"
  using three_back [of s n] rune_cut_above by (meson add_le_mono1 le_trans)

lemma rune_cut_valid: "valid_utf8 s \<Longrightarrow> n < length s \<Longrightarrow> valid_utf8 (take (rune_cut s n) s) \<and> valid_utf8 (drop (rune_cut s n) s)"
  using rune_cut_start [of s n] cut_before_start [of s "rune_cut s n"] rune_cut_le [of s n]
  by (metis drop0 le_less_trans take0 valid_utf8_Nil)

lemma last_index_byte_char:
  assumes "0 \<le> last_index_byte s c"
  shows "s ! nat (last_index_byte s c) = c"
proof -
  let ?t = "takeWhile (\<lambda>x. x \<noteq> c) (rev s)"
  have c: "c \<in> set s" using assms by (auto simp: last_index_byte_def split: if_splits)
  have len: "length ?t < length s"
    using last_index_byte_bound(2) [of s c] c assms by (simp add: last_index_byte_def)
  have "rev s ! length ?t = c" using nth_length_takeWhile [of "\<lambda>x. x \<noteq> c" "rev s"] len by simp
  moreover have "nat (last_index_byte s c) = length s - Suc (length ?t)"
    using c len by (simp add: last_index_byte_def nat_diff_distrib)
  ultimately show ?thesis using len by (simp add: rev_nth)
qed

lemma firstChunk_valid:
  assumes "valid_utf8 body" "4 \<le> mx"
  shows "valid_utf8 (firstChunk body mx) \<and> valid_utf8 (drop (length (firstChunk body mx)) body)"
proof (cases "int (length body) \<le> mx")
  case True
  with assms show ?thesis by (simp add: firstChunk_def)
next
  case False
  let ?cut = "rune_cut body (nat mx)"
  have lt: "nat mx < length body" using False assms(2) by linarith
  have "nat mx \<le> ?cut + 3" by (rule rune_cut_near [OF assms(1) lt])
  then have pos: "0 < ?cut" using assms(2) by linarith
  have cl: "?cut \<le> nat mx" by (rule rune_cut_le)
  have "0 < mx" "mx < int (length body)" using False assms(2) by linarith+
  then obtain k where k: "firstChunk body mx = take k body" "0 < k" "k < length body"
    "k = ?cut \<or> k = nat mx \<and> ?cut = 0 \<or>
     (\<exists>c \<in> {CHR 0x0A, CHR '' ''}. k \<le> ?cut \<and> int k = last_index_byte (take ?cut body) c + 1)"
    by (rule firstChunk_cut)
  have "valid_utf8 (take k body) \<and> valid_utf8 (drop k body)"
  proof (cases "k = ?cut")
    case True
    then show ?thesis using rune_cut_valid [OF assms(1) lt] by simp
  next
    case False
    with k(4) pos obtain c where c: "c \<in> {CHR 0x0A, CHR '' ''}" "k \<le> ?cut" "int k = last_index_byte (take ?cut body) c + 1"
      by auto
    then have "nat (last_index_byte (take ?cut body) c) = k - 1" "0 \<le> last_index_byte (take ?cut body) c"
      using k(2) by linarith+
    with last_index_byte_char [of "take ?cut body" c] have "take ?cut body ! (k - 1) = c" by simp
    then have "body ! (k - 1) = c" using c(2) k(2) by simp
    with c(1) have "byte (body ! (k - 1)) < 128" by (auto simp: byte_def)
    with cut_after_ascii [OF assms(1), of "k - 1"] k(2,3) show ?thesis by simp
  qed
  then show ?thesis using k(1,3) by simp
qed

lemma firstChunk_length:
  assumes "0 < mx"
  shows "int (length (firstChunk body mx)) \<le> mx"
proof (cases "int (length body) \<le> mx")
  case False
  with assms have "mx < int (length body)" by simp
  from firstChunk_cut [OF assms this] obtain k where "firstChunk body mx = take k body" "k \<le> nat mx" .
  then show ?thesis using assms by simp
qed (use assms in \<open>simp add: firstChunk_def\<close>)

lemma firstChunk_append: "firstChunk body mx @ drop (length (firstChunk body mx)) body = body"
proof -
  obtain k where k: "firstChunk body mx = take k body" using firstChunk_prefix by blast
  show ?thesis unfolding k by (cases "k \<le> length body") simp_all
qed

lemma concat_split_chunks: "concat (split_chunks body mx) = body"
proof (induction body mx rule: split_chunks.induct)
  case (1 body mx)
  then show ?case using firstChunk_append [of body mx] by (subst split_chunks.simps) (simp add: Let_def)
qed

lemma split_chunks_each:
  assumes "c \<in> set (split_chunks body mx)" "0 < mx"
  shows "c \<noteq> [] \<and> int (length c) \<le> mx \<and> (valid_utf8 body \<longrightarrow> 4 \<le> mx \<longrightarrow> valid_utf8 c)"
  using assms
proof (induction body mx rule: split_chunks.induct)
  case (1 body mx)
  show ?case
  proof (cases "int (length body) > mx \<and> body \<noteq> []")
    case True
    let ?k = "firstChunk body mx"
    from True 1(2) consider "c = ?k" | "c \<in> set (split_chunks (drop (length ?k) body) mx)"
      by (subst (asm) split_chunks.simps) (auto simp: Let_def)
    then show ?thesis
    proof cases
      case 1
      then show ?thesis
        using True firstChunk_nonempty firstChunk_length [OF \<open>0 < mx\<close>] firstChunk_valid by auto
    next
      case 2
      then show ?thesis using 1(1) [OF True refl 2 \<open>0 < mx\<close>] firstChunk_valid by blast
    qed
  next
    case False
    with 1(2) have "c = body" "body \<noteq> []"
      by (subst (asm) split_chunks.simps, auto split: if_splits)+
    with False show ?thesis by auto
  qed
qed

section \<open>The content of a part\<close>

text \<open>
  The free-text fields of a link preview; \<open>pv_rest\<close> stands for the fields this code leaves alone
  (image dimensions, encryption info).
\<close>

record link_preview =
  Title :: string
  Description :: string
  SiteName :: string
  PvType :: string
  ImageType :: string
  CanonicalURL :: string
  MatchedURL :: string
  ImageBlurhash :: string
  ImageURL :: string
  pv_rest :: string

record text_content =
  MsgType :: string
  Body :: string
  Format :: string
  FormattedBody :: string
  BeeperLinkPreviews :: "link_preview slice"

definition bound_preview :: "link_preview \<Rightarrow> link_preview" where
  "bound_preview p =
     p\<lparr>Title := truncateBytes (Title p) maxPreviewFieldBytes,
       Description := truncateBytes (Description p) maxPreviewFieldBytes,
       SiteName := truncateBytes (SiteName p) maxPreviewFieldBytes,
       PvType := truncateBytes (PvType p) maxPreviewFieldBytes,
       ImageType := truncateBytes (ImageType p) maxPreviewFieldBytes,
       CanonicalURL := truncateBytes (CanonicalURL p) maxPreviewFieldBytes,
       MatchedURL := truncateBytes (MatchedURL p) maxPreviewFieldBytes,
       ImageBlurhash := truncateBytes (ImageBlurhash p) maxPreviewFieldBytes,
       ImageURL := truncateBytes (ImageURL p) maxPreviewFieldBytes\<rparr>"

text \<open>A nil pointer in the list is \<open>None\<close>.\<close>

definition boundPreviews :: "link_preview option list \<Rightarrow> link_preview slice" where
  "boundPreviews ps = (if ps = [] then None else Some (map bound_preview (non_null ps)))"

text \<open>\<^verbatim>\<open>html.EscapeString\<close>.\<close>

definition escape_char :: "char \<Rightarrow> string" where
  "escape_char c =
     (if c = CHR ''&'' then ''&amp;'' else if c = CHR 0x27 then ''&#39;''
      else if c = CHR ''<'' then ''&lt;'' else if c = CHR ''>'' then ''&gt;''
      else if c = CHR 0x22 then ''&#34;'' else [c])"

definition html_escape :: "string \<Rightarrow> string" where
  "html_escape s = concat (map escape_char s)"

definition FormatHTML :: string where
  "FormatHTML = ''org.matrix.custom.html''"

definition buildTextContent :: "string \<Rightarrow> string \<Rightarrow> string \<Rightarrow> link_preview slice \<Rightarrow> bool \<Rightarrow> text_content" where
  "buildTextContent msgType subject chunk previews first =
     (let content = \<lparr>MsgType = msgType, Body = chunk, Format = [], FormattedBody = [], BeeperLinkPreviews = None\<rparr>
      in if \<not> first then content
         else
           let content' =
             (if subject \<noteq> [] then
                if chunk \<noteq> [] then
                  content\<lparr>Body := ''**'' @ subject @ ''**'' @ [CHR 0x0A] @ chunk, Format := FormatHTML,
                    FormattedBody := ''<strong>'' @ html_escape subject @ ''</strong><br/>'' @ html_escape chunk\<rparr>
                else content\<lparr>Body := subject\<rparr>
              else content)
           in content'\<lparr>BeeperLinkPreviews := previews\<rparr>)"

definition editProbeEventID :: string where
  "editProbeEventID = CHR ''$'' # replicate 43 (CHR ''A'')"

text \<open>
  \<open>marshal target content\<close> is the length of \<^verbatim>\<open>json.Marshal\<close> on the content, after \<^verbatim>\<open>SetEdit(target)\<close>
  when there is a target, or \<open>None\<close> on an encoding error.
\<close>

type_synonym marshaler = "string option \<Rightarrow> text_content \<Rightarrow> int option"

definition measuredSize :: "marshaler \<Rightarrow> text_content \<Rightarrow> bool \<Rightarrow> int" where
  "measuredSize marshal content forEdit =
     (case marshal (if forEdit then Some editProbeEventID else None) content of
        None \<Rightarrow> maxTextContentBytes + 1
      | Some n \<Rightarrow> n)"

definition shedOverhead :: "text_content \<Rightarrow> nat \<Rightarrow> text_content" where
  "shedOverhead content level =
     (let content' = (if 1 \<le> level then content\<lparr>Format := [], FormattedBody := []\<rparr> else content)
      in if 2 \<le> level then content'\<lparr>BeeperLinkPreviews := None\<rparr> else content')"

definition maxShedLevel :: nat where
  "maxShedLevel = 2"

section \<open>Fitting and building the parts\<close>

definition part_content :: "string \<Rightarrow> string \<Rightarrow> string \<Rightarrow> link_preview slice \<Rightarrow> bool \<Rightarrow> nat \<Rightarrow> text_content" where
  "part_content msgType subject chunk previews first level =
     shedOverhead (buildTextContent msgType subject chunk previews first) level"

text \<open>The next limit of the shrink loop.\<close>

definition next_limit :: "int \<Rightarrow> int \<Rightarrow> int" where
  "next_limit limit sz =
     (let next = limit * maxTextContentBytes div sz * 98 div 100 in if next \<ge> limit then limit div 2 else next)"

lemma next_limit_smaller:
  assumes "0 < limit" "maxTextContentBytes < sz"
  shows "next_limit limit sz < limit" "0 \<le> next_limit limit sz"
proof -
  have "0 \<le> limit * maxTextContentBytes div sz" using assms
    by (intro pos_imp_zdiv_nonneg_iff [THEN iffD2]) (simp_all add: maxTextContentBytes_def)
  then show "next_limit limit sz < limit" "0 \<le> next_limit limit sz"
    using assms by (auto simp: next_limit_def Let_def)
qed

text \<open>The inner loop of \<^verbatim>\<open>fitPart\<close>: \<open>None\<close> is the \<^verbatim>\<open>break\<close> that sheds one more level.\<close>

function fit_level :: "(text_content \<Rightarrow> int) \<Rightarrow> string \<Rightarrow> string \<Rightarrow> string \<Rightarrow> link_preview slice \<Rightarrow> bool \<Rightarrow> nat \<Rightarrow> int
    \<Rightarrow> (string \<times> text_content) option" where
  "fit_level sizeOf msgType subject body previews first level limit =
     (let chunk = firstChunk body limit;
          content = part_content msgType subject chunk previews first level;
          sz = sizeOf content
      in if sz \<le> maxTextContentBytes then Some (chunk, content)
         else if limit \<le> 512 then if level \<ge> maxShedLevel then Some (chunk, content) else None
         else fit_level sizeOf msgType subject body previews first level (next_limit limit sz))"
  by auto
termination
proof (relation "measure (\<lambda>(_, _, _, _, _, _, _, limit). nat limit)", goal_cases)
  case (2 sizeOf msgType subject body previews first level limit chunk content sz)
  then show ?case using next_limit_smaller [of limit sz] by simp
qed simp

declare fit_level.simps [simp del]

lemma fit_level_None: "fit_level sizeOf msgType subject body previews first level limit = None \<Longrightarrow> level < maxShedLevel"
proof (induction sizeOf msgType subject body previews first level limit rule: fit_level.induct)
  case (1 sizeOf msgType subject body previews first level limit)
  from 1(2) show ?case
    by (subst (asm) fit_level.simps) (auto simp: Let_def split: if_splits dest: 1(1) [OF refl refl refl])
qed

lemma fit_level_Some:
  "fit_level sizeOf msgType subject body previews first level limit = Some (chunk, content) \<Longrightarrow>
    \<exists>lim. chunk = firstChunk body lim \<and> content = part_content msgType subject chunk previews first level"
proof (induction sizeOf msgType subject body previews first level limit rule: fit_level.induct)
  case (1 sizeOf msgType subject body previews first level limit)
  from 1(2) show ?case
    by (subst (asm) fit_level.simps) (auto simp: Let_def split: if_splits dest: 1(1) [OF refl refl refl])
qed

function fit_from :: "(text_content \<Rightarrow> int) \<Rightarrow> string \<Rightarrow> string \<Rightarrow> string \<Rightarrow> link_preview slice \<Rightarrow> bool \<Rightarrow> nat
    \<Rightarrow> string \<times> text_content" where
  "fit_from sizeOf msgType subject body previews first level =
     (case fit_level sizeOf msgType subject body previews first level maxTextContentBytes of
        Some r \<Rightarrow> r
      | None \<Rightarrow> fit_from sizeOf msgType subject body previews first (Suc level))"
  by auto
termination
proof (relation "measure (\<lambda>(_, _, _, _, _, _, level). maxShedLevel - level)", goal_cases)
  case (2 sizeOf msgType subject body previews first level)
  then show ?case using fit_level_None [OF 2] by simp
qed simp

declare fit_from.simps [simp del]

definition fitPart :: "marshaler \<Rightarrow> string \<Rightarrow> string \<Rightarrow> string \<Rightarrow> link_preview slice \<Rightarrow> bool \<Rightarrow> bool \<Rightarrow> string \<times> text_content" where
  "fitPart marshal msgType subject body previews first forEdit =
     fit_from (\<lambda>content. measuredSize marshal content forEdit) msgType subject body previews first 0"

lemma fit_from_chunk:
  "fit_from sizeOf msgType subject body previews first level = (chunk, content) \<Longrightarrow>
    \<exists>lim lev. chunk = firstChunk body lim \<and> content = part_content msgType subject chunk previews first lev"
proof (induction sizeOf msgType subject body previews first level rule: fit_from.induct)
  case (1 sizeOf msgType subject body previews first level)
  from 1(2) show ?case
    by (subst (asm) fit_from.simps) (auto split: option.splits dest: 1(1) fit_level_Some)
qed

lemma fitPart_chunk:
  "fitPart marshal msgType subject body previews first forEdit = (chunk, content) \<Longrightarrow>
    \<exists>lim lev. chunk = firstChunk body lim \<and> content = part_content msgType subject chunk previews first lev"
  unfolding fitPart_def by (rule fit_from_chunk)

lemma fitPart_nonempty: "body \<noteq> [] \<Longrightarrow> fst (fitPart marshal msgType subject body previews first forEdit) \<noteq> []"
  using fitPart_chunk firstChunk_nonempty by (metis prod.collapse)

text \<open>\<^verbatim>\<open>fmt.Sprintf("text%03d", n)\<close>.\<close>

definition text_part_id :: "nat \<Rightarrow> string" where
  "text_part_id n = ''text'' @ replicate (3 - length (nat_digits n)) (CHR ''0'') @ nat_digits n"

record text_part =
  part_id :: string
  part_body :: text_content

function text_parts_from :: "marshaler \<Rightarrow> string \<Rightarrow> string \<Rightarrow> string \<Rightarrow> link_preview slice \<Rightarrow> bool \<Rightarrow> bool \<Rightarrow> nat \<Rightarrow> text_part list" where
  "text_parts_from marshal msgType subject body previews forEdit first n =
     (let (chunk, content) = fitPart marshal msgType subject body previews first forEdit;
          part = \<lparr>part_id = (if first then [] else text_part_id n), part_body = content\<rparr>;
          rest = drop (length chunk) body
      in if rest = [] then [part]
         else part # text_parts_from marshal msgType subject rest previews forEdit False (Suc n))"
  by auto
termination
proof (relation "measure (\<lambda>(_, _, _, body, _, _, _, _). length body)", goal_cases)
  case (2 marshal msgType subject body previews forEdit first n r chunk content part rest)
  then have "body \<noteq> []" "chunk = fst (fitPart marshal msgType subject body previews first forEdit)"
    by (auto dest: arg_cong [of _ _ fst])
  with 2 show ?case using fitPart_nonempty [of body marshal msgType subject previews first forEdit] by simp
qed simp

declare text_parts_from.simps [simp del]

definition buildTextParts :: "marshaler \<Rightarrow> string \<Rightarrow> string \<Rightarrow> string \<Rightarrow> link_preview option list \<Rightarrow> bool \<Rightarrow> text_part list" where
  "buildTextParts marshal msgType subject body previews forEdit =
     text_parts_from marshal msgType (truncateBytes subject maxSubjectBytes) body (boundPreviews previews) forEdit True 0"

text \<open>\<^verbatim>\<open>strconv.Atoi\<close> on a 64-bit platform, and \<^verbatim>\<open>math.MaxInt\<close>.\<close>

definition atoi :: "string \<Rightarrow> int option" where
  "atoi s =
     (let neg = has_prefix s ''-'';
          ds = (if neg \<or> has_prefix s ''+'' then drop 1 s else s);
          v = (if neg then - int (digits_value ds) else int (digits_value ds))
      in if ds = [] \<or> \<not> list_all is_dec ds \<or> \<not> int64_ok v then None else Some v)"

definition max_int :: int where
  "max_int = 2 ^ 63 - 1"

definition textPartIndex :: "string \<Rightarrow> int" where
  "textPartIndex pid =
     (if pid = [] then 0
      else case atoi (trim_prefix pid ''text'') of
        None \<Rightarrow> max_int
      | Some n \<Rightarrow> if n < 0 then max_int else n)"

definition isTextPartID :: "string \<Rightarrow> bool" where
  "isTextPartID pid \<longleftrightarrow> pid = [] \<or> has_prefix pid ''text''"

section \<open>What the parts hold\<close>

lemma digits_value_zeros: "digits_value (replicate k (CHR ''0'') @ ds) = digits_value ds"
proof -
  have "foldl (\<lambda>n c. 10 * n + (byte c - 48)) 0 (replicate k (CHR ''0'')) = 0"
    by (induction k) (simp_all add: byte_def)
  then show ?thesis by (simp add: digits_value_def)
qed

lemma atoi_padded:
  assumes "int64_ok (int n)"
  shows "atoi (replicate k (CHR ''0'') @ nat_digits n) = Some (int n)"
proof -
  let ?s = "replicate k (CHR ''0'') @ nat_digits n"
  have dec: "list_all is_dec ?s" using nat_digits_dec [of n]
    by (auto simp: list_all_iff is_dec_def byte_def)
  obtain c cs where c: "?s = c # cs" by (meson append_is_Nil_conv list.exhaust nat_digits_not_Nil)
  with dec have "is_dec c" by simp
  then have "\<not> has_prefix ?s ''-''" "\<not> has_prefix ?s ''+''" using is_dec_plain unfolding c by auto
  with dec show ?thesis using assms by (simp add: atoi_def Let_def digits_value_zeros)
qed

lemma textPartIndex_id: "int64_ok (int n) \<Longrightarrow> textPartIndex (text_part_id n) = int n"
  using trim_prefix_append [of "''text''"] by (simp add: textPartIndex_def text_part_id_def atoi_padded)

lemma text_part_id_text [simp]: "isTextPartID (text_part_id n)"
  using has_prefix_append [of "''text''"] by (simp add: isTextPartID_def text_part_id_def)

text \<open>The parts after the first carry their chunk and nothing else.\<close>

definition plain_content :: "string \<Rightarrow> string \<Rightarrow> text_content" where
  "plain_content msgType chunk =
     \<lparr>MsgType = msgType, Body = chunk, Format = [], FormattedBody = [], BeeperLinkPreviews = None\<rparr>"

lemma part_content_later [simp]: "part_content msgType subject chunk previews False level = plain_content msgType chunk"
  by (simp add: part_content_def shedOverhead_def buildTextContent_def plain_content_def Let_def)

lemma fitPart_split:
  assumes "fitPart marshal msgType subject body previews first forEdit = (chunk, content)"
  shows "chunk @ drop (length chunk) body = body"
  using fitPart_chunk [OF assms] firstChunk_append by auto

lemma text_parts_later:
  "concat (map (\<lambda>p. Body (part_body p)) (text_parts_from marshal msgType subject body previews forEdit False n)) = body \<and>
   map part_id (text_parts_from marshal msgType subject body previews forEdit False n) =
     map text_part_id [n..<n + length (text_parts_from marshal msgType subject body previews forEdit False n)] \<and>
   list_all (\<lambda>p. part_body p = plain_content msgType (Body (part_body p)))
     (text_parts_from marshal msgType subject body previews forEdit False n)"
proof (induction "length body" arbitrary: body n rule: less_induct)
  case less
  obtain chunk content where f: "fitPart marshal msgType subject body previews False forEdit = (chunk, content)" by fastforce
  have content: "content = plain_content msgType chunk" using fitPart_chunk [OF f] by auto
  have split: "chunk @ drop (length chunk) body = body" by (rule fitPart_split [OF f])
  let ?rest = "drop (length chunk) body"
  show ?case
  proof (cases "?rest = []")
    case True
    then have "text_parts_from marshal msgType subject body previews forEdit False n =
        [\<lparr>part_id = text_part_id n, part_body = content\<rparr>]"
      by (simp add: text_parts_from.simps [of _ _ _ body] f)
    then show ?thesis using True split by (simp add: content plain_content_def)
  next
    case False
    then have "body \<noteq> []" by auto
    then have "chunk \<noteq> []" using fitPart_nonempty [of body marshal msgType subject previews False forEdit] f by simp
    then have "length ?rest < length body" using \<open>body \<noteq> []\<close> by simp
    note IH = less [OF this, of "Suc n"]
    have "text_parts_from marshal msgType subject body previews forEdit False n =
        \<lparr>part_id = text_part_id n, part_body = content\<rparr> #
          text_parts_from marshal msgType subject ?rest previews forEdit False (Suc n)"
      using False by (simp add: text_parts_from.simps [of _ _ _ body] f)
    moreover have "[n..<Suc (n + m)] = n # [Suc n..<Suc (n + m)]" for m by (simp add: upt_conv_Cons del: upt_Suc)
    ultimately show ?thesis using IH split by (simp add: content plain_content_def del: upt_Suc)
  qed
qed

lemma text_parts_nonempty [simp]: "text_parts_from marshal msgType subject body previews forEdit first n \<noteq> []"
  by (subst text_parts_from.simps) (simp add: split_beta Let_def)

text \<open>The first part, and what follows it.\<close>

lemma text_parts_first:
  assumes "fitPart marshal msgType subject body previews True forEdit = (chunk, content)"
  shows "text_parts_from marshal msgType subject body previews forEdit True 0 =
    \<lparr>part_id = [], part_body = content\<rparr> #
      (if drop (length chunk) body = [] then []
       else text_parts_from marshal msgType subject (drop (length chunk) body) previews forEdit False (Suc 0))"
  by (simp add: text_parts_from.simps [of _ _ _ body] assms)

section \<open>The size budget\<close>

lemma length_html_escape: "length (html_escape s) \<le> 5 * length s"
proof (induction s)
  case (Cons c s)
  have "length (escape_char c) \<le> 5" by (simp add: escape_char_def)
  with Cons show ?case by (simp add: html_escape_def)
qed (simp add: html_escape_def)

lemma truncateBytes_length: "0 < mx \<Longrightarrow> int (length (truncateBytes s mx)) \<le> mx"
  using rune_cut_le [of s "nat mx"] by (auto simp: truncateBytes_def min_def)

lemma part_content_lengths:
  "length (Body (part_content msgType subject chunk previews first level)) \<le> length subject + length chunk + 5"
  "length (FormattedBody (part_content msgType subject chunk previews first level)) \<le> 5 * (length subject + length chunk) + 22"
  using length_html_escape [of subject] length_html_escape [of chunk]
  by (simp_all add: part_content_def shedOverhead_def buildTextContent_def Let_def)

lemma part_content_shed:
  "2 \<le> level \<Longrightarrow> FormattedBody (part_content msgType subject chunk previews first level) = [] \<and>
    BeeperLinkPreviews (part_content msgType subject chunk previews first level) = None"
  by (simp add: part_content_def shedOverhead_def)

lemma part_content_fields:
  "MsgType (part_content msgType subject chunk previews first level) = msgType \<and>
    Format (part_content msgType subject chunk previews first level) \<in> {[], FormatHTML} \<and>
    BeeperLinkPreviews (part_content msgType subject chunk previews first level) \<in> {None, previews}"
  by (simp add: part_content_def shedOverhead_def buildTextContent_def Let_def)

lemma next_limit_positive:
  assumes "512 < limit" "maxTextContentBytes < sz" "sz \<le> 10000000"
  shows "0 < next_limit limit sz"
proof -
  have "2 * sz \<le> limit * maxTextContentBytes" using assms by (simp add: maxTextContentBytes_def)
  then have "2 \<le> limit * maxTextContentBytes div sz"
    using assms(2) zdiv_mono1 [of "2 * sz" "limit * maxTextContentBytes" sz] by (simp add: maxTextContentBytes_def)
  then have "1 \<le> limit * maxTextContentBytes div sz * 98 div 100" by linarith
  moreover have "0 < limit div 2" using assms(1) by linarith
  ultimately show ?thesis by (simp add: next_limit_def Let_def)
qed

lemma fit_level_budget:
  assumes "fit_level sizeOf msgType subject body previews first level limit = Some (chunk, content)"
    and "0 < limit" "limit \<le> maxTextContentBytes"
    and "\<And>c. int (length c) \<le> maxTextContentBytes \<Longrightarrow> sizeOf (part_content msgType subject c previews first level) \<le> 10000000"
    and "\<And>c. length c \<le> 512 \<Longrightarrow> 2 \<le> level \<Longrightarrow> sizeOf (part_content msgType subject c previews first level) \<le> maxTextContentBytes"
  shows "sizeOf content \<le> maxTextContentBytes"
  using assms
proof (induction sizeOf msgType subject body previews first level limit rule: fit_level.induct)
  case (1 sizeOf msgType subject body previews first level limit)
  let ?chunk = "firstChunk body limit"
  let ?content = "part_content msgType subject ?chunk previews first level"
  have len: "int (length ?chunk) \<le> limit" by (rule firstChunk_length [OF 1(3)])
  have big: "sizeOf ?content \<le> 10000000" using len 1(4) by (intro 1(5)) simp
  show ?case
  proof (cases "sizeOf ?content \<le> maxTextContentBytes")
    case True
    then have "content = ?content" using 1(2) by (subst (asm) fit_level.simps) (auto simp: Let_def)
    then show ?thesis using True by simp
  next
    case False
    show ?thesis
    proof (cases "limit \<le> 512")
      case True
      with False 1(2) have "2 \<le> level" "content = ?content"
        by (subst (asm) fit_level.simps, simp add: Let_def maxShedLevel_def split: if_splits)+
      then show ?thesis using 1(6) [of ?chunk] len True by simp
    next
      case small: False
      have "fit_level sizeOf msgType subject body previews first level (next_limit limit (sizeOf ?content)) = Some (chunk, content)"
        using False small 1(2) by (subst (asm) fit_level.simps) (simp add: Let_def)
      moreover have "next_limit limit (sizeOf ?content) \<le> maxTextContentBytes"
        using next_limit_smaller(1) [of limit "sizeOf ?content"] False 1(3,4) by simp
      moreover have "0 < next_limit limit (sizeOf ?content)"
        using small False big by (intro next_limit_positive) simp_all
      ultimately show ?thesis
        using 1(1) [OF refl refl refl False small _ _ _ 1(5) 1(6)] by simp
    qed
  qed
qed

lemma fit_from_budget:
  assumes "\<And>c lev. int (length c) \<le> maxTextContentBytes \<Longrightarrow> sizeOf (part_content msgType subject c previews first lev) \<le> 10000000"
    and "\<And>c lev. length c \<le> 512 \<Longrightarrow> 2 \<le> lev \<Longrightarrow> sizeOf (part_content msgType subject c previews first lev) \<le> maxTextContentBytes"
  shows "sizeOf (snd (fit_from sizeOf msgType subject body previews first level)) \<le> maxTextContentBytes"
  using assms
proof (induction sizeOf msgType subject body previews first level rule: fit_from.induct)
  case (1 sizeOf msgType subject body previews first level)
  show ?case
  proof (cases "fit_level sizeOf msgType subject body previews first level maxTextContentBytes")
    case None
    then show ?thesis using 1(1) [OF None 1(2) 1(3)] by (subst fit_from.simps) simp
  next
    case (Some r)
    then have "fit_level sizeOf msgType subject body previews first level maxTextContentBytes = Some (fst r, snd r)" by simp
    then have "sizeOf (snd r) \<le> maxTextContentBytes"
      by (rule fit_level_budget) (use 1(2,3) in \<open>simp_all add: maxTextContentBytes_def\<close>)
    then show ?thesis using Some by (subst fit_from.simps) simp
  qed
qed

text \<open>
  What the budget rests on: the encoder spends at most twelve bytes on a byte of body or formatted
  body (six for the worst escape, twice for an edit) and a fixed amount on the rest, which for bounded
  previews stays below six megabytes.
\<close>

definition encoder_bounded :: "marshaler \<Rightarrow> string \<Rightarrow> link_preview slice \<Rightarrow> bool" where
  "encoder_bounded marshal msgType previews \<longleftrightarrow>
     (\<forall>target c. MsgType c = msgType \<longrightarrow> Format c \<in> {[], FormatHTML} \<longrightarrow>
       (\<exists>n. marshal target c = Some n \<and>
         (BeeperLinkPreviews c = None \<longrightarrow> n \<le> 12 * int (length (Body c) + length (FormattedBody c)) + 4000) \<and>
         (BeeperLinkPreviews c = previews \<longrightarrow> n \<le> 12 * int (length (Body c) + length (FormattedBody c)) + 6000000)))"

lemma measured_bounds:
  assumes "encoder_bounded marshal msgType previews" "length subject \<le> 2048"
  shows "int (length c) \<le> maxTextContentBytes \<Longrightarrow>
      measuredSize marshal (part_content msgType subject c previews first lev) forEdit \<le> 10000000"
    and "length c \<le> 512 \<Longrightarrow> 2 \<le> lev \<Longrightarrow>
      measuredSize marshal (part_content msgType subject c previews first lev) forEdit \<le> maxTextContentBytes"
proof -
  let ?p = "part_content msgType subject c previews first lev"
  let ?t = "if forEdit then Some editProbeEventID else None"
  let ?l = "12 * int (length (Body ?p) + length (FormattedBody ?p))"
  have "MsgType ?p = msgType" "Format ?p \<in> {[], FormatHTML}"
    using part_content_fields [of msgType subject c previews first lev] by simp_all
  with assms(1) obtain k where k: "marshal ?t ?p = Some k" "BeeperLinkPreviews ?p = None \<longrightarrow> k \<le> ?l + 4000"
    "BeeperLinkPreviews ?p = previews \<longrightarrow> k \<le> ?l + 6000000"
    unfolding encoder_bounded_def by blast
  have n: "measuredSize marshal ?p forEdit = k" by (simp only: measuredSize_def k(1) option.case)
  have pv: "BeeperLinkPreviews ?p = None \<or> BeeperLinkPreviews ?p = previews"
    using part_content_fields [of msgType subject c previews first lev] by auto
  note lens = part_content_lengths [of msgType subject c previews first lev]
  show "measuredSize marshal ?p forEdit \<le> 10000000" if "int (length c) \<le> maxTextContentBytes"
    using pv k(2,3) lens that assms(2) unfolding n by (auto simp: maxTextContentBytes_def)
  show "measuredSize marshal ?p forEdit \<le> maxTextContentBytes" if "length c \<le> 512" "2 \<le> lev"
    using part_content_shed [OF that(2), of msgType subject c previews first] k(2) lens(1) that(1) assms(2)
    unfolding n by (auto simp: maxTextContentBytes_def)
qed

lemma text_parts_budget:
  assumes "encoder_bounded marshal msgType previews" "length subject \<le> 2048"
  shows "list_all (\<lambda>p. measuredSize marshal (part_body p) forEdit \<le> maxTextContentBytes)
    (text_parts_from marshal msgType subject body previews forEdit first n)"
proof (induction "length body" arbitrary: body first n rule: less_induct)
  case less
  obtain chunk content where f: "fitPart marshal msgType subject body previews first forEdit = (chunk, content)" by fastforce
  have "measuredSize marshal (snd (fitPart marshal msgType subject body previews first forEdit)) forEdit \<le> maxTextContentBytes"
    unfolding fitPart_def using measured_bounds [OF assms] by (rule fit_from_budget)
  then have ok: "measuredSize marshal content forEdit \<le> maxTextContentBytes" by (simp add: f)
  show ?case
  proof (cases "drop (length chunk) body = []")
    case True
    then show ?thesis using ok by (simp add: text_parts_from.simps [of _ _ _ body] f)
  next
    case False
    then have "body \<noteq> []" by auto
    then have "chunk \<noteq> []" using fitPart_nonempty [of body marshal msgType subject previews first forEdit] f by simp
    then have "length (drop (length chunk) body) < length body" using \<open>body \<noteq> []\<close> by simp
    from less [OF this] show ?thesis using ok False by (simp add: text_parts_from.simps [of _ _ _ body] f)
  qed
qed

lemma fitPart_whole:
  assumes "int (length body) \<le> maxTextContentBytes"
    and "measuredSize marshal (buildTextContent msgType subject body previews first) forEdit \<le> maxTextContentBytes"
  shows "fitPart marshal msgType subject body previews first forEdit = (body, buildTextContent msgType subject body previews first)"
proof -
  have "firstChunk body maxTextContentBytes = body" using assms(1) by (simp add: firstChunk_def)
  moreover have "part_content msgType subject body previews first 0 = buildTextContent msgType subject body previews first"
    by (simp add: part_content_def shedOverhead_def)
  ultimately show ?thesis using assms(2)
    by (simp add: fitPart_def fit_from.simps [of _ _ _ _ _ _ 0] fit_level.simps [of _ _ _ _ _ _ _ maxTextContentBytes])
qed

section \<open>Properties\<close>

text \<open>C32.
  \<^verbatim>\<open>splitTextChunks\<close> returns for every text and every bound, and loses nothing: the chunks concatenate
  to the input. With a positive bound no chunk is longer than the bound; when the text had to be cut no
  chunk is empty; and a valid UTF-8 text is cut between runes as soon as the bound has room for one.
\<close>

theorem split_text_lossless:
  "concat (splitTextChunks body mx) = body \<and>
   (0 < mx \<longrightarrow> list_all (\<lambda>c. int (length c) \<le> mx) (splitTextChunks body mx)) \<and>
   (0 < mx \<and> body \<noteq> [] \<longrightarrow> list_all (\<lambda>c. c \<noteq> []) (splitTextChunks body mx)) \<and>
   (4 \<le> mx \<and> valid_utf8 body \<longrightarrow> list_all valid_utf8 (splitTextChunks body mx))"
proof (cases "mx \<le> 0 \<or> int (length body) \<le> mx")
  case True
  then show ?thesis by (auto simp: splitTextChunks_def)
next
  case False
  then show ?thesis using split_chunks_each [of _ body mx]
    by (simp add: splitTextChunks_def concat_split_chunks list_all_iff)
qed

theorem split_text_lossless_witness:
  "concat (splitTextChunks ''hello big world'' 8) = ''hello big world'' \<and>
   list_all (\<lambda>c. int (length c) \<le> 8) (splitTextChunks ''hello big world'' 8) \<and>
   list_all (\<lambda>c. c \<noteq> []) (splitTextChunks ''hello big world'' 8)"
  using split_text_lossless [of "''hello big world''" 8] by simp

text \<open>C30.
  \<^verbatim>\<open>buildTextParts\<close> returns for every text and loses none of it. The first part has the empty ID and is
  the (possibly shed) content of a leading chunk; the later ones have the IDs text001, text002, ... and
  are plain contents whose bodies, behind that chunk, make up the text. The IDs decode to the part's
  position and all count as text parts. A text whose full content is within the budget becomes exactly
  that one part.
\<close>

theorem build_text_parts_lossless:
  fixes marshal msgType subject body previews forEdit
  defines "ps \<equiv> buildTextParts marshal msgType subject body previews forEdit"
    and "subj \<equiv> truncateBytes subject maxSubjectBytes"
  shows "(\<exists>chunk level. part_body (hd ps) = shedOverhead (buildTextContent msgType subj chunk (boundPreviews previews) True) level \<and>
      chunk @ concat (map (\<lambda>p. Body (part_body p)) (tl ps)) = body) \<and>
    list_all (\<lambda>p. part_body p = buildTextContent msgType [] (Body (part_body p)) None False) (tl ps) \<and>
    map part_id ps = [] # map text_part_id [1..<length ps] \<and>
    list_all (\<lambda>p. isTextPartID (part_id p)) ps \<and>
    (int (length ps) \<le> 2 ^ 63 \<longrightarrow> map (\<lambda>p. textPartIndex (part_id p)) ps = map int [0..<length ps]) \<and>
    (int (length body) \<le> maxTextContentBytes \<and>
       measuredSize marshal (buildTextContent msgType subj body (boundPreviews previews) True) forEdit \<le> maxTextContentBytes \<longrightarrow>
     ps = [\<lparr>part_id = [], part_body = buildTextContent msgType subj body (boundPreviews previews) True\<rparr>])"
proof -
  obtain chunk content where f: "fitPart marshal msgType subj body (boundPreviews previews) True forEdit = (chunk, content)" by fastforce
  let ?rest = "drop (length chunk) body"
  let ?tl = "if ?rest = [] then [] else text_parts_from marshal msgType subj ?rest (boundPreviews previews) forEdit False (Suc 0)"
  have ps: "ps = \<lparr>part_id = [], part_body = content\<rparr> # ?tl"
    unfolding ps_def buildTextParts_def subj_def [symmetric] by (rule text_parts_first [OF f])
  note later = text_parts_later [of marshal msgType subj ?rest "boundPreviews previews" forEdit "Suc 0"]
  obtain level where "content = shedOverhead (buildTextContent msgType subj chunk (boundPreviews previews) True) level"
    using fitPart_chunk [OF f] by (auto simp: part_content_def)
  then have c1: "part_body (hd ps) = shedOverhead (buildTextContent msgType subj chunk (boundPreviews previews) True) level"
    unfolding ps by simp
  have "chunk @ concat (map (\<lambda>p. Body (part_body p)) ?tl) = body"
    using fitPart_split [OF f] later by (cases "?rest = []") simp_all
  then have c2: "chunk @ concat (map (\<lambda>p. Body (part_body p)) (tl ps)) = body" unfolding ps by simp
  have plain: "plain_content msgType c = buildTextContent msgType [] c None False" for c
    by (simp add: plain_content_def buildTextContent_def)
  have c3: "list_all (\<lambda>p. part_body p = buildTextContent msgType [] (Body (part_body p)) None False) (tl ps)"
    using later unfolding ps by (simp add: plain)
  have ids: "map part_id ps = [] # map text_part_id [1..<length ps]"
    using later unfolding ps by (simp del: upt_Suc)
  have "list_all isTextPartID (map part_id ps)"
    unfolding ids by (simp add: list_all_iff isTextPartID_def [of "[]"])
  then have c5: "list_all (\<lambda>p. isTextPartID (part_id p)) ps" by (simp add: list.pred_map o_def)
  have "map textPartIndex (map part_id ps) = map int [0..<length ps]" if "int (length ps) \<le> 2 ^ 63"
  proof -
    have "map textPartIndex (map text_part_id [1..<length ps]) = map int [1..<length ps]"
      using that by (auto simp: int64_ok_def intro!: textPartIndex_id)
    moreover have "0 < length ps" unfolding ps by simp
    ultimately show ?thesis unfolding ids by (simp add: upt_conv_Cons textPartIndex_def [of "[]"])
  qed
  then have c6: "int (length ps) \<le> 2 ^ 63 \<longrightarrow> map (\<lambda>p. textPartIndex (part_id p)) ps = map int [0..<length ps]"
    by (simp add: o_def)
  have c7: "int (length body) \<le> maxTextContentBytes \<and>
      measuredSize marshal (buildTextContent msgType subj body (boundPreviews previews) True) forEdit \<le> maxTextContentBytes \<longrightarrow>
    ps = [\<lparr>part_id = [], part_body = buildTextContent msgType subj body (boundPreviews previews) True\<rparr>]"
    using fitPart_whole [of body marshal msgType subj "boundPreviews previews" True forEdit] f unfolding ps by auto
  show ?thesis by (intro conjI exI [of _ chunk] exI [of _ level] c1 c2 c3 ids c5 c6 c7)
qed

theorem build_text_parts_lossless_witness:
  "buildTextParts (\<lambda>_ c. Some (12 * int (length (Body c)))) ''m.text'' [] ''hello'' [] False =
     [\<lparr>part_id = [], part_body = buildTextContent ''m.text'' [] ''hello'' None True\<rparr>]"
  using build_text_parts_lossless [of "\<lambda>_ c. Some (12 * int (length (Body c)))" "''m.text''" "[]" "''hello''" "[]" False]
  by (simp add: measuredSize_def boundPreviews_def truncateBytes_def maxSubjectBytes_def maxTextContentBytes_def
      buildTextContent_def Let_def)

text \<open>C31.
  With an encoder that spends at most six bytes on a byte of text, doubled for an edit, and previews
  whose bounded fields encode to less than six megabytes, every part \<^verbatim>\<open>buildTextParts\<close> emits is within
  the budget of 40000 bytes: the fallthrough of \<^verbatim>\<open>fitPart\<close> at the last shed level is never taken.
\<close>

theorem build_text_parts_budget:
  assumes "encoder_bounded marshal msgType (boundPreviews previews)"
  shows "list_all (\<lambda>p. measuredSize marshal (part_body p) forEdit \<le> maxTextContentBytes)
    (buildTextParts marshal msgType subject body previews forEdit)"
  using text_parts_budget [OF assms, of "truncateBytes subject maxSubjectBytes"] truncateBytes_length [of maxSubjectBytes subject]
  by (simp add: buildTextParts_def maxSubjectBytes_def)

theorem build_text_parts_budget_witness:
  "list_all (\<lambda>p. (12 * int (length (Body (part_body p)) + length (FormattedBody (part_body p))) + 100) \<le> maxTextContentBytes)
    (buildTextParts (\<lambda>_ c. Some (12 * int (length (Body c) + length (FormattedBody c)) + 100))
       ''m.text'' ''Re'' ''hello'' [] False)"
  using build_text_parts_budget [of "\<lambda>_ c. Some (12 * int (length (Body c) + length (FormattedBody c)) + 100)"
    "''m.text''" "[]" False "''Re''" "''hello''"]
  by (simp add: encoder_bounded_def measuredSize_def)

end
