(* ===== verification/Contact_Merge.thy ===== *)
theory Contact_Merge
  imports Identifiers
begin

text \<open>
  Contact-based merging of conversations (\<^verbatim>\<open>contact_merge.go\<close>): the portal a handle of a contact with
  several handles belongs to, for live traffic and for the one-shot initial sync. The contact directory
  and the bridge framework's portal and message tables are foreign code: the directory is the argument
  \<open>lookupContact\<close>, the tables a record of the queries used, each of which may fail.
\<close>

section \<open>Contacts and their handles\<close>

record contact =
  FirstName :: string
  LastName :: string
  Nickname :: string
  Avatar :: string
  AvatarURL :: string
  Phones :: "string list"
  Emails :: "string list"
  UserGUID :: string
  PrimaryIdentifier :: string

definition HasName :: "contact option \<Rightarrow> bool" where
  "HasName contact =
     (case contact of
        None \<Rightarrow> False
      | Some c \<Rightarrow> length (FirstName c) > 0 \<or> length (LastName c) > 0 \<or> length (Nickname c) > 0)"

definition normalizePhoneForPortalID :: "string \<Rightarrow> string" where
  "normalizePhoneForPortalID phone =
     (let n = normalizePhone phone in
      if n = [] then []
      else if has_prefix n ''+'' then n
      else if length n = 10 then ''+1'' @ n
      else if length n = 11 \<and> n ! 0 = CHR ''1'' then ''+'' @ n
      else ''+'' @ n)"

definition contactPortalIDs :: "contact option \<Rightarrow> string list" where
  "contactPortalIDs contact =
     (case contact of
        None \<Rightarrow> []
      | Some c \<Rightarrow>
          dedup (map (\<lambda>n. ''tel:'' @ n) (filter (\<lambda>n. n \<noteq> []) (map normalizePhoneForPortalID (Phones c))) @
                 map (\<lambda>e. ''mailto:'' @ e) (filter (\<lambda>e. e \<noteq> []) (map (\<lambda>e. to_lower (trim_space e)) (Emails c)))))"

text \<open>The comparison function of \<^verbatim>\<open>sort.Slice\<close>: phones first, then the text.\<close>

definition handle_rank :: "string \<Rightarrow> bool \<times> string" where
  "handle_rank pid = (\<not> has_prefix pid ''tel:'', pid)"

definition preferredContactPortalIDs :: "contact option \<Rightarrow> string list" where
  "preferredContactPortalIDs contact = sort_key handle_rank (contactPortalIDs contact)"

definition contactKeyFromContact :: "contact option \<Rightarrow> string" where
  "contactKeyFromContact contact =
     (if contact = None \<or> \<not> HasName contact then []
      else
        let portalIDs = contactPortalIDs contact
        in if length portalIDs \<le> 1 then [] else join ''|'' (sort portalIDs))"

definition contactHasSelfPortalID :: "contact option \<Rightarrow> (string \<Rightarrow> bool) option \<Rightarrow> bool" where
  "contactHasSelfPortalID contact isSelf =
     (case (contact, isSelf) of
        (Some c, Some f) \<Rightarrow> list_ex f (contactPortalIDs contact)
      | _ \<Rightarrow> False)"

definition liveContactPortalIDCandidates :: "string \<Rightarrow> contact option \<Rightarrow> (string \<Rightarrow> bool) option \<Rightarrow> string list \<times> bool" where
  "liveContactPortalIDCandidates identifier contact isSelf =
     (if (case isSelf of None \<Rightarrow> False | Some f \<Rightarrow> f identifier) then ([identifier], False)
      else if contact = None \<or> \<not> HasName contact then ([identifier], False)
      else
        let contactCandidates = preferredContactPortalIDs contact
        in if length contactCandidates \<le> 1 then ([identifier], False)
           else if contactHasSelfPortalID contact isSelf then ([identifier], False)
           else (contactCandidates, True))"

text \<open>The spellings under which a portal may already exist.\<close>

definition existingDMPortalIDVariants :: "string \<Rightarrow> string list" where
  "existingDMPortalIDVariants identifier =
     (let normalized = normalizeIdentifierForPortalID identifier;
          local = trim_prefix normalized ''tel:'';
          more = (if \<not> has_prefix normalized ''tel:'' then []
                  else if has_prefix local ''+''
                  then (''tel:'' @ trim_prefix local ''+'') #
                       (if has_prefix local ''+1'' \<and> length local = 12 then [''tel:'' @ trim_prefix local ''+1''] else [])
                  else if isNumeric local
                  then (if length local = 10 then [''tel:1'' @ local] else []) @
                       (if length local = 11 \<and> has_prefix local ''1'' then [''tel:'' @ drop 1 local] else [])
                  else [])
      in dedup (filter (\<lambda>v. v \<noteq> []) (identifier # normalized # more)))"

section \<open>Choosing among existing rooms\<close>

record existingDMPortalCandidate =
  ID :: string
  HasMessages :: bool

definition no_room :: existingDMPortalCandidate where
  "no_room = \<lparr>ID = [], HasMessages = False\<rparr>"

definition prefer_room :: "existingDMPortalCandidate \<Rightarrow> existingDMPortalCandidate \<Rightarrow> existingDMPortalCandidate" where
  "prefer_room chosen existing =
     (if ID existing = [] then chosen
      else if ID chosen = [] \<or> (\<not> HasMessages chosen \<and> HasMessages existing) then existing
      else chosen)"

text \<open>
  The callback \<^verbatim>\<open>findExistingRoom\<close> has state (a memo and the first error), which is passed through.
\<close>

type_synonym 's room_finder = "'s \<Rightarrow> string \<Rightarrow> existingDMPortalCandidate \<times> 's"

fun prefer_rooms :: "'s room_finder \<Rightarrow> string list \<Rightarrow> existingDMPortalCandidate \<Rightarrow> 's \<Rightarrow> existingDMPortalCandidate \<times> 's" where
  "prefer_rooms findExistingRoom [] chosen st = (chosen, st)"
| "prefer_rooms findExistingRoom (c # cs) chosen st =
     (let (existing, st') = findExistingRoom st c
      in prefer_rooms findExistingRoom cs (prefer_room chosen existing) st')"

definition preferredExistingDMPortalCandidate :: "'s room_finder \<Rightarrow> string list \<Rightarrow> 's \<Rightarrow> existingDMPortalCandidate \<times> 's" where
  "preferredExistingDMPortalCandidate findExistingRoom candidates st = prefer_rooms findExistingRoom candidates no_room st"

definition room_spellings :: "string \<Rightarrow> string list \<Rightarrow> string list" where
  "room_spellings identifier normalizedMatches =
     (let candidates = existingDMPortalIDVariants identifier
      in candidates @ dedup_seen candidates (sort normalizedMatches))"

definition preferredExistingDMPortalSpelling :: "'s room_finder \<Rightarrow> string \<Rightarrow> string list \<Rightarrow> 's \<Rightarrow> existingDMPortalCandidate \<times> 's" where
  "preferredExistingDMPortalSpelling findExistingRoom identifier normalizedMatches st =
     preferredExistingDMPortalCandidate findExistingRoom (room_spellings identifier normalizedMatches) st"

text \<open>What the state-passing search computes: the first populated room, else the first room.\<close>

definition best_room :: "(string \<Rightarrow> existingDMPortalCandidate) \<Rightarrow> string list \<Rightarrow> existingDMPortalCandidate" where
  "best_room f cs = foldl (\<lambda>chosen c. prefer_room chosen (f c)) no_room cs"

locale room_search =
  fixes finder :: "'s room_finder"
    and room :: "string \<Rightarrow> existingDMPortalCandidate"
    and bad :: "string \<Rightarrow> bool"
    and good failed :: "'s \<Rightarrow> bool"
  assumes found: "good st \<Longrightarrow> \<not> bad c \<Longrightarrow> fst (finder st c) = room c \<and> good (snd (finder st c))"
    and fails: "good st \<Longrightarrow> bad c \<Longrightarrow> failed (snd (finder st c))"
    and stays_failed: "failed st \<Longrightarrow> failed (snd (finder st c))"
begin

lemma prefer_rooms_failed: "failed st \<Longrightarrow> failed (snd (prefer_rooms finder cs chosen st))"
  by (induction cs arbitrary: chosen st) (simp_all add: split_beta stays_failed)

lemma prefer_rooms_good:
  "good st \<Longrightarrow> list_all (\<lambda>c. \<not> bad c) cs \<Longrightarrow>
    fst (prefer_rooms finder cs chosen st) = foldl (\<lambda>ch c. prefer_room ch (room c)) chosen cs \<and>
    good (snd (prefer_rooms finder cs chosen st))"
  by (induction cs arbitrary: chosen st) (simp_all add: split_beta found)

lemma prefer_rooms_bad:
  "good st \<Longrightarrow> list_ex bad cs \<Longrightarrow> failed (snd (prefer_rooms finder cs chosen st))"
proof (induction cs arbitrary: chosen st)
  case (Cons c cs)
  then show ?case
    by (cases "bad c") (simp_all add: split_beta fails prefer_rooms_failed found)
qed simp

lemmas preferred_candidate =
  prefer_rooms_good [where chosen = no_room, folded preferredExistingDMPortalCandidate_def best_room_def]

lemmas preferred_candidate_bad =
  prefer_rooms_bad [where chosen = no_room, folded preferredExistingDMPortalCandidate_def]

lemmas preferred_candidate_failed =
  prefer_rooms_failed [where chosen = no_room, folded preferredExistingDMPortalCandidate_def]

end

text \<open>A room search over spellings is again a room search over identifiers.\<close>

locale spelled_search = room_search finder room bad good failed
  for finder :: "'s room_finder" and room bad good failed +
  fixes matches :: "string \<Rightarrow> string list"

sublocale spelled_search \<subseteq> spelled: room_search
  "\<lambda>st i. preferredExistingDMPortalSpelling finder i (matches i) st"
  "\<lambda>i. best_room room (room_spellings i (matches i))"
  "\<lambda>i. list_ex bad (room_spellings i (matches i))" good failed
  by unfold_locales
    (simp_all add: preferredExistingDMPortalSpelling_def preferred_candidate preferred_candidate_bad
      preferred_candidate_failed list_ex_iff list_all_iff)

section \<open>Rooms in the bridge database\<close>

type_synonym portal_key = "portal_id \<times> login_id"

record portal_row =
  pr_key :: portal_key
  pr_MXID :: string

text \<open>The framework's queries; \<open>Inl\<close> is a database error.\<close>

record 'e bridge_db =
  GetExistingPortalByKey :: "portal_key \<Rightarrow> 'e + portal_row option"
  GetAllPortalsWithMXID :: "'e + portal_row list"
  GetFirstPortalMessage :: "portal_key \<Rightarrow> 'e + bool"

definition inspectDirect :: "'e bridge_db \<Rightarrow> login_id \<Rightarrow> string \<Rightarrow> 'e + existingDMPortalCandidate" where
  "inspectDirect db login portalID =
     (case GetExistingPortalByKey db (portalID, login) of
        Inl e \<Rightarrow> Inl e
      | Inr None \<Rightarrow> Inr no_room
      | Inr (Some portal) \<Rightarrow>
          if pr_MXID portal = [] then Inr no_room
          else (case GetFirstPortalMessage db (pr_key portal) of
                  Inl e \<Rightarrow> Inl e
                | Inr has \<Rightarrow> Inr \<lparr>ID = fst (pr_key portal), HasMessages = has\<rparr>))"

text \<open>The index over the login's portals: the key of a portal ID, and the IDs of a normal form.\<close>

definition login_portals :: "login_id \<Rightarrow> portal_row list \<Rightarrow> portal_row list" where
  "login_portals login portals = filter (\<lambda>p. \<not> (snd (pr_key p) \<noteq> [] \<and> snd (pr_key p) \<noteq> login)) portals"

definition portal_index :: "portal_row list \<Rightarrow> string \<rightharpoonup> portal_row" where
  "portal_index portals = foldl (\<lambda>m p. m(fst (pr_key p) \<mapsto> p)) Map.empty portals"

definition normalized_matches :: "portal_row list \<Rightarrow> string \<Rightarrow> string list" where
  "normalized_matches portals normalized =
     sort (map (\<lambda>p. fst (pr_key p)) (filter (\<lambda>p. normalizeIdentifierForPortalID (fst (pr_key p)) = normalized) portals))"

record 'e room_memo =
  rooms_seen :: "string \<rightharpoonup> existingDMPortalCandidate"
  room_err :: "'e option"

definition fresh_memo :: "'e room_memo" where
  "fresh_memo = \<lparr>rooms_seen = Map.empty, room_err = None\<rparr>"

text \<open>The closure of \<^verbatim>\<open>findExistingDMPortalCandidateForCandidates\<close>: memo first, then the index.\<close>

definition findExistingRoom :: "(portal_key \<Rightarrow> 'e + bool) \<Rightarrow> (string \<rightharpoonup> portal_row) \<Rightarrow> 'e room_memo room_finder" where
  "findExistingRoom firstMessage index st candidate =
     (if room_err st \<noteq> None then (no_room, st)
      else
        (case rooms_seen st candidate of
           Some existing \<Rightarrow> (existing, st)
         | None \<Rightarrow>
             (case index candidate of
                None \<Rightarrow> (no_room, st)
              | Some portal \<Rightarrow>
                  (case firstMessage (pr_key portal) of
                     Inl e \<Rightarrow> (no_room, st\<lparr>room_err := Some e\<rparr>)
                   | Inr has \<Rightarrow>
                       let existing = \<lparr>ID = candidate, HasMessages = has\<rparr>
                       in (existing, st\<lparr>rooms_seen := (rooms_seen st)(candidate \<mapsto> existing)\<rparr>)))))"

text \<open>The closure of the initial sync: the index first, then the memo, then \<^verbatim>\<open>inspectExistingRoom\<close>.\<close>

definition findExistingRoomByID :: "(portal_row \<Rightarrow> 'e + existingDMPortalCandidate) option \<Rightarrow> (string \<rightharpoonup> portal_row) \<Rightarrow> 'e room_memo room_finder" where
  "findExistingRoomByID inspectExistingRoom index st portalID =
     (if room_err st \<noteq> None then (no_room, st)
      else
        (case index portalID of
           None \<Rightarrow> (no_room, st)
         | Some portal \<Rightarrow>
             (case rooms_seen st portalID of
                Some inspected \<Rightarrow> (inspected, st)
              | None \<Rightarrow>
                  let keep = (\<lambda>candidate. (candidate, st\<lparr>rooms_seen := (rooms_seen st)(portalID \<mapsto> candidate)\<rparr>))
                  in (case inspectExistingRoom of
                        None \<Rightarrow> keep \<lparr>ID = portalID, HasMessages = False\<rparr>
                      | Some inspect \<Rightarrow>
                          (case inspect portal of
                             Inl e \<Rightarrow> (no_room, st\<lparr>room_err := Some e\<rparr>)
                           | Inr inspected \<Rightarrow> keep \<lparr>ID = portalID, HasMessages = HasMessages inspected\<rparr>)))))"

text \<open>
  Both are room searches over the same notion of a room, given what a portal's inspection returns;
  the memo holds answers of that inspection only.
\<close>

definition room_at :: "(portal_row \<Rightarrow> 'e + bool) \<Rightarrow> (string \<rightharpoonup> portal_row) \<Rightarrow> string \<Rightarrow> existingDMPortalCandidate" where
  "room_at q index c =
     (case index c of None \<Rightarrow> no_room
      | Some p \<Rightarrow> (case q p of Inl e \<Rightarrow> no_room | Inr has \<Rightarrow> \<lparr>ID = c, HasMessages = has\<rparr>))"

definition room_broken :: "(portal_row \<Rightarrow> 'e + bool) \<Rightarrow> (string \<rightharpoonup> portal_row) \<Rightarrow> string \<Rightarrow> bool" where
  "room_broken q index c \<longleftrightarrow> (case index c of None \<Rightarrow> False | Some p \<Rightarrow> isl (q p))"

definition memo_good :: "(portal_row \<Rightarrow> 'e + bool) \<Rightarrow> (string \<rightharpoonup> portal_row) \<Rightarrow> 'e room_memo \<Rightarrow> bool" where
  "memo_good q index st \<longleftrightarrow> room_err st = None \<and>
     (\<forall>c r. rooms_seen st c = Some r \<longrightarrow> r = room_at q index c \<and> \<not> room_broken q index c \<and> index c \<noteq> None)"

definition memo_failed :: "'e room_memo \<Rightarrow> bool" where
  "memo_failed st \<longleftrightarrow> room_err st \<noteq> None"

lemma fresh_memo_good [simp]: "memo_good q index fresh_memo" "\<not> memo_failed fresh_memo"
  by (simp_all add: memo_good_def fresh_memo_def memo_failed_def)

lemma memo_good_not_failed: "memo_good q index st \<Longrightarrow> \<not> memo_failed st"
  by (simp add: memo_good_def memo_failed_def)

lemma memo_good_err: "memo_good q index st \<Longrightarrow> room_err st = None"
  by (simp add: memo_good_def)

lemma memo_seen:
  "memo_good q index st \<Longrightarrow> rooms_seen st c = Some r \<Longrightarrow> room_at q index c = r \<and> \<not> room_broken q index c \<and> index c \<noteq> None"
  unfolding memo_good_def by metis

lemma memo_broken: "memo_good q index st \<Longrightarrow> room_broken q index c \<Longrightarrow> rooms_seen st c = None"
  using memo_seen by (metis not_Some_eq)

lemma memo_add:
  "memo_good q index st \<Longrightarrow> index c = Some p \<Longrightarrow> q p = Inr has \<Longrightarrow>
    memo_good q index (st\<lparr>rooms_seen := (rooms_seen st)(c \<mapsto> \<lparr>ID = c, HasMessages = has\<rparr>)\<rparr>)"
  unfolding memo_good_def by (simp add: room_at_def room_broken_def)


interpretation live_rooms: room_search "findExistingRoom firstMessage index"
    "room_at (\<lambda>p. firstMessage (pr_key p)) index" "room_broken (\<lambda>p. firstMessage (pr_key p)) index"
    "memo_good (\<lambda>p. firstMessage (pr_key p)) index" memo_failed
  for firstMessage :: "portal_key \<Rightarrow> 'e + bool" and index
proof unfold_locales
  fix st :: "'e room_memo" and c
  let ?q = "\<lambda>p. firstMessage (pr_key p)"
  show "fst (findExistingRoom firstMessage index st c) = room_at ?q index c \<and>
      memo_good ?q index (snd (findExistingRoom firstMessage index st c))"
    if "memo_good ?q index st" "\<not> room_broken ?q index c"
    using that memo_seen [OF that(1), of c] memo_good_err [OF that(1)] memo_add [OF that(1), of c]
    by (auto simp: findExistingRoom_def memo_failed_def room_at_def room_broken_def Let_def split: option.splits sum.splits)
  show "memo_failed (snd (findExistingRoom firstMessage index st c))"
    if "memo_good ?q index st" "room_broken ?q index c"
    using that(2) memo_broken [OF that] memo_good_err [OF that(1)]
    by (auto simp: findExistingRoom_def memo_failed_def room_at_def room_broken_def Let_def split: option.splits sum.splits)
  show "memo_failed (snd (findExistingRoom firstMessage index st c))" if "memo_failed st"
    using that by (simp add: findExistingRoom_def memo_failed_def)
qed

definition inspected_rooms :: "(portal_row \<Rightarrow> 'e + existingDMPortalCandidate) option \<Rightarrow> portal_row \<Rightarrow> 'e + bool" where
  "inspected_rooms inspectExistingRoom p =
     (case inspectExistingRoom of
        None \<Rightarrow> Inr False
      | Some inspect \<Rightarrow> (case inspect p of Inl e \<Rightarrow> Inl e | Inr r \<Rightarrow> Inr (HasMessages r)))"

interpretation sync_rooms: room_search "findExistingRoomByID inspect index"
    "room_at (inspected_rooms inspect) index" "room_broken (inspected_rooms inspect) index"
    "memo_good (inspected_rooms inspect) index" memo_failed
  for inspect :: "(portal_row \<Rightarrow> 'e + existingDMPortalCandidate) option" and index
proof unfold_locales
  fix st :: "'e room_memo" and c
  let ?q = "inspected_rooms inspect"
  show "fst (findExistingRoomByID inspect index st c) = room_at ?q index c \<and>
      memo_good ?q index (snd (findExistingRoomByID inspect index st c))"
    if "memo_good ?q index st" "\<not> room_broken ?q index c"
    using that memo_seen [OF that(1), of c] memo_good_err [OF that(1)] memo_add [OF that(1), of c]
    by (auto simp: findExistingRoomByID_def memo_failed_def room_at_def room_broken_def inspected_rooms_def Let_def split: option.splits sum.splits)
  show "memo_failed (snd (findExistingRoomByID inspect index st c))"
    if "memo_good ?q index st" "room_broken ?q index c"
    using that(2) memo_broken [OF that] memo_good_err [OF that(1)]
    by (auto simp: findExistingRoomByID_def memo_failed_def room_at_def room_broken_def inspected_rooms_def Let_def split: option.splits sum.splits)
  show "memo_failed (snd (findExistingRoomByID inspect index st c))" if "memo_failed st"
    using that by (simp add: findExistingRoomByID_def memo_failed_def)
qed

text \<open>Looking through all rooms of the login, and the fast path in front of it.\<close>

definition enumerateAll :: "'e bridge_db \<Rightarrow> login_id \<Rightarrow> string list \<Rightarrow> 'e + existingDMPortalCandidate" where
  "enumerateAll db login identifiers =
     (case GetAllPortalsWithMXID db of
        Inl e \<Rightarrow> Inl e
      | Inr all \<Rightarrow>
          let portals = login_portals login all;
              finder = (\<lambda>st identifier. preferredExistingDMPortalSpelling
                 (findExistingRoom (GetFirstPortalMessage db) (portal_index portals)) identifier
                 (normalized_matches portals (normalizeIdentifierForPortalID identifier)) st);
              (chosen, st) = preferredExistingDMPortalCandidate finder identifiers fresh_memo
          in (case room_err st of Some e \<Rightarrow> Inl e | None \<Rightarrow> Inr chosen))"

fun fast_path :: "(string \<Rightarrow> 'e + existingDMPortalCandidate) \<Rightarrow> string list \<Rightarrow> ('e + existingDMPortalCandidate) option" where
  "fast_path inspect [] = None"
| "fast_path inspect (c # cs) =
     (case inspect c of
        Inl e \<Rightarrow> Some (Inl e)
      | Inr existing \<Rightarrow> if ID existing \<noteq> [] \<and> HasMessages existing then Some (Inr existing) else fast_path inspect cs)"

definition findExistingDMPortalCandidateWithFastPath :: "string list \<Rightarrow> (string \<Rightarrow> 'e + existingDMPortalCandidate) option
    \<Rightarrow> ('e + existingDMPortalCandidate) option \<Rightarrow> 'e + existingDMPortalCandidate" where
  "findExistingDMPortalCandidateWithFastPath identifiers inspect listAll =
     (case (case (identifiers, inspect) of
              (i # _, Some f) \<Rightarrow> fast_path f (existingDMPortalIDVariants i)
            | _ \<Rightarrow> None) of
        Some r \<Rightarrow> r
      | None \<Rightarrow> (case listAll of None \<Rightarrow> Inr no_room | Some r \<Rightarrow> r))"

definition findExistingDMPortalCandidateForCandidates :: "'e bridge_db \<Rightarrow> login_id \<Rightarrow> string list \<Rightarrow> 'e + existingDMPortalCandidate" where
  "findExistingDMPortalCandidateForCandidates db login identifiers =
     findExistingDMPortalCandidateWithFastPath identifiers (Some (inspectDirect db login)) (Some (enumerateAll db login identifiers))"

text \<open>
  The choice for an identifier; \<open>findExisting\<close> may be nil. The result is the ID with the error, if any.
\<close>

definition chooseContactPortalID :: "string \<Rightarrow> contact option \<Rightarrow> (string \<Rightarrow> bool) option
    \<Rightarrow> (string list \<Rightarrow> 'e + existingDMPortalCandidate) option \<Rightarrow> portal_id \<times> 'e option" where
  "chooseContactPortalID identifier contact isSelf findExisting =
     (let (candidates, preferFreshContactID) = liveContactPortalIDCandidates identifier contact isSelf;
          fresh = (if preferFreshContactID then candidates ! 0 else identifier)
      in case findExisting of
           None \<Rightarrow> (fresh, None)
         | Some findExisting \<Rightarrow>
             (case findExisting candidates of
                Inl e \<Rightarrow> (identifier, Some e)
              | Inr chosen \<Rightarrow> (if ID chosen \<noteq> [] then ID chosen else fresh, None)))"

definition chooseExistingDMPortalID :: "string \<Rightarrow> contact option \<Rightarrow> (string \<Rightarrow> bool) option
    \<Rightarrow> (string list \<Rightarrow> 'e + existingDMPortalCandidate) option \<Rightarrow> portal_id \<times> 'e option" where
  "chooseExistingDMPortalID identifier contact isSelf findExisting =
     (let (candidates, _) = liveContactPortalIDCandidates identifier contact isSelf
      in case findExisting of
           None \<Rightarrow> (identifier, None)
         | Some findExisting \<Rightarrow>
             (case findExisting candidates of
                Inl e \<Rightarrow> (identifier, Some e)
              | Inr chosen \<Rightarrow> (if ID chosen \<noteq> [] then ID chosen else identifier, None)))"

text \<open>
  The client: its handles, its login, and the two contact sources of \<^verbatim>\<open>lookupContact\<close>, the second of
  which is asked when the first is missing or has no entry (\<open>None\<close> is a missing source).
\<close>

record merge_client =
  mc_handles :: "string list"
  mc_login :: login_id
  mc_contacts :: "(string \<Rightarrow> contact option) option"
  mc_chatDB :: "(string \<Rightarrow> contact option) option"

definition lookupContact :: "merge_client \<Rightarrow> string \<Rightarrow> contact option" where
  "lookupContact c identifier =
     (let localID = stripIdentifierPrefix identifier
      in if localID = [] then None
         else
           case (case mc_contacts c of None \<Rightarrow> None | Some info \<Rightarrow> info localID) of
             Some contact \<Rightarrow> Some contact
           | None \<Rightarrow> (case mc_chatDB c of None \<Rightarrow> None | Some info \<Rightarrow> info localID))"

definition resolveContactPortalID :: "merge_client \<Rightarrow> 'e bridge_db \<Rightarrow> string \<Rightarrow> portal_id" where
  "resolveContactPortalID c db identifier =
     (if contains identifier '','' then identifier
      else
        let contact = (if \<not> isMyHandle (mc_handles c) identifier then lookupContact c identifier else None);
            (chosen, err) = chooseContactPortalID identifier contact (Some (isMyHandle (mc_handles c)))
              (Some (findExistingDMPortalCandidateForCandidates db (mc_login c)))
        in (case err of Some _ \<Rightarrow> identifier | None \<Rightarrow> chosen))"

section \<open>Sending, counting and chat.db\<close>

definition pickSendTarget :: "string \<Rightarrow> string list \<Rightarrow> string set \<Rightarrow> string \<times> bool" where
  "pickSendTarget portalID altIDs validSet =
     (if portalID \<in> validSet then (portalID, True)
      else case find (\<lambda>altID. altID \<noteq> portalID \<and> altID \<in> validSet) altIDs of
             Some altID \<Rightarrow> (altID, True)
           | None \<Rightarrow> (portalID, False))"

text \<open>\<open>validate\<close> is \<^verbatim>\<open>validateTargetsSafe\<close> of the client at this moment.\<close>

definition resolveSendTarget :: "merge_client \<Rightarrow> bool \<Rightarrow> (string list \<Rightarrow> string list) \<Rightarrow> string \<Rightarrow> string" where
  "resolveSendTarget c has_client validate portalID =
     (if \<not> has_client \<or> contains portalID '','' then portalID
      else
        let contact = lookupContact c portalID;
            altIDs = contactPortalIDs contact
        in if contact = None \<or> length altIDs \<le> 1 then portalID
           else if validate [portalID] \<noteq> [] then portalID
           else
             let alternates = filter (\<lambda>altID. altID \<noteq> portalID) altIDs;
                 valid = validate alternates;
                 (picked, ok) = pickSendTarget portalID alternates (set valid)
             in if ok then picked else portalID)"

definition count_member :: "merge_client \<Rightarrow> string \<Rightarrow> string list \<times> nat \<Rightarrow> string list \<times> nat" where
  "count_member c raw acc =
     (let (seen, count) = acc; n = normalizeIdentifierForPortalID raw
      in if n = [] \<or> isMyHandle (mc_handles c) n \<or> n \<in> set seen then acc
         else (n # contactPortalIDs (lookupContact c n) @ seen, count + 1))"

definition countNonSelfMembers :: "merge_client \<Rightarrow> string list \<Rightarrow> string option \<Rightarrow> nat" where
  "countNonSelfMembers c participants sender =
     snd (fold (count_member c) (participants @ (case sender of None \<Rightarrow> [] | Some s \<Rightarrow> [s])) ([], 0))"

definition portalIDToChatGUIDs :: "string \<Rightarrow> string list" where
  "portalIDToChatGUIDs portalID =
     (let localID = stripIdentifierPrefix portalID
      in if localID = [] then []
         else let local = stripSmsSuffix localID
              in [''any;-;'' @ local, ''iMessage;-;'' @ local, ''SMS;-;'' @ local])"

definition getContactChatGUIDs :: "merge_client \<Rightarrow> string \<Rightarrow> string list" where
  "getContactChatGUIDs c portalID =
     (let alts = filter (\<lambda>altID. altID \<noteq> portalID) (contactPortalIDs (lookupContact c portalID))
      in dedup (filter (\<lambda>g. g \<noteq> []) (portalIDToChatGUIDs portalID @ concat (map portalIDToChatGUIDs alts))))"

definition canonicalContactHandle :: "merge_client \<Rightarrow> string \<Rightarrow> string" where
  "canonicalContactHandle c identifier =
     (let contact = lookupContact c identifier
      in if contact = None \<or> \<not> HasName contact then identifier
         else
           let altIDs = preferredContactPortalIDs contact
           in if length altIDs \<le> 1 then identifier else altIDs ! 0)"

record event_sender =
  IsFromMe :: bool
  Sender :: string

definition canonicalizeDMSender :: "portal_id \<Rightarrow> event_sender \<Rightarrow> event_sender" where
  "canonicalizeDMSender portalID sender =
     (if IsFromMe sender then sender
      else if contains portalID '','' \<or> has_prefix portalID ''gid:'' then sender
      else if Sender sender \<noteq> portalID then \<lparr>IsFromMe = False, Sender = portalID\<rparr>
      else sender)"

section \<open>The initial sync\<close>

text \<open>
  The groups of one contact's entries. A Go map is iterated in an unspecified order; here the groups come
  in the order of their first entry. Their index lists are disjoint and the search state only adds memo
  entries, so the order cannot be seen in a result without an error.
\<close>

record contact_group =
  cg_key :: string
  cg_contact :: "contact option"
  cg_indices :: "nat list"

fun group_add :: "string \<Rightarrow> contact option \<Rightarrow> nat \<Rightarrow> contact_group list \<Rightarrow> contact_group list" where
  "group_add key contact i [] = [\<lparr>cg_key = key, cg_contact = contact, cg_indices = [i]\<rparr>]"
| "group_add key contact i (g # gs) =
     (if cg_key g = key then g\<lparr>cg_indices := cg_indices g @ [i]\<rparr> # gs else g # group_add key contact i gs)"

definition entry_key :: "(string \<Rightarrow> contact option) \<Rightarrow> string \<Rightarrow> string" where
  "entry_key contactOf portalID =
     (if contains portalID '','' \<or> has_prefix portalID ''gid:'' then [] else contactKeyFromContact (contactOf portalID))"

definition group_entry :: "(string \<Rightarrow> contact option) \<Rightarrow> nat \<times> string \<Rightarrow> contact_group list \<Rightarrow> contact_group list" where
  "group_entry contactOf entry groups =
     (let (i, portalID) = entry; key = entry_key contactOf portalID
      in if key = [] then groups else group_add key (contactOf portalID) i groups)"

definition contact_groups :: "(string \<Rightarrow> contact option) \<Rightarrow> string list \<Rightarrow> contact_group list" where
  "contact_groups contactOf portalIDs = fold (group_entry contactOf) (List.enumerate 0 portalIDs) []"

definition choose_group :: "(string \<Rightarrow> bool) option \<Rightarrow> 's room_finder option \<Rightarrow> contact_group
    \<Rightarrow> string list \<times> nat list \<times> 's \<Rightarrow> string list \<times> nat list \<times> 's" where
  "choose_group isSelf finder grp acc =
     (let (canonical, skip, st) = acc; candidates = preferredContactPortalIDs (cg_contact grp)
      in if candidates = [] then acc
         else if (case isSelf of None \<Rightarrow> False | Some f \<Rightarrow> list_ex f candidates) then acc
         else
           let (existing, st') = (case finder of
                 None \<Rightarrow> (no_room, st)
               | Some f \<Rightarrow> preferredExistingDMPortalCandidate f candidates st);
               chosen = (if ID existing \<noteq> [] then ID existing else candidates ! 0)
           in (fold (\<lambda>idx cs. cs[idx := chosen]) (cg_indices grp) canonical, skip @ tl (cg_indices grp), st'))"

definition canonicalizeChatDBInitialSyncDMPortalIDs :: "string list \<Rightarrow> (string \<Rightarrow> contact option) \<Rightarrow> (string \<Rightarrow> bool) option
    \<Rightarrow> 's room_finder option \<Rightarrow> 's \<Rightarrow> string list \<times> nat list \<times> 's" where
  "canonicalizeChatDBInitialSyncDMPortalIDs portalIDs contactOf isSelf finder st =
     fold (choose_group isSelf finder) (contact_groups contactOf portalIDs) (portalIDs, [], st)"

text \<open>\<open>skip\<close> lists the entries to leave out; \<open>loadExistingRooms\<close> and \<open>inspectExistingRoom\<close> are the callbacks.\<close>

definition canonicalizeChatDBInitialSyncDMPortalIDsWithExistingRooms :: "string list \<Rightarrow> login_id \<Rightarrow> (string \<Rightarrow> contact option)
    \<Rightarrow> (string \<Rightarrow> bool) option \<Rightarrow> 'e + portal_row list \<Rightarrow> (portal_row \<Rightarrow> 'e + existingDMPortalCandidate) option
    \<Rightarrow> 'e + (string list \<times> nat list)" where
  "canonicalizeChatDBInitialSyncDMPortalIDsWithExistingRooms portalIDs receiver contactOf isSelf loadExistingRooms inspectExistingRoom =
     (case loadExistingRooms of
        Inl e \<Rightarrow> Inl e
      | Inr existingPortals \<Rightarrow>
          let portals = login_portals receiver existingPortals;
              finder = (\<lambda>st portalID. preferredExistingDMPortalSpelling
                 (findExistingRoomByID inspectExistingRoom (portal_index portals)) portalID
                 (normalized_matches portals (normalizeIdentifierForPortalID portalID)) st);
              (canonical, skip, st) = canonicalizeChatDBInitialSyncDMPortalIDs portalIDs contactOf isSelf (Some finder) fresh_memo
          in (case room_err st of Some e \<Rightarrow> Inl e | None \<Rightarrow> Inr (canonical, skip)))"

section \<open>Handles in canonical order\<close>

lemma handle_rank_inj: "inj handle_rank"
  by (auto simp: inj_def handle_rank_def)

text \<open>The preferred order depends only on the set of the handles' normal forms.\<close>

lemma distinct_contactPortalIDs [simp]: "distinct (contactPortalIDs contact)"
  by (simp add: contactPortalIDs_def split: option.splits)

lemma preferred_set [simp]: "set (preferredContactPortalIDs contact) = set (contactPortalIDs contact)"
  "length (preferredContactPortalIDs contact) = length (contactPortalIDs contact)"
  by (simp_all add: preferredContactPortalIDs_def)

lemma preferred_unique:
  assumes "set (contactPortalIDs a) = set (contactPortalIDs b)"
  shows "preferredContactPortalIDs a = preferredContactPortalIDs b"
proof -
  let ?p = preferredContactPortalIDs
  have "inj_on handle_rank (set (?p a) \<union> set (?p b))" using handle_rank_inj by (rule inj_on_subset) simp
  then show ?thesis
    by (intro map_sorted_distinct_set_unique [of handle_rank])
      (simp_all add: preferredContactPortalIDs_def assms distinct_map handle_rank_inj inj_on_subset)
qed

text \<open>The best room is empty only if there is none, and populated as soon as one of them is.\<close>

lemma prefer_room_fold:
  "let r = foldl (\<lambda>ch c. prefer_room ch (f c)) chosen cs
   in (r = chosen \<or> r \<in> f ` set cs) \<and>
      (ID r = [] \<longleftrightarrow> ID chosen = [] \<and> (\<forall>c \<in> set cs. ID (f c) = [])) \<and>
      (ID r \<noteq> [] \<longrightarrow> (HasMessages r \<longleftrightarrow> (ID chosen \<noteq> [] \<and> HasMessages chosen) \<or> (\<exists>c \<in> set cs. ID (f c) \<noteq> [] \<and> HasMessages (f c))))"
proof (induction cs arbitrary: chosen)
  case (Cons c cs)
  show ?case using Cons.IH [of "prefer_room chosen (f c)"] by (auto simp: Let_def prefer_room_def split: if_splits)
qed simp

lemma best_room_spec:
  "best_room f cs = no_room \<or> best_room f cs \<in> f ` set cs"
  "ID (best_room f cs) = [] \<longleftrightarrow> (\<forall>c \<in> set cs. ID (f c) = [])"
  "ID (best_room f cs) \<noteq> [] \<Longrightarrow> HasMessages (best_room f cs) \<longleftrightarrow> (\<exists>c \<in> set cs. ID (f c) \<noteq> [] \<and> HasMessages (f c))"
  using prefer_room_fold [of f no_room cs] by (auto simp: best_room_def no_room_def Let_def)

section \<open>The fast path and the full search\<close>

lemma prefer_populated: "ID r \<noteq> [] \<Longrightarrow> HasMessages r \<Longrightarrow> foldl (\<lambda>ch c. prefer_room ch (f c)) r cs = r"
  by (induction cs) (simp_all add: prefer_room_def)

text \<open>The best room is the first populated one, if there is one.\<close>

lemma best_room_populated:
  assumes "ID (f c) \<noteq> []" "HasMessages (f c)" "\<forall>d \<in> set ds. \<not> (ID (f d) \<noteq> [] \<and> HasMessages (f d))"
  shows "best_room f (ds @ c # cs) = f c"
proof -
  have "\<not> HasMessages (best_room f ds) \<or> ID (best_room f ds) = []" using best_room_spec(3) [of f ds] assms(3) by blast
  then have "prefer_room (best_room f ds) (f c) = f c" using assms(1,2) by (auto simp: prefer_room_def)
  then show ?thesis using prefer_populated [OF assms(1,2), of f cs] by (simp add: best_room_def)
qed

lemma fast_path_spec:
  fixes inspect :: "string \<Rightarrow> 'a + existingDMPortalCandidate"
  assumes "\<And>v. inspect v = Inr (room v)"
  shows "(case fast_path inspect cs of
      None \<Rightarrow> \<forall>c \<in> set cs. \<not> (ID (room c) \<noteq> [] \<and> HasMessages (room c))
    | Some r \<Rightarrow> \<exists>ds c es. cs = ds @ c # es \<and> r = Inr (room c) \<and> ID (room c) \<noteq> [] \<and> HasMessages (room c) \<and>
        (\<forall>d \<in> set ds. \<not> (ID (room d) \<noteq> [] \<and> HasMessages (room d))))"
proof (induction cs)
  case (Cons c cs)
  show ?case
  proof (cases "ID (room c) \<noteq> [] \<and> HasMessages (room c)")
    case True
    then have "fast_path inspect (c # cs) = Some (Inr (room c))" by (simp add: assms)
    moreover have "\<exists>ds d es. c # cs = ds @ d # es \<and> (Inr (room c) :: 'a + _) = Inr (room d) \<and> ID (room d) \<noteq> [] \<and>
        HasMessages (room d) \<and> (\<forall>d \<in> set ds. \<not> (ID (room d) \<noteq> [] \<and> HasMessages (room d)))"
      using True by (intro exI [of _ "[]"] exI [of _ c] exI [of _ cs]) simp
    ultimately show ?thesis by (simp only: option.case)
  next
    case False
    then have eq: "fast_path inspect (c # cs) = fast_path inspect cs" by (auto simp: assms)
    show ?thesis
    proof (cases "fast_path inspect cs")
      case None
      then show ?thesis using Cons.IH False eq by auto
    next
      case (Some r)
      with Cons.IH obtain ds d es where "cs = ds @ d # es" "r = Inr (room d)" "ID (room d) \<noteq> []" "HasMessages (room d)"
        "\<forall>d \<in> set ds. \<not> (ID (room d) \<noteq> [] \<and> HasMessages (room d))" by auto
      then show ?thesis using False eq Some by (simp, intro exI [of _ "c # ds"]) auto
    qed
  qed
qed simp

text \<open>
  A database in which the queries succeed and agree with each other: looking a portal up by its key finds
  the listed portal of that ID, and every listed portal belongs to the login.
\<close>

definition consistent_rooms :: "'e bridge_db \<Rightarrow> login_id \<Rightarrow> portal_row list \<Rightarrow> bool" where
  "consistent_rooms db login portals \<longleftrightarrow>
     GetAllPortalsWithMXID db = Inr portals \<and>
     (\<forall>p \<in> set portals. snd (pr_key p) = login) \<and>
     (\<forall>pid. case GetExistingPortalByKey db (pid, login) of
        Inl e \<Rightarrow> False
      | Inr None \<Rightarrow> portal_index portals pid = None
      | Inr (Some p) \<Rightarrow> portal_index portals pid = (if pr_MXID p = [] then None else Some p)) \<and>
     (\<forall>key. \<not> isl (GetFirstPortalMessage db key))"

lemma consistent_roomsD:
  assumes "consistent_rooms db login portals"
  shows "GetAllPortalsWithMXID db = Inr portals" "login_portals login portals = portals"
    "case GetExistingPortalByKey db (pid, login) of
        Inl e \<Rightarrow> False
      | Inr None \<Rightarrow> portal_index portals pid = None
      | Inr (Some p) \<Rightarrow> portal_index portals pid = (if pr_MXID p = [] then None else Some p)"
    "\<not> isl (GetFirstPortalMessage db key)"
  using assms unfolding consistent_rooms_def login_portals_def by (blast, simp, blast, blast)

lemma portal_index_ID: "portal_index portals pid = Some p \<Longrightarrow> fst (pr_key p) = pid \<and> p \<in> set portals"
proof (induction portals rule: rev_induct)
  case (snoc q portals)
  then show ?case by (auto simp: portal_index_def split: if_splits)
qed (simp add: portal_index_def)

text \<open>The room a candidate leads to: the best one over its spellings.\<close>

definition spelled_room :: "(portal_row \<Rightarrow> 'e + bool) \<Rightarrow> portal_row list \<Rightarrow> string \<Rightarrow> existingDMPortalCandidate" where
  "spelled_room q portals i =
     best_room (room_at q (portal_index portals))
       (room_spellings i (normalized_matches portals (normalizeIdentifierForPortalID i)))"

lemma spelled_room_eq:
  "spelled_room q portals = (\<lambda>i. best_room (room_at q (portal_index portals))
     (room_spellings i (normalized_matches portals (normalizeIdentifierForPortalID i))))"
  by (rule ext) (simp add: spelled_room_def)

interpretation live_spelled: spelled_search "findExistingRoom firstMessage index"
    "room_at (\<lambda>p. firstMessage (pr_key p)) index" "room_broken (\<lambda>p. firstMessage (pr_key p)) index"
    "memo_good (\<lambda>p. firstMessage (pr_key p)) index" memo_failed matches
  for firstMessage :: "portal_key \<Rightarrow> 'e + bool" and index matches
  by unfold_locales

interpretation sync_spelled: spelled_search "findExistingRoomByID inspect index"
    "room_at (inspected_rooms inspect) index" "room_broken (inspected_rooms inspect) index"
    "memo_good (inspected_rooms inspect) index" memo_failed matches
  for inspect :: "(portal_row \<Rightarrow> 'e + existingDMPortalCandidate) option" and index matches
  by unfold_locales

lemma no_broken: "(\<And>p. \<not> isl (q p)) \<Longrightarrow> \<not> room_broken q index c"
  by (simp add: room_broken_def split: option.splits)

lemma enumerateAll_spec:
  assumes "consistent_rooms db login portals"
  shows "enumerateAll db login ids = Inr (best_room (spelled_room (\<lambda>p. GetFirstPortalMessage db (pr_key p)) portals) ids)"
proof -
  let ?q = "\<lambda>p. GetFirstPortalMessage db (pr_key p)"
  let ?m = "\<lambda>i. normalized_matches portals (normalizeIdentifierForPortalID i)"
  let ?f = "\<lambda>st i. preferredExistingDMPortalSpelling (findExistingRoom (GetFirstPortalMessage db) (portal_index portals)) i (?m i) st"
  note all = consistent_roomsD(1) [OF assms] and lp = consistent_roomsD(2) [OF assms]
  have q: "\<not> isl (?q p)" for p by (rule consistent_roomsD(4) [OF assms])
  have "list_all (\<lambda>i. \<not> list_ex (room_broken ?q (portal_index portals)) (room_spellings i (?m i))) ids"
    using no_broken [of ?q, OF q] by (simp add: list_all_iff list_ex_iff)
  from live_spelled.spelled.preferred_candidate [OF fresh_memo_good(1) this]
  have "fst (preferredExistingDMPortalCandidate ?f ids fresh_memo) = best_room (spelled_room ?q portals) ids"
    and "room_err (snd (preferredExistingDMPortalCandidate ?f ids fresh_memo)) = None"
    unfolding spelled_room_eq by (blast, blast dest: memo_good_err)
  then show ?thesis by (simp add: enumerateAll_def all lp split_beta Let_def)
qed

lemma inspectDirect_spec:
  assumes "consistent_rooms db login portals"
  shows "inspectDirect db login v = Inr (room_at (\<lambda>p. GetFirstPortalMessage db (pr_key p)) (portal_index portals) v)"
proof -
  note one = consistent_roomsD(3) [OF assms, of v]
  have two: "GetFirstPortalMessage db (pr_key p) \<noteq> Inl e" for p e
    using consistent_roomsD(4) [OF assms, of "pr_key p"] by auto
  from one two show ?thesis
    by (auto simp: inspectDirect_def room_at_def dest: portal_index_ID split: sum.splits option.splits if_splits)
qed

lemma find_existing_spec:
  assumes "consistent_rooms db login portals"
  shows "findExistingDMPortalCandidateForCandidates db login ids =
    Inr (best_room (spelled_room (\<lambda>p. GetFirstPortalMessage db (pr_key p)) portals) ids)"
proof (cases ids)
  case Nil
  then show ?thesis
    by (simp add: findExistingDMPortalCandidateForCandidates_def findExistingDMPortalCandidateWithFastPath_def enumerateAll_spec [OF assms])
next
  case (Cons i js)
  let ?q = "\<lambda>p. GetFirstPortalMessage db (pr_key p)"
  let ?room = "room_at ?q (portal_index portals)"
  have fp: "findExistingDMPortalCandidateForCandidates db login ids =
      (case fast_path (inspectDirect db login) (existingDMPortalIDVariants i) of
         Some r \<Rightarrow> r | None \<Rightarrow> enumerateAll db login ids)"
    by (simp add: Cons findExistingDMPortalCandidateForCandidates_def findExistingDMPortalCandidateWithFastPath_def split: option.split)
  show ?thesis
  proof (cases "fast_path (inspectDirect db login) (existingDMPortalIDVariants i)")
    case None
    then show ?thesis by (simp add: fp enumerateAll_spec [OF assms])
  next
    case (Some r)
    with fast_path_spec [where inspect = "inspectDirect db login" and cs = "existingDMPortalIDVariants i", OF inspectDirect_spec [OF assms]]
    obtain ds c es where c: "existingDMPortalIDVariants i = ds @ c # es" "r = Inr (?room c)" "ID (?room c) \<noteq> []"
      "HasMessages (?room c)" "\<forall>d \<in> set ds. \<not> (ID (?room d) \<noteq> [] \<and> HasMessages (?room d))" by auto
    have sp: "spelled_room ?q portals i = ?room c"
      using best_room_populated [of ?room, OF c(3,4,5)] by (simp add: spelled_room_def room_spellings_def c(1) Let_def)
    have "best_room (spelled_room ?q portals) (i # js) = ?room c"
      using best_room_populated [of "spelled_room ?q portals" i "[]" js] c(3,4) sp by simp
    moreover have "findExistingDMPortalCandidateForCandidates db login ids = r" unfolding fp Some by simp
    ultimately show ?thesis by (simp add: c(2) Cons)
  qed
qed

section \<open>The groups of the initial sync\<close>

definition group_of :: "contact_group list \<Rightarrow> string \<Rightarrow> contact_group option" where
  "group_of gs k = find (\<lambda>g. cg_key g = k) gs"

lemma group_of_add:
  "group_of (group_add key contact i gs) k =
     (if k = key
      then Some (case group_of gs key of None \<Rightarrow> \<lparr>cg_key = key, cg_contact = contact, cg_indices = [i]\<rparr>
                 | Some g \<Rightarrow> g\<lparr>cg_indices := cg_indices g @ [i]\<rparr>)
      else group_of gs k)"
  by (induction gs) (auto simp: group_of_def)

lemma group_add_keys:
  "map cg_key (group_add key contact i gs) = (if key \<in> cg_key ` set gs then map cg_key gs else map cg_key gs @ [key])"
  by (induction gs) auto

text \<open>The positions of the entries with a key.\<close>

definition positions :: "(string \<Rightarrow> contact option) \<Rightarrow> string list \<Rightarrow> string \<Rightarrow> nat list" where
  "positions contactOf ids k = filter (\<lambda>i. entry_key contactOf (ids ! i) = k) [0..<length ids]"

lemma positions_snoc:
  "positions contactOf (ids @ [p]) k = positions contactOf ids k @ (if entry_key contactOf p = k then [length ids] else [])"
  by (auto simp: positions_def nth_append intro!: filter_cong)

lemma contact_groups_snoc:
  "contact_groups contactOf (ids @ [p]) = group_entry contactOf (length ids, p) (contact_groups contactOf ids)"
  by (simp add: contact_groups_def enumerate_append_eq)

lemma contact_groups_keys: "distinct (map cg_key (contact_groups contactOf ids))"
proof (induction ids rule: rev_induct)
  case (snoc p ids)
  then show ?case by (auto simp: contact_groups_snoc group_entry_def Let_def group_add_keys)
qed (simp add: contact_groups_def)

lemma contact_groups_of:
  "group_of (contact_groups contactOf ids) k =
     (if k = [] \<or> positions contactOf ids k = [] then None
      else Some \<lparr>cg_key = k, cg_contact = contactOf (ids ! hd (positions contactOf ids k)), cg_indices = positions contactOf ids k\<rparr>)"
proof (induction ids rule: rev_induct)
  case Nil
  then show ?case by (simp add: contact_groups_def group_of_def positions_def)
next
  case (snoc p ids)
  let ?ps = "positions contactOf ids k"
  have hd: "?ps \<noteq> [] \<Longrightarrow> hd ?ps < length ids"
    using hd_in_set [of ?ps] by (auto simp: positions_def)
  show ?case
  proof (cases "entry_key contactOf p = [] \<or> entry_key contactOf p \<noteq> k")
    case True
    then have "group_of (contact_groups contactOf (ids @ [p])) k = group_of (contact_groups contactOf ids) k"
      by (auto simp: contact_groups_snoc group_entry_def Let_def group_of_add)
    moreover have "k \<noteq> [] \<Longrightarrow> positions contactOf (ids @ [p]) k = ?ps" using True by (auto simp: positions_snoc)
    ultimately show ?thesis using snoc.IH hd by (auto simp: nth_append)
  next
    case False
    then show ?thesis using snoc.IH hd
      by (auto simp: contact_groups_snoc group_entry_def Let_def group_of_add positions_snoc nth_append)
  qed
qed

lemma contact_groups_mem:
  assumes "g \<in> set (contact_groups contactOf ids)"
  shows "cg_key g \<noteq> []" "cg_indices g = positions contactOf ids (cg_key g)" "cg_indices g \<noteq> []"
    "cg_contact g = contactOf (ids ! hd (positions contactOf ids (cg_key g)))"
proof -
  let ?gs = "contact_groups contactOf ids"
  have inj: "inj_on cg_key (set ?gs)" using contact_groups_keys by (simp add: distinct_map)
  have "group_of ?gs (cg_key g) \<noteq> None" using assms by (auto simp: group_of_def find_None_iff)
  then obtain g' where g': "group_of ?gs (cg_key g) = Some g'" by blast
  then have "g' \<in> set ?gs \<and> cg_key g' = cg_key g" unfolding group_of_def by (rule find_Some_set)
  then have "g' = g" using inj assms by (auto simp: inj_on_def)
  with g' contact_groups_of [of contactOf ids "cg_key g"]
  have "cg_key g \<noteq> [] \<and> positions contactOf ids (cg_key g) \<noteq> [] \<and>
    g = \<lparr>cg_key = cg_key g, cg_contact = contactOf (ids ! hd (positions contactOf ids (cg_key g))), cg_indices = positions contactOf ids (cg_key g)\<rparr>"
    by (auto split: if_splits)
  then show "cg_key g \<noteq> []" "cg_indices g = positions contactOf ids (cg_key g)" "cg_indices g \<noteq> []"
    "cg_contact g = contactOf (ids ! hd (positions contactOf ids (cg_key g)))"
    by (metis contact_group.select_convs(2,3))+
qed

text \<open>What a group is given: nothing when it has no candidate or an own handle, else its best room or first handle.\<close>

definition group_choice :: "(string \<Rightarrow> bool) option \<Rightarrow> (string \<Rightarrow> existingDMPortalCandidate) \<Rightarrow> contact option \<Rightarrow> string option" where
  "group_choice isSelf room contact =
     (let candidates = preferredContactPortalIDs contact; r = best_room room candidates
      in if candidates = [] \<or> (case isSelf of None \<Rightarrow> False | Some f \<Rightarrow> list_ex f candidates) then None
         else Some (if ID r \<noteq> [] then ID r else candidates ! 0))"

lemma nth_fold_update:
  "i < length cs \<Longrightarrow> fold (\<lambda>idx cs. cs[idx := v]) js cs ! i = (if i \<in> set js then v else cs ! i)"
  by (induction js arbitrary: cs) (auto simp: nth_list_update)

lemma length_fold_update [simp]: "length (fold (\<lambda>idx cs. cs[idx := v]) js cs) = length cs"
  by (induction js arbitrary: cs) simp_all

definition assign_group :: "(string \<Rightarrow> bool) option \<Rightarrow> (string \<Rightarrow> existingDMPortalCandidate) \<Rightarrow> contact_group \<Rightarrow> string list \<Rightarrow> string list" where
  "assign_group isSelf room g cn =
     (case group_choice isSelf room (cg_contact g) of
        None \<Rightarrow> cn
      | Some v \<Rightarrow> fold (\<lambda>idx cs. cs[idx := v]) (cg_indices g) cn)"

definition skipped_group :: "(string \<Rightarrow> bool) option \<Rightarrow> (string \<Rightarrow> existingDMPortalCandidate) \<Rightarrow> contact_group \<Rightarrow> nat list" where
  "skipped_group isSelf room g = (if group_choice isSelf room (cg_contact g) = None then [] else tl (cg_indices g))"

lemma choose_group_pure:
  assumes search: "\<And>cs st. good st \<Longrightarrow> fst (preferredExistingDMPortalCandidate f cs st) = best_room room cs \<and>
      good (snd (preferredExistingDMPortalCandidate f cs st))"
    and st: "good st"
  shows "\<exists>st'. good st' \<and> choose_group isSelf (Some f) g (cn, sk, st) =
    (assign_group isSelf room g cn, sk @ skipped_group isSelf room g, st')"
proof -
  let ?cs = "preferredContactPortalIDs (cg_contact g)"
  obtain st' where p: "preferredExistingDMPortalCandidate f ?cs st = (best_room room ?cs, st')" "good st'"
    using search [OF st, of ?cs] by (metis prod.collapse)
  show ?thesis
  proof (cases "?cs = [] \<or> (case isSelf of None \<Rightarrow> False | Some f \<Rightarrow> list_ex f ?cs)")
    case True
    then show ?thesis using st by (auto simp: choose_group_def group_choice_def assign_group_def skipped_group_def Let_def)
  next
    case False
    then show ?thesis using p by (auto simp: choose_group_def group_choice_def assign_group_def skipped_group_def Let_def)
  qed
qed

lemma choose_groups_pure:
  assumes "\<And>cs st. good st \<Longrightarrow> fst (preferredExistingDMPortalCandidate f cs st) = best_room room cs \<and>
      good (snd (preferredExistingDMPortalCandidate f cs st))"
    and "good st"
  shows "\<exists>st'. good st' \<and> fold (choose_group isSelf (Some f)) gs (cn, sk, st) =
      (fold (assign_group isSelf room) gs cn, sk @ concat (map (skipped_group isSelf room) gs), st')"
  using assms(2)
proof (induction gs arbitrary: cn sk st)
  case (Cons g gs)
  from choose_group_pure [of good f room st isSelf g cn sk, OF assms(1) Cons.prems] obtain st' where
    "good st'" "choose_group isSelf (Some f) g (cn, sk, st) = (assign_group isSelf room g cn, sk @ skipped_group isSelf room g, st')"
    by blast
  with Cons.IH [of st' "assign_group isSelf room g cn" "sk @ skipped_group isSelf room g"] show ?case by simp
qed simp

text \<open>An entry gets what its group is given; an entry in no group keeps its ID.\<close>

lemma length_assign_groups [simp]: "length (fold (assign_group isSelf room) gs cn) = length cn"
  by (induction gs arbitrary: cn) (simp_all add: assign_group_def split: option.split)

lemma assign_group_nth:
  "i < length cn \<Longrightarrow> assign_group isSelf room g cn ! i =
    (if i \<in> set (cg_indices g)
     then case group_choice isSelf room (cg_contact g) of None \<Rightarrow> cn ! i | Some v \<Rightarrow> v
     else cn ! i)"
  by (simp add: assign_group_def nth_fold_update split: option.split)

lemma assign_groups_none:
  "i < length cn \<Longrightarrow> \<forall>g \<in> set gs. i \<notin> set (cg_indices g) \<Longrightarrow> fold (assign_group isSelf room) gs cn ! i = cn ! i"
proof (induction gs arbitrary: cn)
  case (Cons g gs)
  moreover have "length (assign_group isSelf room g cn) = length cn" by (simp add: assign_group_def split: option.split)
  ultimately show ?case by (simp add: assign_group_nth)
qed simp

lemma assign_groups_one:
  assumes "i < length cn" "g \<in> set gs" "i \<in> set (cg_indices g)"
    and "distinct gs" "\<forall>h \<in> set gs. i \<in> set (cg_indices h) \<longrightarrow> h = g"
  shows "fold (assign_group isSelf room) gs cn ! i =
    (case group_choice isSelf room (cg_contact g) of None \<Rightarrow> cn ! i | Some v \<Rightarrow> v)"
proof -
  from assms(2) obtain as bs where gs: "gs = as @ g # bs" by (meson split_list)
  have others: "\<forall>h \<in> set as. i \<notin> set (cg_indices h)" "\<forall>h \<in> set bs. i \<notin> set (cg_indices h)"
    using assms(4,5) unfolding gs by auto
  let ?cn = "fold (assign_group isSelf room) as cn"
  have "fold (assign_group isSelf room) gs cn ! i = assign_group isSelf room g ?cn ! i"
    unfolding gs using assms(1) assign_groups_none [OF _ others(2), of "assign_group isSelf room g ?cn"]
      length_assign_groups [of isSelf room "[g]" ?cn] by simp
  also have "\<dots> = (case group_choice isSelf room (cg_contact g) of None \<Rightarrow> cn ! i | Some v \<Rightarrow> v)"
    using assms(1,3) assign_groups_none [OF assms(1) others(1), of isSelf room] by (simp add: assign_group_nth split: option.split)
  finally show ?thesis .
qed

lemma sync_search:
  assumes "\<And>p. \<not> isl (inspected_rooms inspect p)" "memo_good (inspected_rooms inspect) (portal_index portals) st"
  defines "f \<equiv> \<lambda>st i. preferredExistingDMPortalSpelling (findExistingRoomByID inspect (portal_index portals)) i
      (normalized_matches portals (normalizeIdentifierForPortalID i)) st"
  shows "fst (preferredExistingDMPortalCandidate f cs st) = best_room (spelled_room (inspected_rooms inspect) portals) cs \<and>
    memo_good (inspected_rooms inspect) (portal_index portals) (snd (preferredExistingDMPortalCandidate f cs st))"
proof -
  have "list_all (\<lambda>i. \<not> list_ex (room_broken (inspected_rooms inspect) (portal_index portals))
      (room_spellings i (normalized_matches portals (normalizeIdentifierForPortalID i)))) cs"
    using no_broken [of "inspected_rooms inspect", OF assms(1)] by (simp add: list_all_iff list_ex_iff)
  from sync_spelled.spelled.preferred_candidate [OF assms(2) this] show ?thesis
    unfolding spelled_room_eq f_def .
qed

text \<open>The group an entry belongs to, and that no other group lists it.\<close>

lemma entry_group:
  assumes "i < length ids" "entry_key contactOf (ids ! i) = k" "k \<noteq> []"
  obtains g where "g \<in> set (contact_groups contactOf ids)" "cg_key g = k" "cg_indices g = positions contactOf ids k"
    "cg_contact g = contactOf (ids ! hd (positions contactOf ids k))" "i \<in> set (cg_indices g)"
proof -
  have "i \<in> set (positions contactOf ids k)" using assms by (simp add: positions_def)
  then have "group_of (contact_groups contactOf ids) k \<noteq> None" using assms(3) contact_groups_of [of contactOf ids k] by auto
  then obtain g where "group_of (contact_groups contactOf ids) k = Some g" by blast
  then have "g \<in> set (contact_groups contactOf ids)" "cg_key g = k" unfolding group_of_def by (auto dest: find_Some_set)
  with contact_groups_mem [OF this(1)] \<open>i \<in> set (positions contactOf ids k)\<close> show thesis by (intro that) auto
qed

lemma group_indices:
  "g \<in> set (contact_groups contactOf ids) \<Longrightarrow> i \<in> set (cg_indices g) \<longleftrightarrow> i < length ids \<and> entry_key contactOf (ids ! i) = cg_key g"
  by (simp add: contact_groups_mem(2)) (auto simp: positions_def)

lemma group_unique:
  "g \<in> set (contact_groups contactOf ids) \<Longrightarrow> h \<in> set (contact_groups contactOf ids) \<Longrightarrow> cg_key g = cg_key h \<Longrightarrow> g = h"
  using contact_groups_keys [of contactOf ids] by (auto simp: distinct_map inj_on_def)

text \<open>What an entry is given.\<close>

definition entry_choice :: "(string \<Rightarrow> contact option) \<Rightarrow> (string \<Rightarrow> bool) option \<Rightarrow> (string \<Rightarrow> existingDMPortalCandidate)
    \<Rightarrow> string list \<Rightarrow> nat \<Rightarrow> string option" where
  "entry_choice contactOf isSelf room ids i =
     (let k = entry_key contactOf (ids ! i)
      in if k = [] then None else group_choice isSelf room (contactOf (ids ! hd (positions contactOf ids k))))"

lemma assign_groups_entry:
  assumes "i < length ids"
  shows "fold (assign_group isSelf room) (contact_groups contactOf ids) ids ! i =
    (case entry_choice contactOf isSelf room ids i of None \<Rightarrow> ids ! i | Some v \<Rightarrow> v)"
proof (cases "entry_key contactOf (ids ! i) = []")
  case True
  then have "\<forall>g \<in> set (contact_groups contactOf ids). i \<notin> set (cg_indices g)"
    using contact_groups_mem(1) [of _ contactOf ids] by (metis group_indices)
  then show ?thesis using True assms by (simp add: assign_groups_none entry_choice_def)
next
  case False
  from entry_group [OF assms refl False] obtain g where g: "g \<in> set (contact_groups contactOf ids)"
    "cg_key g = entry_key contactOf (ids ! i)" "cg_contact g = contactOf (ids ! hd (positions contactOf ids (entry_key contactOf (ids ! i))))"
    "i \<in> set (cg_indices g)" by blast
  have "distinct (contact_groups contactOf ids)" using contact_groups_keys [of contactOf ids] by (simp add: distinct_map)
  moreover have "\<forall>h \<in> set (contact_groups contactOf ids). i \<in> set (cg_indices h) \<longrightarrow> h = g"
    using g(1,2) group_unique by (auto simp: group_indices)
  ultimately show ?thesis using assign_groups_one [OF assms g(1,4), of isSelf room] False g(3)
    by (simp add: entry_choice_def Let_def)
qed

lemma in_set_tl: "x \<in> set (tl xs) \<Longrightarrow> x \<in> set xs"
  by (cases xs) simp_all

lemma skipped_entry:
  assumes "i < length ids"
  shows "i \<in> set (concat (map (skipped_group isSelf room) (contact_groups contactOf ids))) \<longleftrightarrow>
    entry_choice contactOf isSelf room ids i \<noteq> None \<and> i \<noteq> hd (positions contactOf ids (entry_key contactOf (ids ! i)))"
proof (cases "entry_key contactOf (ids ! i) = []")
  case True
  have "i \<notin> set (skipped_group isSelf room g)" if g: "g \<in> set (contact_groups contactOf ids)" for g
    using contact_groups_mem(1) [OF g] group_indices [OF g, of i] True
    by (auto simp: skipped_group_def dest: in_set_tl)
  then show ?thesis using True by (auto simp: entry_choice_def)
next
  case False
  let ?k = "entry_key contactOf (ids ! i)" and ?gs = "contact_groups contactOf ids"
  from entry_group [OF assms refl False] obtain g where g: "g \<in> set ?gs"
    "cg_key g = ?k" "cg_indices g = positions contactOf ids ?k" "cg_contact g = contactOf (ids ! hd (positions contactOf ids ?k))"
    "i \<in> set (cg_indices g)" by blast
  have "h = g" if "h \<in> set ?gs" "i \<in> set (skipped_group isSelf room h)" for h
    using that g(1,2) group_unique [OF that(1) g(1)] group_indices [OF that(1), of i]
    by (auto simp: skipped_group_def split: if_splits dest: in_set_tl)
  then have "i \<in> set (concat (map (skipped_group isSelf room) ?gs)) \<longleftrightarrow> i \<in> set (skipped_group isSelf room g)"
    using g(1) by auto
  moreover have "i \<in> set (tl (positions contactOf ids ?k)) \<longleftrightarrow> i \<noteq> hd (positions contactOf ids ?k)"
  proof -
    have "distinct (positions contactOf ids ?k)" by (simp add: positions_def)
    then show ?thesis using g(3,5) by (cases "positions contactOf ids ?k") auto
  qed
  ultimately show ?thesis using False g(3,4) by (auto simp: skipped_group_def entry_choice_def Let_def)
qed

section \<open>Sending, counting and chat.db\<close>

text \<open>A send leaves its portal's handle only for another handle of the contact that was just validated.\<close>

lemma resolveSendTarget_target:
  "resolveSendTarget c has_client validate portalID = portalID \<or>
    (validate [portalID] = [] \<and>
     resolveSendTarget c has_client validate portalID \<in> set (contactPortalIDs (lookupContact c portalID)) \<inter>
       set (validate (filter (\<lambda>altID. altID \<noteq> portalID) (contactPortalIDs (lookupContact c portalID)))))"
  by (auto simp: resolveSendTarget_def pickSendTarget_def Let_def dest: find_Some_set split: option.splits if_splits)

text \<open>Each chat.db GUID is queried once.\<close>

lemma getContactChatGUIDs_distinct: "distinct (getContactChatGUIDs c portalID) \<and> [] \<notin> set (getContactChatGUIDs c portalID)"
  by (simp add: getContactChatGUIDs_def Let_def)

text \<open>A conversation with oneself alone has no other members, and nobody is counted twice.\<close>

lemma count_member_fold:
  "snd (fold (count_member c) ms (seen, n)) \<le>
    n + card ({x \<in> normalizeIdentifierForPortalID ` set ms. x \<noteq> [] \<and> \<not> isMyHandle (mc_handles c) x} - set seen)"
proof (induction ms arbitrary: seen n)
  case (Cons m ms)
  let ?n = "normalizeIdentifierForPortalID m"
  let ?S = "\<lambda>ms. {x \<in> normalizeIdentifierForPortalID ` set ms. x \<noteq> [] \<and> \<not> isMyHandle (mc_handles c) x}"
  show ?case
  proof (cases "?n = [] \<or> isMyHandle (mc_handles c) ?n \<or> ?n \<in> set seen")
    case True
    then have step: "fold (count_member c) (m # ms) (seen, n) = fold (count_member c) ms (seen, n)" by (simp add: count_member_def Let_def)
    have "card (?S ms - set seen) \<le> card (?S (m # ms) - set seen)" by (intro card_mono) auto
    then show ?thesis unfolding step using Cons.IH [of seen n] by linarith
  next
    case False
    let ?seen = "?n # contactPortalIDs (lookupContact c ?n) @ seen"
    have step: "fold (count_member c) (m # ms) (seen, n) = fold (count_member c) ms (?seen, n + 1)"
      using False by (simp add: count_member_def Let_def)
    have "card (?S ms - set ?seen) < card (?S (m # ms) - set seen)"
      using False by (intro psubset_card_mono) auto
    then show ?thesis unfolding step using Cons.IH [of ?seen "n + 1"] by linarith
  qed
qed simp

lemma countNonSelfMembers_bound:
  "countNonSelfMembers c participants sender \<le>
    card {x \<in> normalizeIdentifierForPortalID ` set (participants @ (case sender of None \<Rightarrow> [] | Some s \<Rightarrow> [s])).
      x \<noteq> [] \<and> \<not> isMyHandle (mc_handles c) x}"
  using count_member_fold [of c "participants @ (case sender of None \<Rightarrow> [] | Some s \<Rightarrow> [s])" "[]" 0]
  by (simp add: countNonSelfMembers_def)

text \<open>A contact's short code is listed with a plus sign that the routed identifier does not have.\<close>

lemma short_code_spelling:
  "normalizeIdentifierForPortalID ''242733'' = ''tel:242733'' \<and> normalizePhoneForPortalID ''242733'' = ''+242733''"
  by code_simp

section \<open>Resolving a handle\<close>

text \<open>When the contact plays no part, or the database fails, the identifier keeps its own ID.\<close>

lemma resolve_default:
  "contains x '','' \<Longrightarrow> resolveContactPortalID c db x = x"
  "findExistingDMPortalCandidateForCandidates db (mc_login c) [x] = Inr no_room \<Longrightarrow>
    isMyHandle (mc_handles c) x \<Longrightarrow> resolveContactPortalID c db x = x"
  "(\<And>ids. \<exists>e. findExistingDMPortalCandidateForCandidates db (mc_login c) ids = Inl e) \<Longrightarrow> resolveContactPortalID c db x = x"
proof -
  show "contains x '','' \<Longrightarrow> resolveContactPortalID c db x = x" by (simp add: resolveContactPortalID_def)
  show "findExistingDMPortalCandidateForCandidates db (mc_login c) [x] = Inr no_room \<Longrightarrow>
    isMyHandle (mc_handles c) x \<Longrightarrow> resolveContactPortalID c db x = x"
    by (simp add: resolveContactPortalID_def chooseContactPortalID_def liveContactPortalIDCandidates_def no_room_def)
  show "resolveContactPortalID c db x = x"
    if fail: "\<And>ids. \<exists>e. findExistingDMPortalCandidateForCandidates db (mc_login c) ids = Inl e"
  proof -
    obtain cands fresh where l: "liveContactPortalIDCandidates x
        (if \<not> isMyHandle (mc_handles c) x then lookupContact c x else None) (Some (isMyHandle (mc_handles c))) = (cands, fresh)" by fastforce
    obtain e where "findExistingDMPortalCandidateForCandidates db (mc_login c) cands = Inl e" using fail by blast
    with l show ?thesis by (simp add: resolveContactPortalID_def chooseContactPortalID_def)
  qed
qed

lemma resolve_contact:
  assumes "consistent_rooms db (mc_login c) portals" "lookupContact c x = Some ct"
    and "HasName (Some ct)" "1 < length (contactPortalIDs (Some ct))"
    and "\<not> contactHasSelfPortalID (Some ct) (Some (isMyHandle (mc_handles c)))"
    and "\<not> isMyHandle (mc_handles c) x" "\<not> contains x '',''"
  shows "group_choice (Some (isMyHandle (mc_handles c))) (spelled_room (\<lambda>p. GetFirstPortalMessage db (pr_key p)) portals) (Some ct) =
    Some (resolveContactPortalID c db x)"
proof -
  let ?cs = "preferredContactPortalIDs (Some ct)"
  let ?r = "best_room (spelled_room (\<lambda>p. GetFirstPortalMessage db (pr_key p)) portals) ?cs"
  have "liveContactPortalIDCandidates x (Some ct) (Some (isMyHandle (mc_handles c))) = (?cs, True)"
    using assms by (simp add: liveContactPortalIDCandidates_def)
  then have "resolveContactPortalID c db x = (if ID ?r \<noteq> [] then ID ?r else ?cs ! 0)"
    using assms(2,6,7) by (simp add: resolveContactPortalID_def chooseContactPortalID_def find_existing_spec [OF assms(1)])
  moreover have "?cs \<noteq> []" using assms(4) preferred_set(2) [of "Some ct"] by (metis gr_implies_not0 length_0_conv)
  moreover have "\<not> list_ex (isMyHandle (mc_handles c)) ?cs" using assms(5) by (simp add: contactHasSelfPortalID_def list_ex_iff)
  ultimately show ?thesis by (simp add: group_choice_def Let_def)
qed

section \<open>Properties\<close>

text \<open>C10.
  All handles of a contact belong to one portal. For a named contact with several handles none of which is
  an own handle, over a database whose queries succeed and agree: every incoming handle the directory maps
  to the contact resolves to the same portal ID, which is the one the initial sync assigns to the contact's
  group; if some spelling of some handle has a populated room the portal is a populated room; if none has a
  room at all it is the contact's first handle, phones before emails. A handle that is not the contact's,
  an own handle or a failing database never move a message: see \<open>resolve_default\<close>.
\<close>

theorem contact_one_portal:
  fixes db :: "'e bridge_db"
  assumes "consistent_rooms db (mc_login c) portals"
    and "lookupContact c x = Some ct" "lookupContact c y = Some ct"
    and "HasName (Some ct)" "1 < length (contactPortalIDs (Some ct))"
    and "\<not> contactHasSelfPortalID (Some ct) (Some (isMyHandle (mc_handles c)))"
    and "\<not> isMyHandle (mc_handles c) x" "\<not> isMyHandle (mc_handles c) y"
    and "\<not> contains x '',''" "\<not> contains y '',''"
  defines "room \<equiv> spelled_room (\<lambda>p. GetFirstPortalMessage db (pr_key p)) portals"
  shows "resolveContactPortalID c db x = resolveContactPortalID c db y \<and>
    group_choice (Some (isMyHandle (mc_handles c))) room (Some ct) = Some (resolveContactPortalID c db x) \<and>
    ((\<exists>h \<in> set (contactPortalIDs (Some ct)). ID (room h) \<noteq> [] \<and> HasMessages (room h)) \<longrightarrow>
       (\<exists>h \<in> set (contactPortalIDs (Some ct)). ID (room h) = resolveContactPortalID c db x \<and> HasMessages (room h))) \<and>
    ((\<forall>h \<in> set (contactPortalIDs (Some ct)). ID (room h) = []) \<longrightarrow>
       resolveContactPortalID c db x = hd (preferredContactPortalIDs (Some ct)))"
proof -
  let ?cs = "preferredContactPortalIDs (Some ct)" and ?self = "isMyHandle (mc_handles c)"
  have cx: "group_choice (Some ?self) room (Some ct) = Some (resolveContactPortalID c db x)"
    and cy: "group_choice (Some ?self) room (Some ct) = Some (resolveContactPortalID c db y)"
    unfolding room_def using assms(1-10) by (auto intro: resolve_contact)
  then have same: "resolveContactPortalID c db x = resolveContactPortalID c db y" by simp
  have val: "resolveContactPortalID c db x = (if ID (best_room room ?cs) \<noteq> [] then ID (best_room room ?cs) else ?cs ! 0)"
    and ne: "?cs \<noteq> []"
    using cx by (auto simp: group_choice_def Let_def split: if_splits)
  note best = best_room_spec [of room ?cs, unfolded preferred_set(1)]
  have "\<exists>h \<in> set (contactPortalIDs (Some ct)). ID (room h) = resolveContactPortalID c db x \<and> HasMessages (room h)"
    if pop: "\<exists>h \<in> set (contactPortalIDs (Some ct)). ID (room h) \<noteq> [] \<and> HasMessages (room h)"
  proof -
    have id: "ID (best_room room ?cs) \<noteq> []" using best(2) pop by blast
    then have "HasMessages (best_room room ?cs)" using best(3) pop by blast
    moreover from best(1) id obtain h where "h \<in> set (contactPortalIDs (Some ct))" "best_room room ?cs = room h"
      by (auto simp: no_room_def)
    ultimately show ?thesis using val id by auto
  qed
  moreover have "resolveContactPortalID c db x = hd ?cs" if "\<forall>h \<in> set (contactPortalIDs (Some ct)). ID (room h) = []"
    using val ne best(2) that by (simp add: hd_conv_nth)
  ultimately show ?thesis using same cx by blast
qed

definition sample_contact :: contact where
  "sample_contact = \<lparr>FirstName = ''Ann'', LastName = [], Nickname = [], Avatar = [], AvatarURL = [],
     Phones = [''(555) 123-4567''], Emails = [''Ann@b.c''], UserGUID = [], PrimaryIdentifier = []\<rparr>"

definition sample_client :: merge_client where
  "sample_client = \<lparr>mc_handles = [''mailto:me@x.y''], mc_login = ''me'', mc_contacts = Some (\<lambda>_. Some sample_contact), mc_chatDB = None\<rparr>"

definition sample_rooms :: "portal_row list" where
  "sample_rooms = [\<lparr>pr_key = (''tel:+15551234567'', ''me''), pr_MXID = ''!a''\<rparr>, \<lparr>pr_key = (''mailto:ann@b.c'', ''me''), pr_MXID = ''!b''\<rparr>]"

definition sample_bridge :: "unit bridge_db" where
  "sample_bridge =
     \<lparr>GetExistingPortalByKey = (\<lambda>key. Inr (find (\<lambda>p. pr_key p = key) sample_rooms)),
      GetAllPortalsWithMXID = Inr sample_rooms,
      GetFirstPortalMessage = (\<lambda>key. Inr (fst key = ''mailto:ann@b.c''))\<rparr>"

lemma sample_bridge_consistent: "consistent_rooms sample_bridge (mc_login sample_client) sample_rooms"
  by (auto simp: consistent_rooms_def sample_bridge_def sample_client_def sample_rooms_def portal_index_def)

theorem contact_one_portal_witness:
  "resolveContactPortalID sample_client sample_bridge ''tel:+15551234567'' =
     resolveContactPortalID sample_client sample_bridge ''mailto:Ann@b.c''"
proof -
  have "lookupContact sample_client ''tel:+15551234567'' = Some sample_contact"
    "lookupContact sample_client ''mailto:Ann@b.c'' = Some sample_contact" by code_simp+
  moreover have "HasName (Some sample_contact)" "1 < length (contactPortalIDs (Some sample_contact))"
    "\<not> contactHasSelfPortalID (Some sample_contact) (Some (isMyHandle (mc_handles sample_client)))" by code_simp+
  moreover have "\<not> isMyHandle (mc_handles sample_client) ''tel:+15551234567''" "\<not> isMyHandle (mc_handles sample_client) ''mailto:Ann@b.c''"
    "\<not> contains ''tel:+15551234567'' '',''" "\<not> contains ''mailto:Ann@b.c'' '',''" by code_simp+
  ultimately show ?thesis using contact_one_portal [OF sample_bridge_consistent] by blast
qed

text \<open>
  The initial sync merges contacts and loses no conversation. When the room listing and inspections
  succeed it returns one ID per entry. An entry keeps its ID unless it is a direct conversation with a
  named contact of several handles, none of them own. All entries of such a contact get the same ID, the
  best existing room over the contact's handles or else its first handle, and exactly the first of them is
  not skipped. A failing room listing is returned as the error, with no result.
\<close>

lemma initial_sync_canonical:
  fixes inspect :: "(portal_row \<Rightarrow> 'e + existingDMPortalCandidate) option" and rooms :: "portal_row list" and login :: login_id
  assumes "\<And>p. \<not> isl (inspected_rooms inspect p)"
  defines "room \<equiv> spelled_room (inspected_rooms inspect) (login_portals login rooms)"
  shows "(\<exists>canonical skip.
      canonicalizeChatDBInitialSyncDMPortalIDsWithExistingRooms ids login contactOf isSelf (Inr rooms) inspect = Inr (canonical, skip) \<and>
      length canonical = length ids \<and>
      (\<forall>i < length ids.
         (let k = entry_key contactOf (ids ! i); first = hd (positions contactOf ids k);
              choice = (if k = [] then None else group_choice isSelf room (contactOf (ids ! first)))
          in canonical ! i = (case choice of None \<Rightarrow> ids ! i | Some v \<Rightarrow> v) \<and>
             (i \<in> set skip \<longleftrightarrow> choice \<noteq> None \<and> i \<noteq> first)))) \<and>
    canonicalizeChatDBInitialSyncDMPortalIDsWithExistingRooms ids login contactOf isSelf (Inl e) inspect = Inl e"
proof -
  let ?portals = "login_portals login rooms"
  let ?f = "\<lambda>st i. preferredExistingDMPortalSpelling (findExistingRoomByID inspect (portal_index ?portals)) i
      (normalized_matches ?portals (normalizeIdentifierForPortalID i)) st"
  let ?canonical = "fold (assign_group isSelf room) (contact_groups contactOf ids) ids"
  let ?skip = "concat (map (skipped_group isSelf room) (contact_groups contactOf ids))"
  obtain st where st: "memo_good (inspected_rooms inspect) (portal_index ?portals) st"
    "fold (choose_group isSelf (Some ?f)) (contact_groups contactOf ids) (ids, [], fresh_memo) = (?canonical, [] @ ?skip, st)"
    using choose_groups_pure [where f = ?f and room = room and isSelf = isSelf and cn = ids and sk = "[]"
        and gs = "contact_groups contactOf ids" and good = "memo_good (inspected_rooms inspect) (portal_index ?portals)" and st = fresh_memo,
        OF _ fresh_memo_good(1)]
      sync_search [where inspect = inspect and portals = ?portals, OF assms(1)] unfolding room_def by blast
  have "canonicalizeChatDBInitialSyncDMPortalIDsWithExistingRooms ids login contactOf isSelf (Inr rooms) inspect = Inr (?canonical, ?skip)"
    using st memo_good_err [OF st(1)]
    by (simp add: canonicalizeChatDBInitialSyncDMPortalIDsWithExistingRooms_def canonicalizeChatDBInitialSyncDMPortalIDs_def Let_def)
  moreover have "canonicalizeChatDBInitialSyncDMPortalIDsWithExistingRooms ids login contactOf isSelf (Inl e) inspect = Inl e"
    by (simp add: canonicalizeChatDBInitialSyncDMPortalIDsWithExistingRooms_def)
  ultimately show ?thesis
    using assign_groups_entry [where contactOf = contactOf and isSelf = isSelf and room = room and ids = ids]
      skipped_entry [where contactOf = contactOf and isSelf = isSelf and room = room and ids = ids]
    by (intro conjI exI [of _ ?canonical] exI [of _ ?skip]) (simp_all add: entry_choice_def Let_def)
qed

lemma initial_sync_canonical_witness:
  "case canonicalizeChatDBInitialSyncDMPortalIDsWithExistingRooms [''tel:+15551234567'', ''gid:1'', ''mailto:ann@b.c''] ''me''
       (lookupContact sample_client) None (Inr sample_rooms)
       (Some (\<lambda>p. Inr \<lparr>ID = fst (pr_key p), HasMessages = fst (pr_key p) = ''mailto:ann@b.c''\<rparr> :: unit + _)) of
     Inl e \<Rightarrow> False
   | Inr (canonical, skip) \<Rightarrow> length canonical = 3 \<and> canonical = [''mailto:ann@b.c'', ''gid:1'', ''mailto:ann@b.c''] \<and> skip = [2]"
proof -
  let ?inspect = "Some (\<lambda>p. Inr \<lparr>ID = fst (pr_key p), HasMessages = fst (pr_key p) = ''mailto:ann@b.c''\<rparr> :: unit + _)"
  let ?ids = "[''tel:+15551234567'', ''gid:1'', ''mailto:ann@b.c'']"
  have "\<not> isl (inspected_rooms ?inspect p)" for p by (simp add: inspected_rooms_def)
  from initial_sync_canonical [where inspect = ?inspect and ids = ?ids and login = "''me''" and contactOf = "lookupContact sample_client"
      and isSelf = None and rooms = sample_rooms, OF this]
  obtain canonical skip where r: "canonicalizeChatDBInitialSyncDMPortalIDsWithExistingRooms ?ids ''me''
      (lookupContact sample_client) None (Inr sample_rooms) ?inspect = Inr (canonical, skip)" "length canonical = length ?ids"
    by blast
  moreover have "canonicalizeChatDBInitialSyncDMPortalIDsWithExistingRooms ?ids ''me''
      (lookupContact sample_client) None (Inr sample_rooms) ?inspect = Inr ([''mailto:ann@b.c'', ''gid:1'', ''mailto:ann@b.c''], [2])"
    by code_simp
  ultimately show ?thesis by simp
qed

end
