(* ===== verification/Carrier_Route.thy ===== *)
theory Carrier_Route
  imports Identifiers "HOL-Library.Multiset"
begin

text \<open>
  The carrier-route check of an outbound message (\<^verbatim>\<open>carrier_route.go\<close>, the rate gate of
  \<^verbatim>\<open>statuskit_alias_resolver.go\<close>): whether a message of a carrier-flagged portal goes over iMessage after
  all. The state the concurrent sends share is a record; each section the code runs under one of its
  mutexes is one operation on it, and a send is a thread whose program counter walks through them. The
  identity lookup is foreign code and an argument (\<open>None\<close> is a panic of the call); every reading of the
  clock is an argument, in nanoseconds.
\<close>

type_synonym nanos = int

definition time_Hour :: nanos where
  "time_Hour = 3600 * 1000000000"

definition carrierCheckTTL :: nanos where
  "carrierCheckTTL = time_Hour"

definition carrierCheckMaxPerHour :: nat where
  "carrierCheckMaxPerHour = 60"

definition statusKitIDSMinInterval :: nanos where
  "statusKitIDSMinInterval = 3 * 1000000000"

definition statusKitIDSMaxBackoffMult :: int where
  "statusKitIDSMaxBackoffMult = 8"

datatype carrierRouteAction = carrierRouteProceed | carrierRouteVerify

record carrierRouteMemoKey =
  PortalID :: portal_id
  Target :: string

definition classifyCarrierRoute :: "portal_id \<Rightarrow> bool \<Rightarrow> carrierRouteAction" where
  "classifyCarrierRoute portalID isSms =
     (if \<not> isSms then carrierRouteProceed
      else if isGroupPortalID portalID then carrierRouteProceed
      else if stripSmsSuffix portalID \<noteq> portalID then carrierRouteProceed
      else carrierRouteVerify)"

definition carrierRouteSendTarget :: "string list \<Rightarrow> string list \<Rightarrow> string" where
  "carrierRouteSendTarget handles participants =
     (case find (\<lambda>p. \<not> isMyHandle handles p) participants of
        Some p \<Rightarrow> p
      | None \<Rightarrow> (case participants of [] \<Rightarrow> [] | p # _ \<Rightarrow> p))"

section \<open>The rate gate\<close>

record idsRateGate =
  nextAllowedAt :: nanos
  consecutiveFails :: int

definition gate_interval :: "idsRateGate \<Rightarrow> nanos" where
  "gate_interval g =
     (let mult = (if consecutiveFails g < 1 then 1
                  else if consecutiveFails g > statusKitIDSMaxBackoffMult then statusKitIDSMaxBackoffMult
                  else consecutiveFails g)
      in statusKitIDSMinInterval * mult)"

definition gate_reserve :: "idsRateGate \<Rightarrow> nanos \<Rightarrow> nanos \<times> idsRateGate" where
  "gate_reserve g now =
     (let interval = gate_interval g;
          wait = (if nextAllowedAt g > now then nextAllowedAt g - now else 0)
      in (wait, g\<lparr>nextAllowedAt := now + (wait + interval)\<rparr>))"

definition recordSuccess :: "idsRateGate \<Rightarrow> idsRateGate" where
  "recordSuccess g = g\<lparr>consecutiveFails := 0\<rparr>"

definition recordFailure :: "idsRateGate \<Rightarrow> idsRateGate" where
  "recordFailure g = g\<lparr>consecutiveFails := consecutiveFails g + 1\<rparr>"

lemma gate_interval_bounds: "statusKitIDSMinInterval \<le> gate_interval g" "gate_interval g \<le> 8 * statusKitIDSMinInterval"
  by (simp_all add: gate_interval_def Let_def statusKitIDSMinInterval_def statusKitIDSMaxBackoffMult_def)

text \<open>The slot a reservation books lies behind the last one, and the next behind it.\<close>

lemma gate_reserve_slot:
  assumes "gate_reserve g now = (wait, g')"
  shows "0 \<le> wait" "nextAllowedAt g \<le> now + wait" "now + wait + statusKitIDSMinInterval \<le> nextAllowedAt g'"
    "consecutiveFails g' = consecutiveFails g"
  using assms gate_interval_bounds(1) [of g] by (auto simp: gate_reserve_def Let_def)

section \<open>What the sends share\<close>

type_synonym carrier_memo = "carrierRouteMemoKey \<rightharpoonup> nanos"

record carrier_shared =
  carrierCheckedAt :: carrier_memo
  carrierVerifiedAt :: carrier_memo
  carrierCheckLog :: "nanos list"
  smsRelayCheckedAt :: "nanos option"
  smsRelayValue :: bool
  sendPathIDSGate :: idsRateGate

text \<open>
  A memo with a lifetime: an entry counts until it is \<open>carrierCheckTTL\<close> old, and recording one drops
  the entries that have expired. The two readings of the clock are the stamp and the pruning loop's.
\<close>

definition memo_recent :: "carrier_memo \<Rightarrow> carrierRouteMemoKey \<Rightarrow> nanos \<Rightarrow> bool" where
  "memo_recent m key now = (case m key of None \<Rightarrow> False | Some at \<Rightarrow> now - at < carrierCheckTTL)"

definition memo_note :: "carrier_memo \<Rightarrow> carrierRouteMemoKey \<Rightarrow> nanos \<Rightarrow> nanos \<Rightarrow> carrier_memo" where
  "memo_note m key now prune =
     (\<lambda>k. case (m(key \<mapsto> now)) k of
            None \<Rightarrow> None
          | Some at \<Rightarrow> if prune - at \<ge> carrierCheckTTL then None else Some at)"

definition recentlyCheckedUnreachable :: "carrier_shared \<Rightarrow> carrierRouteMemoKey \<Rightarrow> nanos \<Rightarrow> bool" where
  "recentlyCheckedUnreachable sh key now = memo_recent (carrierCheckedAt sh) key now"

definition noteCheckedUnreachable :: "carrier_shared \<Rightarrow> carrierRouteMemoKey \<Rightarrow> nanos \<Rightarrow> nanos \<Rightarrow> carrier_shared" where
  "noteCheckedUnreachable sh key now prune =
     sh\<lparr>carrierCheckedAt := memo_note (carrierCheckedAt sh) key now prune\<rparr>"

definition recentlyVerifiedIMessage :: "carrier_shared \<Rightarrow> carrierRouteMemoKey \<Rightarrow> nanos \<Rightarrow> bool" where
  "recentlyVerifiedIMessage sh key now = memo_recent (carrierVerifiedAt sh) key now"

definition noteVerifiedIMessage :: "carrier_shared \<Rightarrow> carrierRouteMemoKey \<Rightarrow> nanos \<Rightarrow> nanos \<Rightarrow> carrier_shared" where
  "noteVerifiedIMessage sh key now prune =
     sh\<lparr>carrierVerifiedAt := memo_note (carrierVerifiedAt sh) key now prune\<rparr>"

text \<open>
  The contract of the two memos, and what a client may conclude from it: a note is seen until it is
  one lifetime old, never after, and noting one key does not revive another.
\<close>

locale ttl_memo =
  fixes recent :: "'s \<Rightarrow> 'k \<Rightarrow> int \<Rightarrow> bool"
    and note_key :: "'s \<Rightarrow> 'k \<Rightarrow> int \<Rightarrow> int \<Rightarrow> 's"
    and stamp :: "'s \<Rightarrow> 'k \<Rightarrow> int option"
    and ttl :: int
  assumes recent_stamp: "recent s k now \<longleftrightarrow> (\<exists>at. stamp s k = Some at \<and> now - at < ttl)"
    and note_same: "prune - t < ttl \<Longrightarrow> stamp (note_key s k t prune) k = Some t"
    and note_stamp: "stamp (note_key s k t prune) k' = Some at \<Longrightarrow> (k' = k \<and> at = t) \<or> stamp s k' = Some at"
    and note_keeps: "k' \<noteq> k \<Longrightarrow> stamp s k' = Some at \<Longrightarrow> prune - at < ttl \<Longrightarrow> stamp (note_key s k t prune) k' = Some at"
begin

lemma recent_after_note: "prune - t < ttl \<Longrightarrow> recent (note_key s k t prune) k now \<longleftrightarrow> now - t < ttl"
  by (simp add: recent_stamp note_same)

lemma recent_other:
  "k' \<noteq> k \<Longrightarrow> prune \<le> now \<Longrightarrow> recent (note_key s k t prune) k' now \<longleftrightarrow> recent s k' now"
  unfolding recent_stamp using note_stamp [of s k t prune k'] note_keeps [of k' k s _ prune t] by fastforce

lemma recent_expires: "stamp s k = Some at \<Longrightarrow> at + ttl \<le> now \<Longrightarrow> \<not> recent s k now"
  by (simp add: recent_stamp)

end

lemma memo_note_cases:
  "memo_note m key now prune k =
     (if k = key then if prune - now \<ge> carrierCheckTTL then None else Some now
      else case m k of None \<Rightarrow> None | Some at \<Rightarrow> if prune - at \<ge> carrierCheckTTL then None else Some at)"
  by (simp add: memo_note_def)

interpretation unreachable_memo: ttl_memo recentlyCheckedUnreachable noteCheckedUnreachable carrierCheckedAt carrierCheckTTL
  by unfold_locales
    (auto simp: recentlyCheckedUnreachable_def noteCheckedUnreachable_def memo_recent_def memo_note_cases
      split: option.splits if_splits)

interpretation verified_memo: ttl_memo recentlyVerifiedIMessage noteVerifiedIMessage carrierVerifiedAt carrierCheckTTL
  by unfold_locales
    (auto simp: recentlyVerifiedIMessage_def noteVerifiedIMessage_def memo_recent_def memo_note_cases
      split: option.splits if_splits)

text \<open>The hourly ceiling: the cutoff is computed from one reading, the entry stamped with a second.\<close>

definition reserveCarrierCheck :: "carrier_shared \<Rightarrow> nanos \<Rightarrow> nanos \<Rightarrow> bool \<times> carrier_shared" where
  "reserveCarrierCheck sh now stamp =
     (let kept = filter (\<lambda>at. at > now - time_Hour) (carrierCheckLog sh)
      in if length kept \<ge> carrierCheckMaxPerHour then (False, sh\<lparr>carrierCheckLog := kept\<rparr>)
         else (True, sh\<lparr>carrierCheckLog := kept @ [stamp]\<rparr>))"

text \<open>
  The relay memo. \<open>relay\<close> is the answer of \<^verbatim>\<open>HasSmsRelay\<close>, \<open>None\<close> when the call panics; the second
  component of the result says whether it was asked.
\<close>

definition hasSMSRelay :: "bool \<Rightarrow> carrier_shared \<Rightarrow> nanos \<Rightarrow> bool option \<Rightarrow> nanos \<Rightarrow> bool \<times> bool \<times> carrier_shared" where
  "hasSMSRelay has_client sh now relay stamp =
     (if \<not> has_client then (True, False, sh)
      else
        (case smsRelayCheckedAt sh of
           Some at \<Rightarrow> if now - at < carrierCheckTTL then (smsRelayValue sh, False, sh)
             else (case relay of
                 None \<Rightarrow> (True, True, sh)
               | Some has \<Rightarrow> (has, True, sh\<lparr>smsRelayCheckedAt := Some stamp, smsRelayValue := has\<rparr>))
         | None \<Rightarrow> (case relay of
                 None \<Rightarrow> (True, True, sh)
               | Some has \<Rightarrow> (has, True, sh\<lparr>smsRelayCheckedAt := Some stamp, smsRelayValue := has\<rparr>))))"

definition validateTargetsSafe :: "bool \<Rightarrow> (string list \<Rightarrow> string list option) \<Rightarrow> string list \<Rightarrow> string list" where
  "validateTargetsSafe has_client ValidateTargets targets =
     (if \<not> has_client \<or> targets = [] then []
      else case ValidateTargets targets of None \<Rightarrow> [] | Some valid \<Rightarrow> valid)"

section \<open>One check\<close>

text \<open>
  The client a check runs for, and what one send brings: its portal (\<open>None\<close> is nil), the conversation's
  service flag and participants. \<open>env\<close> is constant while the client lives.
\<close>

record carrier_env =
  has_client :: bool
  myHandles :: "string list"

record route_call =
  rc_portal :: "portal_id option"
  rc_sms :: bool
  rc_participants :: "string list"

text \<open>
  What the world answers in one step: two readings of the clock, whether the context is cancelled, and
  the lookup.
\<close>

record route_input =
  t_now :: nanos
  t_later :: nanos
  cancelled :: bool
  ValidateTargets :: "string list \<Rightarrow> string list option"

text \<open>The cheap gate: the key to check, or \<open>None\<close> when the send keeps its routing.\<close>

definition route_key :: "carrier_env \<Rightarrow> route_call \<Rightarrow> carrierRouteMemoKey option" where
  "route_key env call =
     (case rc_portal call of
        None \<Rightarrow> None
      | Some portalID \<Rightarrow>
          if classifyCarrierRoute portalID (rc_sms call) \<noteq> carrierRouteVerify then None
          else
            let sendTarget = carrierRouteSendTarget (myHandles env) (rc_participants call)
            in if sendTarget = [] \<or> isMyHandle (myHandles env) sendTarget then None
               else Some \<lparr>PortalID = portalID, Target = sendTarget\<rparr>)"

text \<open>
  The check run on its own. \<open>w\<close> gives the inputs at the successive points where it reads the clock; the
  second component tells which keys it looked up.
\<close>

definition checkCarrierRoute :: "carrier_env \<Rightarrow> route_call \<Rightarrow> (nat \<Rightarrow> route_input) \<Rightarrow> carrier_shared
    \<Rightarrow> bool \<times> carrierRouteMemoKey list \<times> carrier_shared" where
  "checkCarrierRoute env call w sh =
     (case route_key env call of
        None \<Rightarrow> (False, [], sh)
      | Some memoKey \<Rightarrow>
          if recentlyVerifiedIMessage sh memoKey (t_now (w 0)) then (True, [], sh)
          else if recentlyCheckedUnreachable sh memoKey (t_now (w 1)) then (False, [], sh)
          else if \<not> has_client env then (False, [], sh)
          else
            let (ok, sh1) = reserveCarrierCheck sh (t_now (w 2)) (t_later (w 2))
            in if \<not> ok then (False, [], sh1)
               else
                 let (wait, gate) = gate_reserve (sendPathIDSGate sh1) (t_now (w 3));
                     sh2 = sh1\<lparr>sendPathIDSGate := gate\<rparr>
                 in if wait > 0 \<and> cancelled (w 4) then (False, [], sh2)
                    else
                      let reachable = validateTargetsSafe (has_client env) (ValidateTargets (w 5)) [Target memoKey] \<noteq> [];
                          sh3 = sh2\<lparr>sendPathIDSGate := recordSuccess (sendPathIDSGate sh2)\<rparr>
                      in if \<not> reachable
                         then (False, [memoKey], noteCheckedUnreachable sh3 memoKey (t_now (w 7)) (t_later (w 7)))
                         else (True, [memoKey], noteVerifiedIMessage sh3 memoKey (t_now (w 7)) (t_later (w 7))))"

text \<open>
  What \<^verbatim>\<open>HandleMatrixMessage\<close> does with it: the message goes over iMessage, over the relay, or is
  refused because no relay would carry it.
\<close>

datatype send_route = Over_iMessage | Over_relay | Refused_no_relay

definition carrier_send_route :: "carrier_env \<Rightarrow> route_call \<Rightarrow> (nat \<Rightarrow> route_input) \<Rightarrow> bool option \<Rightarrow> carrier_shared
    \<Rightarrow> send_route \<times> carrier_shared" where
  "carrier_send_route env call w relay sh =
     (let (repaired, _, sh1) = checkCarrierRoute env call w sh;
          isSms = rc_sms call \<and> \<not> repaired
      in if \<not> isSms then (Over_iMessage, sh1)
         else
           let (has, _, sh2) = hasSMSRelay (has_client env) sh1 (t_now (w 8)) relay (t_later (w 8))
           in (if has then Over_relay else Refused_no_relay, sh2))"

section \<open>Concurrent checks\<close>

text \<open>
  The points between the locked sections. A waiting send carries the time its slot begins.
\<close>

datatype route_pc =
    AtVerified carrierRouteMemoKey
  | AtUnreachable carrierRouteMemoKey
  | AtReserve carrierRouteMemoKey
  | AtGate carrierRouteMemoKey
  | AtWait carrierRouteMemoKey nanos
  | AtLookup carrierRouteMemoKey nanos
  | AtSuccess carrierRouteMemoKey bool
  | AtNote carrierRouteMemoKey bool
  | AtDone bool

text \<open>What an observer sees: a granted reservation, a booked slot, a lookup with its answer.\<close>

datatype route_event =
    Granted nanos
  | Slot nanos
  | Looked carrierRouteMemoKey nanos nanos bool

definition start_pc :: "carrier_env \<Rightarrow> route_call \<Rightarrow> route_pc" where
  "start_pc env call = (case route_key env call of None \<Rightarrow> AtDone False | Some key \<Rightarrow> AtVerified key)"

fun route_step :: "carrier_env \<Rightarrow> route_input \<Rightarrow> route_pc \<Rightarrow> carrier_shared \<Rightarrow> route_pc \<times> carrier_shared \<times> route_event list" where
  "route_step env inp (AtVerified k) sh =
     (if recentlyVerifiedIMessage sh k (t_now inp) then (AtDone True, sh, []) else (AtUnreachable k, sh, []))"
| "route_step env inp (AtUnreachable k) sh =
     (if recentlyCheckedUnreachable sh k (t_now inp) then (AtDone False, sh, [])
      else if \<not> has_client env then (AtDone False, sh, []) else (AtReserve k, sh, []))"
| "route_step env inp (AtReserve k) sh =
     (let (ok, sh') = reserveCarrierCheck sh (t_now inp) (t_later inp)
      in if ok then (AtGate k, sh', [Granted (t_later inp)]) else (AtDone False, sh', []))"
| "route_step env inp (AtGate k) sh =
     (let (wait, gate) = gate_reserve (sendPathIDSGate sh) (t_now inp)
      in (if wait > 0 then AtWait k (t_now inp + wait) else AtLookup k (t_now inp + wait),
          sh\<lparr>sendPathIDSGate := gate\<rparr>, [Slot (t_now inp + wait)]))"
| "route_step env inp (AtWait k until) sh =
     (if cancelled inp then (AtDone False, sh, [])
      else if t_now inp < until then (AtWait k until, sh, []) else (AtLookup k until, sh, []))"
| "route_step env inp (AtLookup k slot) sh =
     (let reachable = validateTargetsSafe (has_client env) (ValidateTargets inp) [Target k] \<noteq> []
      in (AtSuccess k reachable, sh, [Looked k slot (t_now inp) reachable]))"
| "route_step env inp (AtSuccess k r) sh =
     (AtNote k r, sh\<lparr>sendPathIDSGate := recordSuccess (sendPathIDSGate sh)\<rparr>, [])"
| "route_step env inp (AtNote k r) sh =
     (AtDone r,
      if r then noteVerifiedIMessage sh k (t_now inp) (t_later inp)
      else noteCheckedUnreachable sh k (t_now inp) (t_later inp), [])"
| "route_step env inp (AtDone r) sh = (AtDone r, sh, [])"

text \<open>
  The system: the sends started so far with their program counters, the last clock reading, and the
  events, latest first. A step starts a send or runs one section of a send; time never runs backwards.
\<close>

record route_system =
  rs_shared :: carrier_shared
  rs_threads :: "(route_call \<times> route_pc) list"
  rs_clock :: nanos
  rs_hist :: "route_event list"

datatype route_action = Spawn route_call | Run nat route_input

fun route_act :: "carrier_env \<Rightarrow> route_action \<Rightarrow> route_system \<Rightarrow> route_system option" where
  "route_act env (Spawn call) s = Some (s\<lparr>rs_threads := rs_threads s @ [(call, start_pc env call)]\<rparr>)"
| "route_act env (Run i inp) s =
     (if i < length (rs_threads s) \<and> rs_clock s \<le> t_now inp \<and> t_now inp \<le> t_later inp then
        let (call, pc) = rs_threads s ! i;
            (pc', sh', evs) = route_step env inp pc (rs_shared s)
        in Some (s\<lparr>rs_shared := sh', rs_threads := (rs_threads s)[i := (call, pc')],
                   rs_clock := t_later inp, rs_hist := evs @ rs_hist s\<rparr>)
      else None)"

definition route_init :: "idsRateGate \<Rightarrow> route_system" where
  "route_init gate =
     \<lparr>rs_shared = \<lparr>carrierCheckedAt = Map.empty, carrierVerifiedAt = Map.empty, carrierCheckLog = [],
        smsRelayCheckedAt = None, smsRelayValue = False, sendPathIDSGate = gate\<rparr>,
      rs_threads = [], rs_clock = 0, rs_hist = []\<rparr>"

inductive route_reach :: "carrier_env \<Rightarrow> route_system \<Rightarrow> bool" for env where
  start: "route_reach env (route_init gate)"
| act: "route_reach env s \<Longrightarrow> route_act env a s = Some s' \<Longrightarrow> route_reach env s'"

fun route_exec :: "carrier_env \<Rightarrow> route_action list \<Rightarrow> route_system \<Rightarrow> route_system option" where
  "route_exec env [] s = Some s"
| "route_exec env (a # as) s = (case route_act env a s of None \<Rightarrow> None | Some s' \<Rightarrow> route_exec env as s')"

lemma route_exec_reach: "route_reach env s \<Longrightarrow> route_exec env as s = Some s' \<Longrightarrow> route_reach env s'"
  by (induction as arbitrary: s) (auto split: option.splits intro: route_reach.act)

text \<open>A step of the system, seen from its parts.\<close>

lemma route_act_run:
  assumes "route_act env (Run i inp) s = Some s'"
  obtains call pc pc' sh' evs where
    "i < length (rs_threads s)" "rs_clock s \<le> t_now inp" "t_now inp \<le> t_later inp"
    "rs_threads s ! i = (call, pc)" "route_step env inp pc (rs_shared s) = (pc', sh', evs)"
    "s' = s\<lparr>rs_shared := sh', rs_threads := (rs_threads s)[i := (call, pc')], rs_clock := t_later inp,
       rs_hist := evs @ rs_hist s\<rparr>"
  using assms by (auto split: if_splits prod.splits)

section \<open>Invariants\<close>

text \<open>What the log, the gate and the memos say about the events so far.\<close>

definition grants :: "route_event list \<Rightarrow> nanos list" where
  "grants h = concat (map (\<lambda>e. case e of Granted t \<Rightarrow> [t] | _ \<Rightarrow> []) h)"

definition slots :: "route_event list \<Rightarrow> nanos list" where
  "slots h = concat (map (\<lambda>e. case e of Slot t \<Rightarrow> [t] | _ \<Rightarrow> []) h)"

definition lookups :: "route_event list \<Rightarrow> (carrierRouteMemoKey \<times> nanos \<times> nanos \<times> bool) list" where
  "lookups h = concat (map (\<lambda>e. case e of Looked k slot t r \<Rightarrow> [(k, slot, t, r)] | _ \<Rightarrow> []) h)"

definition in_hour :: "nanos \<Rightarrow> nanos list \<Rightarrow> nat" where
  "in_hour T ts = length (filter (\<lambda>t. T - time_Hour < t \<and> t \<le> T) ts)"

lemma event_lists [simp]:
  "grants [] = []" "grants (Granted g # h) = g # grants h" "grants (Slot u # h) = grants h" "grants (Looked k u t r # h) = grants h"
  "slots [] = []" "slots (Granted g # h) = slots h" "slots (Slot u # h) = u # slots h" "slots (Looked k u t r # h) = slots h"
  "lookups [] = []" "lookups (Granted g # h) = lookups h" "lookups (Slot u # h) = lookups h"
  "lookups (Looked k u t r # h) = (k, u, t, r) # lookups h"
  by (simp_all add: grants_def slots_def lookups_def)

text \<open>
  The log holds, oldest first, every grant since some cutoff at least an hour back, and no rolling hour
  has more grants than the ceiling.
\<close>

definition ceiling_inv :: "carrier_shared \<Rightarrow> nanos \<Rightarrow> route_event list \<Rightarrow> bool" where
  "ceiling_inv sh clock h \<longleftrightarrow>
     (\<exists>c. c \<le> clock - time_Hour \<and> carrierCheckLog sh = rev (filter (\<lambda>t. c < t) (grants h))) \<and>
     (\<forall>T. in_hour T (grants h) \<le> carrierCheckMaxPerHour)"

lemma ceiling_mono: "ceiling_inv sh clock h \<Longrightarrow> clock \<le> clock' \<Longrightarrow> ceiling_inv sh clock' h"
  unfolding ceiling_inv_def by (meson diff_right_mono order_trans)

lemma reserve_ceiling:
  assumes "ceiling_inv sh clock h" "clock \<le> now" "now \<le> stamp" "reserveCarrierCheck sh now stamp = (ok, sh')"
  shows "ceiling_inv sh' stamp (if ok then Granted stamp # h else h)"
proof -
  let ?g = "grants h" and ?c = "now - time_Hour"
  let ?kept = "rev (filter (\<lambda>t. ?c < t) ?g)"
  from assms(1) obtain c where c: "c \<le> clock - time_Hour" "carrierCheckLog sh = rev (filter (\<lambda>t. c < t) ?g)"
    and cap: "in_hour T ?g \<le> carrierCheckMaxPerHour" for T by (auto simp: ceiling_inv_def)
  have "filter (\<lambda>t. ?c < t) (carrierCheckLog sh) = ?kept"
    using c assms(2) by (auto simp: rev_filter [symmetric] intro!: filter_cong)
  then have r: "ok = (length ?kept < carrierCheckMaxPerHour)"
    "carrierCheckLog sh' = (if ok then ?kept @ [stamp] else ?kept)"
    using assms(4) by (auto simp: reserveCarrierCheck_def Let_def split: if_splits)
  have hour: "0 < time_Hour" by (simp add: time_Hour_def)
  have "in_hour T (stamp # ?g) \<le> carrierCheckMaxPerHour" if ok for T
  proof (cases "stamp \<le> T")
    case True
    have "filter (\<lambda>t. T - time_Hour < t \<and> t \<le> T) ?g = filter (\<lambda>t. T - time_Hour < t \<and> t \<le> T) (filter (\<lambda>t. ?c < t) ?g)"
      using True assms(3) by (auto intro!: filter_cong)
    then have "in_hour T ?g = length (filter (\<lambda>t. T - time_Hour < t \<and> t \<le> T) (filter (\<lambda>t. ?c < t) ?g))"
      by (simp only: in_hour_def)
    then have "in_hour T ?g \<le> length ?kept" by (simp only: length_filter_le length_rev)
    then have "in_hour T ?g < carrierCheckMaxPerHour" using r(1) that by simp
    then show ?thesis by (simp add: in_hour_def)
  qed (use cap [of T] in \<open>simp add: in_hour_def\<close>)
  moreover have "?c < stamp" using assms(3) hour by simp
  ultimately show ?thesis
    unfolding ceiling_inv_def using r(2) cap assms(3) by (cases ok) (auto intro!: exI [of _ ?c])
qed

lemma step_ceiling:
  assumes "ceiling_inv sh clock h" "clock \<le> t_now inp" "t_now inp \<le> t_later inp"
    and "route_step env inp pc sh = (pc', sh', evs)"
  shows "ceiling_inv sh' (t_later inp) (evs @ h)"
proof (cases "\<exists>k. pc = AtReserve k")
  case True
  then obtain k where [simp]: "pc = AtReserve k" by blast
  obtain ok sh1 where r: "reserveCarrierCheck sh (t_now inp) (t_later inp) = (ok, sh1)" by fastforce
  from reserve_ceiling [OF assms(1,2,3) r] show ?thesis using assms(4) r by (auto split: if_splits)
next
  case False
  then have "carrierCheckLog sh' = carrierCheckLog sh" "grants (evs @ h) = grants h"
    using assms(4)
    by (cases pc; auto simp: noteVerifiedIMessage_def noteCheckedUnreachable_def Let_def split: if_splits prod.splits)+
  moreover have "ceiling_inv sh (t_later inp) h" using ceiling_mono [OF assms(1)] assms(2,3) by simp
  ultimately show ?thesis by (simp add: ceiling_inv_def)
qed

text \<open>
  Slots lie at least the base interval apart, the gate is past the last of them, and a lookup does not
  precede its slot.
\<close>

definition pace_inv :: "carrier_shared \<Rightarrow> route_event list \<Rightarrow> bool" where
  "pace_inv sh h \<longleftrightarrow>
     sorted_wrt (\<lambda>a b. b + statusKitIDSMinInterval \<le> a) (slots h) \<and>
     (\<forall>u \<in> set (slots h). u + statusKitIDSMinInterval \<le> nextAllowedAt (sendPathIDSGate sh))"

lemma step_pace:
  assumes "pace_inv sh h" "route_step env inp pc sh = (pc', sh', evs)"
  shows "pace_inv sh' (evs @ h)"
proof (cases "\<exists>k. pc = AtGate k")
  case True
  then obtain k where [simp]: "pc = AtGate k" by blast
  obtain wait gate where r: "gate_reserve (sendPathIDSGate sh) (t_now inp) = (wait, gate)" by fastforce
  note slot = gate_reserve_slot [OF r]
  have "u + statusKitIDSMinInterval \<le> t_now inp + wait" if "u \<in> set (slots h)" for u
    using assms(1) that slot(2) by (fastforce simp: pace_inv_def)
  then show ?thesis using assms r slot gate_interval_bounds(1) unfolding pace_inv_def
    by (auto simp: statusKitIDSMinInterval_def) fastforce+
next
  case False
  then have "nextAllowedAt (sendPathIDSGate sh') = nextAllowedAt (sendPathIDSGate sh)" "slots (evs @ h) = slots h"
    using assms(2)
    by (cases pc; auto simp: noteVerifiedIMessage_def noteCheckedUnreachable_def Let_def reserveCarrierCheck_def
        recordSuccess_def split: if_splits prod.splits)+
  then show ?thesis using assms(1) by (simp add: pace_inv_def)
qed

text \<open>
  Every slot is booked for a granted reservation and used for at most one lookup: the slots the sends
  hold and those already used are among the booked ones, and the sends about to book hold a grant.
\<close>

definition held_slots :: "route_pc \<Rightarrow> nanos list" where
  "held_slots pc = (case pc of AtWait k u \<Rightarrow> [u] | AtLookup k u \<Rightarrow> [u] | _ \<Rightarrow> [])"

definition held_grants :: "route_pc \<Rightarrow> unit list" where
  "held_grants pc = (case pc of AtGate k \<Rightarrow> [()] | _ \<Rightarrow> [])"

definition used_slots :: "route_event list \<Rightarrow> nanos list" where
  "used_slots h = map (\<lambda>(k, u, t, r). u) (lookups h)"

definition per_thread :: "(route_pc \<Rightarrow> 'a list) \<Rightarrow> (route_call \<times> route_pc) list \<Rightarrow> 'a list" where
  "per_thread f ts = concat (map (\<lambda>x. f (snd x)) ts)"

lemma per_thread_update:
  "i < length ts \<Longrightarrow> ts ! i = (call, pc) \<Longrightarrow>
    mset (per_thread f (ts[i := (call', pc')])) + mset (f pc) = mset (per_thread f ts) + mset (f pc')"
proof (induction ts arbitrary: i)
  case (Cons x ts)
  show ?case
  proof (cases i)
    case (Suc j)
    then show ?thesis using Cons.IH [of j] Cons.prems by (simp add: per_thread_def)
  qed (use Cons.prems in \<open>simp add: per_thread_def\<close>)
qed simp

lemma per_thread_append [simp]: "per_thread f (ts @ [(call, pc)]) = per_thread f ts @ f pc"
  by (simp add: per_thread_def)

definition slot_inv :: "route_system \<Rightarrow> bool" where
  "slot_inv s \<longleftrightarrow>
     mset (used_slots (rs_hist s)) + mset (per_thread held_slots (rs_threads s)) \<subseteq># mset (slots (rs_hist s)) \<and>
     length (slots (rs_hist s)) + length (per_thread held_grants (rs_threads s)) \<le> length (grants (rs_hist s))"

lemma used_slots_simps [simp]:
  "used_slots [] = []" "used_slots (Granted g # h) = used_slots h" "used_slots (Slot u # h) = used_slots h"
  "used_slots (Looked k u t r # h) = u # used_slots h"
  by (simp_all add: used_slots_def)

lemma held_simps:
  "held_slots (AtVerified k) = []" "held_slots (AtUnreachable k) = []" "held_slots (AtReserve k) = []"
  "held_slots (AtGate k) = []" "held_slots (AtWait k u) = [u]" "held_slots (AtLookup k u) = [u]"
  "held_slots (AtSuccess k r) = []" "held_slots (AtNote k r) = []" "held_slots (AtDone r) = []"
  "held_grants (AtVerified k) = []" "held_grants (AtUnreachable k) = []" "held_grants (AtReserve k) = []"
  "held_grants (AtGate k) = [()]" "held_grants (AtWait k u) = []" "held_grants (AtLookup k u) = []"
  "held_grants (AtSuccess k r) = []" "held_grants (AtNote k r) = []" "held_grants (AtDone r) = []"
  by (simp_all add: held_slots_def held_grants_def)

text \<open>What one section does to these counts.\<close>

lemma step_counts:
  assumes "route_step env inp pc sh = (pc', sh', evs)"
  shows "mset (used_slots (evs @ h)) + mset (held_slots pc') + mset (slots h) \<subseteq>#
      mset (used_slots h) + mset (held_slots pc) + mset (slots (evs @ h))"
    and "length (slots (evs @ h)) + length (held_grants pc') + length (grants h) \<le>
      length (slots h) + length (held_grants pc) + length (grants (evs @ h))"
proof -
  have "mset (used_slots (evs @ h)) + mset (held_slots pc') + mset (slots h) \<subseteq>#
      mset (used_slots h) + mset (held_slots pc) + mset (slots (evs @ h)) \<and>
    length (slots (evs @ h)) + length (held_grants pc') + length (grants h) \<le>
      length (slots h) + length (held_grants pc) + length (grants (evs @ h))"
  proof (cases pc)
    case (AtReserve k)
    then show ?thesis using assms by (simp add: held_simps split: if_splits prod.splits) (auto simp: held_simps)
  next
    case (AtGate k)
    then show ?thesis using assms by (simp split: if_splits prod.splits) (auto simp: held_simps)
  qed (use assms in \<open>simp add: Let_def split: if_splits, (auto simp: held_simps)?\<close>)+
  then show "mset (used_slots (evs @ h)) + mset (held_slots pc') + mset (slots h) \<subseteq>#
      mset (used_slots h) + mset (held_slots pc) + mset (slots (evs @ h))"
    and "length (slots (evs @ h)) + length (held_grants pc') + length (grants h) \<le>
      length (slots h) + length (held_grants pc) + length (grants (evs @ h))" by simp_all
qed

lemma slot_inv_run:
  assumes "slot_inv s" "route_act env (Run i inp) s = Some s'"
  shows "slot_inv s'"
proof -
  from assms(2) obtain call pc pc' sh' evs where st:
    "i < length (rs_threads s)" "rs_threads s ! i = (call, pc)" "route_step env inp pc (rs_shared s) = (pc', sh', evs)"
    "s' = s\<lparr>rs_shared := sh', rs_threads := (rs_threads s)[i := (call, pc')], rs_clock := t_later inp, rs_hist := evs @ rs_hist s\<rparr>"
    by (rule route_act_run)
  let ?h = "rs_hist s" and ?h' = "evs @ rs_hist s"
  let ?ts = "rs_threads s" and ?ts' = "(rs_threads s)[i := (call, pc')]"
  note upd = per_thread_update [OF st(1,2), where call' = call and pc' = pc']
  have "mset (used_slots ?h') + mset (per_thread held_slots ?ts') + (mset (held_slots pc) + mset (slots ?h)) =
      (mset (used_slots ?h') + mset (held_slots pc') + mset (slots ?h)) + mset (per_thread held_slots ?ts)"
    using upd [of held_slots] by (simp add: ac_simps)
  also have "\<dots> \<subseteq># (mset (used_slots ?h) + mset (held_slots pc) + mset (slots ?h')) + mset (per_thread held_slots ?ts)"
    by (intro subset_mset.add_mono step_counts(1) [OF st(3)] subset_mset.order_refl)
  also have "\<dots> = (mset (used_slots ?h) + mset (per_thread held_slots ?ts)) + (mset (held_slots pc) + mset (slots ?h'))"
    by (simp add: ac_simps)
  also have "\<dots> \<subseteq># mset (slots ?h) + (mset (held_slots pc) + mset (slots ?h'))"
    using assms(1) by (intro subset_mset.add_mono) (simp_all add: slot_inv_def)
  also have "\<dots> = mset (slots ?h') + (mset (held_slots pc) + mset (slots ?h))" by (simp only: ac_simps)
  finally have "mset (used_slots ?h') + mset (per_thread held_slots ?ts') \<subseteq># mset (slots ?h')"
    by (simp only: mset_subset_eq_mono_add_right_cancel)
  moreover have "length (per_thread held_grants ?ts') + length (held_grants pc) = length (per_thread held_grants ?ts) + length (held_grants pc')"
    using upd [of held_grants] by (metis size_mset size_union)
  then have "length (slots ?h') + length (per_thread held_grants ?ts') \<le> length (grants ?h')"
    using step_counts(2) [OF st(3), of ?h] assms(1) by (simp add: slot_inv_def)
  ultimately show ?thesis by (simp add: slot_inv_def st(4))
qed

text \<open>
  Evidence: what a send or the memo of verified keys holds comes from a lookup of exactly that key which
  found it reachable, and a lookup is no earlier than its slot.
\<close>

definition seen_reachable :: "route_event list \<Rightarrow> carrierRouteMemoKey \<Rightarrow> bool" where
  "seen_reachable h k \<longleftrightarrow> list_ex (\<lambda>(k', u, t, r). k' = k \<and> r) (lookups h)"

fun thread_ok :: "carrier_env \<Rightarrow> nanos \<Rightarrow> route_event list \<Rightarrow> route_call \<times> route_pc \<Rightarrow> bool" where
  "thread_ok env clock h (call, AtVerified k) \<longleftrightarrow> route_key env call = Some k"
| "thread_ok env clock h (call, AtUnreachable k) \<longleftrightarrow> route_key env call = Some k"
| "thread_ok env clock h (call, AtReserve k) \<longleftrightarrow> route_key env call = Some k"
| "thread_ok env clock h (call, AtGate k) \<longleftrightarrow> route_key env call = Some k"
| "thread_ok env clock h (call, AtWait k u) \<longleftrightarrow> route_key env call = Some k"
| "thread_ok env clock h (call, AtLookup k u) \<longleftrightarrow> route_key env call = Some k \<and> u \<le> clock"
| "thread_ok env clock h (call, AtSuccess k r) \<longleftrightarrow> route_key env call = Some k \<and> (r \<longrightarrow> seen_reachable h k)"
| "thread_ok env clock h (call, AtNote k r) \<longleftrightarrow> route_key env call = Some k \<and> (r \<longrightarrow> seen_reachable h k)"
| "thread_ok env clock h (call, AtDone r) \<longleftrightarrow>
     (r \<longrightarrow> (case route_key env call of None \<Rightarrow> False | Some k \<Rightarrow> seen_reachable h k))"

definition memo_ok :: "carrier_shared \<Rightarrow> route_event list \<Rightarrow> bool" where
  "memo_ok sh h \<longleftrightarrow> (\<forall>k at. carrierVerifiedAt sh k = Some at \<longrightarrow> seen_reachable h k)"

definition on_time :: "route_event list \<Rightarrow> bool" where
  "on_time h \<longleftrightarrow> list_all (\<lambda>(k, u, t, r). u \<le> t) (lookups h)"

lemma seen_reachable_append: "seen_reachable h k \<Longrightarrow> seen_reachable (evs @ h) k"
  by (simp add: seen_reachable_def lookups_def)

lemma seen_reachable_Looked [simp]: "seen_reachable (Looked k u t r # h) k' \<longleftrightarrow> (k = k' \<and> r) \<or> seen_reachable h k'"
  by (auto simp: seen_reachable_def)

lemma thread_ok_mono: "thread_ok env clock h x \<Longrightarrow> clock \<le> clock' \<Longrightarrow> thread_ok env clock' (evs @ h) x"
  by (cases x; cases "snd x") (auto simp: seen_reachable_append split: option.splits)

lemma step_evidence:
  assumes "thread_ok env clock h (call, pc)" "memo_ok sh h" "on_time h" "clock \<le> t_now inp" "t_now inp \<le> t_later inp"
    and "route_step env inp pc sh = (pc', sh', evs)"
  shows "thread_ok env (t_later inp) (evs @ h) (call, pc') \<and> memo_ok sh' (evs @ h) \<and> on_time (evs @ h)"
proof (cases pc)
  case (AtVerified k)
  then show ?thesis using assms
    by (auto simp: memo_ok_def verified_memo.recent_stamp split: if_splits)
next
  case (AtGate k)
  then show ?thesis using assms gate_reserve_slot(1) [of "sendPathIDSGate sh" "t_now inp"]
    by (auto simp: memo_ok_def on_time_def seen_reachable_def split: prod.splits)
next
  case (AtLookup k u)
  then show ?thesis using assms by (auto simp: memo_ok_def on_time_def Let_def)
next
  case (AtNote k r)
  then show ?thesis using assms
    by (auto simp: memo_ok_def noteCheckedUnreachable_def dest: verified_memo.note_stamp split: if_splits)
qed (use assms in \<open>auto simp: memo_ok_def reserveCarrierCheck_def Let_def on_time_def seen_reachable_def split: if_splits prod.splits\<close>)

text \<open>All of it, for every reachable state.\<close>

definition route_inv :: "carrier_env \<Rightarrow> route_system \<Rightarrow> bool" where
  "route_inv env s \<longleftrightarrow>
     ceiling_inv (rs_shared s) (rs_clock s) (rs_hist s) \<and> pace_inv (rs_shared s) (rs_hist s) \<and> slot_inv s \<and>
     memo_ok (rs_shared s) (rs_hist s) \<and> on_time (rs_hist s) \<and>
     list_all (thread_ok env (rs_clock s) (rs_hist s)) (rs_threads s)"

lemma route_inv_run:
  assumes "route_inv env s" "route_act env (Run i inp) s = Some s'"
  shows "route_inv env s'"
proof -
  from assms(2) obtain call pc pc' sh' evs where st:
    "i < length (rs_threads s)" "rs_clock s \<le> t_now inp" "t_now inp \<le> t_later inp"
    "rs_threads s ! i = (call, pc)" "route_step env inp pc (rs_shared s) = (pc', sh', evs)"
    "s' = s\<lparr>rs_shared := sh', rs_threads := (rs_threads s)[i := (call, pc')], rs_clock := t_later inp, rs_hist := evs @ rs_hist s\<rparr>"
    by (rule route_act_run)
  have inv: "ceiling_inv (rs_shared s) (rs_clock s) (rs_hist s)" "pace_inv (rs_shared s) (rs_hist s)" "slot_inv s"
    "memo_ok (rs_shared s) (rs_hist s)" "on_time (rs_hist s)" "\<forall>x \<in> set (rs_threads s). thread_ok env (rs_clock s) (rs_hist s) x"
    using assms(1) by (simp_all add: route_inv_def list_all_iff)
  have "thread_ok env (rs_clock s) (rs_hist s) (call, pc)" using inv(6) st(1,4) by (metis nth_mem)
  note ev = step_evidence [OF this inv(4,5) st(2,3,5)]
  have "thread_ok env (t_later inp) (evs @ rs_hist s) x" if "x \<in> set ((rs_threads s)[i := (call, pc')])" for x
    using set_update_subset_insert [of "rs_threads s" i] that ev inv(6) thread_ok_mono st(2,3)
    by (metis dual_order.trans insertE subsetD)
  then show ?thesis
    using ev slot_inv_run [OF inv(3) assms(2)] step_ceiling [OF inv(1) st(2,3,5)] step_pace [OF inv(2) st(5)]
    by (simp add: route_inv_def list_all_iff st(6))
qed

lemma route_inv_spawn:
  assumes "route_inv env s"
  shows "route_inv env (s\<lparr>rs_threads := rs_threads s @ [(call, start_pc env call)]\<rparr>)"
  using assms
  by (simp add: route_inv_def slot_inv_def start_pc_def held_slots_def held_grants_def split: option.splits)

lemma route_reach_inv: "route_reach env s \<Longrightarrow> route_inv env s"
proof (induction rule: route_reach.induct)
  case (start gate)
  show ?case
    by (simp add: route_init_def route_inv_def ceiling_inv_def pace_inv_def slot_inv_def memo_ok_def on_time_def
        per_thread_def in_hour_def) auto
next
  case (act s a s')
  then show ?case by (cases a) (auto intro: route_inv_run simp: route_inv_spawn simp del: route_act.simps(2))
qed

section \<open>A check on its own\<close>

text \<open>The index of the inputs the sections read, as in \<open>checkCarrierRoute\<close>, and a thread run to its end.\<close>

fun pc_point :: "route_pc \<Rightarrow> nat" where
  "pc_point (AtVerified k) = 0"
| "pc_point (AtUnreachable k) = 1"
| "pc_point (AtReserve k) = 2"
| "pc_point (AtGate k) = 3"
| "pc_point (AtWait k u) = 4"
| "pc_point (AtLookup k u) = 5"
| "pc_point (AtSuccess k r) = 6"
| "pc_point (AtNote k r) = 7"
| "pc_point (AtDone r) = 8"

fun route_solo :: "carrier_env \<Rightarrow> (nat \<Rightarrow> route_input) \<Rightarrow> nat \<Rightarrow> route_pc \<Rightarrow> carrier_shared
    \<Rightarrow> route_pc \<times> carrierRouteMemoKey list \<times> carrier_shared" where
  "route_solo env w 0 pc sh = (pc, [], sh)"
| "route_solo env w (Suc n) pc sh =
     (let (pc', sh', evs) = route_step env (w (pc_point pc)) pc sh;
          (pc'', ks, sh'') = route_solo env w n pc' sh'
      in (pc'', map fst (lookups evs) @ ks, sh''))"

lemma route_solo_done [simp]: "route_solo env w n (AtDone r) sh = (AtDone r, [], sh)"
  by (induction n) simp_all

lemma reserve_gate: "reserveCarrierCheck sh now t = (ok, sh') \<Longrightarrow> sendPathIDSGate sh' = sendPathIDSGate sh"
  by (auto simp: reserveCarrierCheck_def Let_def split: if_splits)

text \<open>The result of a thread that has its slot.\<close>

definition after_slot :: "carrier_env \<Rightarrow> (nat \<Rightarrow> route_input) \<Rightarrow> carrierRouteMemoKey \<Rightarrow> carrier_shared
    \<Rightarrow> route_pc \<times> carrierRouteMemoKey list \<times> carrier_shared" where
  "after_slot env w k sh =
     (let r = validateTargetsSafe (has_client env) (ValidateTargets (w 5)) [Target k] \<noteq> [];
          sh1 = sh\<lparr>sendPathIDSGate := recordSuccess (sendPathIDSGate sh)\<rparr>
      in (AtDone r, [k],
          if r then noteVerifiedIMessage sh1 k (t_now (w 7)) (t_later (w 7))
          else noteCheckedUnreachable sh1 k (t_now (w 7)) (t_later (w 7))))"

lemma solo_lookup: "route_solo env w (Suc (Suc (Suc n))) (AtLookup k u) sh = after_slot env w k sh"
  by (simp add: Let_def after_slot_def)

lemma solo_wait:
  "\<not> cancelled (w 4) \<longrightarrow> u \<le> t_now (w 4) \<Longrightarrow>
    route_solo env w (Suc (Suc (Suc (Suc n)))) (AtWait k u) sh =
      (if cancelled (w 4) then (AtDone False, [], sh) else after_slot env w k sh)"
  by (subst route_solo.simps(2)) (auto simp: solo_lookup Let_def simp del: route_solo.simps(2))

lemma solo_gate:
  assumes "gate_reserve (sendPathIDSGate sh) (t_now (w 3)) = (wait, gate)"
    and "\<not> cancelled (w 4) \<longrightarrow> t_now (w 3) + wait \<le> t_now (w 4)"
  shows "route_solo env w (Suc (Suc (Suc (Suc (Suc n))))) (AtGate k) sh =
    (if wait > 0 \<and> cancelled (w 4) then (AtDone False, [], sh\<lparr>sendPathIDSGate := gate\<rparr>)
     else after_slot env w k (sh\<lparr>sendPathIDSGate := gate\<rparr>))"
  using assms solo_wait [where w = w, OF assms(2)]
  by (subst route_solo.simps(2)) (auto simp: solo_lookup Let_def simp del: route_solo.simps(2))

lemma solo_reserve:
  assumes "reserveCarrierCheck sh (t_now (w 2)) (t_later (w 2)) = (ok, sh1)"
  shows "route_solo env w (Suc n) (AtReserve k) sh =
    (if ok then route_solo env w n (AtGate k) sh1 else (AtDone False, [], sh1))"
  using assms by (subst route_solo.simps(2)) (auto simp: Let_def split: prod.splits simp del: route_solo.simps(2))

lemma solo_memos:
  "route_solo env w (Suc (Suc n)) (AtVerified k) sh =
    (if recentlyVerifiedIMessage sh k (t_now (w 0)) then (AtDone True, [], sh)
     else if recentlyCheckedUnreachable sh k (t_now (w 1)) then (AtDone False, [], sh)
     else if \<not> has_client env then (AtDone False, [], sh)
     else route_solo env w n (AtReserve k) sh)"
  by (auto simp: Let_def split: prod.splits)

section \<open>Properties\<close>

text \<open>C11.
  However the sends of a client interleave, at every moment: no rolling hour holds more than sixty granted
  carrier-route reservations; there are no more identity lookups than grants; the slots the gate books lie
  at least three seconds apart, each is used by at most one lookup, and no lookup precedes its slot.
\<close>

theorem carrier_lookup_ceiling:
  assumes "route_reach env s"
  shows "(\<forall>T. in_hour T (grants (rs_hist s)) \<le> carrierCheckMaxPerHour) \<and>
    length (lookups (rs_hist s)) \<le> length (grants (rs_hist s)) \<and>
    sorted_wrt (\<lambda>a b. b + statusKitIDSMinInterval \<le> a) (slots (rs_hist s)) \<and>
    mset (used_slots (rs_hist s)) \<subseteq># mset (slots (rs_hist s)) \<and>
    list_all (\<lambda>(k, u, t, r). u \<le> t) (lookups (rs_hist s))"
proof -
  from route_reach_inv [OF assms] have inv: "ceiling_inv (rs_shared s) (rs_clock s) (rs_hist s)"
    "pace_inv (rs_shared s) (rs_hist s)" "slot_inv s" "on_time (rs_hist s)" by (simp_all add: route_inv_def)
  have used: "mset (used_slots (rs_hist s)) \<subseteq># mset (slots (rs_hist s))"
    using inv(3) by (auto simp: slot_inv_def dest: subset_mset.add_le_imp_le_left intro: mset_subset_eq_add_left subset_mset.order_trans)
  then have "length (used_slots (rs_hist s)) \<le> length (slots (rs_hist s))"
    using size_mset_mono by fastforce
  then show ?thesis using inv used
    by (simp add: ceiling_inv_def pace_inv_def slot_inv_def on_time_def used_slots_def)
qed

definition sample_env :: carrier_env where
  "sample_env = \<lparr>has_client = True, myHandles = [''mailto:me@a.b'']\<rparr>"

definition sample_call :: route_call where
  "sample_call = \<lparr>rc_portal = Some ''tel:+15551234567'', rc_sms = True, rc_participants = [''tel:+15551234567'', ''mailto:me@a.b'']\<rparr>"

definition sample_input :: "nanos \<Rightarrow> route_input" where
  "sample_input t = \<lparr>t_now = t, t_later = t, cancelled = False, ValidateTargets = (\<lambda>ts. Some ts)\<rparr>"

definition sample_route_run :: "route_system option" where
  "sample_route_run = route_exec sample_env
     (Spawn sample_call # Spawn sample_call #
      map (\<lambda>(i, t). Run i (sample_input t))
        [(0, 1), (0, 2), (1, 3), (0, 4), (0, 5), (1, 6), (0, 7), (1, 8), (1, 9), (0, 10), (0, 11), (1, 9000000000), (1, 9000000001)])
     (route_init \<lparr>nextAllowedAt = 0, consecutiveFails = 0\<rparr>)"

theorem carrier_lookup_ceiling_witness:
  "case sample_route_run of None \<Rightarrow> False
   | Some s \<Rightarrow> in_hour 100 (grants (rs_hist s)) \<le> carrierCheckMaxPerHour \<and>
       sorted_wrt (\<lambda>a b. b + statusKitIDSMinInterval \<le> a) (slots (rs_hist s)) \<and>
       length (lookups (rs_hist s)) = 2"
proof -
  obtain s where s: "sample_route_run = Some s" "length (lookups (rs_hist s)) = 2"
  proof -
    have "case sample_route_run of None \<Rightarrow> False | Some s \<Rightarrow> length (lookups (rs_hist s)) = 2" by code_simp
    then show ?thesis using that by (auto split: option.splits)
  qed
  have "route_reach sample_env s"
    using route_exec_reach [OF route_reach.start] s(1) unfolding sample_route_run_def by blast
  from carrier_lookup_ceiling [OF this] s(2) show ?thesis unfolding s(1) by simp
qed

text \<open>C12.
  A check only ever answers yes for a carrier-flagged conversation with one person, whose target is not an
  own handle, and only on evidence about exactly this portal and this target: some lookup of that pair has
  found it reachable. This holds under every interleaving of the sends.
\<close>

theorem carrier_route_evidence:
  assumes "route_reach env s" "i < length (rs_threads s)" "rs_threads s ! i = (call, AtDone True)"
  shows "\<exists>pid. rc_portal call = Some pid \<and> rc_sms call \<and> \<not> isGroupPortalID pid \<and> stripSmsSuffix pid = pid \<and>
    (let target = carrierRouteSendTarget (myHandles env) (rc_participants call)
     in target \<in> set (rc_participants call) \<and> \<not> isMyHandle (myHandles env) target \<and>
        list_ex (\<lambda>(k, u, t, r). k = \<lparr>PortalID = pid, Target = target\<rparr> \<and> r) (lookups (rs_hist s)))"
proof -
  have "thread_ok env (rs_clock s) (rs_hist s) (call, AtDone True)"
    using route_reach_inv [OF assms(1)] assms(2,3) unfolding route_inv_def list_all_length by metis
  then obtain k where k: "route_key env call = Some k" "seen_reachable (rs_hist s) k" by (auto split: option.splits)
  then obtain pid where pid: "rc_portal call = Some pid" by (auto simp: route_key_def split: option.splits)
  let ?target = "carrierRouteSendTarget (myHandles env) (rc_participants call)"
  have "?target \<noteq> [] \<Longrightarrow> ?target \<in> set (rc_participants call)"
    by (auto simp: carrierRouteSendTarget_def dest: find_Some_set split: option.splits list.splits)
  then show ?thesis using k pid
    by (auto simp: route_key_def seen_reachable_def classifyCarrierRoute_def Let_def split: if_splits)
qed

theorem carrier_route_evidence_witness:
  "case sample_route_run of None \<Rightarrow> False
   | Some s \<Rightarrow> fst (rs_threads s ! 0) = sample_call \<and> snd (rs_threads s ! 0) = AtDone True \<and>
       list_ex (\<lambda>(k, u, t, r). PortalID k = ''tel:+15551234567'' \<and> r) (lookups (rs_hist s))"
proof -
  obtain s where s: "sample_route_run = Some s" "0 < length (rs_threads s)" "rs_threads s ! 0 = (sample_call, AtDone True)"
  proof -
    have "case sample_route_run of None \<Rightarrow> False
      | Some s \<Rightarrow> 0 < length (rs_threads s) \<and> rs_threads s ! 0 = (sample_call, AtDone True)" by code_simp
    then show ?thesis using that by (auto split: option.splits)
  qed
  have "route_reach sample_env s"
    using route_exec_reach [OF route_reach.start] s(1) unfolding sample_route_run_def by blast
  from carrier_route_evidence [OF this s(2,3)] obtain target where
    "list_ex (\<lambda>(k, u, t, r). k = \<lparr>PortalID = ''tel:+15551234567'', Target = target\<rparr> \<and> r) (lookups (rs_hist s))"
    by (auto simp: sample_call_def Let_def)
  then have "list_ex (\<lambda>(k, u, t, r). PortalID k = ''tel:+15551234567'' \<and> r) (lookups (rs_hist s))"
    unfolding list_ex_iff by (rule bexE) (rule bexI, auto)
  then show ?thesis unfolding s(1) by (simp add: s(3))
qed

text \<open>
  A thread that runs its sections without another send in between, its timer having fired, ends with the
  answer, the lookups and the shared state of \<^verbatim>\<open>checkCarrierRoute\<close> read as straight-line code.
\<close>

lemma carrier_check_refined:
  assumes "\<not> cancelled (w 4) \<longrightarrow> t_now (w 3) + fst (gate_reserve (sendPathIDSGate sh) (t_now (w 3))) \<le> t_now (w 4)"
  shows "route_solo env w 8 (start_pc env call) sh =
    (case checkCarrierRoute env call w sh of (ans, ks, sh') \<Rightarrow> (AtDone ans, ks, sh'))"
proof (cases "route_key env call")
  case None
  then show ?thesis by (simp add: start_pc_def checkCarrierRoute_def)
next
  case (Some k)
  obtain ok sh1 where r: "reserveCarrierCheck sh (t_now (w 2)) (t_later (w 2)) = (ok, sh1)" by fastforce
  obtain wait gate where g: "gate_reserve (sendPathIDSGate sh1) (t_now (w 3)) = (wait, gate)" by fastforce
  have w: "\<not> cancelled (w 4) \<longrightarrow> t_now (w 3) + wait \<le> t_now (w 4)" using assms g reserve_gate [OF r] by simp
  have eight: "(8 :: nat) = Suc (Suc (Suc (Suc (Suc (Suc (Suc (Suc 0)))))))" by simp
  show ?thesis unfolding eight
    using Some r g by (simp add: start_pc_def checkCarrierRoute_def solo_memos solo_reserve [where w = w, OF r] solo_gate [where w = w, OF g w]
      after_slot_def Let_def del: route_solo.simps(2))
qed

lemma carrier_check_refined_witness:
  "route_solo sample_env (\<lambda>n. sample_input (int n)) 8 (start_pc sample_env sample_call) (rs_shared (route_init \<lparr>nextAllowedAt = 0, consecutiveFails = 0\<rparr>)) =
    (case checkCarrierRoute sample_env sample_call (\<lambda>n. sample_input (int n)) (rs_shared (route_init \<lparr>nextAllowedAt = 0, consecutiveFails = 0\<rparr>))
      of (ans, ks, sh') \<Rightarrow> (AtDone ans, ks, sh'))"
  by (rule carrier_check_refined)
    (simp add: sample_input_def route_init_def gate_reserve_def gate_interval_def Let_def statusKitIDSMinInterval_def)

end
