(* ===== verification/Cloud_Ingest.thy ===== *)
theory Cloud_Ingest
  imports Cloud_Portals Contact_Merge Cloud_Sync_State
begin

text \<open>
  Ingestion of a page of CloudKit messages (\<^verbatim>\<open>sync_controller.go\<close>): the portal a message belongs to, the
  attachments that are its, the rows it becomes and the pager that drives it. This is where the store,
  the identifiers and the contact merging meet. The CloudKit client is an argument.
\<close>

record sync_message =
  sm_RecordName :: string
  sm_Guid :: guid
  sm_CloudChatId :: string
  sm_Sender :: string
  sm_IsFromMe :: bool
  sm_Text :: "string option"
  sm_Subject :: "string option"
  sm_Service :: string
  sm_TimestampMs :: millis
  sm_Deleted :: bool
  sm_TapbackType :: "int option"
  sm_TapbackTargetGuid :: "string option"
  sm_TapbackEmoji :: "string option"
  sm_AttachmentGuids :: "string list"
  sm_DateReadMs :: millis
  sm_MsgType :: int
  sm_HasBody :: bool
  sm_ReplyGuid :: "string option"
  sm_ReplyPart :: "string option"

record cloudSyncCounters =
  Imported :: nat
  Updated :: nat
  Skipped :: nat
  Deleted :: nat
  Filtered :: nat

definition counters_add :: "cloudSyncCounters \<Rightarrow> cloudSyncCounters \<Rightarrow> cloudSyncCounters" where
  "counters_add c d =
     \<lparr>Imported = Imported c + Imported d, Updated = Updated c + Updated d, Skipped = Skipped c + Skipped d,
      Deleted = Deleted c + Deleted d, Filtered = Filtered c + Filtered d\<rparr>"

definition hasChanges :: "cloudSyncCounters \<Rightarrow> bool" where
  "hasChanges c \<longleftrightarrow> Imported c + Updated c + Deleted c + Filtered c > 0"

definition shouldRunDelayedCloudReconciliation :: "cloudSyncCounters \<Rightarrow> bool \<Rightarrow> bool \<Rightarrow> bool \<Rightarrow> bool" where
  "shouldRunDelayedCloudReconciliation counts currentPassFailed previousPassFailed portalReconciliationPending \<longleftrightarrow>
     hasChanges counts \<or> currentPassFailed \<or> previousPassFailed \<or> portalReconciliationPending"

definition counted :: "cloudSyncCounters \<Rightarrow> nat" where
  "counted c = Imported c + Updated c + Skipped c + Deleted c + Filtered c"

definition ptrStringOr :: "string option \<Rightarrow> string \<Rightarrow> string" where
  "ptrStringOr s def = (case s of None \<Rightarrow> def | Some v \<Rightarrow> v)"

section \<open>The portal of a message\<close>

text \<open>The regular expressions \<^verbatim>\<open>uuidPattern\<close> and \<^verbatim>\<open>hexGroupPattern\<close>.\<close>

definition hex_char :: "char \<Rightarrow> bool" where
  "hex_char c \<longleftrightarrow> (48 \<le> byte c \<and> byte c \<le> 57) \<or> (97 \<le> byte (lower_char c) \<and> byte (lower_char c) \<le> 102)"

definition uuidPattern :: "string \<Rightarrow> bool" where
  "uuidPattern s \<longleftrightarrow>
     (let ps = split_on (CHR ''-'') s
      in map length ps = [8, 4, 4, 4, 12] \<and> list_all (list_all hex_char) ps)"

definition hexGroupPattern :: "string \<Rightarrow> bool" where
  "hexGroupPattern s \<longleftrightarrow> 40 \<le> length s \<and> length s \<le> 128 \<and> list_all hex_char s"

definition isNumericSuffix :: "string \<Rightarrow> bool" where
  "isNumericSuffix s \<longleftrightarrow> s \<noteq> [] \<and> list_all (\<lambda>c. \<not> (c < 48 \<or> c > 57)) (range_runes s)"

definition resolveExistingDMPortalID :: "merge_client \<Rightarrow> 'e bridge_db \<Rightarrow> string \<Rightarrow> portal_id" where
  "resolveExistingDMPortalID c db identifier =
     (if identifier = [] \<or> contains identifier '','' then identifier
      else
        let contact = (if \<not> isMyHandle (mc_handles c) identifier then lookupContact c identifier else None);
            (chosen, err) = chooseExistingDMPortalID identifier contact (Some (isMyHandle (mc_handles c)))
              (Some (findExistingDMPortalCandidateForCandidates db (mc_login c)))
        in (case err of Some _ \<Rightarrow> identifier | None \<Rightarrow> chosen))"

text \<open>The client of an ingest: the store, the contacts, the own handle, the bridge's tables.\<close>

record 'e ingest_client =
  ic_store :: cloudBackfillStore
  ic_merge :: merge_client
  ic_handle :: string
  ic_bridge :: "'e bridge_db"

definition dm_portal :: "'e ingest_client \<Rightarrow> string \<Rightarrow> portal_id" where
  "dm_portal c normalized =
     resolveExistingDMPortalID (ic_merge c) (ic_bridge c) (resolveContactPortalID (ic_merge c) (ic_bridge c) normalized)"

text \<open>The group a chat ID names by itself: a UUID, a bare hash, or what follows the group separator.\<close>

definition group_chat_id :: "string \<Rightarrow> portal_id option" where
  "group_chat_id chatID =
     (if chatID \<noteq> [] \<and> uuidPattern chatID then Some (''gid:'' @ to_lower chatID)
      else if chatID \<noteq> [] \<and> hexGroupPattern chatID then Some (''gid:'' @ to_lower chatID)
      else
        (case index_of chatID '';+;'' of
           None \<Rightarrow> None
         | Some i \<Rightarrow> if drop (i + 3) chatID \<noteq> [] then Some (''gid:'' @ to_lower (drop (i + 3) chatID)) else None))"

definition sender_portal :: "'e ingest_client \<Rightarrow> sync_message \<Rightarrow> portal_id option" where
  "sender_portal c msg =
     (if sm_Sender msg \<noteq> [] \<and> \<not> sm_IsFromMe msg then
        let normalized = normalizeIdentifierForPortalID (sm_Sender msg)
        in if normalized \<noteq> [] then Some (dm_portal c normalized) else None
      else None)"

definition recipient_portal :: "'e ingest_client \<Rightarrow> sync_message \<Rightarrow> portal_id option" where
  "recipient_portal c msg =
     (if sm_IsFromMe msg \<and> sm_CloudChatId msg \<noteq> [] then
        let parts = split_on (CHR '';'') (sm_CloudChatId msg);
            recipient = (if length parts = 3 then parts ! 2
                         else if \<not> contains (sm_CloudChatId msg) '';'' then sm_CloudChatId msg else [])
        in if recipient \<noteq> [] then
             let normalized = normalizeIdentifierForPortalID recipient
             in if normalized \<noteq> [] \<and> (has_prefix normalized ''tel:'' \<or> has_prefix normalized ''mailto:'')
                then Some (dm_portal c normalized) else None
           else None
      else None)"

definition self_portal :: "'e ingest_client \<Rightarrow> sync_message \<Rightarrow> portal_id" where
  "self_portal c msg =
     (if sm_IsFromMe msg \<and> has_prefix (to_lower (sm_CloudChatId msg)) ''chat'' \<and> isNumericSuffix (drop 4 (sm_CloudChatId msg))
      then normalizeIdentifierForPortalID (ic_handle c)
      else [])"

definition resolveConversationID :: "'e ingest_client \<Rightarrow> cloud_db \<Rightarrow> sync_message \<Rightarrow> portal_id" where
  "resolveConversationID c db msg =
     (let chatID = sm_CloudChatId msg;
          known = (if chatID \<noteq> [] then getChatPortalID (ic_store c) db chatID else [])
      in if known \<noteq> [] then known
         else
           case group_chat_id chatID of
             Some p \<Rightarrow> p
           | None \<Rightarrow>
               (case sender_portal c msg of
                  Some p \<Rightarrow> p
                | None \<Rightarrow> (case recipient_portal c msg of Some p \<Rightarrow> p | None \<Rightarrow> self_portal c msg)))"

section \<open>The attachments of a message\<close>

text \<open>
  The attachment map, in the order in which a \<^verbatim>\<open>range\<close> over it visits the entries (unspecified in Go);
  \<open>None\<close> is the nil map.
\<close>

type_synonym att_map = "(string \<times> cloudAttachmentRow) list option"

text \<open>The message an attachment GUID \<^verbatim>\<open>at_<index>_<message>\<close> names.\<close>

definition att_owner :: "string \<Rightarrow> guid option" where
  "att_owner attGUID =
     (if \<not> has_prefix attGUID ''at_'' then None
      else
        let rest = drop 3 attGUID
        in case index_of rest ''_'' of
             None \<Rightarrow> None
           | Some u \<Rightarrow> if u = 0 \<or> u = length rest - 1 then None else Some (drop (u + 1) rest))"

definition attachmentsByMessage :: "(string \<times> cloudAttachmentRow) list \<Rightarrow> guid \<Rightarrow> string list" where
  "attachmentsByMessage atts key =
     filter (\<lambda>a. case att_owner a of
         None \<Rightarrow> False
       | Some msgGUID \<Rightarrow> msgGUID = key \<or> (to_lower msgGUID \<noteq> msgGUID \<and> to_lower msgGUID = key)) (map fst atts)"

definition attMapLowercased :: "(string \<times> cloudAttachmentRow) list \<Rightarrow> string \<Rightarrow> string option" where
  "attMapLowercased atts key =
     find (\<lambda>a. to_lower a = key) (rev (filter (\<lambda>a. has_prefix a ''at_'') (map fst atts)))"

definition merged_guids :: "(string \<times> cloudAttachmentRow) list \<Rightarrow> sync_message \<Rightarrow> string list" where
  "merged_guids atts msg =
     (let own = dedup (filter (\<lambda>g. g \<noteq> []) (sm_AttachmentGuids msg));
          exact = dedup_seen own (sort (attachmentsByMessage atts (sm_Guid msg)));
          low = to_lower (sm_Guid msg);
          folded = (if low \<noteq> sm_Guid msg then dedup_seen (own @ exact) (attachmentsByMessage atts low) else [])
      in own @ exact @ folded)"

definition attachment_row :: "(string \<times> cloudAttachmentRow) list \<Rightarrow> string \<Rightarrow> cloudAttachmentRow option" where
  "attachment_row atts g =
     (case map_of atts g of
        Some row \<Rightarrow> Some row
      | None \<Rightarrow> (case attMapLowercased atts (to_lower g) of None \<Rightarrow> None | Some orig \<Rightarrow> map_of atts orig))"

definition attachmentsJSON :: "att_map \<Rightarrow> sync_message \<Rightarrow> cloudAttachmentRow list json_text" where
  "attachmentsJSON attMap msg =
     (case attMap of
        None \<Rightarrow> JEmpty
      | Some atts \<Rightarrow>
          let rows = non_null (map (attachment_row atts) (merged_guids atts msg))
          in if rows \<noteq> [] then JDoc rows else JEmpty)"

section \<open>Ingesting a page\<close>

text \<open>What becomes of one live message: left out with a reason, or a row.\<close>

datatype ingest_outcome = Skip | Filter | Store cloudMessageRow

definition message_row :: "(portal_id \<Rightarrow> bool) \<Rightarrow> att_map \<Rightarrow> millis \<Rightarrow> portal_id \<Rightarrow> sync_message \<Rightarrow> cloudMessageRow" where
  "message_row deletedPortals attMap now portalID msg =
     \<lparr>row_GUID = sm_Guid msg, row_RecordName = sm_RecordName msg, row_CloudChatID = sm_CloudChatId msg,
      row_PortalID = portalID,
      row_TimestampMS = (if sm_TimestampMs msg \<le> 0 then now else sm_TimestampMs msg),
      row_Sender = sm_Sender msg, row_IsFromMe = sm_IsFromMe msg,
      row_Text = ptrStringOr (sm_Text msg) [], row_Subject = ptrStringOr (sm_Subject msg) [],
      row_Service = sm_Service msg, row_Deleted = deletedPortals portalID,
      row_TapbackType = sm_TapbackType msg, row_TapbackTargetGUID = ptrStringOr (sm_TapbackTargetGuid msg) [],
      row_TapbackEmoji = ptrStringOr (sm_TapbackEmoji msg) [], row_AttachmentsJSON = attachmentsJSON attMap msg,
      row_DateReadMS = sm_DateReadMs msg, row_HasBody = sm_HasBody msg,
      row_ReplyToGUID = ptrStringOr (sm_ReplyGuid msg) [], row_ReplyToPart = ptrStringOr (sm_ReplyPart msg) [],
      row_BodyScrubbed = False, row_WriteActivityTS = 0\<rparr>"

definition ingest_message :: "'e ingest_client \<Rightarrow> (portal_id \<Rightarrow> bool) \<Rightarrow> att_map \<Rightarrow> portal_id \<Rightarrow> cloud_db \<Rightarrow> millis
    \<Rightarrow> sync_message \<Rightarrow> ingest_outcome" where
  "ingest_message c deletedPortals attMap preferredPortalID db now msg =
     (if sm_Guid msg = [] then Skip
      else
        let resolved = resolveConversationID c db msg;
            portalID = (if resolved = [] then preferredPortalID else resolved)
        in if portalID = [] then Skip
           else if portalIsExplicitlyDeleted (ic_store c) portalID db then Filter
           else if sm_CloudChatId msg = [] \<and> \<not> portalHasChat (ic_store c) portalID db then Filter
           else Store (message_row deletedPortals attMap now portalID msg))"

definition count_outcome :: "guid set \<Rightarrow> ingest_outcome \<Rightarrow> cloudSyncCounters \<Rightarrow> cloudSyncCounters" where
  "count_outcome existing outcome counts =
     (case outcome of
        Skip \<Rightarrow> counts\<lparr>Skipped := Skipped counts + 1\<rparr>
      | Filter \<Rightarrow> counts\<lparr>Filtered := Filtered counts + 1\<rparr>
      | Store row \<Rightarrow>
          if row_GUID row \<in> existing then counts\<lparr>Updated := Updated counts + 1\<rparr>
          else counts\<lparr>Imported := Imported counts + 1\<rparr>)"

text \<open>
  The page. \<open>clock 0\<close> is read by the deletes, \<open>clock 1\<close> by the import, \<open>clock (i + 2)\<close> for the \<open>i\<close>-th live
  message. The rows are decided on the database after the deletes; nothing is written in between.
\<close>

definition ingestCloudMessages :: "'e ingest_client \<Rightarrow> (portal_id \<Rightarrow> bool) \<Rightarrow> att_map \<Rightarrow> portal_id \<Rightarrow> (nat \<Rightarrow> millis)
    \<Rightarrow> sync_message list \<Rightarrow> cloudSyncCounters \<Rightarrow> cloud_db \<Rightarrow> cloudSyncCounters \<times> cloud_db" where
  "ingestCloudMessages c deletedPortals attMap preferredPortalID clock messages counts db =
     (let s = ic_store c;
          gone = filter sm_Deleted messages;
          live = filter (\<lambda>m. \<not> sm_Deleted m) messages;
          db1 = deleteMessageBatch s (clock 0) (filter (\<lambda>g. g \<noteq> []) (map sm_Guid gone)) db;
          existing = hasMessageBatch s (filter (\<lambda>g. g \<noteq> []) (map sm_Guid live)) db1;
          outcomes = map (\<lambda>(i, m). ingest_message c deletedPortals attMap preferredPortalID db1 (clock (i + 2)) m)
            (enumerate 0 live);
          counts' = fold (count_outcome existing) outcomes (counts\<lparr>Deleted := Deleted counts + length gone\<rparr>);
          batch = concat (map (\<lambda>out. case out of Store row \<Rightarrow> [row] | _ \<Rightarrow> []) outcomes)
      in (counts', upsertMessageBatch s (clock 1) batch db1))"

section \<open>Every message is accounted for\<close>

lemma counted_outcome: "counted (count_outcome existing out counts) = Suc (counted counts)"
  by (simp add: count_outcome_def counted_def split: ingest_outcome.splits)

lemma counted_outcomes: "counted (fold (count_outcome existing) outs counts) = counted counts + length outs"
  by (induction outs arbitrary: counts) (simp_all add: counted_outcome)

section \<open>Attachments\<close>

lemma attachmentsByMessage_owner:
  "a \<in> fst ` set atts \<Longrightarrow> att_owner a = Some key \<Longrightarrow> a \<in> set (attachmentsByMessage atts key)"
  "a \<in> fst ` set atts \<Longrightarrow> att_owner a = Some g \<Longrightarrow> to_lower g = key \<Longrightarrow> a \<in> set (attachmentsByMessage atts key)"
  by (auto simp: attachmentsByMessage_def)

text \<open>An attachment whose GUID names the message, in whatever letter case, is among the message's.\<close>

lemma merged_guids_owner:
  assumes "a \<in> fst ` set atts" "att_owner a = Some g" "to_lower g = to_lower (sm_Guid msg)"
  shows "a \<in> set (merged_guids atts msg)"
proof (cases "to_lower (sm_Guid msg) = sm_Guid msg")
  case True
  then have "a \<in> set (attachmentsByMessage atts (sm_Guid msg))" using attachmentsByMessage_owner(2) [OF assms(1,2)] assms(3) by simp
  then show ?thesis by (auto simp: merged_guids_def Let_def)
next
  case False
  have "a \<in> set (attachmentsByMessage atts (to_lower (sm_Guid msg)))" using attachmentsByMessage_owner(2) [OF assms(1,2)] assms(3) by simp
  then show ?thesis using False by (auto simp: merged_guids_def Let_def)
qed

lemma merged_guids_own: "g \<in> set (sm_AttachmentGuids msg) \<Longrightarrow> g \<noteq> [] \<Longrightarrow> g \<in> set (merged_guids atts msg)"
  by (auto simp: merged_guids_def Let_def)

lemma distinct_merged_guids: "distinct (merged_guids atts msg)"
  by (auto simp: merged_guids_def Let_def)

section \<open>Rows of a page\<close>

definition page_rows :: "'e ingest_client \<Rightarrow> (portal_id \<Rightarrow> bool) \<Rightarrow> att_map \<Rightarrow> portal_id \<Rightarrow> (nat \<Rightarrow> millis)
    \<Rightarrow> sync_message list \<Rightarrow> cloud_db \<Rightarrow> cloudMessageRow list" where
  "page_rows c deletedPortals attMap preferredPortalID clock live db =
     concat (map (\<lambda>out. case out of Store row \<Rightarrow> [row] | _ \<Rightarrow> [])
       (map (\<lambda>(i, m). ingest_message c deletedPortals attMap preferredPortalID db (clock (i + 2)) m) (enumerate 0 live)))"

lemma page_rows_mem:
  assumes "row \<in> set (page_rows c deletedPortals attMap pref clock live db)"
  shows "\<not> portalIsExplicitlyDeleted (ic_store c) (row_PortalID row) db \<and> row_PortalID row \<noteq> [] \<and> row_GUID row \<noteq> [] \<and>
    row_Deleted row = deletedPortals (row_PortalID row) \<and>
    (\<exists>m \<in> set live. row_GUID row = sm_Guid m \<and> row_AttachmentsJSON row = attachmentsJSON attMap m)"
proof -
  from assms obtain i m where m: "(i, m) \<in> set (enumerate 0 live)"
    "ingest_message c deletedPortals attMap pref db (clock (i + 2)) m = Store row"
    by (auto simp: page_rows_def split: ingest_outcome.splits)
  have "m \<in> set live" using m(1) by (metis enumerate_eq_zip set_zip_rightD)
  with m(2) show ?thesis
    by (auto simp: ingest_message_def message_row_def Let_def split: if_splits)
qed

text \<open>
  A row an import leaves is an old one, or comes from one of the imported rows: it then has that row's
  portal, and is live only if the imported row is and no row under its key was deleted before.
\<close>

definition revivable :: "cloud_message_row list \<Rightarrow> cloud_message_row \<Rightarrow> bool" where
  "revivable rs r \<longleftrightarrow> message_key r \<notin> message_key ` set rs \<or> (\<exists>old \<in> set rs. message_key old = message_key r \<and> \<not> m_deleted old)"

definition imported_from :: "cloudBackfillStore \<Rightarrow> cloudMessageRow list \<Rightarrow> cloud_message_row list \<Rightarrow> cloud_message_row \<Rightarrow> bool" where
  "imported_from s rows rs r \<longleftrightarrow> (\<exists>row \<in> set rows. m_guid r = row_GUID row \<and> m_login_id r = loginID s \<and>
     m_portal_id r = Some (row_PortalID row) \<and> (\<not> m_deleted r \<longrightarrow> \<not> row_Deleted row \<and> revivable rs r))"

lemma upsert_batch_row:
  assumes "r \<in> set (cloud_message (upsertMessageBatch s now rows db))"
  shows "r \<in> set (cloud_message db) \<or> imported_from s rows (cloud_message db) r"
proof -
  let ?rs0 = "cloud_message db"
  let ?I = "\<lambda>rs. message_key ` set ?rs0 \<subseteq> message_key ` set rs \<and> (\<forall>r \<in> set rs. r \<in> set ?rs0 \<or> imported_from s rows ?rs0 r)"
  have "?I (fold (\<lambda>row. upsert message_key upsert_message_merge (message_of_row s now row)) (dedupe_rows rows) ?rs0)"
  proof (rule fold_invariant)
    fix row rs
    let ?new = "message_of_row s now row"
    assume row: "row \<in> set (dedupe_rows rows)" and inv: "?I rs"
    have row': "row \<in> set rows" using row dedupe_rows_subset by blast
    have "r' \<in> set ?rs0 \<or> imported_from s rows ?rs0 r'" if r': "r' \<in> set (upsert message_key upsert_message_merge ?new rs)" for r'
      using message_upsert.set_upsert [OF r']
    proof (elim disjE conjE bexE)
      assume "r' = ?new" "message_key ?new \<notin> message_key ` set rs"
      with inv have "revivable ?rs0 r'" by (auto simp: revivable_def)
      with row' \<open>r' = ?new\<close> show ?thesis by (auto simp: imported_from_def message_of_row_def)
    next
      fix old assume old: "old \<in> set rs" "message_key old = message_key ?new" "r' = upsert_message_merge old ?new"
      then have k: "message_key r' = message_key old" by (simp add: message_key_def upsert_message_merge_def)
      have "revivable ?rs0 r'" if "\<not> m_deleted r'"
      proof -
        have live: "\<not> m_deleted old" using that old(3) by (auto simp: upsert_message_merge_def)
        from inv old(1) consider "old \<in> set ?rs0" | "imported_from s rows ?rs0 old" by blast
        then show ?thesis
        proof cases
          case 1
          with live k show ?thesis by (auto simp: revivable_def)
        next
          case 2
          with live k show ?thesis by (auto simp: imported_from_def revivable_def)
        qed
      qed
      with row' old show ?thesis by (auto simp: imported_from_def upsert_message_merge_def message_of_row_def message_key_def)
    qed (use inv in blast)
    moreover have "message_key ` set rs \<subseteq> message_key ` set (upsert message_key upsert_message_merge ?new rs)"
      by (rule message_upsert.keys_upsert_mono)
    ultimately show "?I (upsert message_key upsert_message_merge ?new rs)" using inv by blast
  qed simp
  then show ?thesis using assms by (auto simp: upsertMessageBatch_def split: if_splits)
qed

lemma delete_batch_row:
  assumes "r \<in> set (cloud_message (deleteMessageBatch s now guids db))"
  shows "r \<in> set (cloud_message db) \<or> m_deleted r"
proof -
  let ?f = "\<lambda>r. (scrub_body r)\<lparr>m_deleted := True, m_updated_ts := now\<rparr>"
  have "\<forall>r \<in> set (fold (\<lambda>chunk. update_where (\<lambda>r. (m_login_id r = loginID s \<and> \<not> m_deleted r) \<and> m_guid r \<in> set chunk) ?f)
      (chunks 500 guids) (cloud_message db)). r \<in> set (cloud_message db) \<or> m_deleted r"
    by (rule fold_invariant) (auto simp: update_where_def)
  then show ?thesis using assms by (simp add: deleteMessageBatch_def)
qed

lemma delete_batch_gone:
  assumes "r \<in> set (cloud_message (deleteMessageBatch s now guids db))" "m_login_id r = loginID s" "m_guid r \<in> set guids"
  shows "m_deleted r"
proof -
  have "deleteMessageBatch s now guids db = db\<lparr>cloud_message :=
      update_where (\<lambda>r. (m_login_id r = loginID s \<and> \<not> m_deleted r) \<and> m_guid r \<in> set guids)
        (\<lambda>r. (scrub_body r)\<lparr>m_deleted := True, m_updated_ts := now\<rparr>) (cloud_message db)\<rparr>"
    using fold_update_where_concat [of "\<lambda>r. m_login_id r = loginID s \<and> \<not> m_deleted r"
        "\<lambda>r. (scrub_body r)\<lparr>m_deleted := True, m_updated_ts := now\<rparr>" m_guid "chunks 500 guids"]
    by (simp add: deleteMessageBatch_def)
  with assms show ?thesis by (auto simp: update_where_def scrub_body_def split: if_splits)
qed

lemma ingest_unfold:
  "ingestCloudMessages c deletedPortals attMap pref clock messages counts db =
    (let live = filter (\<lambda>m. \<not> sm_Deleted m) messages;
         db1 = deleteMessageBatch (ic_store c) (clock 0) (filter (\<lambda>g. g \<noteq> []) (map sm_Guid (filter sm_Deleted messages))) db
     in (fst (ingestCloudMessages c deletedPortals attMap pref clock messages counts db),
         upsertMessageBatch (ic_store c) (clock 1) (page_rows c deletedPortals attMap pref clock live db1) db1))"
  by (simp add: ingestCloudMessages_def page_rows_def Let_def)

section \<open>The attachment column\<close>

text \<open>The column holds exactly the rows the merged list of GUIDs finds.\<close>

lemma attachmentsJSON_mem:
  assumes "g \<in> set (merged_guids atts msg)" "attachment_row atts g = Some row"
  shows "case attachmentsJSON (Some atts) msg of JDoc rows \<Rightarrow> row \<in> set rows | _ \<Rightarrow> False"
proof -
  have "row \<in> set (non_null (map (attachment_row atts) (merged_guids atts msg)))" using assms by force
  moreover from this have "non_null (map (attachment_row atts) (merged_guids atts msg)) \<noteq> []" by (metis length_pos_if_in_set less_nat_zero_code list.size(3))
  ultimately show ?thesis by (simp add: attachmentsJSON_def Let_def del: set_non_null)
qed

lemma attachment_row_folded:
  assumes "has_prefix a ''at_''" "a \<in> fst ` set atts" "to_lower a = to_lower g"
  shows "\<exists>a' r. attachment_row atts g = Some r \<and> map_of atts a' = Some r \<and> to_lower a' = to_lower g"
proof (cases "map_of atts g")
  case (Some r)
  then show ?thesis by (auto simp: attachment_row_def)
next
  case None
  have "attMapLowercased atts (to_lower g) \<noteq> None"
    using assms unfolding attMapLowercased_def find_None_iff by force
  then obtain a' where a': "attMapLowercased atts (to_lower g) = Some a'" by blast
  have "a' \<in> set (rev (filter (\<lambda>a. has_prefix a ''at_'') (map fst atts))) \<and> to_lower a' = to_lower g"
    using a' unfolding attMapLowercased_def find_Some_iff by (metis nth_mem)
  then have "to_lower a' = to_lower g" "a' \<in> fst ` set atts" by auto
  moreover obtain r where "map_of atts a' = Some r" using calculation(2) by (metis map_of_eq_None_iff not_None_eq)
  ultimately show ?thesis using None a' by (auto simp: attachment_row_def)
qed

section \<open>Properties\<close>

text \<open>C13.
  Ingesting a page of CloudKit messages revives nothing: every row that was deleted, or deleted on its own, or
  had lost its body, still is, under its key. A row that is live afterwards was there before, unchanged, or
  belongs to a portal that is neither explicitly deleted nor recently deleted, and then was live before or
  is new. A GUID the page deletes, and does not deliver live as well, has no live row afterwards. Chats are
  not touched, and every message of the page is counted exactly once.
\<close>

theorem ingest_respects_deletions:
  fixes c :: "'e ingest_client"
  defines "s \<equiv> ic_store c"
  assumes "ingestCloudMessages c deletedPortals attMap pref clock messages counts db = (counts', db')"
  shows "(\<forall>r \<in> set (cloud_message db). \<exists>r' \<in> set (cloud_message db'). message_key r' = message_key r \<and>
      (m_deleted r \<longrightarrow> m_deleted r') \<and> (m_message_deleted r \<longrightarrow> m_message_deleted r') \<and> (body_gone r \<longrightarrow> body_gone r')) \<and>
    (\<forall>r \<in> set (cloud_message db'). \<not> m_deleted r \<longrightarrow> r \<in> set (cloud_message db) \<or>
      (\<exists>p. m_portal_id r = Some p \<and> \<not> portalIsExplicitlyDeleted s p db \<and> \<not> deletedPortals p) \<and>
      (message_key r \<notin> message_key ` set (cloud_message db) \<or>
       (\<exists>old \<in> set (cloud_message db). message_key old = message_key r \<and> \<not> m_deleted old))) \<and>
    (\<forall>r \<in> set (cloud_message db'). m_login_id r = loginID s \<and> m_guid r \<noteq> [] \<and>
       m_guid r \<in> sm_Guid ` set (filter sm_Deleted messages) \<and>
       m_guid r \<notin> sm_Guid ` set (filter (\<lambda>m. \<not> sm_Deleted m) messages) \<longrightarrow> m_deleted r) \<and>
    cloud_chat db' = cloud_chat db \<and>
    counted counts' = counted counts + length messages"
proof -
  let ?live = "filter (\<lambda>m. \<not> sm_Deleted m) messages" and ?gone = "filter sm_Deleted messages"
  let ?guids = "filter (\<lambda>g. g \<noteq> []) (map sm_Guid ?gone)"
  let ?db = "deleteMessageBatch s (clock 0) ?guids db"
  let ?rows = "page_rows c deletedPortals attMap pref clock ?live ?db"
  have db': "db' = upsertMessageBatch s (clock 1) ?rows ?db"
    using assms(2) ingest_unfold [of c deletedPortals attMap pref clock messages counts db] by (simp add: s_def Let_def)
  have chat: "cloud_chat ?db = cloud_chat db" by (simp add: deleteMessageBatch_def)
  have del: "portalIsExplicitlyDeleted s p ?db = portalIsExplicitlyDeleted s p db" for p
    by (simp add: portalIsExplicitlyDeleted_def chat_rows_def chat)
  have keeps: "tomb.keeps (cloud_message db) (cloud_message ?db)" by (rule deleteMessageBatch_keeps)
  then have kept: "tomb.keeps (cloud_message db) (cloud_message db')"
    unfolding db' by (rule tomb.keeps_trans) (rule upsert_keeps)
  have old: "\<forall>r \<in> set (cloud_message db). \<exists>r' \<in> set (cloud_message db'). message_key r' = message_key r \<and>
      (m_deleted r \<longrightarrow> m_deleted r') \<and> (m_message_deleted r \<longrightarrow> m_message_deleted r') \<and> (body_gone r \<longrightarrow> body_gone r')"
    using kept by (simp only: tomb.keeps_def tomb_le_def)
  have revivable: "revivable (cloud_message db) r" if "revivable (cloud_message ?db) r" for r
    using that unfolding revivable_def
  proof
    assume "message_key r \<notin> message_key ` set (cloud_message ?db)"
    moreover have "message_key ` set (cloud_message db) \<subseteq> message_key ` set (cloud_message ?db)"
      by (rule image_subsetI) (use tomb.keeps_row [OF keeps] in \<open>metis imageI\<close>)
    ultimately show "message_key r \<notin> message_key ` set (cloud_message db) \<or>
        (\<exists>old \<in> set (cloud_message db). message_key old = message_key r \<and> \<not> m_deleted old)" by blast
  qed (use delete_batch_row in blast)
  have fresh: "r \<in> set (cloud_message db) \<or> (\<exists>p. m_portal_id r = Some p \<and> \<not> portalIsExplicitlyDeleted s p db \<and> \<not> deletedPortals p) \<and>
      revivable (cloud_message db) r"
    if r: "r \<in> set (cloud_message db')" "\<not> m_deleted r" for r
    using upsert_batch_row [OF r(1) [unfolded db']]
  proof
    assume "r \<in> set (cloud_message ?db)"
    then show ?thesis using delete_batch_row r(2) by blast
  next
    assume "imported_from s ?rows (cloud_message ?db) r"
    then obtain row where row: "row \<in> set ?rows" "m_portal_id r = Some (row_PortalID row)" "\<not> row_Deleted row"
      "revivable (cloud_message ?db) r" using r(2) by (auto simp: imported_from_def)
    with page_rows_mem [OF row(1)] show ?thesis using del revivable [OF row(4)] by (auto simp: s_def)
  qed
  have gone: "m_deleted r" if r: "r \<in> set (cloud_message db')" "m_login_id r = loginID s" "m_guid r \<noteq> []"
      "m_guid r \<in> sm_Guid ` set ?gone" "m_guid r \<notin> sm_Guid ` set ?live" for r
    using upsert_batch_row [OF r(1) [unfolded db']]
  proof
    assume "r \<in> set (cloud_message ?db)"
    then show ?thesis using delete_batch_gone [of r s "clock 0" ?guids db] r(2,3,4) by auto
  next
    assume "imported_from s ?rows (cloud_message ?db) r"
    then obtain row where "row \<in> set ?rows" "m_guid r = row_GUID row" by (auto simp: imported_from_def)
    with page_rows_mem [OF this(1)] show ?thesis using r(5) by auto
  qed
  have "cloud_chat db' = cloud_chat db" unfolding db' by (simp add: upsertMessageBatch_def chat)
  moreover have "counted counts' = counted counts + length messages"
  proof -
    have "length ?gone + length ?live = length messages" using sum_length_filter_compl [of sm_Deleted messages] .
    moreover have "counted (counts\<lparr>Deleted := Deleted counts + length ?gone\<rparr>) = counted counts + length ?gone" by (simp add: counted_def)
    ultimately show ?thesis using assms(2) by (auto simp: ingestCloudMessages_def Let_def counted_outcomes)
  qed
  ultimately show ?thesis using old fresh gone unfolding revivable_def by blast
qed

definition sample_message :: "guid \<Rightarrow> string \<Rightarrow> bool \<Rightarrow> sync_message" where
  "sample_message g chat gone = \<lparr>sm_RecordName = ''rec'', sm_Guid = g, sm_CloudChatId = chat, sm_Sender = ''mailto:a@x'',
     sm_IsFromMe = False, sm_Text = Some ''hi'', sm_Subject = None, sm_Service = ''iMessage'', sm_TimestampMs = 5,
     sm_Deleted = gone, sm_TapbackType = None, sm_TapbackTargetGuid = None, sm_TapbackEmoji = None,
     sm_AttachmentGuids = [''AT_0_x''], sm_DateReadMs = 0, sm_MsgType = 0, sm_HasBody = True, sm_ReplyGuid = None, sm_ReplyPart = None\<rparr>"

definition sample_ingest :: "unit ingest_client" where
  "sample_ingest = \<lparr>ic_store = sample_store, ic_merge = sample_client, ic_handle = ''mailto:me@x.y'', ic_bridge = sample_bridge\<rparr>"

definition no_counts :: cloudSyncCounters where
  "no_counts = \<lparr>Imported = 0, Updated = 0, Skipped = 0, Deleted = 0, Filtered = 0\<rparr>"

text \<open>A page for a live chat and a deleted one, with a message that was deleted on its own.\<close>

definition sample_page :: "sync_message list" where
  "sample_page = [sample_message ''g1'' ''a@x'' False, sample_message ''g2'' ''b@x'' False, sample_message ''g3'' [] True,
     sample_message ''g4'' ''a@x'' False]"

definition sample_page_db :: cloud_db where
  "sample_page_db = softDeleteMessageByGUID sample_store 1 ''g4'' ''mailto:a@x''
     (insertDeletedChatTombstone sample_store 2 ''b@x'' ''mailto:b@x'' ''recb'' [] [] None JEmpty sample_chat_db)"

definition sample_page_result :: "cloudSyncCounters \<times> cloud_db" where
  "sample_page_result = ingestCloudMessages sample_ingest (\<lambda>_. False) None [] (\<lambda>_. 7) sample_page no_counts sample_page_db"

theorem ingest_respects_deletions_witness:
  "(\<exists>r \<in> set (cloud_message (snd sample_page_result)). m_guid r = ''g4'' \<and> m_deleted r \<and> body_gone r) \<and>
   map m_guid (cloud_message (snd sample_page_result)) = [''g4'', ''g1''] \<and> counted (fst sample_page_result) = 4 \<and>
   Filtered (fst sample_page_result) = 1"
proof -
  have run: "ingestCloudMessages sample_ingest (\<lambda>_. False) None [] (\<lambda>_. 7) sample_page no_counts sample_page_db =
      (fst sample_page_result, snd sample_page_result)"
    by (simp add: sample_page_result_def)
  note all = ingest_respects_deletions [OF run]
  have "list_ex (\<lambda>r. m_guid r = ''g4'' \<and> m_deleted r \<and> body_gone r) (cloud_message sample_page_db)" by code_simp
  then obtain r where r: "r \<in> set (cloud_message sample_page_db)" "m_guid r = ''g4''" "m_deleted r" "body_gone r"
    by (auto simp: list_ex_iff)
  with bspec [OF all [THEN conjunct1] r(1)] have "\<exists>r \<in> set (cloud_message (snd sample_page_result)). m_guid r = ''g4'' \<and> m_deleted r \<and> body_gone r"
    by (auto simp: message_key_def)
  moreover have "counted (fst sample_page_result) = counted no_counts + length sample_page" using all by blast
  moreover have "counted no_counts = 0" "length sample_page = 4" by (simp_all add: counted_def no_counts_def sample_page_def)
  moreover have "map m_guid (cloud_message (snd sample_page_result)) = [''g4'', ''g1''] \<and> Filtered (fst sample_page_result) = 1" by code_simp
  ultimately show ?thesis by simp
qed

text \<open>C15.
  No attachment is lost on the way into the cache. Every attachment the account's attachment map has for a
  message, by the message's own list or because its GUID names the message in whatever letter case, is in
  the row's attachments; so is every listed attachment the map has under another letter case. A listed GUID
  comes once, and without a match the column is empty.
\<close>

theorem message_attachments_complete:
  "(map_of atts a = Some row \<and>
     (a \<in> set (sm_AttachmentGuids msg) \<and> a \<noteq> [] \<or>
      (case att_owner a of None \<Rightarrow> False | Some g \<Rightarrow> to_lower g = to_lower (sm_Guid msg))) \<longrightarrow>
     (case attachmentsJSON (Some atts) msg of JDoc rows \<Rightarrow> row \<in> set rows | _ \<Rightarrow> False)) \<and>
   (g \<in> set (sm_AttachmentGuids msg) \<and> g \<noteq> [] \<and> has_prefix a ''at_'' \<and> a \<in> fst ` set atts \<and> to_lower a = to_lower g \<longrightarrow>
     (case attachmentsJSON (Some atts) msg of
        JDoc rows \<Rightarrow> \<exists>a' r. to_lower a' = to_lower g \<and> map_of atts a' = Some r \<and> r \<in> set rows
      | _ \<Rightarrow> False)) \<and>
   distinct (merged_guids atts msg) \<and> attachmentsJSON None msg = JEmpty"
proof -
  have listed: "g \<in> set (merged_guids atts msg)" if "g \<in> set (sm_AttachmentGuids msg) \<and> g \<noteq> []" for g
    using that by (simp add: merged_guids_own)
  have "a \<in> set (merged_guids atts msg)"
    if "map_of atts a = Some row" "case att_owner a of None \<Rightarrow> False | Some g \<Rightarrow> to_lower g = to_lower (sm_Guid msg)"
    using merged_guids_owner [of a atts _ msg] that by (auto simp: domI dom_map_of_conv_image_fst [symmetric] split: option.splits)
  then have "case attachmentsJSON (Some atts) msg of JDoc rows \<Rightarrow> row \<in> set rows | _ \<Rightarrow> False"
    if "map_of atts a = Some row" "a \<in> set (sm_AttachmentGuids msg) \<and> a \<noteq> [] \<or>
      (case att_owner a of None \<Rightarrow> False | Some g \<Rightarrow> to_lower g = to_lower (sm_Guid msg))"
    using that listed attachmentsJSON_mem [of a atts msg row] by (auto simp: attachment_row_def)
  moreover have "case attachmentsJSON (Some atts) msg of
        JDoc rows \<Rightarrow> \<exists>a' r. to_lower a' = to_lower g \<and> map_of atts a' = Some r \<and> r \<in> set rows | _ \<Rightarrow> False"
    if g: "g \<in> set (sm_AttachmentGuids msg) \<and> g \<noteq> []" and a: "has_prefix a ''at_''" "a \<in> fst ` set atts" "to_lower a = to_lower g"
  proof -
    obtain a' r where r: "attachment_row atts g = Some r" "map_of atts a' = Some r" "to_lower a' = to_lower g"
      using attachment_row_folded [OF a] by blast
    show ?thesis using attachmentsJSON_mem [OF listed [OF g] r(1)] r(2,3) by (auto split: json_text.splits)
  qed
  ultimately show ?thesis by (auto simp: distinct_merged_guids attachmentsJSON_def)
qed

definition sample_att :: "string \<Rightarrow> cloudAttachmentRow" where
  "sample_att g = \<lparr>att_GUID = g, att_MimeType = ''image/png'', att_UTIType = [], att_Filename = ''x.png'',
     att_FileSize = 1, att_RecordName = ''r'', att_HideAttachment = False, att_HasAvid = False\<rparr>"

text \<open>One attachment is listed in another letter case, the other is found by the GUID it carries.\<close>

theorem message_attachments_complete_witness:
  "attachmentsJSON (Some [(''at_1_Ab'', sample_att ''at_1_Ab''), (''at_0_x'', sample_att ''at_0_x'')]) (sample_message ''AB'' ''a@x'' False) =
     JDoc [sample_att ''at_0_x'', sample_att ''at_1_Ab'']"
proof -
  let ?atts = "[(''at_1_Ab'', sample_att ''at_1_Ab''), (''at_0_x'', sample_att ''at_0_x'')]"
  have "distinct (merged_guids ?atts (sample_message ''AB'' ''a@x'' False))"
    using message_attachments_complete [of ?atts "''at_1_Ab''" "sample_att ''at_1_Ab''" "sample_message ''AB'' ''a@x'' False" "''AT_0_x''"] by blast
  then show ?thesis by code_simp
qed

end
