(* ===== verification/Cloud_Pager.thy ===== *)
theory Cloud_Pager
  imports Cloud_Ingest
begin

text \<open>
  The pager of the CloudKit message zone and its retry delays (\<^verbatim>\<open>sync_controller.go\<close>). The server is an
  argument: what the \<open>i\<close>-th request of a pass, made with a continuation token, answers.
\<close>

section \<open>Retry delays\<close>

type_synonym nanos = int

abbreviation second :: nanos where
  "second \<equiv> 1000000000"

definition regex_space :: "char \<Rightarrow> bool" where
  "regex_space c \<longleftrightarrow> byte c \<in> {9, 10, 12, 13, 32}"

text \<open>The digits the pattern \<^verbatim>\<open>retry_after_seconds:\s*Some\((\d+)\)\<close> captures, if it matches at the start of the text.\<close>

definition hint_here :: "string \<Rightarrow> string option" where
  "hint_here s =
     (if has_prefix s ''retry_after_seconds:'' then
        let rest = dropWhile regex_space (drop (length ''retry_after_seconds:'') s)
        in if has_prefix rest ''Some('' then
             let ds = takeWhile is_dec (drop 5 rest); after = dropWhile is_dec (drop 5 rest)
             in if ds \<noteq> [] \<and> has_prefix after '')'' then Some ds else None
           else None
      else None)"

fun cloudKitRetryAfterRegex :: "string \<Rightarrow> string option" where
  "cloudKitRetryAfterRegex [] = None"
| "cloudKitRetryAfterRegex (c # cs) =
     (case hint_here (c # cs) of Some ds \<Rightarrow> Some ds | None \<Rightarrow> cloudKitRetryAfterRegex cs)"

text \<open>A product of 64-bit signed integers, wrapped around.\<close>

definition wrap64 :: "int \<Rightarrow> int" where
  "wrap64 n = (n + 2 ^ 63) mod 2 ^ 64 - 2 ^ 63"

definition cloudKitRetryDelay :: "string option \<Rightarrow> int \<Rightarrow> nanos" where
  "cloudKitRetryDelay err consecutiveErrors =
     (let shift = (if consecutiveErrors > 1 then (if consecutiveErrors - 1 > 6 then 6 else consecutiveErrors - 1) else 0);
          raw = 500000000 * 2 ^ nat shift;
          fallback = (if raw > 30 * second then 30 * second else raw)
      in case err of
           None \<Rightarrow> fallback
         | Some msg \<Rightarrow>
             (case cloudKitRetryAfterRegex msg of
                None \<Rightarrow> fallback
              | Some ds \<Rightarrow>
                  let secs = int (digits_value ds)
                  in if int64_ok secs \<and> secs > 0 then
                       let product = wrap64 (secs * second);
                           hint = (if product > 30 * second then 30 * second else product)
                       in if hint > fallback then hint else fallback
                     else fallback))"

section \<open>The pager\<close>

record sync_messages_page =
  ContinuationToken :: "string option"
  Done :: bool
  Messages :: "sync_message list"

type_synonym message_server = "nat \<Rightarrow> string option \<Rightarrow> string + sync_messages_page"

definition maxCloudSyncPages :: nat where
  "maxCloudSyncPages = 10000"

text \<open>What a pass leaves: the counters, the last token, the database.\<close>

type_synonym pass_result = "cloudSyncCounters \<times> string option \<times> cloud_db"

text \<open>
  One page that arrived: it is ingested, and its token is saved if the page had messages. \<open>clock page\<close> is the
  clock while the page is ingested; the token is saved at \<open>clock page 0\<close>.
\<close>

definition take_page :: "'e ingest_client \<Rightarrow> (nat \<Rightarrow> portal_id \<Rightarrow> bool) \<Rightarrow> att_map \<Rightarrow> (nat \<Rightarrow> nat \<Rightarrow> millis) \<Rightarrow> nat
    \<Rightarrow> sync_messages_page \<Rightarrow> cloudSyncCounters \<Rightarrow> cloud_db \<Rightarrow> cloudSyncCounters \<times> cloud_db" where
  "take_page c deletedPortals attMap clock page resp counts db =
     (let (counts', db1) = ingestCloudMessages c (deletedPortals page) attMap [] (clock page) (Messages resp) counts db;
          token' = ContinuationToken resp
      in (counts',
          if token' \<noteq> None \<and> Messages resp \<noteq> []
          then setSyncStateSuccess (ic_store c) (clock page 0) ''messageManateeZone'' token' db1 else db1))"

fun message_pages :: "message_server \<Rightarrow> 'e ingest_client \<Rightarrow> (nat \<Rightarrow> portal_id \<Rightarrow> bool) \<Rightarrow> att_map \<Rightarrow> (nat \<Rightarrow> nat \<Rightarrow> millis)
    \<Rightarrow> nat \<Rightarrow> nat \<Rightarrow> nat \<Rightarrow> cloudSyncCounters \<Rightarrow> string option \<Rightarrow> cloud_db \<Rightarrow> pass_result" where
  "message_pages server c deletedPortals attMap clock 0 page errs counts token db = (counts, token, db)"
| "message_pages server c deletedPortals attMap clock (Suc left) page errs counts token db =
     (case server page token of
        Inl e \<Rightarrow>
          if errs + 1 \<ge> 3 then (counts, token, db)
          else message_pages server c deletedPortals attMap clock left (page + 1) (errs + 1) counts token db
      | Inr resp \<Rightarrow>
          let (counts', db') = take_page c deletedPortals attMap clock page resp counts db;
              token' = ContinuationToken resp
          in if Done resp \<or> (page > 0 \<and> ptrStringOr token [] = ptrStringOr token' []) then (counts', token', db')
             else message_pages server c deletedPortals attMap clock left (page + 1) 0 counts' token' db')"

definition syncCloudMessages :: "message_server \<Rightarrow> 'e ingest_client \<Rightarrow> (nat \<Rightarrow> portal_id \<Rightarrow> bool) \<Rightarrow> att_map \<Rightarrow> (nat \<Rightarrow> nat \<Rightarrow> millis)
    \<Rightarrow> cloud_db \<Rightarrow> pass_result" where
  "syncCloudMessages server c deletedPortals attMap clock db =
     message_pages server c deletedPortals attMap clock maxCloudSyncPages 0 0
       \<lparr>Imported = 0, Updated = 0, Skipped = 0, Deleted = 0, Filtered = 0\<rparr>
       (getSyncState (ic_store c) ''messageManateeZone'' db) db"

section \<open>The change feed\<close>

text \<open>
  The pages a feed holds from a token on, up to the first that says it is the last: \<open>n\<close> bounds how many are
  followed.
\<close>

primrec feed_pages :: "(string option \<Rightarrow> sync_messages_page) \<Rightarrow> nat \<Rightarrow> string option \<Rightarrow> sync_messages_page list" where
  "feed_pages feed 0 token = []"
| "feed_pages feed (Suc n) token =
     feed token # (if Done (feed token) then [] else feed_pages feed n (ContinuationToken (feed token)))"

text \<open>A feed that reaches its end in at most \<open>n\<close> pages, every page before the last moving the token.\<close>

primrec feed_ends :: "(string option \<Rightarrow> sync_messages_page) \<Rightarrow> nat \<Rightarrow> string option \<Rightarrow> bool" where
  "feed_ends feed 0 token = False"
| "feed_ends feed (Suc n) token \<longleftrightarrow>
     Done (feed token) \<or>
     (ptrStringOr token [] \<noteq> ptrStringOr (ContinuationToken (feed token)) [] \<and>
      feed_ends feed n (ContinuationToken (feed token)))"

text \<open>The token of the last page that had messages and a token; \<open>token\<close> if there is none.\<close>

definition saved_token :: "sync_messages_page list \<Rightarrow> string option \<Rightarrow> string option" where
  "saved_token ps token =
     fold (\<lambda>p t. if ContinuationToken p \<noteq> None \<and> Messages p \<noteq> [] then ContinuationToken p else t) ps token"

definition delivered :: "sync_messages_page list \<Rightarrow> nat" where
  "delivered ps = sum_list (map (\<lambda>p. length (Messages p)) ps)"

section \<open>Lemmas\<close>

lemma counted_ingest:
  "counted (fst (ingestCloudMessages c del attMap pref clock messages counts db)) = counted counts + length messages"
proof -
  have "length (filter sm_Deleted messages) + length (filter (\<lambda>m. \<not> sm_Deleted m) messages) = length messages"
    using sum_length_filter_compl [of sm_Deleted messages] .
  moreover have "counted (counts\<lparr>Deleted := Deleted counts + n\<rparr>) = counted counts + n" for n by (simp add: counted_def)
  ultimately show ?thesis by (simp add: ingestCloudMessages_def Let_def counted_outcomes)
qed

lemma ingest_sync_state:
  "getSyncState s z (snd (ingestCloudMessages c del attMap pref clock messages counts db)) = getSyncState s z db"
  by (simp add: ingestCloudMessages_def Let_def getSyncState_def sync_row_def upsertMessageBatch_def deleteMessageBatch_def)

lemma take_page_effect:
  "counted (fst (take_page c del attMap clock page resp counts db)) = counted counts + length (Messages resp)"
  "getSyncState (ic_store c) ''messageManateeZone'' (snd (take_page c del attMap clock page resp counts db)) =
     (if ContinuationToken resp \<noteq> None \<and> Messages resp \<noteq> [] then ContinuationToken resp
      else getSyncState (ic_store c) ''messageManateeZone'' db)"
  using counted_ingest [of c "del page" attMap "[]" "clock page" "Messages resp" counts db]
    ingest_sync_state [of "ic_store c" "''messageManateeZone''" c "del page" attMap "[]" "clock page" "Messages resp" counts db]
  by (auto simp: take_page_def set_getSyncState Let_def case_prod_beta)

text \<open>What a pass has done when it has taken the pages \<open>ps\<close>.\<close>

definition has_taken :: "'e ingest_client \<Rightarrow> sync_messages_page list \<Rightarrow> cloudSyncCounters \<Rightarrow> string option \<Rightarrow> cloud_db
    \<Rightarrow> pass_result \<Rightarrow> bool" where
  "has_taken c ps counts token db result \<longleftrightarrow>
     (case result of (counts', token', db') \<Rightarrow>
        counted counts' = counted counts + delivered ps \<and>
        token' = (if ps = [] then token else ContinuationToken (last ps)) \<and>
        getSyncState (ic_store c) ''messageManateeZone'' db' =
          saved_token ps (getSyncState (ic_store c) ''messageManateeZone'' db))"

lemma has_taken_Nil [simp]: "has_taken c [] counts token db (counts, token, db)"
  by (simp add: has_taken_def delivered_def saved_token_def)

lemma has_taken_Cons:
  assumes "take_page c del attMap clock page p counts db = (counts1, db1)"
    "has_taken c ps counts1 (ContinuationToken p) db1 result"
  shows "has_taken c (p # ps) counts token db result"
  using assms take_page_effect [of c del attMap clock page p counts db]
  by (auto simp: has_taken_def delivered_def saved_token_def)

definition flaky :: "(nat \<Rightarrow> bool) \<Rightarrow> (string option \<Rightarrow> sync_messages_page) \<Rightarrow> message_server" where
  "flaky fails feed i token = (if fails i then Inl ''transient'' else Inr (feed token))"

lemma take_one:
  assumes "\<not> fails page" "take_page c del attMap clock page (feed token) counts db = (counts1, db1)"
  shows "message_pages (flaky fails feed) c del attMap clock (Suc left) page errs counts token db =
    (if Done (feed token) \<or> page > 0 \<and> ptrStringOr token [] = ptrStringOr (ContinuationToken (feed token)) []
     then (counts1, ContinuationToken (feed token), db1)
     else message_pages (flaky fails feed) c del attMap clock left (page + 1) 0 counts1 (ContinuationToken (feed token)) db1)"
  using assms by (simp add: flaky_def Let_def)

lemma pass_prefix:
  assumes "feed_ends feed n token"
  shows "\<exists>k. has_taken c (take k (feed_pages feed n token)) counts token db
    (message_pages (flaky fails feed) c del attMap clock left page errs counts token db)"
  using assms
proof (induction left arbitrary: n page errs counts token db)
  case 0
  have "has_taken c (take 0 (feed_pages feed n token)) counts token db
      (message_pages (flaky fails feed) c del attMap clock 0 page errs counts token db)" by simp
  then show ?case by blast
next
  case (Suc left)
  obtain m where n: "n = Suc m" using Suc.prems by (cases n) auto
  show ?case
  proof (cases "fails page")
    case True
    show ?thesis
    proof (cases "errs + 1 \<ge> 3")
      case True
      then have "has_taken c (take 0 (feed_pages feed n token)) counts token db
          (message_pages (flaky fails feed) c del attMap clock (Suc left) page errs counts token db)"
        using \<open>fails page\<close> by (simp add: flaky_def)
      then show ?thesis by blast
    next
      case False
      then show ?thesis using Suc.IH [OF Suc.prems, of counts db "page + 1" "errs + 1"] \<open>fails page\<close> by (simp add: flaky_def)
    qed
  next
    case False
    obtain counts1 db1 where t: "take_page c del attMap clock page (feed token) counts db = (counts1, db1)" by fastforce
    note step = take_one [where fails = fails and feed = feed, OF False t, of left errs]
    let ?tok = "ContinuationToken (feed token)"
    show ?thesis
    proof (cases "Done (feed token)")
      case True
      then have "has_taken c (take 1 (feed_pages feed n token)) counts token db
          (message_pages (flaky fails feed) c del attMap clock (Suc left) page errs counts token db)"
        using has_taken_Cons [OF t, of "[]"] step n by simp
      then show ?thesis by blast
    next
      case False
      then have moved: "ptrStringOr token [] \<noteq> ptrStringOr ?tok []" "feed_ends feed m ?tok" using Suc.prems n by auto
      obtain k where k: "has_taken c (take k (feed_pages feed m ?tok)) counts1 ?tok db1
          (message_pages (flaky fails feed) c del attMap clock left (page + 1) 0 counts1 ?tok db1)"
        using Suc.IH [OF moved(2)] by blast
      have "has_taken c (take (Suc k) (feed_pages feed n token)) counts token db
          (message_pages (flaky fails feed) c del attMap clock (Suc left) page errs counts token db)"
        using has_taken_Cons [OF t k] step moved(1) False n by simp
      then show ?thesis by blast
    qed
  qed
qed

lemma pass_complete:
  assumes "feed_ends feed n token" "3 * n \<le> left + errs" "errs \<le> 2" "errs \<le> page" "\<forall>j < errs. fails (page - 1 - j)"
    and three: "\<And>i. \<not> (fails i \<and> fails (i + 1) \<and> fails (i + 2))"
  shows "has_taken c (feed_pages feed n token) counts token db
    (message_pages (flaky fails feed) c del attMap clock left page errs counts token db)"
  using assms(1-5)
proof (induction left arbitrary: n page errs counts token db)
  case 0
  then have "n = 0" by simp
  with 0 show ?case by simp
next
  case (Suc left)
  obtain m where n: "n = Suc m" using Suc.prems by (cases n) auto
  show ?case
  proof (cases "fails page")
    case True
    have "errs \<noteq> 2"
    proof
      assume "errs = 2"
      then obtain q where q: "page = q + 2" using Suc.prems(4) by (metis add.commute le_Suc_ex)
      have "fails (page - 1 - 1)" "fails (page - 1 - 0)" using Suc.prems(5) \<open>errs = 2\<close> by (metis one_less_numeral_iff semiring_norm(76)) (metis \<open>errs = 2\<close> Suc.prems(5) zero_less_numeral)
      then show False using three [of q] True q by simp
    qed
    then have errs: "errs + 1 \<le> 2" using Suc.prems(3) by simp
    have "\<forall>j < errs + 1. fails (page + 1 - 1 - j)"
      using Suc.prems(5) True by (auto simp: less_Suc_eq_0_disj)
    then show ?thesis
      using Suc.IH [OF Suc.prems(1), of "errs + 1" "page + 1" counts db] Suc.prems(2,4) errs True by (simp add: flaky_def)
  next
    case False
    obtain counts1 db1 where t: "take_page c del attMap clock page (feed token) counts db = (counts1, db1)" by fastforce
    note step = take_one [where fails = fails and feed = feed, OF False t, of left errs]
    let ?tok = "ContinuationToken (feed token)"
    show ?thesis
    proof (cases "Done (feed token)")
      case True
      then show ?thesis using has_taken_Cons [OF t, of "[]"] step n by simp
    next
      case False
      then have moved: "ptrStringOr token [] \<noteq> ptrStringOr ?tok []" "feed_ends feed m ?tok" using Suc.prems n by auto
      have "has_taken c (feed_pages feed m ?tok) counts1 ?tok db1
          (message_pages (flaky fails feed) c del attMap clock left (page + 1) 0 counts1 ?tok db1)"
        using Suc.IH [OF moved(2), of 0 "page + 1"] Suc.prems(2,3) n by simp
      then show ?thesis using has_taken_Cons [OF t] step moved(1) False n by simp
    qed
  qed
qed

section \<open>Properties\<close>

text \<open>C14.
  A pass over the message zone takes the pages of the server's change feed in order, whatever requests fail:
  when it stops, it has counted every message of a prefix of the feed exactly once, and the saved token is
  that of the last page of the prefix that had messages and a token, so no later pass starts past a page that
  was not ingested. If never three requests in a row fail and the feed has at most a third of
  \<open>maxCloudSyncPages\<close> pages, the prefix is the whole feed.
\<close>

theorem message_pass_resumes:
  fixes c :: "'e ingest_client" and db :: cloud_db
  defines "token \<equiv> getSyncState (ic_store c) ''messageManateeZone'' db"
  assumes "feed_ends feed n token"
  shows "(\<exists>k. has_taken c (take k (feed_pages feed n token)) \<lparr>Imported = 0, Updated = 0, Skipped = 0, Deleted = 0, Filtered = 0\<rparr>
      token db (syncCloudMessages (flaky fails feed) c del attMap clock db)) \<and>
    ((\<forall>i. \<not> (fails i \<and> fails (i + 1) \<and> fails (i + 2))) \<and> 3 * n \<le> maxCloudSyncPages \<longrightarrow>
      has_taken c (feed_pages feed n token) \<lparr>Imported = 0, Updated = 0, Skipped = 0, Deleted = 0, Filtered = 0\<rparr>
      token db (syncCloudMessages (flaky fails feed) c del attMap clock db))"
  unfolding syncCloudMessages_def token_def [symmetric]
proof (intro conjI impI)
  show "\<exists>k. has_taken c (take k (feed_pages feed n token)) \<lparr>Imported = 0, Updated = 0, Skipped = 0, Deleted = 0, Filtered = 0\<rparr> token db
      (message_pages (flaky fails feed) c del attMap clock maxCloudSyncPages 0 0
        \<lparr>Imported = 0, Updated = 0, Skipped = 0, Deleted = 0, Filtered = 0\<rparr> token db)"
    by (rule pass_prefix [OF assms(2)])
  assume "(\<forall>i. \<not> (fails i \<and> fails (i + 1) \<and> fails (i + 2))) \<and> 3 * n \<le> maxCloudSyncPages"
  then show "has_taken c (feed_pages feed n token) \<lparr>Imported = 0, Updated = 0, Skipped = 0, Deleted = 0, Filtered = 0\<rparr> token db
      (message_pages (flaky fails feed) c del attMap clock maxCloudSyncPages 0 0
        \<lparr>Imported = 0, Updated = 0, Skipped = 0, Deleted = 0, Filtered = 0\<rparr> token db)"
    by (intro pass_complete [OF assms(2)]) auto
qed

text \<open>A feed of two pages, the second after a failed request.\<close>

definition sample_feed :: "string option \<Rightarrow> sync_messages_page" where
  "sample_feed token =
     (if token = None
      then \<lparr>ContinuationToken = Some ''t1'', Done = False, Messages = [sample_message ''g1'' ''a@x'' False]\<rparr>
      else \<lparr>ContinuationToken = Some ''t2'', Done = True, Messages = []\<rparr>)"

theorem message_pass_resumes_witness:
  "has_taken sample_ingest [sample_feed None, sample_feed (Some ''t1'')]
     \<lparr>Imported = 0, Updated = 0, Skipped = 0, Deleted = 0, Filtered = 0\<rparr> None sample_chat_db
     (syncCloudMessages (flaky (\<lambda>i. i = 1) sample_feed) sample_ingest (\<lambda>_ _. False) None (\<lambda>_ _. 7) sample_chat_db) \<and>
   saved_token [sample_feed None, sample_feed (Some ''t1'')] None = Some ''t1''"
proof -
  have token: "getSyncState (ic_store sample_ingest) ''messageManateeZone'' sample_chat_db = None" by code_simp
  have ends: "feed_ends sample_feed 2 None" by code_simp
  have pages: "feed_pages sample_feed 2 None = [sample_feed None, sample_feed (Some ''t1'')]" by code_simp
  have "has_taken sample_ingest (feed_pages sample_feed 2 None)
     \<lparr>Imported = 0, Updated = 0, Skipped = 0, Deleted = 0, Filtered = 0\<rparr> None sample_chat_db
     (syncCloudMessages (flaky (\<lambda>i. i = 1) sample_feed) sample_ingest (\<lambda>_ _. False) None (\<lambda>_ _. 7) sample_chat_db)"
    using message_pass_resumes [where c = sample_ingest and db = sample_chat_db and feed = sample_feed and n = 2
        and fails = "\<lambda>i. i = 1" and del = "\<lambda>_ _. False" and attMap = None and clock = "\<lambda>_ _. 7"] ends
    unfolding token by (auto simp: maxCloudSyncPages_def)
  then show ?thesis unfolding pages by (simp add: saved_token_def sample_feed_def sample_message_def)
qed

section \<open>Retry delays stay in bounds\<close>

lemma wrap64_id: "0 \<le> n \<Longrightarrow> n < 2 ^ 63 \<Longrightarrow> wrap64 n = n"
  by (simp add: wrap64_def)

lemma ramp_bounds:
  "500000000 \<le> cloudKitRetryDelay None n" "cloudKitRetryDelay None n \<le> 30 * second"
proof -
  have "(1::int) \<le> 2 ^ k" for k :: nat by simp
  then have "(500000000::int) \<le> 500000000 * 2 ^ k" for k :: nat by (metis mult.right_neutral mult_le_cancel_left_pos zero_less_numeral)
  then show "500000000 \<le> cloudKitRetryDelay None n" "cloudKitRetryDelay None n \<le> 30 * second"
    unfolding cloudKitRetryDelay_def Let_def by auto
qed

lemma delay_hint:
  "cloudKitRetryDelay (Some msg) n =
     (case cloudKitRetryAfterRegex msg of
        None \<Rightarrow> cloudKitRetryDelay None n
      | Some ds \<Rightarrow>
          if int64_ok (int (digits_value ds)) \<and> digits_value ds > 0
          then max (cloudKitRetryDelay None n) (min (wrap64 (int (digits_value ds) * second)) (30 * second))
          else cloudKitRetryDelay None n)"
  by (simp add: cloudKitRetryDelay_def Let_def max_def min_def split: option.splits)


text \<open>
  The wait before a retry is between half a second and 30 seconds, whatever the error text and however long
  the streak, and never shorter than the backoff ramp; a hint of the server that 64 bits can hold in
  nanoseconds is honoured up to the cap. A longer one wraps around, and may be ignored, but the bounds hold.
\<close>

lemma retry_delay_bounds:
  "500000000 \<le> cloudKitRetryDelay err n \<and> cloudKitRetryDelay err n \<le> 30 * second \<and>
   cloudKitRetryDelay None n \<le> cloudKitRetryDelay err n \<and>
   (case err of None \<Rightarrow> True
    | Some msg \<Rightarrow> (case cloudKitRetryAfterRegex msg of None \<Rightarrow> True
        | Some ds \<Rightarrow> digits_value ds \<le> 9223372036 \<longrightarrow>
            min (int (digits_value ds) * second) (30 * second) \<le> cloudKitRetryDelay err n))"
proof -
  have "min (int (digits_value ds) * second) (30 * second) \<le> cloudKitRetryDelay (Some msg) n"
    if "cloudKitRetryAfterRegex msg = Some ds" "digits_value ds \<le> 9223372036" for msg ds
  proof (cases "digits_value ds = 0")
    case True
    then show ?thesis using ramp_bounds(1) [of n] that(1) by (simp add: delay_hint)
  next
    case False
    have "int (digits_value ds) * second < 2 ^ 63" using that(2) by simp
    then have "wrap64 (int (digits_value ds) * second) = int (digits_value ds) * second" by (intro wrap64_id) simp_all
    moreover have "int64_ok (int (digits_value ds))" using that(2) by (simp add: int64_ok_def)
    ultimately show ?thesis using False that(1) by (simp add: delay_hint)
  qed
  then show ?thesis using ramp_bounds [of n] by (auto simp: delay_hint split: option.splits)
qed

text \<open>A hint of five seconds is honoured; one of 9223372037 seconds wraps to a negative delay and is not.\<close>

lemma retry_delay_bounds_witness:
  "cloudKitRetryDelay (Some ''retry_after_seconds: Some(5)'') 2 = 5 * second \<and>
   cloudKitRetryDelay (Some ''retry_after_seconds: Some(9223372037)'') 2 = second"
proof -
  have r: "cloudKitRetryAfterRegex ''retry_after_seconds: Some(5)'' = Some ''5''"
    "cloudKitRetryAfterRegex ''retry_after_seconds: Some(9223372037)'' = Some ''9223372037''" by code_simp+
  have d: "digits_value ''5'' = 5" "digits_value ''9223372037'' = 9223372037" by (simp_all add: digits_value_def byte_def)
  have ramp: "cloudKitRetryDelay None 2 = second" by (simp add: cloudKitRetryDelay_def)
  have "5 * second \<le> cloudKitRetryDelay (Some ''retry_after_seconds: Some(5)'') 2"
    using retry_delay_bounds [of "Some ''retry_after_seconds: Some(5)''" 2] r(1) d(1) by (simp del: cloudKitRetryAfterRegex.simps)
  then show ?thesis by (simp add: delay_hint r d ramp int64_ok_def wrap64_def del: cloudKitRetryAfterRegex.simps)
qed

end
