(* ===== verification/SMS_Routing.thy ===== *)
theory SMS_Routing
  imports Contact_Merge
begin

text \<open>
  The outbound route of a portal (\<^verbatim>\<open>client.go\<close>): whether it goes over the SMS relay and to which number.
  The caches under \<^verbatim>\<open>smsPortalsLock\<close> are the state; the portal object and its \<^verbatim>\<open>Save\<close> belong to the
  framework, so the outcome of a save is an argument.
\<close>

record PortalMetadata =
  pm_ThreadID :: string
  pm_SenderGuid :: string
  pm_GroupName :: string
  pm_IsSms :: bool
  pm_SMSDestination :: string
  pm_ChatDBGUIDs :: "string list"

definition no_metadata :: PortalMetadata where
  "no_metadata = \<lparr>pm_ThreadID = [], pm_SenderGuid = [], pm_GroupName = [], pm_IsSms = False,
     pm_SMSDestination = [], pm_ChatDBGUIDs = []\<rparr>"

text \<open>The framework's portal object, of which only the metadata is read; \<open>None\<close> is metadata of another type.\<close>

record portal =
  po_Metadata :: "PortalMetadata option"

record sms_routes =
  smsPortals :: "portal_id \<rightharpoonup> bool"
  smsDestinations :: "portal_id \<rightharpoonup> string"

record portalSMSRouting =
  IsSMS :: bool
  Destination :: string

section \<open>The caches\<close>

definition updatePortalSMS :: "sms_routes \<Rightarrow> portal_id \<Rightarrow> bool \<Rightarrow> bool \<times> sms_routes" where
  "updatePortalSMS st portalID isSms =
     (let prev = smsPortals st portalID;
          destinationChanged = (\<not> isSms \<and> smsDestinations st portalID \<noteq> None)
      in (prev = None \<or> prev \<noteq> Some isSms \<or> destinationChanged,
          \<lparr>smsPortals = (smsPortals st)(portalID \<mapsto> isSms),
           smsDestinations = (if \<not> isSms then (smsDestinations st)(portalID := None) else smsDestinations st)\<rparr>))"

definition updatePortalSMSRouting :: "sms_routes \<Rightarrow> portal_id \<Rightarrow> bool \<Rightarrow> string \<Rightarrow> bool \<times> sms_routes" where
  "updatePortalSMSRouting st portalID isSms destination0 =
     (let destination = (if \<not> isSms then [] else destination0);
          prevSMS = smsPortals st portalID;
          prevDestination = (case smsDestinations st portalID of None \<Rightarrow> [] | Some d \<Rightarrow> d)
      in (prevSMS = None \<or> prevSMS \<noteq> Some isSms \<or> prevDestination \<noteq> destination,
          \<lparr>smsPortals = (smsPortals st)(portalID \<mapsto> isSms),
           smsDestinations = (if destination = [] then (smsDestinations st)(portalID := None)
             else (smsDestinations st)(portalID \<mapsto> destination))\<rparr>))"

definition getPortalSMSRouting :: "sms_routes \<Rightarrow> portal_id \<Rightarrow> PortalMetadata option \<Rightarrow> portalSMSRouting" where
  "getPortalSMSRouting st portalID metadata =
     (case smsPortals st portalID of
        Some isSMS \<Rightarrow>
          \<lparr>IsSMS = isSMS, Destination = (case smsDestinations st portalID of None \<Rightarrow> [] | Some d \<Rightarrow> d)\<rparr>
      | None \<Rightarrow>
          (case metadata of
             Some meta \<Rightarrow>
               if pm_IsSms meta then \<lparr>IsSMS = True, Destination = pm_SMSDestination meta\<rparr>
               else \<lparr>IsSMS = portalID \<noteq> stripSmsSuffix portalID, Destination = []\<rparr>
           | None \<Rightarrow> \<lparr>IsSMS = portalID \<noteq> stripSmsSuffix portalID, Destination = []\<rparr>))"

definition isPortalSMS :: "sms_routes \<Rightarrow> portal_id \<Rightarrow> bool" where
  "isPortalSMS st portalID = IsSMS (getPortalSMSRouting st portalID None)"

definition seedPortalSMSRoutingIfAbsent :: "sms_routes \<Rightarrow> portal_id \<Rightarrow> bool \<Rightarrow> string \<Rightarrow> bool \<times> sms_routes" where
  "seedPortalSMSRoutingIfAbsent st portalID isSms smsDestination0 =
     (let smsDestination = (if \<not> isSms then [] else smsDestination0)
      in if smsPortals st portalID \<noteq> None then (False, st)
         else (True,
           \<lparr>smsPortals = (smsPortals st)(portalID \<mapsto> isSms),
            smsDestinations = (if smsDestination \<noteq> [] then (smsDestinations st)(portalID \<mapsto> smsDestination)
              else smsDestinations st)\<rparr>))"

text \<open>The part of \<^verbatim>\<open>reIDPortalWithCacheUpdate\<close> that moves the route of a portal.\<close>

definition move_key :: "'k \<Rightarrow> 'k \<Rightarrow> ('k \<rightharpoonup> 'v) \<Rightarrow> ('k \<rightharpoonup> 'v)" where
  "move_key old new m = (case m old of None \<Rightarrow> m | Some v \<Rightarrow> (m(new \<mapsto> v))(old := None))"

definition reid_routes :: "portal_id \<Rightarrow> portal_id \<Rightarrow> sms_routes \<Rightarrow> sms_routes" where
  "reid_routes oldID newID st =
     \<lparr>smsPortals = move_key oldID newID (smsPortals st), smsDestinations = move_key oldID newID (smsDestinations st)\<rparr>"

definition shouldHydratePersistedSMSRouting :: "bool \<Rightarrow> bool \<Rightarrow> bool" where
  "shouldHydratePersistedSMSRouting useChatDBBackfill chatsSynced \<longleftrightarrow> \<not> useChatDBBackfill \<or> chatsSynced"

text \<open>The route half of \<^verbatim>\<open>loadSenderGuidsFromDB\<close>: the caches of a new session, from the stored metadata.\<close>

definition hydrate_routes :: "bool \<Rightarrow> login_id \<Rightarrow> (portal_key \<times> PortalMetadata option) list \<Rightarrow> sms_routes \<Rightarrow> sms_routes" where
  "hydrate_routes hydrateSMSRouting login portals st =
     fold (\<lambda>(key, metadata) st.
         if snd key \<noteq> login then st
         else case metadata of
                None \<Rightarrow> st
              | Some meta \<Rightarrow>
                  if hydrateSMSRouting \<and> pm_IsSms meta
                  then snd (updatePortalSMSRouting st (fst key) True (pm_SMSDestination meta)) else st)
       portals st"

section \<open>Persistence\<close>

definition portalMetadataWithSMSRouting :: "PortalMetadata option \<Rightarrow> bool \<Rightarrow> string \<Rightarrow> PortalMetadata \<times> bool" where
  "portalMetadataWithSMSRouting existing isSms smsDestination0 =
     (let meta = (case existing of None \<Rightarrow> no_metadata | Some m \<Rightarrow> m);
          smsDestination = (if \<not> isSms then [] else smsDestination0)
      in (meta\<lparr>pm_IsSms := isSms, pm_SMSDestination := smsDestination\<rparr>,
          pm_IsSms meta \<noteq> isSms \<or> pm_SMSDestination meta \<noteq> smsDestination))"

text \<open>\<open>save\<close> is what \<^verbatim>\<open>Save\<close> answers for the portal object at the call; \<open>None\<close> is success.\<close>

definition persistPortalSMSRouting :: "portal \<Rightarrow> bool \<Rightarrow> string \<Rightarrow> (portal \<Rightarrow> 'e option) \<Rightarrow> (bool \<times> 'e option) \<times> portal" where
  "persistPortalSMSRouting portal isSms smsDestination save =
     (let previousMetadata = po_Metadata portal;
          (meta, changed) = portalMetadataWithSMSRouting previousMetadata isSms smsDestination
      in if \<not> changed then ((False, None), portal)
         else
           let portal' = portal\<lparr>po_Metadata := Some meta\<rparr>
           in (case save portal' of
                 Some e \<Rightarrow> ((True, Some e), portal'\<lparr>po_Metadata := previousMetadata\<rparr>)
               | None \<Rightarrow> ((True, None), portal')))"

definition updateAndPersistPortalSMSRouting :: "sms_routes \<Rightarrow> portal_id \<Rightarrow> portal option \<Rightarrow> bool \<Rightarrow> string
    \<Rightarrow> (portal \<Rightarrow> 'e option) \<Rightarrow> (bool \<times> 'e option) \<times> portal option \<times> sms_routes" where
  "updateAndPersistPortalSMSRouting st portalID portal isSms smsDestination save =
     (let st' = snd (updatePortalSMSRouting st portalID isSms smsDestination)
      in case portal of
           None \<Rightarrow> ((False, None), None, st')
         | Some p \<Rightarrow>
             let (res, p') = persistPortalSMSRouting p isSms smsDestination save in (res, Some p', st'))"

definition persistCurrentPortalSMSRouting :: "sms_routes \<Rightarrow> portal_id \<Rightarrow> portal \<Rightarrow> (portal \<Rightarrow> 'e option)
    \<Rightarrow> (bool \<times> 'e option) \<times> portal" where
  "persistCurrentPortalSMSRouting st portalID portal save =
     (let routing = getPortalSMSRouting st portalID (po_Metadata portal)
      in persistPortalSMSRouting portal (IsSMS routing) (Destination routing) save)"

section \<open>Destinations\<close>

text \<open>\<open>has_client\<close> and \<open>validate\<close> are the state of the protocol client, as in \<open>resolveSendTarget\<close>.\<close>

definition resolveDMSendTarget :: "merge_client \<Rightarrow> bool \<Rightarrow> (string list \<Rightarrow> string list) \<Rightarrow> portal_id \<Rightarrow> portalSMSRouting \<Rightarrow> string" where
  "resolveDMSendTarget c has_client validate portalID routing =
     (if IsSMS routing \<and> Destination routing \<noteq> [] then Destination routing
      else resolveSendTarget c has_client validate (stripSmsSuffix portalID))"

definition smsDestinationForDM :: "string list \<Rightarrow> string list \<Rightarrow> string option \<Rightarrow> string" where
  "smsDestinationForDM allHandles participants sender =
     (let remote = (\<lambda>n. n \<noteq> [] \<and> \<not> isMyHandle allHandles n)
      in case find remote (map normalizeIdentifierForPortalID participants) of
           Some n \<Rightarrow> n
         | None \<Rightarrow>
             (case sender of
                None \<Rightarrow> []
              | Some s \<Rightarrow> if remote (normalizeIdentifierForPortalID s) then normalizeIdentifierForPortalID s else []))"

section \<open>The routes as a state machine\<close>

text \<open>A destination is not empty, and is kept only for a portal that has a route.\<close>

definition routes_typed :: "sms_routes \<Rightarrow> bool" where
  "routes_typed st \<longleftrightarrow> (\<forall>p d. smsDestinations st p = Some d \<longrightarrow> d \<noteq> [] \<and> smsPortals st p \<noteq> None)"

definition no_routes :: sms_routes where
  "no_routes = \<lparr>smsPortals = (\<lambda>_. None), smsDestinations = (\<lambda>_. None)\<rparr>"

text \<open>The operations on the caches, each atomic under the lock.\<close>

inductive routes_step :: "sms_routes \<Rightarrow> sms_routes \<Rightarrow> bool" where
  service: "routes_step st (snd (updatePortalSMS st p isSms))"
| live: "routes_step st (snd (updatePortalSMSRouting st p isSms destination))"
| seeded: "routes_step st (snd (seedPortalSMSRoutingIfAbsent st p isSms destination))"
| restart: "routes_step st (hydrate_routes hyd login portals no_routes)"
| moved: "routes_step st (reid_routes oldID newID st)"

inductive routes_reachable :: "sms_routes \<Rightarrow> bool" where
  init: "routes_reachable no_routes"
| next_step: "routes_reachable st \<Longrightarrow> routes_step st st' \<Longrightarrow> routes_reachable st'"

lemma update_typed:
  "routes_typed st \<Longrightarrow> routes_typed (snd (updatePortalSMS st p isSms))"
  "routes_typed st \<Longrightarrow> routes_typed (snd (updatePortalSMSRouting st p isSms destination))"
  "routes_typed st \<Longrightarrow> routes_typed (snd (seedPortalSMSRoutingIfAbsent st p isSms destination))"
  by (auto simp: routes_typed_def updatePortalSMS_def updatePortalSMSRouting_def seedPortalSMSRoutingIfAbsent_def Let_def)

lemma hydrate_typed: "routes_typed st \<Longrightarrow> routes_typed (hydrate_routes hyd login portals st)"
  unfolding hydrate_routes_def
  by (induction portals arbitrary: st) (auto simp: update_typed split: option.splits)

lemma reid_typed:
  assumes "routes_typed st"
  shows "routes_typed (reid_routes oldID newID st)"
proof (cases "smsPortals st oldID")
  case None
  with assms have "smsDestinations st oldID = None" unfolding routes_typed_def by (metis not_Some_eq)
  with None have "reid_routes oldID newID st = st" by (simp add: reid_routes_def move_key_def)
  with assms show ?thesis by simp
next
  case (Some sms)
  with assms show ?thesis
    by (auto simp: routes_typed_def reid_routes_def move_key_def split: option.splits if_splits)
qed

lemma no_routes_typed: "routes_typed no_routes"
  by (simp add: routes_typed_def no_routes_def)

lemma reachable_typed: "routes_reachable st \<Longrightarrow> routes_typed st"
  by (induction rule: routes_reachable.induct)
    (auto elim!: routes_step.cases intro: update_typed hydrate_typed reid_typed no_routes_typed)

lemma route_cong:
  "smsPortals a p = smsPortals b p \<Longrightarrow> smsDestinations a p = smsDestinations b p \<Longrightarrow>
   getPortalSMSRouting a p meta = getPortalSMSRouting b p meta"
  unfolding getPortalSMSRouting_def by (simp only:)

lemma reid_other:
  "p \<noteq> old \<Longrightarrow> p \<noteq> new \<Longrightarrow> smsPortals (reid_routes old new st) p = smsPortals st p \<and>
     smsDestinations (reid_routes old new st) p = smsDestinations st p"
  by (simp add: reid_routes_def move_key_def split: option.splits)

section \<open>Properties\<close>


definition sample_portals :: "(portal_key \<times> PortalMetadata option) list" where
  "sample_portals = [((''tel:+1'', ''me''), Some (no_metadata\<lparr>pm_IsSms := True, pm_SMSDestination := ''tel:+2''\<rparr>))]"

text \<open>An iMessage room is re-keyed onto the ID of a room whose route was stored with a number.\<close>

definition sample_routes :: sms_routes where
  "sample_routes = snd (updatePortalSMSRouting (hydrate_routes True ''me'' sample_portals no_routes) ''tel:+3'' False [])"


text \<open>The route a new session starts from: the caches hydrated from the stored metadata, then the metadata itself.\<close>

definition restart_route :: "bool \<Rightarrow> login_id \<Rightarrow> (portal_key \<times> PortalMetadata option) list \<Rightarrow> portal_id \<Rightarrow> PortalMetadata option \<Rightarrow> portalSMSRouting" where
  "restart_route hyd login portals p metadata = getPortalSMSRouting (hydrate_routes hyd login portals no_routes) p metadata"

definition route_of :: "bool \<Rightarrow> string \<Rightarrow> portalSMSRouting" where
  "route_of isSms dest = \<lparr>IsSMS = isSms, Destination = (if isSms then dest else [])\<rparr>"

lemma live_route: "getPortalSMSRouting (snd (updatePortalSMSRouting st p isSms dest)) p meta = route_of isSms dest"
  by (simp add: getPortalSMSRouting_def updatePortalSMSRouting_def route_of_def Let_def)

text \<open>Hydration caches a portal exactly when one of its rows says SMS, with the destination of the last such row.\<close>

lemma hydrate_other:
  "\<forall>(key, metadata) \<in> set portals. key = (p, login) \<longrightarrow> (case metadata of None \<Rightarrow> True | Some m \<Rightarrow> \<not> pm_IsSms m) \<Longrightarrow>
   smsPortals (hydrate_routes hyd login portals st) p = smsPortals st p \<and>
   smsDestinations (hydrate_routes hyd login portals st) p = smsDestinations st p"
proof (induction portals arbitrary: st)
  case Nil
  show ?case by (simp add: hydrate_routes_def)
next
  case (Cons pm portals)
  obtain k l m where pm: "pm = ((k, l), m)" by (metis prod.exhaust)
  let ?st = "hydrate_routes hyd login [pm] st"
  have "smsPortals ?st p = smsPortals st p \<and> smsDestinations ?st p = smsDestinations st p"
    using Cons.prems pm by (auto simp: hydrate_routes_def updatePortalSMSRouting_def Let_def split: option.splits)
  moreover have "hydrate_routes hyd login (pm # portals) st = hydrate_routes hyd login portals ?st" by (simp add: hydrate_routes_def)
  ultimately show ?case using Cons.IH [of ?st] Cons.prems by simp
qed

lemma hydrate_sms:
  assumes "distinct (map fst portals)" "((p, login), Some m) \<in> set portals" "pm_IsSms m"
  shows "getPortalSMSRouting (hydrate_routes True login portals st) p meta = route_of True (pm_SMSDestination m)"
  using assms(1,2)
proof (induction portals arbitrary: st)
  case (Cons pm portals)
  have step: "hydrate_routes True login (pm # portals) st = hydrate_routes True login portals (hydrate_routes True login [pm] st)"
    by (simp add: hydrate_routes_def)
  show ?case
  proof (cases "pm = ((p, login), Some m)")
    case True
    have "\<forall>(key, metadata) \<in> set portals. key = (p, login) \<longrightarrow> (case metadata of None \<Rightarrow> True | Some m \<Rightarrow> \<not> pm_IsSms m)"
      using Cons.prems(1) True by (force simp: image_iff)
    moreover have "hydrate_routes True login [pm] st = snd (updatePortalSMSRouting st p True (pm_SMSDestination m))"
      using True assms(3) by (simp add: hydrate_routes_def)
    moreover note hydrate_other [of portals p login True "hydrate_routes True login [pm] st"]
    ultimately show ?thesis
      unfolding step by (metis (no_types, lifting) route_cong live_route)
  next
    case False
    then show ?thesis unfolding step using Cons by auto
  qed
qed simp

lemma restart_after_save:
  assumes "distinct (map fst portals)" "((p, login), metadata) \<in> set portals"
    "pm_IsSms (case metadata of None \<Rightarrow> no_metadata | Some m \<Rightarrow> m) = isSms"
    "isSms \<Longrightarrow> pm_SMSDestination (case metadata of None \<Rightarrow> no_metadata | Some m \<Rightarrow> m) = dest"
    "isSms \<or> stripSmsSuffix p = p"
  shows "restart_route True login portals p metadata = route_of isSms dest"
proof (cases isSms)
  case True
  then obtain m where "metadata = Some m" "pm_IsSms m" "pm_SMSDestination m = dest"
    using assms(3,4) by (cases metadata) (auto simp: no_metadata_def)
  then show ?thesis using hydrate_sms [OF assms(1)] assms(2) True by (simp add: restart_route_def)
next
  case False
  have "\<forall>(key, md) \<in> set portals. key = (p, login) \<longrightarrow> (case md of None \<Rightarrow> True | Some m \<Rightarrow> \<not> pm_IsSms m)"
  proof safe
    fix md assume "((p, login), md) \<in> set portals"
    then have "md = metadata" using assms(1,2) by (metis eq_key_imp_eq_value)
    then show "case md of None \<Rightarrow> True | Some m \<Rightarrow> \<not> pm_IsSms m" using assms(3) False by (auto split: option.splits)
  qed
  then have "smsPortals (hydrate_routes True login portals no_routes) p = None"
    using hydrate_other [of portals p login True no_routes] by (simp add: no_routes_def)
  then show ?thesis using False assms(3,5)
    by (auto simp: restart_route_def getPortalSMSRouting_def route_of_def split: option.splits)
qed

text \<open>C24.
  A live route is authoritative at once and survives a restart. Right after the transaction every lookup gives
  the new route. If the save succeeds, or nothing had to be saved, the caches of a new session give the same
  route from the stored metadata. If the save fails, the portal object is left as it was, and the next
  \<^verbatim>\<open>persistCurrentPortalSMSRouting\<close> whose save succeeds stores the live route. (A portal whose ID still has an
  SMS suffix goes back to SMS after a restart, whatever was stored; hence the last hypothesis.)
\<close>

theorem sms_route_survives_restart:
  fixes save :: "portal \<Rightarrow> 'e option"
  assumes "distinct (map fst portals)" "isSms \<or> stripSmsSuffix p = p"
    "updateAndPersistPortalSMSRouting st p (Some po) isSms dest save = ((changed, err), portal', st')"
  shows "getPortalSMSRouting st' p meta = route_of isSms dest \<and>
    (case portal' of None \<Rightarrow> False | Some po' \<Rightarrow>
      (err = None \<longrightarrow> ((p, login), po_Metadata po') \<in> set portals \<longrightarrow>
        restart_route True login portals p (po_Metadata po') = route_of isSms dest) \<and>
      (err \<noteq> None \<longrightarrow> po' = po) \<and>
      (case persistCurrentPortalSMSRouting st' p po' (\<lambda>_. None :: 'e option) of
         (_, po'') \<Rightarrow> ((p, login), po_Metadata po'') \<in> set portals \<longrightarrow>
           restart_route True login portals p (po_Metadata po'') = route_of isSms dest))"
proof -
  have st': "st' = snd (updatePortalSMSRouting st p isSms dest)"
    using assms(3) by (auto simp: updateAndPersistPortalSMSRouting_def Let_def split: prod.splits)
  obtain po' where po': "portal' = Some po'" and res: "persistPortalSMSRouting po isSms dest save = ((changed, err), po')"
    using assms(3) by (auto simp: updateAndPersistPortalSMSRouting_def Let_def split: prod.splits)
  have saved: "restart_route True login portals p (po_Metadata q) = route_of isSms dest"
    if "persistPortalSMSRouting q0 isSms (if isSms then dest else []) sv = ((ch, None), q)" "((p, login), po_Metadata q) \<in> set portals"
    for q0 q ch and sv :: "portal \<Rightarrow> 'e option"
    using that assms(1,2)
    by (intro restart_after_save)
      (auto simp: persistPortalSMSRouting_def portalMetadataWithSMSRouting_def Let_def split: option.splits if_splits)
  have dest: "persistPortalSMSRouting q isSms (if isSms then dest else []) sv = persistPortalSMSRouting q isSms dest sv"
    for q and sv :: "portal \<Rightarrow> 'e option"
    by (simp add: persistPortalSMSRouting_def portalMetadataWithSMSRouting_def Let_def)
  have live: "getPortalSMSRouting st' p m = route_of isSms dest" for m unfolding st' by (rule live_route)
  have current: "persistCurrentPortalSMSRouting st' p po' (\<lambda>_. None :: 'e option) =
      persistPortalSMSRouting po' isSms (if isSms then dest else []) (\<lambda>_. None)"
    by (simp add: persistCurrentPortalSMSRouting_def live route_of_def)
  have ok: "snd (fst (persistPortalSMSRouting q isSms d (\<lambda>_. None :: 'e option))) = None" for q d
    by (simp add: persistPortalSMSRouting_def Let_def split: prod.splits)
  have "err \<noteq> None \<longrightarrow> po' = po"
    using res by (auto simp: persistPortalSMSRouting_def Let_def split: prod.splits if_splits option.splits)
  moreover have "err = None \<longrightarrow> ((p, login), po_Metadata po') \<in> set portals \<longrightarrow>
      restart_route True login portals p (po_Metadata po') = route_of isSms dest"
    using saved [of po save changed po'] res dest by simp
  moreover have "((p, login), po_Metadata po'') \<in> set portals \<longrightarrow>
      restart_route True login portals p (po_Metadata po'') = route_of isSms dest"
    if "persistCurrentPortalSMSRouting st' p po' (\<lambda>_. None :: 'e option) = (res'', po'')" for res'' po''
    using saved [of po' "\<lambda>_. None" "fst res''" po''] ok [of po' "if isSms then dest else []"] that current by (cases res'') auto
  ultimately show ?thesis using live po' by (auto split: prod.splits)
qed

text \<open>A failed save, then the retry that stores the live route.\<close>

theorem sms_route_survives_restart_witness:
  "let (res, po, st) = updateAndPersistPortalSMSRouting no_routes ''tel:+1'' (Some \<lparr>po_Metadata = None\<rparr>) True ''tel:+2'' (\<lambda>_. Some ());
       (res', po') = persistCurrentPortalSMSRouting st ''tel:+1'' (the po) (\<lambda>_. None :: unit option)
   in po = Some \<lparr>po_Metadata = None\<rparr> \<and>
     restart_route True ''me'' [((''tel:+1'', ''me''), po_Metadata po')] ''tel:+1'' (po_Metadata po') = route_of True ''tel:+2''"
proof -
  obtain ch e po st where first: "updateAndPersistPortalSMSRouting no_routes ''tel:+1'' (Some \<lparr>po_Metadata = None\<rparr>) True ''tel:+2'' (\<lambda>_. Some ()) = ((ch, e), po, st)"
    by (metis prod.exhaust)
  have po: "po = Some \<lparr>po_Metadata = None\<rparr>" "e = Some ()"
    using first by (auto simp: updateAndPersistPortalSMSRouting_def persistPortalSMSRouting_def portalMetadataWithSMSRouting_def no_metadata_def Let_def)
  obtain res' po' where retry: "persistCurrentPortalSMSRouting st ''tel:+1'' \<lparr>po_Metadata = None\<rparr> (\<lambda>_. None :: unit option) = (res', po')"
    by (metis prod.exhaust)
  have "restart_route True ''me'' [((''tel:+1'', ''me''), po_Metadata po')] ''tel:+1'' (po_Metadata po') = route_of True ''tel:+2''"
    using sms_route_survives_restart [of "[((''tel:+1'', ''me''), po_Metadata po')]" True "''tel:+1''" no_routes "\<lparr>po_Metadata = None\<rparr>"
        "''tel:+2''" "\<lambda>_. Some ()" ch e po st None "''me''"] first po retry by simp
  then show ?thesis using first po retry by simp
qed

end
