(* ===== verification/Group_Routing.thy ===== *)
theory Group_Routing
  imports SMS_Routing Cloud_Ingest "HOL-Library.AList"
begin

text \<open>
  Which room a group conversation belongs to (\<^verbatim>\<open>client.go\<close>, \<^verbatim>\<open>makePortalKey\<close> and what it calls). The state is
  the client's in-memory caches. A Go map the code ranges over is an association list; the order of a range,
  which Go leaves open, is the argument \<open>range_order\<close>. The framework's portal table is an argument; the
  writes a handler starts in the background are returned as effects.
\<close>

section \<open>State\<close>

type_synonym member_index = "(string \<times> portal_id list) list"

record group_state =
  imGroupNames :: "(portal_id \<times> string) list"
  imGroupGuids :: "(portal_id \<times> string) list"
  imGroupParticipants :: "(portal_id \<times> string list) list"
  groupPortalIndex :: "member_index option"
  lastGroupForMember :: "(string \<times> portal_key) list"
  gidAliases :: "(portal_id \<times> portal_id) list"
  smsRoutes :: sms_routes
  portalMetadata :: "(portal_id \<times> PortalMetadata) list"

text \<open>
  What a handler reads: the client, the store with its database, the portals with a room, and the portal
  table.
\<close>

record 'e group_env =
  ge_merge :: merge_client
  ge_handle :: string
  ge_bridge :: "'e bridge_db"
  ge_rows :: "'e + portal_row list"
  ge_store :: "(cloudBackfillStore \<times> cloud_db) option"
  range_order :: "string list \<Rightarrow> string list"

abbreviation ge_login :: "'e group_env \<Rightarrow> login_id" where
  "ge_login c \<equiv> mc_login (ge_merge c)"

abbreviation ge_self :: "'e group_env \<Rightarrow> string \<Rightarrow> bool" where
  "ge_self c \<equiv> isMyHandle (mc_handles (ge_merge c))"

abbreviation canonical_members :: "'e group_env \<Rightarrow> string list \<Rightarrow> string list" where
  "canonical_members c \<equiv> buildCanonicalParticipantList (ge_handle c) (mc_handles (ge_merge c))"

abbreviation members_of :: "portal_id \<Rightarrow> string list" where
  "members_of \<equiv> split_on (CHR '','')"

text \<open>The check \<^verbatim>\<open>existing != nil && existing.MXID != ""\<close>: the portal is known and has a room.\<close>

definition has_room :: "'e group_env \<Rightarrow> portal_id \<Rightarrow> bool" where
  "has_room c portalID =
     (case GetExistingPortalByKey (ge_bridge c) (portalID, ge_login c) of
        Inl _ \<Rightarrow> False
      | Inr None \<Rightarrow> False
      | Inr (Some p) \<Rightarrow> pr_MXID p \<noteq> [])"

section \<open>The member index\<close>

definition index_get :: "member_index \<Rightarrow> string \<Rightarrow> portal_id list" where
  "index_get idx member = (case map_of idx member of None \<Rightarrow> [] | Some ps \<Rightarrow> ps)"

definition index_add :: "portal_id \<Rightarrow> string \<Rightarrow> member_index \<Rightarrow> member_index" where
  "index_add portalID member idx = AList.update member (List.insert portalID (index_get idx member)) idx"

definition index_portal :: "portal_id \<Rightarrow> member_index \<Rightarrow> member_index" where
  "index_portal portalID idx = fold (index_add portalID) (members_of portalID) idx"

definition ensureGroupPortalIndex :: "'e group_env \<Rightarrow> group_state \<Rightarrow> group_state" where
  "ensureGroupPortalIndex c st =
     (case groupPortalIndex st of
        Some _ \<Rightarrow> st
      | None \<Rightarrow>
          (case ge_rows c of
             Inl _ \<Rightarrow> st
           | Inr portals \<Rightarrow>
               st\<lparr>groupPortalIndex := Some (fold (\<lambda>p idx.
                   if \<not> contains (fst (pr_key p)) '','' then idx
                   else if snd (pr_key p) \<noteq> ge_login c then idx
                   else index_portal (fst (pr_key p)) idx) portals [])\<rparr>))"

definition indexGroupPortalLocked :: "portal_id \<Rightarrow> group_state \<Rightarrow> group_state" where
  "indexGroupPortalLocked portalID st =
     (case groupPortalIndex st of
        None \<Rightarrow> st
      | Some idx \<Rightarrow>
          if \<not> contains portalID '','' then st
          else st\<lparr>groupPortalIndex := Some (index_portal portalID idx)\<rparr>)"

definition registerGroupPortal :: "portal_id \<Rightarrow> group_state \<Rightarrow> group_state" where
  "registerGroupPortal portalID st = indexGroupPortalLocked portalID st"

definition unindex_member :: "portal_id \<Rightarrow> string \<Rightarrow> member_index \<Rightarrow> member_index" where
  "unindex_member portalID member idx =
     (case map_of idx member of
        None \<Rightarrow> idx
      | Some ps \<Rightarrow>
          let ps' = removeAll portalID ps
          in if ps' = [] then AList.delete member idx else AList.update member ps' idx)"

definition unindex_portal :: "portal_id \<Rightarrow> member_index \<Rightarrow> member_index" where
  "unindex_portal portalID idx = fold (unindex_member portalID) (members_of portalID) idx"

section \<open>Re-keying a portal\<close>

definition move_entry :: "'k \<Rightarrow> 'k \<Rightarrow> ('k \<times> 'v) list \<Rightarrow> ('k \<times> 'v) list" where
  "move_entry old new al =
     (case map_of al old of None \<Rightarrow> al | Some v \<Rightarrow> AList.delete old (AList.update new v al))"

text \<open>\<open>reid\<close> is what the framework's \<^verbatim>\<open>ReIDPortal\<close> answers.\<close>

definition reIDPortalWithCacheUpdate :: "(portal_key \<Rightarrow> portal_key \<Rightarrow> 'err + 'r) \<Rightarrow> portal_key \<Rightarrow> portal_key \<Rightarrow> group_state
    \<Rightarrow> ('err + 'r) \<times> group_state" where
  "reIDPortalWithCacheUpdate reid oldKey newKey st =
     (let oldID = fst oldKey; newID = fst newKey
      in case reid oldKey newKey of
           Inl e \<Rightarrow> (Inl e, st)
         | Inr result \<Rightarrow>
             let st1 = st\<lparr>imGroupNames := move_entry oldID newID (imGroupNames st),
                   imGroupGuids := move_entry oldID newID (imGroupGuids st),
                   imGroupParticipants := move_entry oldID newID (imGroupParticipants st),
                   groupPortalIndex := map_option (unindex_portal oldID) (groupPortalIndex st)\<rparr>;
                 st2 = indexGroupPortalLocked newID st1
             in (Inr result,
                 st2\<lparr>lastGroupForMember := map (\<lambda>(m, k). (m, if k = oldKey then newKey else k)) (lastGroupForMember st2),
                     gidAliases := map (\<lambda>(a, t). (a, if t = oldID then newID else t)) (gidAliases st2),
                     smsRoutes := reid_routes oldID newID (smsRoutes st2)\<rparr>))"

section \<open>Fuzzy matching\<close>

text \<open>The portals that share members with a candidate, each with how many.\<close>

definition overlap_count :: "member_index \<Rightarrow> string list \<Rightarrow> portal_id \<Rightarrow> nat" where
  "overlap_count idx candidate existingID = length (filter (\<lambda>m. existingID \<in> set (index_get idx m)) candidate)"

definition overlapping :: "group_state \<Rightarrow> string list \<Rightarrow> (portal_id \<times> nat) list" where
  "overlapping st candidate =
     (case groupPortalIndex st of
        None \<Rightarrow> []
      | Some idx \<Rightarrow>
          map (\<lambda>p. (p, overlap_count idx candidate p)) (dedup (concat (map (index_get idx) candidate))))"

definition member_diff :: "string list \<Rightarrow> portal_id \<Rightarrow> nat \<Rightarrow> int" where
  "member_diff candidate existingID sharedCount =
     (int (length candidate) - int sharedCount) + (int (length (members_of existingID)) - int sharedCount)"

definition close_match :: "'e group_env \<Rightarrow> string list \<Rightarrow> portal_id \<Rightarrow> nat \<Rightarrow> bool" where
  "close_match c candidate existingID sharedCount \<longleftrightarrow>
     (let diff = member_diff candidate existingID sharedCount
      in \<not> diff > 1 \<and> \<not> (diff = 1 \<and> \<not> participantSetsMatch candidate (members_of existingID) (Some (ge_self c))))"

definition guid_conflict :: "group_state \<Rightarrow> string option \<Rightarrow> portal_id \<Rightarrow> bool" where
  "guid_conflict st senderGuid existingID =
     (case senderGuid of
        None \<Rightarrow> False
      | Some g \<Rightarrow>
          g \<noteq> [] \<and> (case map_of (imGroupGuids st) existingID of None \<Rightarrow> False | Some e \<Rightarrow> e \<noteq> [] \<and> e \<noteq> g))"

definition in_range_order :: "'e group_env \<Rightarrow> (string \<times> 'v) list \<Rightarrow> (string \<times> 'v) list" where
  "in_range_order c al = non_null (map (\<lambda>k. map_option (Pair k) (map_of al k)) (range_order c (map fst al)))"

definition resolveExistingGroupPortalID :: "'e group_env \<Rightarrow> portal_id \<Rightarrow> string option \<Rightarrow> group_state \<Rightarrow> portal_id \<times> group_state" where
  "resolveExistingGroupPortalID c computedID senderGuid st0 =
     (let st = ensureGroupPortalIndex c st0
      in if has_room c computedID then (computedID, st)
         else
           let candidate = members_of computedID
           in case find (\<lambda>(existingID, sharedCount).
                    close_match c candidate existingID sharedCount \<and> \<not> guid_conflict st senderGuid existingID \<and>
                    has_room c existingID) (in_range_order c (overlapping st candidate)) of
                Some (existingID, _) \<Rightarrow> (existingID, st)
              | None \<Rightarrow> (computedID, registerGroupPortal computedID st))"

definition resolveSMSGroupRedirectPortal :: "'e group_env \<Rightarrow> string list \<Rightarrow> string option \<Rightarrow> string option \<Rightarrow> group_state
    \<Rightarrow> portal_key option \<times> group_state" where
  "resolveSMSGroupRedirectPortal c participants sender senderGuid st =
     (if length participants \<noteq> 0 \<or> sender = None \<or> sender = Some [] then (None, st)
      else
        let by_guid = (case senderGuid of
              None \<Rightarrow> []
            | Some g \<Rightarrow>
                if g = [] then []
                else (''gid:'' @ to_lower g) #
                  (let matches = map fst (filter (\<lambda>(_, guid). to_lower guid = to_lower g) (imGroupGuids st))
                   in if length matches = 1 then matches else []));
            normalized = normalizeIdentifierForPortalID (the sender);
            st' = (if normalized \<noteq> [] then ensureGroupPortalIndex c st else st);
            by_member = (if normalized \<noteq> [] then
                (let portals = (case groupPortalIndex st' of None \<Rightarrow> [] | Some idx \<Rightarrow> index_get idx normalized)
                 in if length portals = 1 then portals else []) else []);
            candidates = dedup (filter (\<lambda>p. p \<noteq> []) (by_guid @ by_member))
        in if length candidates \<noteq> 1 then (None, st')
           else if has_room c (hd candidates) then (Some (hd candidates, ge_login c), st') else (None, st'))"

definition findGroupPortalForMember :: "'e group_env \<Rightarrow> string \<Rightarrow> group_state \<Rightarrow> portal_key option \<times> group_state" where
  "findGroupPortalForMember c member st =
     (let normalized = normalizeIdentifierForPortalID member
      in if normalized = [] then (None, st)
         else case map_of (lastGroupForMember st) normalized of
                Some lastGroup \<Rightarrow> (Some lastGroup, st)
              | None \<Rightarrow>
                  let st' = ensureGroupPortalIndex c st;
                      portals = (case groupPortalIndex st' of None \<Rightarrow> [] | Some idx \<Rightarrow> index_get idx normalized)
                  in if length portals \<noteq> 1 then (None, st') else (Some (hd portals, ge_login c), st'))"

section \<open>Resolving a group by its GUID\<close>

definition guidCacheMatchIsStale :: "'e group_env \<Rightarrow> group_state \<Rightarrow> portal_id \<Rightarrow> string list \<Rightarrow> bool" where
  "guidCacheMatchIsStale c st portalIDStr rawParticipants =
     (if rawParticipants = [] then False
      else
        let portalParts = (if \<not> contains portalIDStr '',''
              then (case map_of (imGroupParticipants st) portalIDStr of None \<Rightarrow> [] | Some ps \<Rightarrow> ps)
              else members_of portalIDStr)
        in if \<not> contains portalIDStr '','' \<and> portalParts = [] then False
           else list_ex (\<lambda>p. p \<notin> set portalParts \<and> \<not> ge_self c p) (canonical_members c rawParticipants))"

text \<open>
  The stale entry is removed from the cache, and from the stored metadata if the portal is known and still
  has the GUID.
\<close>

definition clear_stale_guid :: "'e group_env \<Rightarrow> portal_id \<Rightarrow> string \<Rightarrow> group_state \<Rightarrow> group_state" where
  "clear_stale_guid c portalIDStr guid st =
     (let st1 = (if map_of (imGroupGuids st) portalIDStr = Some guid
                 then st\<lparr>imGroupGuids := AList.delete portalIDStr (imGroupGuids st)\<rparr> else st);
          known = (case GetExistingPortalByKey (ge_bridge c) (portalIDStr, ge_login c) of Inr (Some _) \<Rightarrow> True | _ \<Rightarrow> False)
      in if \<not> known then st1
         else case map_of (portalMetadata st1) portalIDStr of
                None \<Rightarrow> st1
              | Some meta \<Rightarrow>
                  if pm_SenderGuid meta = guid
                  then st1\<lparr>portalMetadata := AList.update portalIDStr (meta\<lparr>pm_SenderGuid := []\<rparr>) (portalMetadata st1)\<rparr>
                  else st1)"

text \<open>Step 1: the loop over the GUID cache, entries in the order of the range.\<close>

fun guid_cache_match :: "'e group_env \<Rightarrow> string \<Rightarrow> string list \<Rightarrow> (portal_id \<times> string) list \<Rightarrow> group_state \<Rightarrow> portal_id option \<times> group_state" where
  "guid_cache_match c normalizedGuid participants [] st = (None, st)"
| "guid_cache_match c normalizedGuid participants ((portalIDStr, guid) # rest) st =
     (if to_lower guid = normalizedGuid then
        if guidCacheMatchIsStale c st portalIDStr participants
        then guid_cache_match c normalizedGuid participants rest (clear_stale_guid c portalIDStr guid st)
        else if has_room c portalIDStr then (Some portalIDStr, st)
        else guid_cache_match c normalizedGuid participants rest st
      else guid_cache_match c normalizedGuid participants rest st)"

definition normalized_members :: "string list \<Rightarrow> string list" where
  "normalized_members participants = filter (\<lambda>n. n \<noteq> []) (map normalizeIdentifierForPortalID participants)"

text \<open>Step 2: gid portals whose cached participants match.\<close>

definition participant_cache_match :: "'e group_env \<Rightarrow> portal_id \<Rightarrow> string list \<Rightarrow> group_state \<Rightarrow> portal_id option" where
  "participant_cache_match c gidPortalID normalizedParts st =
     map_option fst (find (\<lambda>(p, parts). p \<noteq> gidPortalID \<and> has_prefix p ''gid:'' \<and>
         participantSetsMatch parts normalizedParts (Some (ge_self c)) \<and> has_room c p)
       (in_range_order c (imGroupParticipants st)))"

text \<open>Step 3: comma portals; an exact match ends the loop, else the first close one.\<close>

definition member_index_match :: "'e group_env \<Rightarrow> string list \<Rightarrow> group_state \<Rightarrow> portal_id option" where
  "member_index_match c deduped st =
     (let close = filter (\<lambda>(p, n). close_match c deduped p n \<and> has_room c p) (in_range_order c (overlapping st deduped))
      in case find (\<lambda>(p, n). member_diff deduped p n = 0) close of
           Some (p, _) \<Rightarrow> Some p
         | None \<Rightarrow> (case close of [] \<Rightarrow> None | (p, _) # _ \<Rightarrow> Some p))"

text \<open>Step 4: the stored rosters.\<close>

definition stored_roster_match :: "'e group_env \<Rightarrow> portal_id \<Rightarrow> string list \<Rightarrow> portal_id option" where
  "stored_roster_match c gidPortalID normalizedParts =
     (case ge_store c of
        None \<Rightarrow> None
      | Some (s, db) \<Rightarrow>
          (case findPortalIDsByParticipants s normalizedParts (Some (ge_self c)) db of
             Inl _ \<Rightarrow> None
           | Inr matches \<Rightarrow>
               find (\<lambda>p. p \<noteq> gidPortalID \<and> (has_prefix p ''gid:'' \<or> contains p '','') \<and> has_room c p) matches))"

definition resolveExistingGroupByGid :: "'e group_env \<Rightarrow> portal_id \<Rightarrow> string \<Rightarrow> string list \<Rightarrow> group_state \<Rightarrow> portal_id \<times> group_state" where
  "resolveExistingGroupByGid c gidPortalID senderGuid participants st =
     (case guid_cache_match c (to_lower senderGuid) participants (in_range_order c (imGroupGuids st)) st of
        (Some p, st1) \<Rightarrow> (p, st1)
      | (None, st1) \<Rightarrow>
          let normalizedParts = normalized_members participants
          in if participants = [] \<or> normalizedParts = [] then (gidPortalID, st1)
             else case participant_cache_match c gidPortalID normalizedParts st1 of
                    Some p \<Rightarrow> (p, st1)
                  | None \<Rightarrow>
                      let st2 = ensureGroupPortalIndex c st1
                      in case member_index_match c (canonical_members c normalizedParts) st2 of
                           Some p \<Rightarrow> (p, st2)
                         | None \<Rightarrow>
                             (case stored_roster_match c gidPortalID normalizedParts of
                                Some p \<Rightarrow> (p, st2)
                              | None \<Rightarrow> (gidPortalID, st2)))"

section \<open>The key of a conversation\<close>

text \<open>What a handler starts in the background.\<close>

datatype group_effect =
    NameChange portal_key string
  | PersistParticipants portal_key "string list" string
  | SaveMetadata portal_key string string

text \<open>The portal of a gid: an alias that is not stale, the gid's own room, or the resolution, which is remembered.\<close>

definition stale_alias :: "'e group_env \<Rightarrow> string list \<Rightarrow> portal_id \<Rightarrow> group_state \<Rightarrow> bool" where
  "stale_alias c participants gidID st =
     (case map_of (gidAliases st) gidID of
        None \<Rightarrow> False
      | Some aliasedID \<Rightarrow>
          let canonical = canonical_members c participants
          in length participants > 0 \<and> length canonical > 0 \<and> guidCacheMatchIsStale c st aliasedID canonical)"

definition usable_alias :: "'e group_env \<Rightarrow> string list \<Rightarrow> portal_id \<Rightarrow> group_state \<Rightarrow> portal_id" where
  "usable_alias c participants gidID st =
     (if stale_alias c participants gidID st then []
      else case map_of (gidAliases st) gidID of None \<Rightarrow> [] | Some aliasedID \<Rightarrow> aliasedID)"

definition drop_stale_alias :: "'e group_env \<Rightarrow> string list \<Rightarrow> portal_id \<Rightarrow> group_state \<Rightarrow> group_state" where
  "drop_stale_alias c participants gidID st =
     (if stale_alias c participants gidID st then st\<lparr>gidAliases := AList.delete gidID (gidAliases st)\<rparr> else st)"

definition portal_of_gid :: "'e group_env \<Rightarrow> string list \<Rightarrow> string \<Rightarrow> group_state \<Rightarrow> portal_id \<times> group_state" where
  "portal_of_gid c participants guid st =
     (let gidID = ''gid:'' @ to_lower guid;
          aliased = usable_alias c participants gidID st;
          st1 = drop_stale_alias c participants gidID st
      in if aliased \<noteq> [] then (aliased, st1)
         else if has_room c gidID then (gidID, st1)
         else
           let (p, st2) = resolveExistingGroupByGid c gidID guid participants st1
           in (p, if p \<noteq> gidID then st2\<lparr>gidAliases := AList.update gidID p (gidAliases st2)\<rparr> else st2))"

definition group_portal :: "'e group_env \<Rightarrow> string list \<Rightarrow> string option \<Rightarrow> bool \<Rightarrow> group_state \<Rightarrow> portal_id \<times> group_state" where
  "group_portal c participants senderGuid isSms st =
     (case senderGuid of
        Some g \<Rightarrow>
          if g \<noteq> [] \<and> \<not> isSms then portal_of_gid c participants g st
          else resolveExistingGroupPortalID c (join '','' (canonical_members c participants)) (if isSms then None else senderGuid) st
      | None \<Rightarrow>
          resolveExistingGroupPortalID c (join '','' (canonical_members c participants)) None st)"

text \<open>What a group message leaves in the caches, and what it persists.\<close>

definition cache_group :: "'e group_env \<Rightarrow> portal_id \<Rightarrow> string list \<Rightarrow> string option \<Rightarrow> string option \<Rightarrow> string option
    \<Rightarrow> group_state \<Rightarrow> group_state \<times> group_effect list" where
  "cache_group c portalID participants groupName sender senderGuid st =
     (let key = (portalID, ge_login c);
          name = (case groupName of None \<Rightarrow> [] | Some n \<Rightarrow> n);
          guid = (case senderGuid of None \<Rightarrow> [] | Some g \<Rightarrow> g);
          old = (case map_of (imGroupNames st) portalID of None \<Rightarrow> [] | Some n \<Rightarrow> n);
          st1 = (if name \<noteq> [] then st\<lparr>imGroupNames := AList.update portalID name (imGroupNames st)\<rparr> else st);
          normalized = normalized_members participants;
          st2 = (if participants \<noteq> [] \<and> normalized \<noteq> []
                 then st1\<lparr>imGroupParticipants := AList.update portalID normalized (imGroupParticipants st1)\<rparr> else st1);
          st3 = (if guid \<noteq> [] \<and> (contains portalID '','' \<or> portalID = ''gid:'' @ to_lower guid)
                 then st2\<lparr>imGroupGuids := AList.update portalID guid (imGroupGuids st2)\<rparr> else st2);
          from = (case sender of None \<Rightarrow> [] | Some s \<Rightarrow> if s = [] then [] else normalizeIdentifierForPortalID s);
          st4 = (if from \<noteq> [] \<and> \<not> ge_self c from
                 then st3\<lparr>lastGroupForMember := AList.update from key (lastGroupForMember st3)\<rparr> else st3)
      in (st4,
          (if name \<noteq> [] \<and> old \<noteq> name then [NameChange key name] else []) @
          (if has_prefix portalID ''gid:'' \<and> participants \<noteq> [] then [PersistParticipants key participants guid] else []) @
          (if guid \<noteq> [] \<or> name \<noteq> [] then [SaveMetadata key guid name] else [])))"

definition first_remote :: "'e group_env \<Rightarrow> string list \<Rightarrow> string option" where
  "first_remote c participants =
     find (\<lambda>n. n \<noteq> [] \<and> \<not> ge_self c n) (map normalizeIdentifierForPortalID participants)"

text \<open>The key of a conversation that is not a group.\<close>

definition dm_key :: "'e group_env \<Rightarrow> string list \<Rightarrow> string option \<Rightarrow> portal_key" where
  "dm_key c participants sender =
     (case first_remote c participants of
        Some n \<Rightarrow> (resolveContactPortalID (ge_merge c) (ge_bridge c) n, ge_login c)
      | None \<Rightarrow>
          (case (case sender of None \<Rightarrow> None | Some s \<Rightarrow> if s = [] then None else first_remote c [s]) of
             Some n \<Rightarrow> (resolveContactPortalID (ge_merge c) (ge_bridge c) n, ge_login c)
           | None \<Rightarrow>
               (case participants of
                  p # _ \<Rightarrow>
                    (resolveExistingDMPortalID (ge_merge c) (ge_bridge c)
                       (if normalizeIdentifierForPortalID p = [] then p else normalizeIdentifierForPortalID p), ge_login c)
                | [] \<Rightarrow> (''unknown'', ge_login c))))"

definition is_group_message :: "'e group_env \<Rightarrow> string list \<Rightarrow> string option \<Rightarrow> string option \<Rightarrow> bool" where
  "is_group_message c participants groupName sender \<longleftrightarrow>
     countNonSelfMembers (ge_merge c) participants sender \<ge> 2 \<or> (groupName \<noteq> None \<and> groupName \<noteq> Some [])"

definition makePortalKey :: "'e group_env \<Rightarrow> string list \<Rightarrow> string option \<Rightarrow> string option \<Rightarrow> string option \<Rightarrow> bool \<Rightarrow> group_state
    \<Rightarrow> portal_key \<times> group_state \<times> group_effect list" where
  "makePortalKey c participants groupName sender senderGuid isSms st =
     (if is_group_message c participants groupName sender then
        let (portalID, st1) = group_portal c participants senderGuid isSms st;
            (st2, effects) = cache_group c portalID participants groupName sender senderGuid st1
        in ((portalID, ge_login c), st2, effects)
      else (dm_key c participants sender, st, []))"

definition makeReceiptPortalKey :: "'e group_env \<Rightarrow> string list \<Rightarrow> string option \<Rightarrow> string option \<Rightarrow> string option \<Rightarrow> bool \<Rightarrow> group_state
    \<Rightarrow> portal_key \<times> group_state \<times> group_effect list" where
  "makeReceiptPortalKey c participants groupName sender senderGuid isSms st =
     (if participants \<noteq> [] then makePortalKey c participants groupName sender senderGuid isSms st
      else case sender of
             None \<Rightarrow> ((''unknown'', ge_login c), st, [])
           | Some s \<Rightarrow>
               if s = [] \<or> normalizeIdentifierForPortalID s = [] then ((''unknown'', ge_login c), st, [])
               else ((resolveContactPortalID (ge_merge c) (ge_bridge c) (normalizeIdentifierForPortalID s), ge_login c), st, []))"

text \<open>What the background writes do when they run: the roster to the store, GUID and name to the portal's metadata.\<close>

definition persist_participants :: "cloudBackfillStore \<Rightarrow> millis \<Rightarrow> portal_key \<Rightarrow> string list \<Rightarrow> string \<Rightarrow> cloud_db \<Rightarrow> cloud_db" where
  "persist_participants s now key parts guid db =
     (case getChatParticipantsByPortalID s (fst key) db of
        Inr (Some (_ # _)) \<Rightarrow> db
      | _ \<Rightarrow> upsertChat s now guid [] guid (fst key) ''iMessage'' None None (Some parts) 0 db)"

definition save_group_metadata :: "string \<Rightarrow> string \<Rightarrow> PortalMetadata option \<Rightarrow> PortalMetadata option" where
  "save_group_metadata guid gname existing =
     (let meta = (case existing of None \<Rightarrow> no_metadata | Some m \<Rightarrow> m);
          meta1 = (if guid \<noteq> [] \<and> pm_SenderGuid meta \<noteq> guid then meta\<lparr>pm_SenderGuid := guid\<rparr> else meta);
          meta2 = (if gname \<noteq> [] \<and> pm_GroupName meta1 \<noteq> gname then meta1\<lparr>pm_GroupName := gname\<rparr> else meta1)
      in if meta2 \<noteq> meta then Some meta2 else existing)"

section \<open>The index as a set of portals\<close>

text \<open>
  The contract of an inverted index: \<open>get\<close> lists, without repetition, the portals of a member; inserting and
  removing a portal touches the members it names and no others. What the index stands for is the set of
  indexed portals.
\<close>

locale inverted_index =
  fixes keys :: "'p \<Rightarrow> 'm list"
    and get :: "'i \<Rightarrow> 'm \<Rightarrow> 'p list"
    and ins :: "'p \<Rightarrow> 'i \<Rightarrow> 'i"
    and del :: "'p \<Rightarrow> 'i \<Rightarrow> 'i"
    and empty :: "'i"
  assumes get_empty: "get empty m = []"
    and get_ins: "set (get (ins p i) m) = (if m \<in> set (keys p) then insert p (set (get i m)) else set (get i m))"
    and get_del: "set (get (del p i) m) = (if m \<in> set (keys p) then set (get i m) - {p} else set (get i m))"
    and distinct_ins: "\<forall>m. distinct (get i m) \<Longrightarrow> distinct (get (ins p i) m)"
    and distinct_del: "\<forall>m. distinct (get i m) \<Longrightarrow> distinct (get (del p i) m)"
begin

definition holds :: "'i \<Rightarrow> 'p set \<Rightarrow> bool" where
  "holds i P \<longleftrightarrow> (\<forall>m. distinct (get i m) \<and> set (get i m) = {p \<in> P. m \<in> set (keys p)})"

lemma holds_empty: "holds empty {}"
  by (simp add: holds_def get_empty)

lemma holds_ins: "holds i P \<Longrightarrow> holds (ins p i) (insert p P)"
  unfolding holds_def by (auto simp: get_ins intro: distinct_ins)

lemma holds_del: "holds i P \<Longrightarrow> holds (del p i) (P - {p})"
  unfolding holds_def by (auto simp: get_del intro: distinct_del)

lemma holds_fold: "holds i P \<Longrightarrow> holds (fold (\<lambda>x i. if c x then i else ins (f x) i) xs i) (P \<union> f ` {x \<in> set xs. \<not> c x})"
proof (induction xs arbitrary: i P)
  case (Cons x xs)
  have "holds (if c x then i else ins (f x) i) (if c x then P else insert (f x) P)" using Cons.prems holds_ins by simp
  moreover have eq: "(if c x then P else insert (f x) P) \<union> f ` {x \<in> set xs. \<not> c x} = P \<union> f ` {y \<in> set (x # xs). \<not> c y}" by auto
  ultimately show ?case using Cons.IH [of "if c x then i else ins (f x) i" "if c x then P else insert (f x) P"] unfolding eq by simp
qed simp

lemma get_mem: "holds i P \<Longrightarrow> p \<in> set (get i m) \<longleftrightarrow> p \<in> P \<and> m \<in> set (keys p)"
  by (simp add: holds_def)

text \<open>A member of exactly one indexed portal.\<close>

lemma sole_holder:
  assumes "holds i P"
  shows "length (get i m) = 1 \<longleftrightarrow> (\<exists>p. {p \<in> P. m \<in> set (keys p)} = {p} \<and> get i m = [p])"
proof -
  have "distinct (get i m)" "set (get i m) = {p \<in> P. m \<in> set (keys p)}" using assms by (auto simp: holds_def)
  then show ?thesis by (cases "get i m" rule: remdups_adj.cases) auto
qed

lemma shared_count:
  assumes "holds i P" "distinct xs"
  shows "length (filter (\<lambda>m. p \<in> set (get i m)) xs) = (if p \<in> P then card (set xs \<inter> set (keys p)) else 0)"
proof (cases "p \<in> P")
  case True
  have "length (filter (\<lambda>m. p \<in> set (get i m)) xs) = card (set (filter (\<lambda>m. p \<in> set (get i m)) xs))"
    using assms(2) by (simp add: distinct_card del: set_filter)
  also have "set (filter (\<lambda>m. p \<in> set (get i m)) xs) = set xs \<inter> set (keys p)"
    using True get_mem [OF assms(1)] by auto
  finally show ?thesis using True by simp
next
  case False
  then show ?thesis using get_mem [OF assms(1)] by simp
qed

end

lemma get_index_add: "index_get (index_add p m idx) m' = (if m' = m then List.insert p (index_get idx m) else index_get idx m')"
  by (simp add: index_get_def index_add_def update_conv')

lemma get_unindex_member:
  "index_get (unindex_member p m idx) m' = (if m' = m then removeAll p (index_get idx m) else index_get idx m')"
  by (simp add: index_get_def unindex_member_def update_conv' delete_conv Let_def split: option.splits)

lemma get_index_members:
  "set (index_get (fold (index_add p) ms idx) m) = (if m \<in> set ms then insert p (set (index_get idx m)) else set (index_get idx m))"
  "\<forall>m. distinct (index_get idx m) \<Longrightarrow> distinct (index_get (fold (index_add p) ms idx) m)"
  by (induction ms arbitrary: idx) (auto simp: get_index_add split: if_splits)

lemma get_unindex_members:
  "set (index_get (fold (unindex_member p) ms idx) m) = (if m \<in> set ms then set (index_get idx m) - {p} else set (index_get idx m))"
  "\<forall>m. distinct (index_get idx m) \<Longrightarrow> distinct (index_get (fold (unindex_member p) ms idx) m)"
  by (induction ms arbitrary: idx) (auto simp: get_unindex_member distinct_removeAll split: if_splits)

interpretation group_index: inverted_index members_of index_get index_portal unindex_portal "[]"
  by unfold_locales
    (auto simp: index_get_def [of "[]"] index_portal_def unindex_portal_def get_index_members get_unindex_members)

text \<open>What the index of a state stands for: nothing as long as it is not built, then a set of portals.\<close>

definition indexes :: "group_state \<Rightarrow> portal_id set option \<Rightarrow> bool" where
  "indexes st S \<longleftrightarrow> rel_option group_index.holds (groupPortalIndex st) S"

definition comma_rooms :: "login_id \<Rightarrow> portal_row list \<Rightarrow> portal_id set" where
  "comma_rooms login rows = {p. contains p '','' \<and> (\<exists>r \<in> set rows. pr_key r = (p, login))}"

text \<open>The operations on the index, and on the set it stands for.\<close>

datatype index_op = Ensure | Register portal_id | ReID portal_id portal_id

definition index_op :: "'e group_env \<Rightarrow> index_op \<Rightarrow> group_state \<Rightarrow> group_state" where
  "index_op c op st =
     (case op of
        Ensure \<Rightarrow> ensureGroupPortalIndex c st
      | Register p \<Rightarrow> registerGroupPortal p st
      | ReID old new \<Rightarrow>
          snd (reIDPortalWithCacheUpdate (\<lambda>_ _. (Inr () :: unit + unit)) (old, ge_login c) (new, ge_login c) st))"

definition portal_set_op :: "'e group_env \<Rightarrow> index_op \<Rightarrow> portal_id set option \<Rightarrow> portal_id set option" where
  "portal_set_op c op S =
     (case op of
        Ensure \<Rightarrow> (case S of Some _ \<Rightarrow> S
          | None \<Rightarrow> (case ge_rows c of Inl _ \<Rightarrow> None | Inr rows \<Rightarrow> Some (comma_rooms (ge_login c) rows)))
      | Register p \<Rightarrow> map_option (\<lambda>P. if contains p '','' then insert p P else P) S
      | ReID old new \<Rightarrow> map_option (\<lambda>P. if contains new '','' then insert new (P - {old}) else P - {old}) S)"

lemma build_index:
  "group_index.holds (fold (\<lambda>p idx. if \<not> contains (fst (pr_key p)) '','' then idx else if snd (pr_key p) \<noteq> login then idx
     else index_portal (fst (pr_key p)) idx) rows []) (comma_rooms login rows)"
proof -
  let ?skip = "\<lambda>p. \<not> contains (fst (pr_key p)) '','' \<or> snd (pr_key p) \<noteq> login"
  have step: "group_index.holds (fold (\<lambda>p idx. if ?skip p then idx else index_portal (fst (pr_key p)) idx) rows [])
      ({} \<union> (\<lambda>p. fst (pr_key p)) ` {p \<in> set rows. \<not> ?skip p})"
    by (rule group_index.holds_fold [OF group_index.holds_empty])
  have rooms: "{} \<union> (\<lambda>p. fst (pr_key p)) ` {p \<in> set rows. \<not> ?skip p} = comma_rooms login rows"
  proof (rule set_eqI)
    fix q
    have "(\<exists>r \<in> set rows. pr_key r = (q, login)) \<longleftrightarrow> (\<exists>r \<in> set rows. fst (pr_key r) = q \<and> snd (pr_key r) = login)"
      by (simp add: prod_eq_iff)
    then show "q \<in> {} \<union> (\<lambda>p. fst (pr_key p)) ` {p \<in> set rows. \<not> ?skip p} \<longleftrightarrow> q \<in> comma_rooms login rows"
      unfolding comma_rooms_def by blast
  qed
  have skip: "(\<lambda>p idx. if ?skip p then idx else index_portal (fst (pr_key p)) idx) =
      (\<lambda>p idx. if \<not> contains (fst (pr_key p)) '','' then idx else if snd (pr_key p) \<noteq> login then idx
        else index_portal (fst (pr_key p)) idx)"
    by (intro ext) simp
  show ?thesis using step [unfolded skip rooms] .
qed

lemma index_op_refines: "indexes st S \<Longrightarrow> indexes (index_op c op st) (portal_set_op c op S)"
proof (cases op)
  case Ensure
  assume "indexes st S"
  then show ?thesis using build_index [of "ge_login c"] Ensure
    by (auto simp: indexes_def index_op_def portal_set_op_def ensureGroupPortalIndex_def rel_option_iff
        simp del: contains_char split: option.splits sum.splits)
next
  case (Register p)
  assume "indexes st S"
  then show ?thesis using Register
    by (auto simp: indexes_def index_op_def portal_set_op_def registerGroupPortal_def indexGroupPortalLocked_def rel_option_iff
        group_index.holds_ins split: option.splits)
next
  case (ReID old new)
  assume "indexes st S"
  then show ?thesis using ReID group_index.holds_ins [OF group_index.holds_del, where p = new] group_index.holds_del
    by (fastforce simp: indexes_def index_op_def portal_set_op_def reIDPortalWithCacheUpdate_def indexGroupPortalLocked_def
        rel_option_iff Let_def split: option.splits)
qed

lemma index_ops_refine:
  "indexes st S \<Longrightarrow> indexes (fold (index_op c) ops st) (fold (portal_set_op c) ops S)"
  by (induction ops arbitrary: st S) (simp_all add: index_op_refines)

lemma ensure_indexes: "indexes st S \<Longrightarrow> indexes (ensureGroupPortalIndex c st) (portal_set_op c Ensure S)"
  using index_op_refines [of st S c Ensure] by (simp add: index_op_def)

section \<open>Who is in a room\<close>

text \<open>Two lists of members name the same people, up to handles of the user.\<close>

definition same_people :: "'e group_env \<Rightarrow> string list \<Rightarrow> string list \<Rightarrow> bool" where
  "same_people c xs ys \<longleftrightarrow> (\<forall>m. \<not> ge_self c m \<longrightarrow> (m \<in> set xs \<longleftrightarrow> m \<in> set ys))"

lemma participantSetsMatch_people: "participantSetsMatch xs ys (Some (ge_self c)) \<Longrightarrow> same_people c xs ys"
  unfolding participantSetsMatch_iff same_people_def by blast

lemma close_match_people:
  assumes "close_match c xs p (card (set xs \<inter> set (members_of p)))" "distinct xs"
  shows "same_people c xs (members_of p)"
proof -
  let ?E = "members_of p" and ?n = "card (set xs \<inter> set (members_of p))"
  have "?n \<le> card (set xs)" "?n \<le> card (set ?E)" by (simp_all add: card_mono)
  then have n: "?n \<le> length xs" "?n \<le> length ?E" using assms(2) distinct_card card_length [of ?E] by fastforce+
  show ?thesis
  proof (cases "member_diff xs p ?n = 1")
    case True
    then show ?thesis using assms(1) participantSetsMatch_people by (simp add: close_match_def)
  next
    case False
    then have "length xs = ?n" "length ?E = ?n" using assms(1) n by (auto simp: close_match_def member_diff_def Let_def)
    then have "card (set xs) = ?n" "card (set ?E) = ?n"
      using assms(2) distinct_card [of xs] card_length [of ?E] \<open>?n \<le> card (set ?E)\<close> by auto
    then have "set xs \<inter> set ?E = set xs" "set xs \<inter> set ?E = set ?E"
      by (metis List.finite_set card_subset_eq inf_le1) (metis List.finite_set \<open>card (set ?E) = ?n\<close> card_subset_eq inf_le2)
    then have "set xs = set ?E" by simp
    then show ?thesis by (simp add: same_people_def)
  qed
qed

lemma exact_match_close:
  assumes "set xs = set (members_of p)" "distinct xs" "distinct (members_of p)"
  shows "close_match c xs p (card (set xs \<inter> set (members_of p)))"
  using assms distinct_card [of xs] distinct_card [of "members_of p"] by (simp add: close_match_def member_diff_def Let_def)

text \<open>The candidates of a fuzzy match are the indexed portals that share a member.\<close>

lemma overlapping_mem:
  assumes "indexes st S" "distinct xs"
  shows "(p, n) \<in> set (overlapping st xs) \<longleftrightarrow>
    (\<exists>P. S = Some P \<and> p \<in> P) \<and> set xs \<inter> set (members_of p) \<noteq> {} \<and> n = card (set xs \<inter> set (members_of p))"
proof (cases "groupPortalIndex st")
  case None
  then show ?thesis using assms(1) by (simp add: indexes_def overlapping_def)
next
  case (Some idx)
  then obtain P where holds: "group_index.holds idx P" and S: "S = Some P" using assms(1) by (auto simp: indexes_def option_rel_Some1)
  have "overlap_count idx xs p = (if p \<in> P then card (set xs \<inter> set (members_of p)) else 0)"
    unfolding overlap_count_def by (rule group_index.shared_count [OF holds assms(2)])
  moreover have "(\<exists>m \<in> set xs. p \<in> set (index_get idx m)) \<longleftrightarrow> p \<in> P \<and> set xs \<inter> set (members_of p) \<noteq> {}"
    using group_index.get_mem [OF holds] by blast
  ultimately show ?thesis using Some S by (auto simp: overlapping_def)
qed

text \<open>A range visits every key of a map, in whatever order.\<close>

definition any_order :: "'e group_env \<Rightarrow> bool" where
  "any_order c \<longleftrightarrow> (\<forall>xs. set (range_order c xs) = set xs)"

lemma in_range_order_mem: "any_order c \<Longrightarrow> (k, v) \<in> set (in_range_order c al) \<longleftrightarrow> map_of al k = Some v"
proof -
  assume "any_order c"
  then have "(k, v) \<in> set (in_range_order c al) \<longleftrightarrow> (\<exists>k' \<in> set (map fst al). Some (k, v) = map_option (Pair k') (map_of al k'))"
    by (simp add: any_order_def in_range_order_def image_iff)
  also have "\<dots> \<longleftrightarrow> (\<exists>k' \<in> set (map fst al). k' = k \<and> map_of al k' = Some v)"
    by (intro bex_cong refl) (auto simp: eq_commute [of "Some _"])
  also have "\<dots> \<longleftrightarrow> map_of al k = Some v" using map_of_SomeD [of al k v] by force
  finally show ?thesis .
qed

lemma overlapping_map: "map_of (overlapping st xs) p = Some n \<longleftrightarrow> (p, n) \<in> set (overlapping st xs)"
  by (rule map_of_eq_Some_iff) (simp add: overlapping_def comp_def split: option.split)

lemma range_overlapping:
  "any_order c \<Longrightarrow> (p, n) \<in> set (in_range_order c (overlapping st xs)) \<longleftrightarrow> (p, n) \<in> set (overlapping st xs)"
  by (simp add: in_range_order_mem overlapping_map)

section \<open>What a resolution rests on\<close>

lemma ensure_caches [simp]:
  "imGroupGuids (ensureGroupPortalIndex c st) = imGroupGuids st"
  "imGroupParticipants (ensureGroupPortalIndex c st) = imGroupParticipants st"
  "gidAliases (ensureGroupPortalIndex c st) = gidAliases st"
  by (simp_all add: ensureGroupPortalIndex_def split: option.splits sum.splits)

lemma members_nonempty: "set (members_of p) \<noteq> {}"
  by simp

lemma fuzzy_mem:
  assumes "indexes st S" "any_order c" "distinct xs" "(p, n) \<in> set (in_range_order c (overlapping st xs))"
  shows "n = card (set xs \<inter> set (members_of p))"
  using assms(4) overlapping_mem [OF assms(1,3)] range_overlapping [OF assms(2)] by metis

text \<open>The members the store has for a portal, in a live row of the login.\<close>

definition stored_roster :: "'e group_env \<Rightarrow> portal_id \<Rightarrow> string list \<Rightarrow> bool" where
  "stored_roster c p roster \<longleftrightarrow>
     (\<exists>s db r j raw. ge_store c = Some (s, db) \<and> r \<in> set (cloud_chat db) \<and> c_login_id r = loginID s \<and> \<not> c_deleted r \<and>
       c_portal_id r = p \<and> c_participants_json r = Some j \<and> json_unmarshal j = Inr raw \<and> roster = normalize_roster raw)"

lemma map_sum_Inr: "map_sum id f x = Inr y \<Longrightarrow> \<exists>z. x = Inr z \<and> y = f z"
  by (cases x) auto

lemma match_rosters_mem:
  assumes "match_rosters target isSelf seen rows = Inr ps" "p \<in> set ps"
  shows "\<exists>j raw. (p, Some j) \<in> set rows \<and> json_unmarshal j = Inr raw \<and> participantSetsMatch (normalize_roster raw) target isSelf"
  using assms
proof (induction target isSelf seen rows arbitrary: ps rule: match_rosters.induct)
  case (3 target isSelf seen q j rest)
  let ?matched = "\<lambda>rows. \<exists>j raw. (p, Some j) \<in> set rows \<and> json_unmarshal j = Inr raw \<and> participantSetsMatch (normalize_roster raw) target isSelf"
  have later: "?matched rest \<Longrightarrow> ?matched ((q, Some j) # rest)" by auto
  consider (old) "match_rosters target isSelf seen rest = Inr ps" "q \<in> set seen"
    | (bad) e where "json_unmarshal j = Inl e" "q \<notin> set seen" "match_rosters target isSelf seen rest = Inr ps"
    | (other) raw where "json_unmarshal j = Inr raw" "q \<notin> set seen" "\<not> participantSetsMatch (normalize_roster raw) target isSelf"
        "match_rosters target isSelf seen rest = Inr ps"
    | (hit) raw ps' where "json_unmarshal j = Inr raw" "q \<notin> set seen" "participantSetsMatch (normalize_roster raw) target isSelf"
        "match_rosters target isSelf (q # seen) rest = Inr ps'" "ps = q # ps'"
    using "3.prems"(1) by (cases "q \<in> set seen"; cases "json_unmarshal j") (auto split: if_splits dest!: map_sum_Inr)
  then show ?case
  proof cases
    case old
    then show ?thesis using "3.IH"(1) "3.prems"(2) later by blast
  next
    case bad
    then show ?thesis using "3.IH"(2) "3.prems"(2) later by blast
  next
    case other
    then show ?thesis using "3.IH"(4) "3.prems"(2) later by blast
  next
    case hit
    show ?thesis
    proof (cases "p = q")
      case True
      then show ?thesis using hit by auto
    next
      case False
      then show ?thesis using "3.IH"(3) hit "3.prems"(2) later by auto
    qed
  qed
qed simp_all

lemma stored_roster_match_people:
  assumes "stored_roster_match c gid parts = Some p"
  shows "p \<noteq> gid \<and> has_room c p \<and> (\<exists>roster. stored_roster c p roster \<and> same_people c roster parts)"
proof -
  from assms obtain s db ps where store: "ge_store c = Some (s, db)" "findPortalIDsByParticipants s parts (Some (ge_self c)) db = Inr ps"
    "p \<in> set ps" "p \<noteq> gid" "has_room c p"
    by (auto simp: stored_roster_match_def find_Some_iff split: option.splits sum.splits)
  obtain j raw where roster: "(p, Some j) \<in> set (map (\<lambda>r. (c_portal_id r, c_participants_json r)) (chat_rows s (\<lambda>r. c_portal_id r \<noteq> [] \<and> \<not> c_deleted r) db))"
    "json_unmarshal j = Inr raw" "participantSetsMatch (normalize_roster raw) parts (Some (ge_self c))"
    using match_rosters_mem [OF store(2) [unfolded findPortalIDsByParticipants_def] store(3)] by auto
  then obtain r where "r \<in> set (cloud_chat db)" "c_login_id r = loginID s" "\<not> c_deleted r" "c_portal_id r = p" "c_participants_json r = Some j"
    by (auto simp: chat_rows_def)
  then have "stored_roster c p (normalize_roster raw)" unfolding stored_roster_def using store(1) roster(2) by blast
  then show ?thesis using roster(3) store(4,5) participantSetsMatch_people by blast
qed

lemma clear_stale_guid_caches [simp]:
  "imGroupParticipants (clear_stale_guid c p g st) = imGroupParticipants st"
  "groupPortalIndex (clear_stale_guid c p g st) = groupPortalIndex st"
  "gidAliases (clear_stale_guid c p g st) = gidAliases st"
  by (simp_all add: clear_stale_guid_def Let_def split: option.splits sum.splits)

lemma stale_cong: "imGroupParticipants st = imGroupParticipants st' \<Longrightarrow> guidCacheMatchIsStale c st p ps = guidCacheMatchIsStale c st' p ps"
  by (simp add: guidCacheMatchIsStale_def)

lemma guid_cache_keeps:
  "imGroupParticipants (snd (guid_cache_match c g ps entries st)) = imGroupParticipants st"
  "groupPortalIndex (snd (guid_cache_match c g ps entries st)) = groupPortalIndex st"
  "gidAliases (snd (guid_cache_match c g ps entries st)) = gidAliases st"
  by (induction c g ps entries st rule: guid_cache_match.induct) (simp_all split: if_splits)

text \<open>The loop over the GUID cache answers with a room whose entry is not stale, and finds one if there is one.\<close>

lemma guid_cache_Some:
  assumes "guid_cache_match c g ps entries st = (Some p, st')"
  shows "has_room c p \<and> \<not> guidCacheMatchIsStale c st p ps \<and> (\<exists>g'. (p, g') \<in> set entries \<and> to_lower g' = g)"
  using assms
proof (induction c g ps entries st rule: guid_cache_match.induct)
  case (2 c g ps q g' rest st)
  have "guidCacheMatchIsStale c (clear_stale_guid c q g' st) p ps = guidCacheMatchIsStale c st p ps" by (rule stale_cong) simp
  then show ?case using 2 by (auto split: if_splits)
qed simp

lemma guid_cache_None:
  "fst (guid_cache_match c g ps entries st) = None \<longleftrightarrow>
   (\<forall>(p, g') \<in> set entries. to_lower g' = g \<longrightarrow> guidCacheMatchIsStale c st p ps \<or> \<not> has_room c p)"
proof (induction c g ps entries st rule: guid_cache_match.induct)
  case (2 c g ps q g' rest st)
  have "guidCacheMatchIsStale c (clear_stale_guid c q g' st) p ps = guidCacheMatchIsStale c st p ps" for p by (rule stale_cong) simp
  then show ?case using 2 by auto
qed simp

text \<open>Steps 2 and 3: what they answer with, and when they answer nothing, whatever the order of the range.\<close>

lemma participant_cache_Some:
  assumes "participant_cache_match c gid parts st = Some p" "any_order c"
  shows "p \<noteq> gid \<and> has_room c p \<and> (\<exists>ps. map_of (imGroupParticipants st) p = Some ps \<and> same_people c ps parts)"
proof -
  obtain ps where "find (\<lambda>(p, ps). p \<noteq> gid \<and> has_prefix p ''gid:'' \<and> participantSetsMatch ps parts (Some (ge_self c)) \<and> has_room c p)
      (in_range_order c (imGroupParticipants st)) = Some (p, ps)"
    using assms(1) by (auto simp: participant_cache_match_def)
  then have "(p, ps) \<in> set (in_range_order c (imGroupParticipants st))" "p \<noteq> gid" "has_room c p"
    "participantSetsMatch ps parts (Some (ge_self c))"
    unfolding find_Some_iff by (auto, metis nth_mem)
  then show ?thesis using in_range_order_mem [OF assms(2)] participantSetsMatch_people by metis
qed

lemma participant_cache_None:
  assumes "any_order c"
  shows "participant_cache_match c gid parts st = None \<longleftrightarrow>
    (\<forall>p ps. map_of (imGroupParticipants st) p = Some ps \<longrightarrow>
      \<not> (p \<noteq> gid \<and> has_prefix p ''gid:'' \<and> participantSetsMatch ps parts (Some (ge_self c)) \<and> has_room c p))"
proof -
  have "participant_cache_match c gid parts st = None \<longleftrightarrow>
      (\<forall>(p, ps) \<in> set (in_range_order c (imGroupParticipants st)).
        \<not> (p \<noteq> gid \<and> has_prefix p ''gid:'' \<and> participantSetsMatch ps parts (Some (ge_self c)) \<and> has_room c p))"
    by (auto simp: participant_cache_match_def find_None_iff)
  then show ?thesis using in_range_order_mem [OF assms, of _ _ "imGroupParticipants st"] by (simp add: Ball_def)
qed

lemma member_index_close:
  assumes "member_index_match c xs st = Some p"
  obtains n where "(p, n) \<in> set (in_range_order c (overlapping st xs))" "close_match c xs p n" "has_room c p"
proof -
  let ?close = "filter (\<lambda>(p, n). close_match c xs p n \<and> has_room c p) (in_range_order c (overlapping st xs))"
  obtain n where "(p, n) \<in> set ?close"
  proof (cases "find (\<lambda>(p, n). member_diff xs p n = 0) ?close")
    case None
    then obtain n rest where "?close = (p, n) # rest"
      using assms(1) by (cases ?close) (auto simp: member_index_match_def Let_def)
    then show ?thesis using that by (metis list.set_intros(1))
  next
    case (Some pn)
    then have "pn \<in> set ?close" unfolding find_Some_iff by (metis nth_mem)
    moreover obtain q n where pn: "pn = (q, n)" by fastforce
    moreover have "q = p" using assms(1) Some pn unfolding member_index_match_def Let_def by simp
    ultimately show ?thesis using that by metis
  qed
  then show ?thesis using that by auto
qed

lemma member_index_Some:
  assumes "member_index_match c xs st = Some p" "indexes st S" "any_order c" "distinct xs"
  shows "has_room c p \<and> same_people c xs (members_of p)"
proof -
  obtain n where p: "(p, n) \<in> set (in_range_order c (overlapping st xs))" "close_match c xs p n" "has_room c p"
    using member_index_close [OF assms(1)] .
  then show ?thesis using fuzzy_mem [OF assms(2,3,4) p(1)] close_match_people [OF _ assms(4)] by simp
qed

lemma member_index_None:
  assumes "any_order c"
  shows "member_index_match c xs st = None \<longleftrightarrow>
    (\<forall>p n. (p, n) \<in> set (overlapping st xs) \<longrightarrow> \<not> (close_match c xs p n \<and> has_room c p))"
proof -
  let ?close = "filter (\<lambda>(p, n). close_match c xs p n \<and> has_room c p) (in_range_order c (overlapping st xs))"
  have "member_index_match c xs st = None \<longleftrightarrow> ?close = []"
    by (cases "?close") (auto simp: member_index_match_def Let_def split: option.splits)
  also have "\<dots> \<longleftrightarrow> (\<forall>(p, n) \<in> set (in_range_order c (overlapping st xs)). \<not> (close_match c xs p n \<and> has_room c p))"
    by (auto simp: filter_empty_conv)
  finally show ?thesis using range_overlapping [OF assms, of _ _ st xs] by (simp add: Ball_def)
qed

section \<open>Properties\<close>

text \<open>C23.
  The member index is an exact inverted index. Whatever sequence of building it, registering portals and
  re-keying them ran, what it stands for is the set of comma portals that the same operations on a plain set
  give, each portal listed once under exactly the members its ID names; and a member without a last active
  group is routed to a portal exactly when it is in one indexed group and no other.
\<close>

theorem group_index_refines:
  assumes "indexes st S" "st' = fold (index_op c) ops st" "S' = fold (portal_set_op c) ops S"
  shows "indexes st' S' \<and>
    (\<forall>idx P m. groupPortalIndex st' = Some idx \<longrightarrow> S' = Some P \<longrightarrow>
      distinct (index_get idx m) \<and> set (index_get idx m) = {p \<in> P. m \<in> set (members_of p)}) \<and>
    (\<forall>P m. portal_set_op c Ensure S' = Some P \<longrightarrow> normalizeIdentifierForPortalID m \<noteq> [] \<longrightarrow>
      map_of (lastGroupForMember st') (normalizeIdentifierForPortalID m) = None \<longrightarrow>
      (\<forall>key. fst (findGroupPortalForMember c m st') = Some key \<longleftrightarrow>
        snd key = ge_login c \<and> {p \<in> P. normalizeIdentifierForPortalID m \<in> set (members_of p)} = {fst key}))"
proof -
  have ix: "indexes st' S'" unfolding assms(2,3) by (rule index_ops_refine [OF assms(1)])
  have query: "fst (findGroupPortalForMember c m st') = Some key \<longleftrightarrow>
      snd key = ge_login c \<and> {p \<in> P. normalizeIdentifierForPortalID m \<in> set (members_of p)} = {fst key}"
    if P: "portal_set_op c Ensure S' = Some P" and n: "normalizeIdentifierForPortalID m \<noteq> []"
      "map_of (lastGroupForMember st') (normalizeIdentifierForPortalID m) = None" for P m key
  proof -
    let ?n = "normalizeIdentifierForPortalID m"
    obtain idx where idx: "groupPortalIndex (ensureGroupPortalIndex c st') = Some idx" "group_index.holds idx P"
      using ensure_indexes [OF ix, of c] P by (auto simp: indexes_def option_rel_Some2)
    note sole = group_index.sole_holder [OF idx(2), of ?n]
    have find: "fst (findGroupPortalForMember c m st') =
        (if length (index_get idx ?n) = 1 then Some (hd (index_get idx ?n), ge_login c) else None)"
      using n idx(1) by (simp add: findGroupPortalForMember_def Let_def)
    show ?thesis
    proof (cases "length (index_get idx ?n) = 1")
      case True
      then obtain q where q: "{p \<in> P. ?n \<in> set (members_of p)} = {q}" "index_get idx ?n = [q]" using sole by blast
      have "fst (findGroupPortalForMember c m st') = Some (q, ge_login c)" using find q(2) by simp
      then show ?thesis unfolding q(1) by (cases key) auto
    next
      case False
      have "{p \<in> P. ?n \<in> set (members_of p)} = set (index_get idx ?n)" "distinct (index_get idx ?n)"
        using idx(2) by (auto simp: group_index.holds_def)
      then have "{p \<in> P. ?n \<in> set (members_of p)} \<noteq> {q}" for q
        using False distinct_card [of "index_get idx ?n"] by auto
      then show ?thesis using False find by simp
    qed
  qed
  have listed: "distinct (index_get idx m) \<and> set (index_get idx m) = {p \<in> P. m \<in> set (members_of p)}"
    if "groupPortalIndex st' = Some idx" "S' = Some P" for idx P m
    using ix that by (simp add: indexes_def group_index.holds_def)
  show ?thesis by (intro conjI allI impI ix listed query)
qed

definition sample_group_bridge :: "unit bridge_db" where
  "sample_group_bridge = sample_bridge\<lparr>GetExistingPortalByKey := (\<lambda>k. Inr (if fst k = ''mailto:me@x.y,tel:+1,tel:+2''
     then Some \<lparr>pr_key = k, pr_MXID = ''!g''\<rparr> else None))\<rparr>"

definition sample_group_env :: "unit group_env" where
  "sample_group_env = \<lparr>ge_merge = sample_client, ge_handle = ''mailto:me@x.y'', ge_bridge = sample_group_bridge,
     ge_rows = Inr [\<lparr>pr_key = (''mailto:me@x.y,tel:+1,tel:+2'', ''me''), pr_MXID = ''!g''\<rparr>,
       \<lparr>pr_key = (''tel:+1'', ''me''), pr_MXID = ''!d''\<rparr>],
     ge_store = None, range_order = rev\<rparr>"

definition sample_group_state :: group_state where
  "sample_group_state = \<lparr>imGroupNames = [], imGroupGuids = [], imGroupParticipants = [], groupPortalIndex = None,
     lastGroupForMember = [], gidAliases = [], smsRoutes = no_routes, portalMetadata = []\<rparr>"

lemma sample_group_state_indexes: "indexes sample_group_state None"
  by (simp add: indexes_def sample_group_state_def)

theorem group_index_refines_witness:
  "fst (findGroupPortalForMember sample_group_env ''tel:+1''
     (fold (index_op sample_group_env) [Ensure, Register ''tel:+1,tel:+3'', ReID ''tel:+1,tel:+3'' ''gid:x''] sample_group_state)) =
   Some (''mailto:me@x.y,tel:+1,tel:+2'', ''me'') \<and>
   indexes (fold (index_op sample_group_env) [Ensure, Register ''tel:+1,tel:+3'', ReID ''tel:+1,tel:+3'' ''gid:x''] sample_group_state)
     (fold (portal_set_op sample_group_env) [Ensure, Register ''tel:+1,tel:+3'', ReID ''tel:+1,tel:+3'' ''gid:x''] None)"
proof
  show "fst (findGroupPortalForMember sample_group_env ''tel:+1''
     (fold (index_op sample_group_env) [Ensure, Register ''tel:+1,tel:+3'', ReID ''tel:+1,tel:+3'' ''gid:x''] sample_group_state)) =
   Some (''mailto:me@x.y,tel:+1,tel:+2'', ''me'')" by code_simp
  show "indexes (fold (index_op sample_group_env) [Ensure, Register ''tel:+1,tel:+3'', ReID ''tel:+1,tel:+3'' ''gid:x''] sample_group_state)
     (fold (portal_set_op sample_group_env) [Ensure, Register ''tel:+1,tel:+3'', ReID ''tel:+1,tel:+3'' ''gid:x''] None)"
    using group_index_refines [OF sample_group_state_indexes refl refl, of sample_group_env] by blast
qed


lemma member_group_other:
  assumes "indexes st S" "any_order c" "distinct (members_of computedID)"
    "resolveExistingGroupPortalID c computedID guid st = (r, st')" "r \<noteq> computedID"
  shows "has_room c r \<and> same_people c (members_of computedID) (members_of r) \<and> \<not> guid_conflict st guid r"
proof -
  let ?st = "ensureGroupPortalIndex c st" and ?xs = "members_of computedID"
  let ?ok = "\<lambda>(p, n). close_match c ?xs p n \<and> \<not> guid_conflict ?st guid p \<and> has_room c p"
  have ix: "indexes ?st (portal_set_op c Ensure S)" by (rule ensure_indexes [OF assms(1)])
  obtain p n where pn: "find ?ok (in_range_order c (overlapping ?st ?xs)) = Some (p, n)" "r = p"
    using assms(4,5) by (auto simp: resolveExistingGroupPortalID_def Let_def split: if_splits option.splits)
  then have p: "(p, n) \<in> set (in_range_order c (overlapping ?st ?xs))" "?ok (p, n)"
    unfolding find_Some_iff by (auto, metis nth_mem)
  have "guid_conflict ?st guid p = guid_conflict st guid p" unfolding guid_conflict_def ensure_caches ..
  moreover have "same_people c ?xs (members_of p)"
    using p fuzzy_mem [OF ix assms(2,3)] close_match_people [OF _ assms(3)] by auto
  ultimately show ?thesis using p(2) pn(2) by auto
qed

text \<open>C22.
  A group keyed by its members goes to its own room, or to a room of the same people. If the answer is not the
  computed ID, the room exists, has the same members up to handles of the user, and its known GUID does not
  contradict the message's. If the answer is a new room, no existing room the index has with exactly these
  members was passed over without such a contradiction, and the new ID is indexed for the next message.
\<close>

theorem member_group_resolution:
  assumes "indexes st S" "any_order c" "distinct (members_of computedID)"
    "resolveExistingGroupPortalID c computedID guid st = (r, st')"
  shows "(r \<noteq> computedID \<longrightarrow> has_room c r \<and> same_people c (members_of computedID) (members_of r) \<and> \<not> guid_conflict st guid r) \<and>
    (r = computedID \<and> \<not> has_room c computedID \<longrightarrow>
      indexes st' (portal_set_op c (Register computedID) (portal_set_op c Ensure S)) \<and>
      (\<forall>P p. portal_set_op c Ensure S = Some P \<longrightarrow> p \<in> P \<longrightarrow> set (members_of p) = set (members_of computedID) \<longrightarrow>
        distinct (members_of p) \<longrightarrow> has_room c p \<longrightarrow> guid_conflict st guid p))"
proof (intro conjI allI impI)
  let ?st = "ensureGroupPortalIndex c st" and ?xs = "members_of computedID"
  let ?ok = "\<lambda>(p, n). close_match c ?xs p n \<and> \<not> guid_conflict ?st guid p \<and> has_room c p"
  assume new: "r = computedID \<and> \<not> has_room c computedID"
  have ix: "indexes ?st (portal_set_op c Ensure S)" by (rule ensure_indexes [OF assms(1)])
  have conflict: "guid_conflict ?st guid p = guid_conflict st guid p" for p
    unfolding guid_conflict_def ensure_caches ..
  have none: "find ?ok (in_range_order c (overlapping ?st ?xs)) = None" "st' = registerGroupPortal computedID ?st"
  proof -
    have other: "find ?ok (in_range_order c (overlapping ?st ?xs)) \<noteq> Some (p, n)" for p n
    proof
      assume found: "find ?ok (in_range_order c (overlapping ?st ?xs)) = Some (p, n)"
      have "r = p" using assms(4) new found by (simp add: resolveExistingGroupPortalID_def Let_def)
      moreover obtain i where "?ok (in_range_order c (overlapping ?st ?xs) ! i)" "in_range_order c (overlapping ?st ?xs) ! i = (p, n)"
        using found unfolding find_Some_iff by metis
      then have "has_room c p" by simp
      ultimately show False using new by simp
    qed
    show none: "find ?ok (in_range_order c (overlapping ?st ?xs)) = None"
    proof (rule ccontr)
      assume "find ?ok (in_range_order c (overlapping ?st ?xs)) \<noteq> None"
      then obtain pn where "find ?ok (in_range_order c (overlapping ?st ?xs)) = Some pn" by blast
      then show False using other [of "fst pn" "snd pn"] by simp
    qed
    show "st' = registerGroupPortal computedID ?st"
      using assms(4) new none by (auto simp: resolveExistingGroupPortalID_def Let_def)
  qed
  show "indexes st' (portal_set_op c (Register computedID) (portal_set_op c Ensure S))"
    using index_op_refines [OF ix, of c "Register computedID"] none(2) by (simp add: index_op_def)
  show "guid_conflict st guid p"
    if p: "portal_set_op c Ensure S = Some P" "p \<in> P" "set (members_of p) = set ?xs" "distinct (members_of p)" "has_room c p" for P p
  proof -
    have "(p, card (set ?xs \<inter> set (members_of p))) \<in> set (in_range_order c (overlapping ?st ?xs))"
      using overlapping_mem [OF ix assms(3)] range_overlapping [OF assms(2)] p(1,2,3) members_nonempty [of p] by auto
    then show ?thesis using none(1) exact_match_close [OF p(3) [symmetric] assms(3) p(4)] p(5) conflict
      by (auto simp: find_None_iff)
  qed
qed (use member_group_other [OF assms] in blast)+

theorem member_group_resolution_witness:
  "same_people sample_group_env (members_of ''tel:+1,tel:+2'') (members_of ''mailto:me@x.y,tel:+1,tel:+2'') \<and>
   fst (resolveExistingGroupPortalID sample_group_env ''tel:+1,tel:+2'' None sample_group_state) = ''mailto:me@x.y,tel:+1,tel:+2''"
proof -
  obtain r st' where r: "resolveExistingGroupPortalID sample_group_env ''tel:+1,tel:+2'' None sample_group_state = (r, st')" by fastforce
  have "fst (resolveExistingGroupPortalID sample_group_env ''tel:+1,tel:+2'' None sample_group_state) = ''mailto:me@x.y,tel:+1,tel:+2''" by code_simp
  then have eq: "r = ''mailto:me@x.y,tel:+1,tel:+2''" using r by simp
  have any: "any_order sample_group_env" by (simp add: any_order_def sample_group_env_def)
  have d: "distinct (members_of ''tel:+1,tel:+2'')" by code_simp
  have "same_people sample_group_env (members_of ''tel:+1,tel:+2'') (members_of r)"
    using member_group_resolution [OF sample_group_state_indexes any d r] eq by simp
  then show ?thesis using r unfolding eq by simp
qed

text \<open>C17.
  A group message with an unknown GUID is moved to another room only on evidence that it is the same group:
  the room exists, and either this GUID was seen there and the members do not contradict it, or the members
  last seen there, the members its ID names, or the members stored for it are those of the message, up to
  handles of the user. Otherwise the message keeps the room of its own GUID.
\<close>

theorem gid_resolution_sound:
  assumes "indexes st S" "any_order c" "resolveExistingGroupByGid c gidID guid participants st = (p, st')" "p \<noteq> gidID"
  shows "has_room c p \<and>
    ((\<exists>g. map_of (imGroupGuids st) p = Some g \<and> to_lower g = to_lower guid \<and> \<not> guidCacheMatchIsStale c st p participants) \<or>
     (\<exists>parts. map_of (imGroupParticipants st) p = Some parts \<and> same_people c parts (normalized_members participants)) \<or>
     same_people c (canonical_members c (normalized_members participants)) (members_of p) \<or>
     (\<exists>roster. stored_roster c p roster \<and> same_people c roster (normalized_members participants)))"
proof -
  obtain o1 st1 where first: "guid_cache_match c (to_lower guid) participants (in_range_order c (imGroupGuids st)) st = (o1, st1)"
    by (metis prod.exhaust)
  have st1: "imGroupParticipants st1 = imGroupParticipants st" "groupPortalIndex st1 = groupPortalIndex st"
    using guid_cache_keeps [of c "to_lower guid" participants "in_range_order c (imGroupGuids st)" st] first by simp_all
  have ix: "indexes (ensureGroupPortalIndex c st1) (portal_set_op c Ensure S)"
    by (rule ensure_indexes) (use assms(1) st1(2) in \<open>simp add: indexes_def\<close>)
  show ?thesis
  proof (cases o1)
    case (Some q)
    then have "p = q" using assms(3) first by (simp add: resolveExistingGroupByGid_def)
    then show ?thesis using guid_cache_Some [OF first [unfolded Some]] in_range_order_mem [OF assms(2)] by metis
  next
    case None
    let ?parts = "normalized_members participants"
    have ne: "\<not> (participants = [] \<or> ?parts = [])"
      using assms(3,4) first None by (auto simp: resolveExistingGroupByGid_def Let_def)
    show ?thesis
    proof (cases "participant_cache_match c gidID ?parts st1")
      case (Some q)
      then have "p = q" using assms(3) first None ne by (simp add: resolveExistingGroupByGid_def Let_def)
      then show ?thesis using participant_cache_Some [OF Some assms(2)] st1(1) by auto
    next
      case step2: None
      show ?thesis
      proof (cases "member_index_match c (canonical_members c ?parts) (ensureGroupPortalIndex c st1)")
        case (Some q)
        then have "p = q" using assms(3) first None ne step2 by (simp add: resolveExistingGroupByGid_def Let_def)
        then show ?thesis using member_index_Some [OF Some ix assms(2)] buildCanonicalParticipantList_normal(2) by metis
      next
        case step3: None
        then have "stored_roster_match c gidID ?parts = Some p"
          using assms(3,4) first None ne step2 by (auto simp: resolveExistingGroupByGid_def Let_def split: option.splits)
        then show ?thesis using stored_roster_match_people by blast
      qed
    qed
  qed
qed

theorem gid_resolution_sound_witness:
  "fst (resolveExistingGroupByGid sample_group_env ''gid:h'' ''H'' [''+1'', ''+2''] sample_group_state) = ''mailto:me@x.y,tel:+1,tel:+2'' \<and>
   has_room sample_group_env ''mailto:me@x.y,tel:+1,tel:+2''"
proof -
  obtain p st' where p: "resolveExistingGroupByGid sample_group_env ''gid:h'' ''H'' [''+1'', ''+2''] sample_group_state = (p, st')" by fastforce
  have "fst (resolveExistingGroupByGid sample_group_env ''gid:h'' ''H'' [''+1'', ''+2''] sample_group_state) = ''mailto:me@x.y,tel:+1,tel:+2''" by code_simp
  then have eq: "p = ''mailto:me@x.y,tel:+1,tel:+2''" using p by simp
  have any: "any_order sample_group_env" by (simp add: any_order_def sample_group_env_def)
  have "has_room sample_group_env p"
    using gid_resolution_sound [OF sample_group_state_indexes any p] eq by simp
  then show ?thesis using p unfolding eq by simp
qed

end
