(* ===== verification/Group_Stability.thy ===== *)
theory Group_Stability
  imports Group_Routing
begin

text \<open>
  What the order of Go's map iteration can and cannot change in the resolution of a group's portal:
  whether a resolution finds anything, what it leaves in the caches, and where the second message
  of a group with the same gid goes.
\<close>

section \<open>Stability\<close>

abbreviation reordered :: "(string list \<Rightarrow> string list) \<Rightarrow> 'e group_env \<Rightarrow> 'e group_env" where
  "reordered ord c \<equiv> c\<lparr>range_order := ord\<rparr>"

lemma reordered_fields:
  "ge_merge (reordered ord c) = ge_merge c" "ge_handle (reordered ord c) = ge_handle c" "ge_bridge (reordered ord c) = ge_bridge c"
  "ge_rows (reordered ord c) = ge_rows c" "ge_store (reordered ord c) = ge_store c"
  by simp_all

lemma reordered_has_room [simp]: "has_room (reordered ord c) p = has_room c p"
  unfolding has_room_def reordered_fields ..

lemma reordered_env [simp]:
  "guidCacheMatchIsStale (reordered ord c) st p ps = guidCacheMatchIsStale c st p ps"
  "ensureGroupPortalIndex (reordered ord c) st = ensureGroupPortalIndex c st"
  "close_match (reordered ord c) xs p n = close_match c xs p n"
  "stored_roster_match (reordered ord c) gid xs = stored_roster_match c gid xs"
  "is_group_message (reordered ord c) ps name sender = is_group_message c ps name sender"
  unfolding guidCacheMatchIsStale_def ensureGroupPortalIndex_def close_match_def stored_roster_match_def
    is_group_message_def reordered_fields reordered_has_room by (rule refl)+

text \<open>When a GUID resolves to nothing, no step finds anything, in whatever order the maps are visited.\<close>

definition nothing_known :: "'e group_env \<Rightarrow> portal_id \<Rightarrow> string \<Rightarrow> string list \<Rightarrow> group_state \<Rightarrow> bool" where
  "nothing_known c gid lguid participants st \<longleftrightarrow>
     (\<forall>p g. map_of (imGroupGuids st) p = Some g \<longrightarrow> to_lower g = lguid \<longrightarrow>
        guidCacheMatchIsStale c st p participants \<or> \<not> has_room c p) \<and>
     (participants \<noteq> [] \<longrightarrow> normalized_members participants \<noteq> [] \<longrightarrow>
        (\<forall>p ps. map_of (imGroupParticipants st) p = Some ps \<longrightarrow>
           \<not> (p \<noteq> gid \<and> has_prefix p ''gid:'' \<and> participantSetsMatch ps (normalized_members participants) (Some (ge_self c)) \<and> has_room c p)) \<and>
        (\<forall>p n. (p, n) \<in> set (overlapping (ensureGroupPortalIndex c st) (canonical_members c (normalized_members participants))) \<longrightarrow>
           \<not> (close_match c (canonical_members c (normalized_members participants)) p n \<and> has_room c p)) \<and>
        stored_roster_match c gid (normalized_members participants) = None)"

lemma ensure_cong:
  "groupPortalIndex a = groupPortalIndex b \<Longrightarrow>
   groupPortalIndex (ensureGroupPortalIndex c a) = groupPortalIndex (ensureGroupPortalIndex c b)"
  by (simp add: ensureGroupPortalIndex_def split: option.splits sum.splits)

lemma overlapping_cong: "groupPortalIndex a = groupPortalIndex b \<Longrightarrow> overlapping a xs = overlapping b xs"
  by (simp add: overlapping_def)

lemma resolve_gid_nothing:
  assumes "any_order c" "\<not> has_room c gid"
  shows "fst (resolveExistingGroupByGid c gid guid participants st) = gid \<longleftrightarrow> nothing_known c gid (to_lower guid) participants st"
proof -
  obtain o1 st1 where first: "guid_cache_match c (to_lower guid) participants (in_range_order c (imGroupGuids st)) st = (o1, st1)"
    by (metis prod.exhaust)
  have st1: "imGroupParticipants st1 = imGroupParticipants st" "groupPortalIndex st1 = groupPortalIndex st"
    using guid_cache_keeps [of c "to_lower guid" participants "in_range_order c (imGroupGuids st)" st] first by simp_all
  let ?parts = "normalized_members participants"
  have step1: "o1 = None \<longleftrightarrow> (\<forall>p g. map_of (imGroupGuids st) p = Some g \<longrightarrow> to_lower g = to_lower guid \<longrightarrow>
        guidCacheMatchIsStale c st p participants \<or> \<not> has_room c p)"
    using guid_cache_None [of c "to_lower guid" participants "in_range_order c (imGroupGuids st)" st] first
      in_range_order_mem [OF assms(1), of _ _ "imGroupGuids st"] by (simp add: Ball_def) 
  have over: "overlapping (ensureGroupPortalIndex c st1) xs = overlapping (ensureGroupPortalIndex c st) xs" for xs
    by (rule overlapping_cong, rule ensure_cong, rule st1(2))
  note step2 = participant_cache_None [OF assms(1), of gid ?parts st1, unfolded st1(1)]
  note step3 = member_index_None [OF assms(1), of "canonical_members c ?parts" "ensureGroupPortalIndex c st1", unfolded over]
  have room: "o1 = Some p \<Longrightarrow> p \<noteq> gid" "participant_cache_match c gid ?parts st1 = Some p \<Longrightarrow> p \<noteq> gid"
    "stored_roster_match c gid ?parts = Some p \<Longrightarrow> p \<noteq> gid" for p
    using guid_cache_Some first participant_cache_Some [OF _ assms(1)] stored_roster_match_people assms(2) by metis+
  have room3: "member_index_match c (canonical_members c ?parts) (ensureGroupPortalIndex c st1) = Some p \<Longrightarrow> p \<noteq> gid" for p
    using member_index_close assms(2) by metis
  show ?thesis
    unfolding resolveExistingGroupByGid_def first nothing_known_def step1 [symmetric] step2 [symmetric] step3 [symmetric]
    using room room3 by (auto simp: Let_def split: option.splits)
qed

lemma stale_at: "map_of (imGroupParticipants a) p = map_of (imGroupParticipants b) p \<Longrightarrow>
    guidCacheMatchIsStale c a p ps = guidCacheMatchIsStale c b p ps"
  by (simp add: guidCacheMatchIsStale_def)

lemma guid_cache_shrinks:
  "map_of (imGroupGuids (snd (guid_cache_match c g ps entries st))) q = Some g' \<Longrightarrow> map_of (imGroupGuids st) q = Some g'"
proof (induction c g ps entries st rule: guid_cache_match.induct)
  case (2 c g ps p e rest st)
  have "map_of (imGroupGuids (clear_stale_guid c p e st)) q = Some g' \<Longrightarrow> map_of (imGroupGuids st) q = Some g'"
    by (auto simp: clear_stale_guid_def Let_def delete_conv split: option.splits sum.splits if_splits)
  then show ?case using 2 by (auto split: if_splits)
qed simp

text \<open>What a resolution leaves: fewer GUIDs, the same participants and aliases, and an index that was built or is unchanged.\<close>

lemma resolve_gid_state:
  assumes "resolveExistingGroupByGid c gid guid ps st = (p, st2)"
  shows "(\<forall>q g. map_of (imGroupGuids st2) q = Some g \<longrightarrow> map_of (imGroupGuids st) q = Some g) \<and>
    imGroupParticipants st2 = imGroupParticipants st \<and> gidAliases st2 = gidAliases st \<and>
    groupPortalIndex (ensureGroupPortalIndex c st2) = groupPortalIndex (ensureGroupPortalIndex c st)"
proof -
  obtain o1 st1 where first: "guid_cache_match c (to_lower guid) ps (in_range_order c (imGroupGuids st)) st = (o1, st1)"
    by (metis prod.exhaust)
  have st1: "imGroupParticipants st1 = imGroupParticipants st" "gidAliases st1 = gidAliases st" "groupPortalIndex st1 = groupPortalIndex st"
    "\<And>q g. map_of (imGroupGuids st1) q = Some g \<Longrightarrow> map_of (imGroupGuids st) q = Some g"
    using guid_cache_keeps [of c "to_lower guid" ps "in_range_order c (imGroupGuids st)" st]
      guid_cache_shrinks [of c "to_lower guid" ps "in_range_order c (imGroupGuids st)" st] first by simp_all
  have twice: "groupPortalIndex (ensureGroupPortalIndex c (ensureGroupPortalIndex c st1)) = groupPortalIndex (ensureGroupPortalIndex c st1)"
    by (simp add: ensureGroupPortalIndex_def split: option.splits sum.splits)
  have "st2 = st1 \<or> st2 = ensureGroupPortalIndex c st1"
    using assms first by (auto simp: resolveExistingGroupByGid_def Let_def split: option.splits if_splits)
  then show ?thesis using st1 twice ensure_cong [OF st1(3), of c] by auto
qed

lemma cache_group_state:
  assumes "cache_group c p ps name sender guid st = (st', effects)"
  shows "gidAliases st' = gidAliases st" "groupPortalIndex st' = groupPortalIndex st"
    "map_of (imGroupParticipants st') q =
      (if q = p \<and> ps \<noteq> [] \<and> normalized_members ps \<noteq> [] then Some (normalized_members ps) else map_of (imGroupParticipants st) q)"
    "q \<noteq> p \<Longrightarrow> map_of (imGroupGuids st') q = map_of (imGroupGuids st) q"
proof -
  have st': "st' = fst (cache_group c p ps name sender guid st)" using assms by simp
  show "gidAliases st' = gidAliases st" "groupPortalIndex st' = groupPortalIndex st"
    "map_of (imGroupParticipants st') q =
      (if q = p \<and> ps \<noteq> [] \<and> normalized_members ps \<noteq> [] then Some (normalized_members ps) else map_of (imGroupParticipants st) q)"
    "q \<noteq> p \<Longrightarrow> map_of (imGroupGuids st') q = map_of (imGroupGuids st) q"
    unfolding st' cache_group_def Let_def fst_conv by (simp_all add: update_conv')
qed

text \<open>
  Nothing of the message's names changes when it is canonicalized twice, and the own handle is recognized. (Both
  can fail for malformed handles: the normalizer is not idempotent on those.)
\<close>

definition settled :: "'e group_env \<Rightarrow> string list \<Rightarrow> bool" where
  "settled c ps \<longleftrightarrow> ge_self c (normalizeIdentifierForPortalID (ge_handle c)) \<and>
     (\<forall>x \<in> insert (ge_handle c) (set ps).
        normalizeIdentifierForPortalID (normalizeIdentifierForPortalID x) = normalizeIdentifierForPortalID x)"

lemma canonical_twice:
  assumes "settled c ps"
  shows "set (canonical_members c (canonical_members c ps)) = set (canonical_members c ps)"
proof -
  let ?S = "set (canonical_members c ps)"
  have S: "?S = {n \<in> normalizeIdentifierForPortalID ` set ps. n \<noteq> [] \<and> \<not> ge_self c n} \<union> {normalizeIdentifierForPortalID (ge_handle c)}"
    by (rule set_buildCanonicalParticipantList)
  have fixed: "normalizeIdentifierForPortalID n = n" if "n \<in> ?S" for n
    using that assms unfolding S settled_def by blast
  then have "normalizeIdentifierForPortalID ` ?S = ?S" by simp
  moreover have "{n \<in> ?S. n \<noteq> [] \<and> \<not> ge_self c n} \<union> {normalizeIdentifierForPortalID (ge_handle c)} = ?S" 
    using assms unfolding S settled_def by blast
  ultimately show ?thesis
    using set_buildCanonicalParticipantList [of "ge_handle c" "mc_handles (ge_merge c)" "canonical_members c ps"] by simp
qed

lemma fresh_alias:
  assumes "settled c ps"
    "contains p '','' \<Longrightarrow> \<forall>m \<in> set (canonical_members c ps). m \<in> set (members_of p) \<or> ge_self c m"
    "\<not> contains p '','' \<Longrightarrow> ps \<noteq> [] \<Longrightarrow> normalized_members ps \<noteq> [] \<Longrightarrow>
       map_of (imGroupParticipants st) p = Some (normalized_members ps)"
  shows "\<not> (length ps > 0 \<and> guidCacheMatchIsStale c st p (canonical_members c ps))"
proof -
  have known: "m \<in> set (normalized_members ps) \<or> ge_self c m" if "m \<in> set (canonical_members c ps)" for m
    using that assms(1) unfolding set_buildCanonicalParticipantList settled_def normalized_members_def by auto
  show ?thesis
  proof (cases "contains p '',''")
    case True
    then show ?thesis using assms(2) by (auto simp: guidCacheMatchIsStale_def list_ex_iff canonical_twice [OF assms(1)])
  next
    case False
    show ?thesis
    proof (cases "ps \<noteq> [] \<and> normalized_members ps \<noteq> []")
      case True
      then show ?thesis using known False assms(3)
        by (auto simp: guidCacheMatchIsStale_def list_ex_iff canonical_twice [OF assms(1)])
    next
      case none: False
      then have "ps = [] \<or> (\<forall>m \<in> set (canonical_members c ps). ge_self c m)" using known by auto
      then show ?thesis by (auto simp: guidCacheMatchIsStale_def list_ex_iff canonical_twice [OF assms(1)])
    qed
  qed
qed

lemma nothing_known_later:
  assumes "nothing_known c gid lg ps st" "\<not> has_room c gid"
    "\<And>q g. q \<noteq> gid \<Longrightarrow> map_of (imGroupGuids st') q = Some g \<Longrightarrow> map_of (imGroupGuids st) q = Some g"
    "\<And>q. q \<noteq> gid \<Longrightarrow> map_of (imGroupParticipants st') q = map_of (imGroupParticipants st) q"
    "groupPortalIndex (ensureGroupPortalIndex c st') = groupPortalIndex (ensureGroupPortalIndex c st)"
  shows "nothing_known c gid lg ps st'"
proof -
  have "overlapping (ensureGroupPortalIndex c st') xs = overlapping (ensureGroupPortalIndex c st) xs" for xs
    by (rule overlapping_cong [OF assms(5)])
  moreover have "guidCacheMatchIsStale c st' p ps \<or> \<not> has_room c p"
    if "map_of (imGroupGuids st') p = Some g" "to_lower g = lg" for p g
  proof (cases "p = gid")
    case True
    then show ?thesis using assms(2) by simp
  next
    case False
    then show ?thesis using that assms(1,3) stale_at [OF assms(4) [OF False], of c ps] unfolding nothing_known_def by blast
  qed
  moreover have "\<not> (p \<noteq> gid \<and> has_prefix p ''gid:'' \<and> participantSetsMatch xs (normalized_members ps) (Some (ge_self c)) \<and> has_room c p)"
    if "ps \<noteq> []" "normalized_members ps \<noteq> []" "map_of (imGroupParticipants st') p = Some xs" for p xs
    using that assms(1,4) unfolding nothing_known_def by metis
  ultimately show ?thesis using assms(1) unfolding nothing_known_def by (intro conjI allI impI) simp_all
qed

section \<open>The second message of a group\<close>

lemma gid_alias_hit:
  assumes "map_of (gidAliases st) (''gid:'' @ to_lower g) = Some p" "p \<noteq> []"
    "\<not> (length ps > 0 \<and> guidCacheMatchIsStale c st p (canonical_members c ps))"
  shows "fst (portal_of_gid c ps g st) = p"
proof -
  have "usable_alias c ps (''gid:'' @ to_lower g) st = p"
    unfolding usable_alias_def stale_alias_def assms(1) using assms(3) by (auto simp: Let_def)
  then show ?thesis using assms(2) by (simp add: portal_of_gid_def Let_def)
qed

lemma usable_alias_none:
  assumes "map_of (gidAliases st) gid = None \<or> map_of (gidAliases st) gid = Some []"
  shows "usable_alias c ps gid st = []" "drop_stale_alias c ps gid st = st \<or> (\<exists>x. drop_stale_alias c ps gid st = st\<lparr>gidAliases := x\<rparr>)"
  using assms by (auto simp: usable_alias_def drop_stale_alias_def)

lemma gid_no_alias:
  assumes "map_of (gidAliases st) (''gid:'' @ to_lower g) = None \<or> map_of (gidAliases st) (''gid:'' @ to_lower g) = Some []"
    "any_order c" "has_room c (''gid:'' @ to_lower g) \<or> nothing_known c (''gid:'' @ to_lower g) (to_lower g) ps st"
  shows "fst (portal_of_gid c ps g st) = ''gid:'' @ to_lower g"
proof (cases "has_room c (''gid:'' @ to_lower g)")
  case True
  then show ?thesis using usable_alias_none(1) [OF assms(1), of c ps] by (simp add: portal_of_gid_def Let_def)
next
  case False
  let ?gid = "''gid:'' @ to_lower g" and ?st = "drop_stale_alias c ps (''gid:'' @ to_lower g) st"
  have same: "imGroupGuids ?st = imGroupGuids st" "imGroupParticipants ?st = imGroupParticipants st" "groupPortalIndex ?st = groupPortalIndex st"
    using usable_alias_none(2) [OF assms(1), of c ps] by auto
  have "nothing_known c ?gid (to_lower g) ps ?st"
    by (rule nothing_known_later [of _ _ _ _ st]) (use assms(3) False same ensure_cong [OF same(3)] in auto)
  then have "fst (resolveExistingGroupByGid c ?gid g ps ?st) = ?gid" using resolve_gid_nothing [OF assms(2) False] by blast
  then show ?thesis using usable_alias_none(1) [OF assms(1), of c ps] False
    unfolding portal_of_gid_def Let_def case_prod_beta by simp
qed

lemma resolve_room:
  assumes "resolveExistingGroupByGid c gid g ps st = (p, st')" "p \<noteq> gid" "any_order c"
  shows "has_room c p"
proof -
  obtain o1 st1 where first: "guid_cache_match c (to_lower g) ps (in_range_order c (imGroupGuids st)) st = (o1, st1)"
    by (metis prod.exhaust)
  show ?thesis
  proof (cases o1)
    case (Some q)
    then show ?thesis using guid_cache_Some first assms(1) by (fastforce simp: resolveExistingGroupByGid_def)
  next
    case None
    then have "participant_cache_match c gid (normalized_members ps) st1 = Some p \<or>
        member_index_match c (canonical_members c (normalized_members ps)) (ensureGroupPortalIndex c st1) = Some p \<or>
        stored_roster_match c gid (normalized_members ps) = Some p"
      using assms(1,2) first by (auto simp: resolveExistingGroupByGid_def Let_def split: option.splits if_splits)
    then show ?thesis
      using participant_cache_Some [OF _ assms(3)] stored_roster_match_people by (metis member_index_close)
  qed
qed

text \<open>What the first message leaves for the gid: the alias of its room, or none and nothing to find.\<close>

lemma gid_first:
  assumes "portal_of_gid c ps g st = (p, st1)" "any_order c" "\<not> has_room c []"
  defines "gid \<equiv> ''gid:'' @ to_lower g"
  shows "p \<noteq> [] \<and>
    (map_of (gidAliases st1) gid = Some p \<or>
     p = gid \<and> (map_of (gidAliases st1) gid = None \<or> map_of (gidAliases st1) gid = Some []) \<and>
       (has_room c gid \<or> nothing_known c gid (to_lower g) ps st1))"
proof -
  define chosen where "chosen = usable_alias c ps gid st"
  define st0 where "st0 = drop_stale_alias c ps gid st"
  have run: "portal_of_gid c ps g st =
      (if chosen \<noteq> [] then (chosen, st0)
       else if has_room c gid then (gid, st0)
       else (let (p, st2) = resolveExistingGroupByGid c gid g ps st0
             in (p, if p \<noteq> gid then st2\<lparr>gidAliases := AList.update gid p (gidAliases st2)\<rparr> else st2)))"
    unfolding portal_of_gid_def Let_def chosen_def st0_def gid_def ..
  have kept: "chosen \<noteq> [] \<Longrightarrow> map_of (gidAliases st0) gid = Some chosen"
    by (auto simp: chosen_def st0_def usable_alias_def drop_stale_alias_def split: if_splits option.splits)
  have none: "chosen = [] \<Longrightarrow> map_of (gidAliases st0) gid = None \<or> map_of (gidAliases st0) gid = Some []"
    by (auto simp: chosen_def st0_def usable_alias_def drop_stale_alias_def delete_conv split: if_splits option.splits)
  have gid_ne: "gid \<noteq> []" by (simp add: gid_def)
  show ?thesis
  proof (cases "chosen \<noteq> []")
    case True
    then show ?thesis using run assms(1) kept by simp
  next
    case no_alias: False
    show ?thesis
    proof (cases "has_room c gid")
      case True
      then show ?thesis using run assms(1) none no_alias gid_ne by simp
    next
      case False
      obtain q st2 where res: "resolveExistingGroupByGid c gid g ps st0 = (q, st2)" by fastforce
      note state = resolve_gid_state [OF res]
      show ?thesis
      proof (cases "q = gid")
        case True
        have "p = gid" "st1 = st2" using run assms(1) no_alias False res True by simp_all
        moreover have "nothing_known c gid (to_lower g) ps st0"
          using resolve_gid_nothing [OF assms(2) False, of g ps st0] res True by simp
        then have "nothing_known c gid (to_lower g) ps st2" by (rule nothing_known_later) (use state False in auto)
        ultimately show ?thesis using state none no_alias gid_ne by auto
      next
        case other: False
        have "p = q" "map_of (gidAliases st1) gid = Some q"
          using run assms(1) no_alias False res other by (auto simp: update_conv')
        moreover have "has_room c q" using resolve_room [OF res other assms(2)] .
        ultimately show ?thesis using assms(3) by auto
      qed
    qed
  qed
qed

lemma nothing_known_reordered [simp]:
  "nothing_known (reordered ord c) gid lg ps st = nothing_known c gid lg ps st"
  unfolding nothing_known_def reordered_env reordered_has_room reordered_fields ..

text \<open>The next message goes to the same portal even if the portal has no room yet.\<close>

lemma gid_room_stable_next:
  assumes "any_order c" "any_order (reordered ord c)" "\<not> has_room c []" "settled c ps"
    "is_group_message c ps name sender" "is_group_message c ps name' sender'"
    "g \<noteq> []" "to_lower g' = to_lower g"
    "makePortalKey c ps name sender (Some g) False st = (key, st', effects)"
    "contains (fst key) '','' \<Longrightarrow> \<forall>m \<in> set (canonical_members c ps). m \<in> set (members_of (fst key)) \<or> ge_self c m"
  shows "fst (makePortalKey (reordered ord c) ps name' sender' (Some g') False st') = key"
proof -
  let ?d = "reordered ord c" and ?gid = "''gid:'' @ to_lower g"
  have g': "g' \<noteq> []" "''gid:'' @ to_lower g' = ?gid" using assms(7,8) by (auto simp: to_lower_def)
  obtain p st1 where first: "portal_of_gid c ps g st = (p, st1)" by fastforce
  obtain st2 eff where cached: "cache_group c p ps name sender (Some g) st1 = (st2, eff)" by fastforce
  have key: "key = (p, ge_login c)" "st' = st2"
    using assms(5,7,9) first cached by (simp_all add: makePortalKey_def group_portal_def)
  note kept = cache_group_state [OF cached]
  have "fst (portal_of_gid ?d ps g' st') = p"
  proof (cases "map_of (gidAliases st1) ?gid = Some p")
    case True
    have "\<not> (length ps > 0 \<and> guidCacheMatchIsStale c st2 p (canonical_members c ps))"
      by (rule fresh_alias [OF assms(4)]) (use assms(10) key kept(3) in auto)
    then show ?thesis
      by (intro gid_alias_hit) (use True kept(1) key g' gid_first [OF first assms(1,3)] in auto)
  next
    case False
    then have none: "p = ?gid" "map_of (gidAliases st1) ?gid = None \<or> map_of (gidAliases st1) ?gid = Some []"
      "has_room c ?gid \<or> nothing_known c ?gid (to_lower g) ps st1"
      using gid_first [OF first assms(1,3)] by auto
    have "has_room c ?gid \<or> nothing_known c ?gid (to_lower g) ps st2"
    proof (cases "has_room c ?gid")
      case no_room: False
      then have "nothing_known c ?gid (to_lower g) ps st2"
        by (intro nothing_known_later [of c ?gid "to_lower g" ps st1 st2]) (use none kept ensure_cong [OF kept(2)] in auto)
      then show ?thesis ..
    qed simp
    then have "fst (portal_of_gid ?d ps g' st2) = ''gid:'' @ to_lower g'"
      by (intro gid_no_alias) (use none kept(1) g' assms(2,8) in auto)
    then show ?thesis using none(1) key(2) g' by simp
  qed
  moreover have "is_group_message ?d ps name' sender'" using assms(6) by simp
  ultimately show ?thesis using key(1) g'(1) by (simp add: makePortalKey_def group_portal_def case_prod_beta Let_def)
qed

section \<open>Traffic\<close>

text \<open>
  Messages as the handlers see them, each keyed in an environment of its own: between two of them rooms are
  made and removed, the store is written and Go's maps are visited in other orders. Only the account stays.
\<close>

record group_message =
  gm_participants :: "string list"
  gm_name :: "string option"
  gm_sender :: "string option"
  gm_guid :: "string option"
  gm_sms :: bool

definition key_message :: "'e group_env \<Rightarrow> group_message \<Rightarrow> group_state \<Rightarrow> portal_key \<times> group_state \<times> group_effect list" where
  "key_message c m st = makePortalKey c (gm_participants m) (gm_name m) (gm_sender m) (gm_guid m) (gm_sms m) st"

fun keyed :: "('e group_env \<times> group_message) list \<Rightarrow> group_state \<Rightarrow> ('e group_env \<times> group_message \<times> portal_key) list" where
  "keyed [] st = []"
| "keyed ((c, m) # traffic) st = (let (key, st', _) = key_message c m st in (c, m, key) # keyed traffic st')"

lemma keyed_traffic: "keyed traffic st = map2 (\<lambda>(c, m) k. (c, m, k)) traffic (map (\<lambda>(c, m, k). k) (keyed traffic st))"
  by (induction traffic st rule: keyed.induct) (auto split: prod.splits)

definition same_account :: "'e group_env \<Rightarrow> 'e group_env \<Rightarrow> bool" where
  "same_account c d \<longleftrightarrow> mc_handles (ge_merge d) = mc_handles (ge_merge c) \<and> ge_handle d = ge_handle c \<and> ge_login d = ge_login c"

definition has_gid :: "'e group_env \<Rightarrow> portal_id \<Rightarrow> group_message \<Rightarrow> bool" where
  "has_gid c gid m \<longleftrightarrow> is_group_message c (gm_participants m) (gm_name m) (gm_sender m) \<and> \<not> gm_sms m \<and>
     (case gm_guid m of None \<Rightarrow> False | Some g \<Rightarrow> g \<noteq> [] \<and> ''gid:'' @ to_lower g = gid)"

definition same_roster :: "'e group_env \<Rightarrow> string list \<Rightarrow> string list \<Rightarrow> bool" where
  "same_roster c ps ps' \<longleftrightarrow> ps' = [] \<or> set (canonical_members c ps') = set (canonical_members c ps)"

text \<open>The portal holds its gid: by an alias the members of the group do not find stale, or by its own ID.\<close>

definition holds_gid :: "'e group_env \<Rightarrow> string list \<Rightarrow> portal_id \<Rightarrow> portal_id \<Rightarrow> group_state \<Rightarrow> bool" where
  "holds_gid c ps gid p st \<longleftrightarrow> p \<noteq> [] \<and>
     (map_of (gidAliases st) gid = Some p \<and> \<not> guidCacheMatchIsStale c st p (canonical_members c ps) \<or>
      p = gid \<and> (map_of (gidAliases st) gid = None \<or> map_of (gidAliases st) gid = Some []))"

lemma stale_account: "same_account c d \<Longrightarrow> guidCacheMatchIsStale d st p ps = guidCacheMatchIsStale c st p ps"
  by (simp add: guidCacheMatchIsStale_def same_account_def)

lemma stale_people:
  assumes "set (canonical_members c ps') = set (canonical_members c ps)"
  shows "guidCacheMatchIsStale c st p (canonical_members c ps') = guidCacheMatchIsStale c st p (canonical_members c ps)"
proof -
  have "set (canonical_members c (canonical_members c ps')) = set (canonical_members c (canonical_members c ps))"
    by (simp only: set_buildCanonicalParticipantList [of _ _ "canonical_members c ps'"]
        set_buildCanonicalParticipantList [of _ _ "canonical_members c ps"] assms)
  moreover have "canonical_members c xs \<noteq> []" for xs
    using set_buildCanonicalParticipantList [of "ge_handle c" "mc_handles (ge_merge c)" xs] by force
  ultimately show ?thesis by (simp add: guidCacheMatchIsStale_def list_ex_iff)
qed

lemma not_stale:
  assumes "settled c ps"
    "contains p '','' \<Longrightarrow> \<forall>m \<in> set (canonical_members c ps). m \<in> set (members_of p) \<or> ge_self c m"
    "\<not> contains p '','' \<Longrightarrow> map_of (imGroupParticipants st) p = Some xs \<Longrightarrow>
       \<forall>m \<in> set (canonical_members c ps). m \<in> set xs \<or> ge_self c m"
    "\<not> contains p '','' \<Longrightarrow> map_of (imGroupParticipants st) p = Some xs"
  shows "\<not> guidCacheMatchIsStale c st p (canonical_members c ps)"
  using assms(2-4) by (auto simp: guidCacheMatchIsStale_def list_ex_iff canonical_twice [OF assms(1)])

lemma members_known:
  assumes "ge_self c (normalizeIdentifierForPortalID (ge_handle c))" "m \<in> set (canonical_members c xs)"
  shows "m \<in> set (normalized_members xs) \<or> ge_self c m"
  using assms unfolding set_buildCanonicalParticipantList normalized_members_def by auto

text \<open>A resolution leaves the aliases of other gids and all member lists alone.\<close>

lemma portal_of_gid_frame:
  assumes "portal_of_gid d xs g st = (q, st1)"
  shows "imGroupParticipants st1 = imGroupParticipants st"
    "a \<noteq> ''gid:'' @ to_lower g \<Longrightarrow> map_of (gidAliases st1) a = map_of (gidAliases st) a"
proof -
  define gid st0 where "gid = ''gid:'' @ to_lower g" and "st0 = drop_stale_alias d xs gid st"
  have st0: "imGroupParticipants st0 = imGroupParticipants st" "a \<noteq> gid \<Longrightarrow> map_of (gidAliases st0) a = map_of (gidAliases st) a"
    by (auto simp: st0_def drop_stale_alias_def delete_conv)
  obtain r st2 where res: "resolveExistingGroupByGid d gid g xs st0 = (r, st2)" by fastforce
  have "st1 = st0 \<or> st1 = st2 \<or> st1 = st2\<lparr>gidAliases := AList.update gid r (gidAliases st2)\<rparr>"
    using assms unfolding portal_of_gid_def Let_def gid_def [symmetric] st0_def [symmetric] res prod.case
    by (auto split: if_splits)
  then show "imGroupParticipants st1 = imGroupParticipants st"
    "a \<noteq> ''gid:'' @ to_lower g \<Longrightarrow> map_of (gidAliases st1) a = map_of (gidAliases st) a"
    using resolve_gid_state [OF res] st0 unfolding gid_def [symmetric] by (auto simp: update_conv')
qed

lemma member_resolution_frame:
  assumes "resolveExistingGroupPortalID d x guid st = (q, st1)"
  shows "imGroupParticipants st1 = imGroupParticipants st" "gidAliases st1 = gidAliases st"
  using assms
  by (auto simp: resolveExistingGroupPortalID_def registerGroupPortal_def indexGroupPortalLocked_def ensureGroupPortalIndex_def
      Let_def split: option.splits sum.splits if_splits)

text \<open>A message of the gid finds the portal that holds it, and leaves the alias as it is.\<close>

lemma holds_gid_found:
  assumes "holds_gid c ps gid p st" "same_account c d" "p = gid \<longrightarrow> has_room d gid" "gid = ''gid:'' @ to_lower g" "same_roster c ps xs"
    "portal_of_gid d xs g st = (q, st1)"
  shows "q = p \<and> (map_of (gidAliases st1) gid = map_of (gidAliases st) gid \<or>
    map_of (gidAliases st) gid = Some [] \<and> map_of (gidAliases st1) gid = None)"
proof (cases "map_of (gidAliases st) gid = Some p")
  case True
  then have p: "p \<noteq> []" "\<not> guidCacheMatchIsStale c st p (canonical_members c ps)"
    using assms(1) by (auto simp: holds_gid_def)
  have canon: "canonical_members d xs = canonical_members c xs" using assms(2) by (simp add: same_account_def)
  have fresh: "\<not> (length xs > 0 \<and> guidCacheMatchIsStale d st p (canonical_members d xs))"
  proof (cases "xs = []")
    case False
    with assms(5) have "set (canonical_members c xs) = set (canonical_members c ps)" by (simp add: same_roster_def)
    from stale_people [OF this, of st p] p(2) show ?thesis by (simp only: canon stale_account [OF assms(2)] simp_thms)
  qed simp
  then have "\<not> stale_alias d xs gid st" using True by (auto simp: stale_alias_def Let_def)
  then have "portal_of_gid d xs g st = (p, st)" using True p(1) assms(4)
    by (simp add: portal_of_gid_def usable_alias_def drop_stale_alias_def Let_def)
  then show ?thesis using assms(6) by simp
next
  case False
  then have none: "p = gid" "map_of (gidAliases st) gid = None \<or> map_of (gidAliases st) gid = Some []"
    using assms(1) by (auto simp: holds_gid_def)
  then have "portal_of_gid d xs g st = (gid, drop_stale_alias d xs gid st)"
    using assms(3,4) usable_alias_none(1) [OF none(2), of d xs] by (simp add: portal_of_gid_def Let_def)
  then show ?thesis using assms(6) none by (auto simp: drop_stale_alias_def delete_conv)
qed

lemma traffic_step:
  assumes "holds_gid c ps gid p st" "gid = ''gid:'' @ to_lower g" "settled c ps"
    "contains p '','' \<Longrightarrow> \<forall>m \<in> set (canonical_members c ps). m \<in> set (members_of p) \<or> ge_self c m"
    "same_account c d" "p = gid \<longrightarrow> has_room d gid" "key_message d m st = (k, st', eff)"
    "has_gid d gid m \<or> k = (p, ge_login c) \<longrightarrow> same_roster c ps (gm_participants m)"
  shows "holds_gid c ps gid p st' \<and> (has_gid d gid m \<longrightarrow> k = (p, ge_login c))"
proof (cases "is_group_message d (gm_participants m) (gm_name m) (gm_sender m)")
  case False
  then show ?thesis using assms(1,7) by (auto simp: key_message_def makePortalKey_def has_gid_def)
next
  case True
  let ?xs = "gm_participants m"
  obtain q st1 where portal: "group_portal d ?xs (gm_guid m) (gm_sms m) st = (q, st1)" by fastforce
  obtain st2 eff' where cached: "cache_group d q ?xs (gm_name m) (gm_sender m) (gm_guid m) st1 = (st2, eff')" by fastforce
  have k: "k = (q, ge_login c)" "st' = st2"
    using assms(5,7) True portal cached by (simp_all add: key_message_def makePortalKey_def same_account_def)
  note kept = cache_group_state [OF cached]
  have parts: "imGroupParticipants st1 = imGroupParticipants st"
    using portal portal_of_gid_frame(1) member_resolution_frame(1)
    by (fastforce simp: group_portal_def split: option.splits if_splits)
  have own: "q = p \<and> (map_of (gidAliases st1) gid = map_of (gidAliases st) gid \<or>
      map_of (gidAliases st) gid = Some [] \<and> map_of (gidAliases st1) gid = None)" if h: "has_gid d gid m"
  proof -
    from h obtain g' where g': "gm_guid m = Some g'" "g' \<noteq> []" "\<not> gm_sms m" "gid = ''gid:'' @ to_lower g'"
      by (auto simp: has_gid_def split: option.splits)
    then have "portal_of_gid d ?xs g' st = (q, st1)" using portal by (simp add: group_portal_def)
    then show ?thesis by (intro holds_gid_found [OF assms(1,5,6) g'(4)]) (use assms(8) h in auto)
  qed
  have other: "map_of (gidAliases st1) gid = map_of (gidAliases st) gid" if h: "\<not> has_gid d gid m"
    using portal h True portal_of_gid_frame(2) member_resolution_frame(2)
    by (fastforce simp: group_portal_def has_gid_def split: option.splits if_splits)
  have entry: "map_of (gidAliases st') gid = map_of (gidAliases st) gid \<or>
      map_of (gidAliases st) gid = Some [] \<and> map_of (gidAliases st') gid = None"
    using own other kept(1) k(2) by metis
  have fresh: "\<not> guidCacheMatchIsStale c st' p (canonical_members c ps)"
    if ok: "\<not> guidCacheMatchIsStale c st p (canonical_members c ps)"
  proof (cases "q = p \<and> ?xs \<noteq> [] \<and> normalized_members ?xs \<noteq> []")
    case True
    then have roster: "set (canonical_members c ?xs) = set (canonical_members c ps)"
      using assms(8) k(1) by (simp add: same_roster_def)
    have "ge_self c (normalizeIdentifierForPortalID (ge_handle c))" using assms(3) by (simp add: settled_def)
    then have "\<forall>m \<in> set (canonical_members c ps). m \<in> set (normalized_members ?xs) \<or> ge_self c m"
      unfolding roster [symmetric] using members_known by blast
    then show ?thesis
      by (intro not_stale [OF assms(3,4), where xs = "normalized_members ?xs"]) (use True k(2) kept(3) in auto)
  next
    case False
    then have "map_of (imGroupParticipants st') p = map_of (imGroupParticipants st) p" using kept(3) k(2) parts by auto
    from stale_at [OF this, of c] ok show ?thesis by simp
  qed
  show ?thesis using assms(1) entry fresh own k(1) unfolding holds_gid_def by auto
qed

section \<open>Properties\<close>

text \<open>C16.
  The room of a group stays. After a group message with a gid was keyed, every later message of that gid (in any
  letter case, from any sender, under any name) goes to the same portal, whatever messages of other groups and
  direct conversations are keyed in between, whatever rooms, stored chats and portal tables they meet, and in
  whatever order Go iterates the caches. This needs three things of the traffic: messages of the gid, and those
  that are keyed to the portal, carry the members of the group or no member list; the portal has its room if it
  is the gid's own; and the account stays. A portal that is named by its members must contain those of the first
  message. (A message of the gid with other members drops the alias as stale, and the room may change.)
\<close>

theorem gid_room_stable:
  fixes c :: "'e group_env"
  assumes "any_order c" "\<not> has_room c []" "settled c ps" "is_group_message c ps name sender" "g \<noteq> []"
    "makePortalKey c ps name sender (Some g) False st = (key, st', effects)"
    "contains (fst key) '','' \<Longrightarrow> \<forall>m \<in> set (canonical_members c ps). m \<in> set (members_of (fst key)) \<or> ge_self c m"
  defines "gid \<equiv> ''gid:'' @ to_lower g"
  assumes "\<forall>(d, m, k) \<in> set (keyed traffic st'). same_account c d \<and> (fst key = gid \<longrightarrow> has_room d gid) \<and>
      (has_gid d gid m \<or> k = key \<longrightarrow> same_roster c ps (gm_participants m))"
  shows "\<forall>(d, m, k) \<in> set (keyed traffic st'). has_gid d gid m \<longrightarrow> k = key"
proof -
  obtain p st1 where first: "portal_of_gid c ps g st = (p, st1)" by fastforce
  obtain st2 eff where cached: "cache_group c p ps name sender (Some g) st1 = (st2, eff)" by fastforce
  have key: "key = (p, ge_login c)" "st' = st2"
    using assms(4-6) first cached by (simp_all add: makePortalKey_def group_portal_def)
  note kept = cache_group_state [OF cached]
  have self: "ge_self c (normalizeIdentifierForPortalID (ge_handle c))" using assms(3) by (simp add: settled_def)
  have fresh: "\<not> guidCacheMatchIsStale c st' p (canonical_members c ps)"
  proof (cases "ps \<noteq> [] \<and> normalized_members ps \<noteq> []")
    case True
    then show ?thesis
      by (intro not_stale [OF assms(3), where xs = "normalized_members ps"])
        (use assms(7) key kept(3) members_known [OF self] in auto)
  next
    case False
    then have "normalized_members ps = []" by (auto simp: normalized_members_def)
    then have "\<forall>m \<in> set (canonical_members c ps). ge_self c m" using members_known [OF self, of _ ps] by simp
    then show ?thesis by (auto simp: guidCacheMatchIsStale_def list_ex_iff canonical_twice [OF assms(3)])
  qed
  have "holds_gid c ps gid p st'"
    using gid_first [OF first assms(1,2)] fresh kept(1) key(2) unfolding holds_gid_def gid_def by auto
  then show ?thesis using assms(9)
  proof (induction traffic arbitrary: st')
    case (Cons x traffic)
    obtain d m where x: "x = (d, m)" by fastforce
    obtain k st3 eff' where step: "key_message d m st' = (k, st3, eff')" by (metis prod.exhaust)
    have head: "same_account c d" "p = gid \<longrightarrow> has_room d gid" "has_gid d gid m \<or> k = (p, ge_login c) \<longrightarrow> same_roster c ps (gm_participants m)"
      and tail: "\<forall>(d, m, k) \<in> set (keyed traffic st3). same_account c d \<and> (fst key = gid \<longrightarrow> has_room d gid) \<and>
        (has_gid d gid m \<or> k = key \<longrightarrow> same_roster c ps (gm_participants m))"
      using Cons.prems(2) by (simp_all add: x step key(1))
    have "contains p '','' \<Longrightarrow> \<forall>m \<in> set (canonical_members c ps). m \<in> set (members_of p) \<or> ge_self c m"
      using assms(7) key(1) by simp
    from traffic_step [OF Cons.prems(1) meta_eq_to_obj_eq [OF gid_def] assms(3) this head(1,2) step head(3)] Cons.IH [OF _ tail]
    show ?case by (simp add: x step key(1))
  qed simp
qed

text \<open>Another group with an unknown gid, and then a message of the first group.\<close>

definition sample_traffic :: "(unit group_env \<times> group_message) list" where
  "sample_traffic = [
     (sample_group_env, \<lparr>gm_participants = [''+1'', ''+3'', ''+4''], gm_name = None, gm_sender = Some ''+1'', gm_guid = Some ''K'', gm_sms = False\<rparr>),
     (reordered id sample_group_env, \<lparr>gm_participants = [''+1'', ''+2''], gm_name = Some ''N'', gm_sender = Some ''+2'', gm_guid = Some ''h'', gm_sms = False\<rparr>)]"

theorem gid_room_stable_witness:
  "let (key, st', _) = makePortalKey sample_group_env [''+1'', ''+2''] None (Some ''+1'') (Some ''H'') False sample_group_state
   in key = (''mailto:me@x.y,tel:+1,tel:+2'', ''me'') \<and>
     (\<forall>(d, m, k) \<in> set (keyed sample_traffic st'). has_gid d ''gid:h'' m \<longrightarrow> k = key) \<and>
     (\<exists>(d, m, k) \<in> set (keyed sample_traffic st'). has_gid d ''gid:h'' m) \<and>
     map (\<lambda>(d, m, k). k) (keyed sample_traffic st') = [(''gid:k'', ''me''), key]"
proof -
  let ?c = sample_group_env and ?ps = "[''+1'', ''+2'']"
  obtain key st' effects where run:
    "makePortalKey ?c ?ps None (Some ''+1'') (Some ''H'') False sample_group_state = (key, st', effects)"
    by (metis prod.exhaust)
  have st': "st' = fst (snd (makePortalKey ?c ?ps None (Some ''+1'') (Some ''H'') False sample_group_state))" using run by simp
  have "fst (makePortalKey ?c ?ps None (Some ''+1'') (Some ''H'') False sample_group_state) = (''mailto:me@x.y,tel:+1,tel:+2'', ''me'')"
    by code_simp
  then have key: "key = (''mailto:me@x.y,tel:+1,tel:+2'', ''me'')" using run by simp
  have order: "any_order ?c" by (simp add: any_order_def sample_group_env_def)
  have facts: "\<not> has_room ?c []" "settled ?c ?ps" "is_group_message ?c ?ps None (Some ''+1'')" "''H'' \<noteq> []"
    "\<forall>m \<in> set (canonical_members ?c ?ps). m \<in> set (members_of ''mailto:me@x.y,tel:+1,tel:+2'') \<or> ge_self ?c m"
    by code_simp+
  have keys: "map (\<lambda>(d, m, k). k) (keyed sample_traffic st') = [(''gid:k'', ''me''), key]"
    unfolding st' key by code_simp
  have h: "''gid:'' @ to_lower ''H'' = ''gid:h''" by code_simp
  have all: "list_all (\<lambda>(d, m, k). same_account ?c d \<and> (fst key = ''gid:h'' \<longrightarrow> has_room d ''gid:h'') \<and>
      (has_gid d ''gid:h'' m \<or> k = key \<longrightarrow> same_roster ?c ?ps (gm_participants m)))
      (map2 (\<lambda>(c, m) k. (c, m, k)) sample_traffic [(''gid:k'', ''me''), key])"
    unfolding key by code_simp
  have "\<forall>(d, m, k) \<in> set (keyed sample_traffic st'). has_gid d (''gid:'' @ to_lower ''H'') m \<longrightarrow> k = key"
    by (rule gid_room_stable [OF order facts(1-4) run, rotated])
      (unfold h, subst keyed_traffic, unfold keys, rule all [unfolded list_all_iff], unfold key fst_conv, rule facts(5))
  moreover have "list_ex (\<lambda>(d, m, k). has_gid d ''gid:h'' m) (map2 (\<lambda>(c, m) k. (c, m, k)) sample_traffic [(''gid:k'', ''me''), key])"
    unfolding key by code_simp
  then have "\<exists>(d, m, k) \<in> set (keyed sample_traffic st'). has_gid d ''gid:h'' m"
    by (subst keyed_traffic) (unfold keys list_ex_iff)
  ultimately show ?thesis using keys unfolding run Let_def prod.case key h by (simp only: simp_thms)
qed

end
