(* ===== verification/Carrier_Groups.thy ===== *)
theory Carrier_Groups
  imports Group_Routing
begin

text \<open>
  The startup migration that merges a carrier group split over several rooms (\<^verbatim>\<open>sync_controller.go\<close>,
  \<^verbatim>\<open>consolidateCarrierGroupPortals\<close> and what it calls). The Matrix rooms belong to the framework: its portal
  lookup, message count and \<^verbatim>\<open>ReIDPortal\<close> are arguments over an abstract world.
\<close>

section \<open>Planning\<close>

record carrierConsolidationEntry =
  ce_portalID :: portal_id
  ce_canonical :: portal_id

record carrierConsolidationGroup =
  kg_canonical :: portal_id
  kg_members :: "portal_id list"

text \<open>The nested maps of the code are a set of pairs; what is read of them is sorted.\<close>

definition portals_of_key :: "carrierConsolidationEntry list \<Rightarrow> portal_id \<Rightarrow> portal_id list" where
  "portals_of_key used key = sort (dedup (map ce_portalID (filter (\<lambda>e. ce_canonical e = key) used)))"

definition planCarrierGroupConsolidation :: "carrierConsolidationEntry list \<Rightarrow> carrierConsolidationGroup list" where
  "planCarrierGroupConsolidation entries =
     (let used = filter (\<lambda>e. \<not> (ce_canonical e = [] \<or> ce_portalID e = [])) entries;
          needs = (\<lambda>key. let members = portals_of_key used key in length members > 1 \<or> hd members \<noteq> key)
      in map (\<lambda>key. \<lparr>kg_canonical = key, kg_members = portals_of_key used key\<rparr>)
           (sort (filter needs (dedup (map ce_canonical used)))))"

record carrierMemberRoom =
  mr_portalID :: portal_id
  mr_hasRoom :: bool
  mr_msgCount :: int

record carrierRoomMovePlan =
  mp_survivor :: portal_id
  mp_reIDs :: "portal_id list"

definition best_room :: "portal_id \<Rightarrow> carrierMemberRoom list \<Rightarrow> portal_id \<times> int" where
  "best_room canonical members =
     fold (\<lambda>m (survivor, best).
         if mr_portalID m = canonical \<or> \<not> mr_hasRoom m then (survivor, best)
         else if mr_msgCount m > best then (mr_portalID m, mr_msgCount m)
         else (survivor, best)) members ([], -1)"

definition planCarrierRoomMoves :: "portal_id \<Rightarrow> bool \<Rightarrow> carrierMemberRoom list \<Rightarrow> carrierRoomMovePlan" where
  "planCarrierRoomMoves canonical canonicalHasRoom members =
     (let survivor = (if canonicalHasRoom then canonical else fst (best_room canonical members))
      in \<lparr>mp_survivor = survivor,
          mp_reIDs = (if survivor \<noteq> [] \<and> survivor \<noteq> canonical then [survivor] else []) @
            map mr_portalID (filter (\<lambda>m. \<not> (\<not> mr_hasRoom m \<or> mr_portalID m = survivor \<or> mr_portalID m = canonical)) members)\<rparr>)"

section \<open>Applying a plan\<close>

text \<open>The framework over a world of its own: portal lookup, bridged-message count, and the move of a portal.\<close>

record ('w, 'e, 'r) room_ops =
  ro_GetExistingPortalByKey :: "'w \<Rightarrow> portal_key \<Rightarrow> 'e + portal_row option"
  ro_countMessages :: "'w \<Rightarrow> portal_key \<Rightarrow> 'e + int"
  ro_ReIDPortal :: "portal_key \<Rightarrow> portal_key \<Rightarrow> 'w \<Rightarrow> ('e + 'r) \<times> 'w"

definition portalHasRoom :: "('w, 'e, 'r) room_ops \<Rightarrow> 'w \<Rightarrow> portal_key \<Rightarrow> bool" where
  "portalHasRoom ops w key =
     (case ro_GetExistingPortalByKey ops w key of
        Inl _ \<Rightarrow> False
      | Inr None \<Rightarrow> False
      | Inr (Some p) \<Rightarrow> pr_MXID p \<noteq> [])"

definition countBridgedMessages :: "('w, 'e, 'r) room_ops \<Rightarrow> 'w \<Rightarrow> portal_key \<Rightarrow> int" where
  "countBridgedMessages ops w key = (case ro_countMessages ops w key of Inl _ \<Rightarrow> 0 | Inr n \<Rightarrow> n)"

record 'w consolidation =
  cs_db :: cloud_db
  cs_caches :: group_state
  cs_world :: 'w

definition member_room :: "('w, 'e, 'r) room_ops \<Rightarrow> login_id \<Rightarrow> 'w \<Rightarrow> portal_id \<Rightarrow> carrierMemberRoom" where
  "member_room ops login w m =
     (let hasRoom = portalHasRoom ops w (m, login)
      in \<lparr>mr_portalID = m, mr_hasRoom = hasRoom,
          mr_msgCount = (if hasRoom then countBridgedMessages ops w (m, login) else 0)\<rparr>)"

text \<open>The loop over the planned moves: a failure is passed over, except the one of the survivor.\<close>

fun move_rooms :: "('w, 'e, 'r) room_ops \<Rightarrow> login_id \<Rightarrow> portal_id \<Rightarrow> portal_id \<Rightarrow> portal_id list \<Rightarrow> nat
    \<Rightarrow> 'w consolidation \<Rightarrow> nat \<times> 'w consolidation" where
  "move_rooms ops login canonical survivor [] moves st = (moves, st)"
| "move_rooms ops login canonical survivor (m # ms) moves st =
     (let mk = (m, login); canonicalKey = (canonical, login);
          (res, w') = ro_ReIDPortal ops mk canonicalKey (cs_world st);
          (res', caches') = reIDPortalWithCacheUpdate (\<lambda>_ _. res) mk canonicalKey (cs_caches st);
          st' = st\<lparr>cs_caches := caches', cs_world := w'\<rparr>
      in case res' of
           Inl _ \<Rightarrow>
             if m = survivor then (moves + 1, st') else move_rooms ops login canonical survivor ms (moves + 1) st'
         | Inr _ \<Rightarrow> move_rooms ops login canonical survivor ms (moves + 1) st')"

text \<open>\<open>clock\<close> is the reading of the clock when a portal's rows are re-keyed.\<close>

definition consolidateOneCarrierGroup :: "('w, 'e, 'r) room_ops \<Rightarrow> cloudBackfillStore \<Rightarrow> (portal_id \<Rightarrow> millis)
    \<Rightarrow> carrierConsolidationGroup \<Rightarrow> 'w consolidation \<Rightarrow> nat \<times> 'w consolidation" where
  "consolidateOneCarrierGroup ops s clock g st =
     (let login = loginID s; w = cs_world st; canonical = kg_canonical g;
          members = map (member_room ops login w) (filter (\<lambda>m. m \<noteq> canonical) (kg_members g));
          plan = planCarrierRoomMoves canonical (portalHasRoom ops w (canonical, login)) members;
          db1 = fold (\<lambda>m. reKeyPortalID s (clock m) m canonical) (kg_members g) (cs_db st);
          db2 = resetForwardBackfillDone s canonical db1
      in move_rooms ops login canonical (mp_survivor plan) (mp_reIDs plan) 0 (st\<lparr>cs_db := db2\<rparr>))"

definition carrierGroupRoomMoveBudgetPerStartup :: nat where
  "carrierGroupRoomMoveBudgetPerStartup = 50"

fun consolidate_groups :: "('w, 'e, 'r) room_ops \<Rightarrow> cloudBackfillStore \<Rightarrow> (portal_id \<Rightarrow> millis)
    \<Rightarrow> carrierConsolidationGroup list \<Rightarrow> nat \<Rightarrow> nat \<Rightarrow> 'w consolidation \<Rightarrow> nat \<times> 'w consolidation" where
  "consolidate_groups ops s clock [] consolidated roomMoves st = (consolidated, st)"
| "consolidate_groups ops s clock (g # gs) consolidated roomMoves st =
     (if consolidated > 0 \<and> roomMoves \<ge> carrierGroupRoomMoveBudgetPerStartup then (consolidated, st)
      else
        let (moves, st') = consolidateOneCarrierGroup ops s clock g st
        in consolidate_groups ops s clock gs (consolidated + 1) (roomMoves + moves) st')"

definition consolidation_entries :: "merge_client \<Rightarrow> string \<Rightarrow> cloudBackfillStore \<Rightarrow> cloud_db \<Rightarrow> carrierConsolidationEntry list" where
  "consolidation_entries c handle s db =
     map (\<lambda>chat. \<lparr>ce_portalID = cg_portalID chat,
         ce_canonical = join '','' (buildCanonicalParticipantList handle (mc_handles c) (cg_participants chat))\<rparr>)
       (filter (\<lambda>chat. \<not> countNonSelfMembers c (cg_participants chat) None < 2) (listCarrierGroupChats s db))"

text \<open>The answer is the number of groups done; the groups not done are left to the next startup.\<close>

definition consolidateCarrierGroupPortals :: "('w, 'e, 'r) room_ops \<Rightarrow> merge_client \<Rightarrow> string \<Rightarrow> cloudBackfillStore option
    \<Rightarrow> (portal_id \<Rightarrow> millis) \<Rightarrow> 'w consolidation \<Rightarrow> nat \<times> 'w consolidation" where
  "consolidateCarrierGroupPortals ops c handle store clock st =
     (case store of
        None \<Rightarrow> (0, st)
      | Some s \<Rightarrow>
          consolidate_groups ops s clock (planCarrierGroupConsolidation (consolidation_entries c handle s (cs_db st))) 0 0 st)"

section \<open>The plan as a function of the set of entries\<close>

definition entry_pairs :: "carrierConsolidationEntry list \<Rightarrow> (portal_id \<times> portal_id) set" where
  "entry_pairs entries = {(ce_portalID e, ce_canonical e) | e. e \<in> set entries \<and> ce_canonical e \<noteq> [] \<and> ce_portalID e \<noteq> []}"

lemma sort_dedup_sorted_list [simp]: "sort (dedup xs) = sorted_list_of_set (set (xs :: 'a :: linorder list))"
  by (rule sorted_distinct_set_unique) simp_all

lemma portals_of_key_set:
  "portals_of_key (filter (\<lambda>e. \<not> (ce_canonical e = [] \<or> ce_portalID e = [])) es) key = sorted_list_of_set {p. (p, key) \<in> entry_pairs es}"
proof -
  have "set (map ce_portalID (filter (\<lambda>e. ce_canonical e = key) (filter (\<lambda>e. \<not> (ce_canonical e = [] \<or> ce_portalID e = [])) es)))
      = {p. (p, key) \<in> entry_pairs es}"
    by (auto simp: entry_pairs_def)
  then show ?thesis unfolding portals_of_key_def sort_dedup_sorted_list by simp
qed

lemma finite_pairs [simp]: "finite (entry_pairs es)" "finite {p. (p, key) \<in> entry_pairs es}"
proof -
  have "entry_pairs es \<subseteq> (\<lambda>e. (ce_portalID e, ce_canonical e)) ` set es" by (auto simp: entry_pairs_def)
  then show f: "finite (entry_pairs es)" by (rule finite_subset) simp
  have "{p. (p, key) \<in> entry_pairs es} \<subseteq> fst ` entry_pairs es" by force
  then show "finite {p. (p, key) \<in> entry_pairs es}" by (rule finite_subset) (simp add: f)
qed

definition pending_keys :: "(portal_id \<times> portal_id) set \<Rightarrow> portal_id set" where
  "pending_keys E = {key. \<exists>p. (p, key) \<in> E \<and> p \<noteq> key}"

lemma finite_pending [simp]: "finite E \<Longrightarrow> finite (pending_keys E)"
proof -
  assume "finite E"
  moreover have "pending_keys E \<subseteq> snd ` E" by (force simp: pending_keys_def)
  ultimately show ?thesis by (meson finite_imageI finite_subset)
qed

definition plan_of_pairs :: "(portal_id \<times> portal_id) set \<Rightarrow> carrierConsolidationGroup list" where
  "plan_of_pairs E = map (\<lambda>key. \<lparr>kg_canonical = key, kg_members = sorted_list_of_set {p. (p, key) \<in> E}\<rparr>)
     (sorted_list_of_set (pending_keys E))"

lemma needs_iff:
  fixes A :: "portal_id set"
  assumes "finite A" "A \<noteq> {}"
  shows "(length (sorted_list_of_set A) > 1 \<or> hd (sorted_list_of_set A) \<noteq> key) \<longleftrightarrow> (\<exists>p \<in> A. p \<noteq> key)"
proof (cases "\<exists>p \<in> A. p \<noteq> key")
  case True
  then obtain p where p: "p \<in> A" "p \<noteq> key" by blast
  have "hd (sorted_list_of_set A) \<noteq> key" if "length (sorted_list_of_set A) \<le> 1"
    using that p assms by (cases "sorted_list_of_set A") (auto dest: arg_cong [where f = set])
  then show ?thesis using True by auto
next
  case False
  then have "A = {key}" using assms(2) by auto
  then show ?thesis by simp
qed

lemma plan_pairs: "planCarrierGroupConsolidation es = plan_of_pairs (entry_pairs es)"
proof -
  let ?used = "filter (\<lambda>e. \<not> (ce_canonical e = [] \<or> ce_portalID e = [])) es"
  have keys: "set (filter (\<lambda>key. length (portals_of_key ?used key) > 1 \<or> hd (portals_of_key ?used key) \<noteq> key) (dedup (map ce_canonical ?used)))
      = pending_keys (entry_pairs es)"
  proof -
    have used: "key \<in> set (map ce_canonical ?used) \<longleftrightarrow> {p. (p, key) \<in> entry_pairs es} \<noteq> {}" for key
      by (auto simp: entry_pairs_def)
    have "key \<in> set (map ce_canonical ?used) \<and>
        (length (portals_of_key ?used key) > 1 \<or> hd (portals_of_key ?used key) \<noteq> key) \<longleftrightarrow> key \<in> pending_keys (entry_pairs es)" for key
    proof (cases "{p. (p, key) \<in> entry_pairs es} = {}")
      case False
      show ?thesis
        unfolding used portals_of_key_set needs_iff [OF finite_pairs(2) False] pending_keys_def using False by blast
    qed (use used in \<open>auto simp: pending_keys_def\<close>)
    then show ?thesis unfolding set_filter set_dedup_seen list.set(1) Diff_empty by blast
  qed
  have "sort (filter (\<lambda>key. length (portals_of_key ?used key) > 1 \<or> hd (portals_of_key ?used key) \<noteq> key) (dedup (map ce_canonical ?used)))
      = sorted_list_of_set (pending_keys (entry_pairs es))"
    by (rule sorted_distinct_set_unique) (simp_all only: sorted_sort distinct_sort distinct_filter distinct_dedup_seen
      set_sort keys set_sorted_list_of_set [OF finite_pending [OF finite_pairs(1)]] sorted_sorted_list_of_set distinct_sorted_list_of_set)
  then show ?thesis
    unfolding planCarrierGroupConsolidation_def Let_def plan_of_pairs_def portals_of_key_set by simp
qed

section \<open>The rooms after the moves\<close>

definition room_of :: "('w, 'e, 'r) room_ops \<Rightarrow> 'w \<Rightarrow> portal_key \<Rightarrow> string option" where
  "room_of ops w key =
     (case ro_GetExistingPortalByKey ops w key of
        Inr (Some p) \<Rightarrow> if pr_MXID p = [] then None else Some (pr_MXID p)
      | _ \<Rightarrow> None)"

lemma portalHasRoom_room: "portalHasRoom ops w key \<longleftrightarrow> room_of ops w key \<noteq> None"
  by (simp add: portalHasRoom_def room_of_def split: sum.splits option.splits)

text \<open>
  What the framework documents of \<^verbatim>\<open>ReIDPortal\<close>: on success a portal without a room disappears, one with a room
  is renamed when the target has none and tombstoned into the target when it has one.
\<close>

definition moved_room :: "portal_key \<Rightarrow> portal_key \<Rightarrow> (portal_key \<Rightarrow> string option) \<Rightarrow> portal_key \<Rightarrow> string option" where
  "moved_room a b R =
     (case R a of
        None \<Rightarrow> R
      | Some room \<Rightarrow> if R b = None then R(a := None, b := Some room) else R(a := None))"

definition reid_moves_rooms :: "('w, 'e, 'r) room_ops \<Rightarrow> bool" where
  "reid_moves_rooms ops \<longleftrightarrow>
     (\<forall>a b w r w'. a \<noteq> b \<longrightarrow> ro_ReIDPortal ops a b w = (Inr r, w') \<longrightarrow> room_of ops w' = moved_room a b (room_of ops w))"

lemma reid_result: "fst (reIDPortalWithCacheUpdate (\<lambda>_ _. res) a b st) = res"
  by (simp add: reIDPortalWithCacheUpdate_def Let_def split: sum.splits)

definition rooms_merged :: "portal_key list \<Rightarrow> portal_key \<Rightarrow> (portal_key \<Rightarrow> string option) \<Rightarrow> portal_key \<Rightarrow> string option" where
  "rooms_merged ks b R =
     (\<lambda>k. if k \<in> set ks then None
          else if k = b \<and> R b = None then (case ks of [] \<Rightarrow> None | first # _ \<Rightarrow> R first)
          else R k)"

lemma rooms_merged_step:
  assumes "a \<noteq> b" "R a \<noteq> None" "b \<notin> set ks" "a \<notin> set ks"
  shows "rooms_merged ks b (moved_room a b R) = rooms_merged (a # ks) b R"
  using assms by (auto simp: rooms_merged_def moved_room_def fun_eq_iff split: list.splits)

text \<open>When every move succeeds, the loop takes all rooms away but the one the canonical key ends up with.\<close>

lemma move_rooms_all:
  assumes "reid_moves_rooms ops" "\<And>a b w. \<exists>r w'. ro_ReIDPortal ops a b w = (Inr r, w')"
    "canonical \<notin> set ms" "distinct ms" "\<forall>m \<in> set ms. room_of ops (cs_world st) (m, login) \<noteq> None"
  shows "fst (move_rooms ops login canonical survivor ms moves st) = moves + length ms \<and>
    cs_db (snd (move_rooms ops login canonical survivor ms moves st)) = cs_db st \<and>
    room_of ops (cs_world (snd (move_rooms ops login canonical survivor ms moves st))) =
      rooms_merged (map (\<lambda>m. (m, login)) ms) (canonical, login) (room_of ops (cs_world st))"
  using assms(3-)
proof (induction ms arbitrary: moves st)
  case Nil
  then show ?case by (auto simp: rooms_merged_def)
next
  case (Cons m ms)
  obtain r w' where r: "ro_ReIDPortal ops (m, login) (canonical, login) (cs_world st) = (Inr r, w')" using assms(2) by blast
  obtain res caches' where "reIDPortalWithCacheUpdate (\<lambda>_ _. fst (ro_ReIDPortal ops (m, login) (canonical, login) (cs_world st)))
      (m, login) (canonical, login) (cs_caches st) = (res, caches')"
    by fastforce
  note c = this [unfolded r fst_conv]
  then have res: "res = Inr r" using reid_result by (metis fst_conv)
  let ?st = "st\<lparr>cs_caches := caches', cs_world := w'\<rparr>"
  have world: "room_of ops w' = moved_room (m, login) (canonical, login) (room_of ops (cs_world st))"
    using assms(1) r Cons.prems unfolding reid_moves_rooms_def by auto
  have step: "move_rooms ops login canonical survivor (m # ms) moves st = move_rooms ops login canonical survivor ms (moves + 1) ?st"
    using r c res by (simp add: Let_def)
  have rest: "\<forall>x \<in> set ms. room_of ops w' (x, login) \<noteq> None"
    using Cons.prems by (auto simp: world moved_room_def split: option.splits)
  have merged: "rooms_merged (map (\<lambda>m. (m, login)) ms) (canonical, login) (room_of ops w') =
      rooms_merged (map (\<lambda>m. (m, login)) (m # ms)) (canonical, login) (room_of ops (cs_world st))"
    unfolding world list.map by (rule rooms_merged_step) (use Cons.prems in auto)
  show ?case
    using Cons.IH [of ?st "moves + 1"] Cons.prems rest merged unfolding step by simp
qed

section \<open>The survivor\<close>

lemma best_room_fold:
  assumes "\<forall>m \<in> set ms. mr_portalID m \<noteq> canonical" "acc = fold (\<lambda>m (survivor, best).
         if mr_portalID m = canonical \<or> \<not> mr_hasRoom m then (survivor, best)
         else if mr_msgCount m > best then (mr_portalID m, mr_msgCount m)
         else (survivor, best)) ms (s0, b0)"
  shows "b0 \<le> snd acc \<and> (\<forall>m \<in> set ms. mr_hasRoom m \<longrightarrow> mr_msgCount m \<le> snd acc) \<and>
    (acc = (s0, b0) \<or> (\<exists>m \<in> set ms. mr_hasRoom m \<and> acc = (mr_portalID m, mr_msgCount m)))"
  using assms
proof (induction ms arbitrary: s0 b0 acc)
  case (Cons m ms)
  let ?p = "if \<not> mr_hasRoom m then (s0, b0) else if mr_msgCount m > b0 then (mr_portalID m, mr_msgCount m) else (s0, b0)"
  have m: "mr_portalID m \<noteq> canonical" using Cons.prems(1) by simp
  have "acc = fold (\<lambda>m (survivor, best).
         if mr_portalID m = canonical \<or> \<not> mr_hasRoom m then (survivor, best)
         else if mr_msgCount m > best then (mr_portalID m, mr_msgCount m)
         else (survivor, best)) ms (fst ?p, snd ?p)"
    using Cons.prems(2) m by simp
  from Cons.IH [OF _ this] Cons.prems(1) show ?case by (auto split: if_splits)
qed simp

text \<open>The survivor is a member with a room and the most bridged messages, if any member has a room.\<close>

lemma best_room_survivor:
  assumes "\<forall>m \<in> set ms. mr_portalID m \<noteq> canonical \<and> mr_portalID m \<noteq> [] \<and> mr_msgCount m \<ge> 0"
  shows "(fst (best_room canonical ms) = [] \<longleftrightarrow> (\<forall>m \<in> set ms. \<not> mr_hasRoom m)) \<and>
    (fst (best_room canonical ms) \<noteq> [] \<longrightarrow>
      (\<exists>b \<in> set ms. mr_hasRoom b \<and> mr_portalID b = fst (best_room canonical ms) \<and>
        (\<forall>m \<in> set ms. mr_hasRoom m \<longrightarrow> mr_msgCount m \<le> mr_msgCount b)))"
proof -
  obtain acc where acc: "acc = best_room canonical ms" by simp
  note best = best_room_fold [of ms canonical acc "[]" "-1", OF _ acc [unfolded best_room_def]]
  have facts: "\<forall>m \<in> set ms. mr_hasRoom m \<longrightarrow> mr_msgCount m \<le> snd acc"
    "acc = ([], -1) \<or> (\<exists>m \<in> set ms. mr_hasRoom m \<and> acc = (mr_portalID m, mr_msgCount m))"
    using best assms by auto
  from facts(2) show ?thesis
  proof
    assume a: "acc = ([], -1)"
    then have "\<forall>m \<in> set ms. \<not> mr_hasRoom m" using facts(1) assms by fastforce
    then show ?thesis using a acc by auto
  next
    assume "\<exists>m \<in> set ms. mr_hasRoom m \<and> acc = (mr_portalID m, mr_msgCount m)"
    then obtain b where "b \<in> set ms" "mr_hasRoom b" "acc = (mr_portalID b, mr_msgCount b)" by blast
    then show ?thesis using facts(1) assms acc by (metis fst_conv snd_conv)
  qed
qed

section \<open>The rows after re-keying\<close>

definition chat_view :: "cloud_chat_row \<Rightarrow> login_id \<times> string \<times> string option \<times> bool \<times> string list json_text option" where
  "chat_view r = (c_login_id r, c_cloud_chat_id r, c_service r, c_deleted r, c_participants_json r)"

definition renamed :: "portal_id list \<Rightarrow> portal_id \<Rightarrow> portal_id \<Rightarrow> portal_id" where
  "renamed ms K p = (if p \<in> set ms then K else p)"

text \<open>All members of a group are re-keyed in one go: rows keep their order and everything but the portal.\<close>

lemma rekey_chats:
  assumes "K \<noteq> []" "[] \<notin> set ms"
  shows "map (\<lambda>r. (c_portal_id r, chat_view r)) (cloud_chat (fold (\<lambda>m. reKeyPortalID s (clock m) m K) ms db)) =
    map (\<lambda>r. (if c_login_id r = loginID s then renamed ms K (c_portal_id r) else c_portal_id r, chat_view r)) (cloud_chat db)"
  using assms(2)
proof (induction ms arbitrary: db)
  case Nil
  then show ?case by (simp add: renamed_def)
next
  case (Cons m ms)
  let ?db = "reKeyPortalID s (clock m) m K db"
  have "map (\<lambda>r. (if c_login_id r = loginID s then renamed ms K (c_portal_id r) else c_portal_id r, chat_view r)) (cloud_chat ?db) =
      map (\<lambda>r. (if c_login_id r = loginID s then renamed (m # ms) K (c_portal_id r) else c_portal_id r, chat_view r)) (cloud_chat db)"
  proof (cases "m = K")
    case True
    then show ?thesis by (auto simp: reKeyPortalID_def renamed_def)
  next
    case False
    then show ?thesis using assms(1) Cons.prems
      by (auto simp: reKeyPortalID_def update_where_def renamed_def chat_view_def)
  qed
  then show ?case using Cons.IH [of ?db] Cons.prems by simp
qed

lemma rekey_messages:
  assumes "K \<noteq> []" "[] \<notin> set ms"
  shows "map (\<lambda>r. (m_portal_id r, m_login_id r, m_guid r)) (cloud_message (fold (\<lambda>m. reKeyPortalID s (clock m) m K) ms db)) =
    map (\<lambda>r. (if m_login_id r = loginID s then map_option (renamed ms K) (m_portal_id r) else m_portal_id r, m_login_id r, m_guid r))
      (cloud_message db)"
  using assms(2)
proof (induction ms arbitrary: db)
  case Nil
  then show ?case by (simp add: renamed_def [abs_def] option.map_id0 [unfolded id_def])
next
  case (Cons m ms)
  let ?db = "reKeyPortalID s (clock m) m K db"
  have "map (\<lambda>r. (if m_login_id r = loginID s then map_option (renamed ms K) (m_portal_id r) else m_portal_id r, m_login_id r, m_guid r))
        (cloud_message ?db) =
      map (\<lambda>r. (if m_login_id r = loginID s then map_option (renamed (m # ms) K) (m_portal_id r) else m_portal_id r, m_login_id r, m_guid r))
        (cloud_message db)"
  proof (cases "m = K")
    case True
    then show ?thesis by (auto simp: reKeyPortalID_def renamed_def intro!: option.map_cong)
  next
    case False
    then show ?thesis using assms(1) Cons.prems
      by (auto simp: reKeyPortalID_def update_where_def renamed_def col_eq_def intro!: option.map_cong)
  qed
  then show ?case using Cons.IH [of ?db] Cons.prems by simp
qed

lemma reset_chats [simp]:
  "map (\<lambda>r. (c_portal_id r, chat_view r)) (cloud_chat (resetForwardBackfillDone s K db)) =
   map (\<lambda>r. (c_portal_id r, chat_view r)) (cloud_chat db)"
  "cloud_message (resetForwardBackfillDone s K db) = cloud_message db"
  by (simp_all add: resetForwardBackfillDone_def update_where_def chat_view_def)

lemma move_rooms_db [simp]: "cs_db (snd (move_rooms ops login canonical survivor ms moves st)) = cs_db st"
  by (induction ops login canonical survivor ms moves st rule: move_rooms.induct)
    (simp add: Let_def split: prod.splits sum.splits)+

definition group_db :: "cloudBackfillStore \<Rightarrow> (portal_id \<Rightarrow> millis) \<Rightarrow> carrierConsolidationGroup \<Rightarrow> cloud_db \<Rightarrow> cloud_db" where
  "group_db s clock g db =
     resetForwardBackfillDone s (kg_canonical g) (fold (\<lambda>m. reKeyPortalID s (clock m) m (kg_canonical g)) (kg_members g) db)"

lemma consolidate_db: "cs_db (snd (consolidateOneCarrierGroup ops s clock g st)) = group_db s clock g (cs_db st)"
  by (simp add: consolidateOneCarrierGroup_def group_db_def Let_def)

lemma group_db_chats:
  assumes "kg_canonical g \<noteq> []" "[] \<notin> set (kg_members g)"
  shows "map (\<lambda>r. (c_portal_id r, chat_view r)) (cloud_chat (group_db s clock g db)) =
    map (\<lambda>r. (if c_login_id r = loginID s then renamed (kg_members g) (kg_canonical g) (c_portal_id r) else c_portal_id r, chat_view r))
      (cloud_chat db)"
  unfolding group_db_def reset_chats(1) by (rule rekey_chats [OF assms])

lemma map_filter_view:
  assumes "map f xs = map g ys" "\<And>y. P (g y) = Q y" "\<And>x. P (f x) = Q' x" "\<And>x. h (f x) = a x" "\<And>y. h (g y) = b y"
  shows "map a (filter Q' xs) = map b (filter Q ys)"
proof -
  have "map a (filter Q' xs) = map h (filter P (map f xs))" using assms(3,4) by (simp add: filter_map comp_def)
  also have "\<dots> = map b (filter Q ys)" using assms(1,2,5) by (simp add: filter_map comp_def)
  finally show ?thesis .
qed

lemma group_db_rows:
  assumes "kg_canonical g \<noteq> []" "[] \<notin> set (kg_members g)"
  shows "map c_cloud_chat_id (chat_rows s (\<lambda>r. c_portal_id r = kg_canonical g) (group_db s clock g db)) =
      map c_cloud_chat_id (chat_rows s (\<lambda>r. c_portal_id r \<in> insert (kg_canonical g) (set (kg_members g))) db)"
    "map m_guid (filter (\<lambda>r. m_login_id r = loginID s \<and> m_portal_id r = Some (kg_canonical g)) (cloud_message (group_db s clock g db))) =
      map m_guid (filter (\<lambda>r. m_login_id r = loginID s \<and> m_portal_id r \<in> Some ` insert (kg_canonical g) (set (kg_members g)))
        (cloud_message db))"
    "\<forall>r \<in> set (chat_rows s (\<lambda>r. c_portal_id r = kg_canonical g) (group_db s clock g db)). \<not> c_fwd_backfill_done r"
proof -
  show "map c_cloud_chat_id (chat_rows s (\<lambda>r. c_portal_id r = kg_canonical g) (group_db s clock g db)) =
      map c_cloud_chat_id (chat_rows s (\<lambda>r. c_portal_id r \<in> insert (kg_canonical g) (set (kg_members g))) db)"
    unfolding chat_rows_def
    by (rule map_filter_view [OF group_db_chats [OF assms, of s clock db],
        where P = "\<lambda>v. fst (snd v) = loginID s \<and> fst v = kg_canonical g" and h = "\<lambda>v. fst (snd (snd v))"])
      (auto simp: chat_view_def renamed_def)
  have "map (\<lambda>r. (m_portal_id r, m_login_id r, m_guid r)) (cloud_message (group_db s clock g db)) =
      map (\<lambda>r. (if m_login_id r = loginID s then map_option (renamed (kg_members g) (kg_canonical g)) (m_portal_id r) else m_portal_id r,
        m_login_id r, m_guid r)) (cloud_message db)"
    unfolding group_db_def reset_chats(2) by (rule rekey_messages [OF assms])
  then show "map m_guid (filter (\<lambda>r. m_login_id r = loginID s \<and> m_portal_id r = Some (kg_canonical g)) (cloud_message (group_db s clock g db))) =
      map m_guid (filter (\<lambda>r. m_login_id r = loginID s \<and> m_portal_id r \<in> Some ` insert (kg_canonical g) (set (kg_members g)))
        (cloud_message db))"
    by (rule map_filter_view [where P = "\<lambda>v. fst (snd v) = loginID s \<and> fst v = Some (kg_canonical g)" and h = "\<lambda>v. snd (snd v)"])
      (auto simp: renamed_def split: if_splits)
  show "\<forall>r \<in> set (chat_rows s (\<lambda>r. c_portal_id r = kg_canonical g) (group_db s clock g db)). \<not> c_fwd_backfill_done r"
    by (auto simp: group_db_def chat_rows_def resetForwardBackfillDone_def update_where_def split: if_splits)
qed

section \<open>Properties\<close>

lemma planned_moves:
  fixes ops :: "('w, 'e, 'r) room_ops" and w :: 'w and login :: login_id
  assumes "[] \<notin> set ms" "canonical \<noteq> []" "distinct ms" "canonical \<notin> set ms"
  defines "plan \<equiv> planCarrierRoomMoves canonical (portalHasRoom ops w (canonical, login)) (map (member_room ops login w) ms)"
  assumes "\<And>k. 0 \<le> countBridgedMessages ops w k"
  shows "distinct (mp_reIDs plan) \<and> set (mp_reIDs plan) = {m \<in> set ms. room_of ops w (m, login) \<noteq> None} \<and>
    (room_of ops w (canonical, login) = None \<longrightarrow> mp_reIDs plan \<noteq> [] \<longrightarrow>
      (\<forall>m \<in> set (mp_reIDs plan). countBridgedMessages ops w (m, login) \<le> countBridgedMessages ops w (hd (mp_reIDs plan), login)))"
proof (cases "portalHasRoom ops w (canonical, login)")
  case True
  then have "mp_reIDs plan = filter (\<lambda>m. portalHasRoom ops w (m, login)) ms"
    using assms(4) by (auto simp: plan_def planCarrierRoomMoves_def member_room_def Let_def filter_map comp_def intro: filter_cong)
  then show ?thesis using assms(3) True by (auto simp: portalHasRoom_room)
next
  case False
  define best where "best = fst (best_room canonical (map (member_room ops login w) ms))"
  have wf: "\<forall>m \<in> set (map (member_room ops login w) ms). mr_portalID m \<noteq> canonical \<and> mr_portalID m \<noteq> [] \<and> mr_msgCount m \<ge> 0"
    using assms(1,4,6) by (auto simp: member_room_def Let_def)
  note survivor = best_room_survivor [OF wf, folded best_def]
  have ids: "mp_reIDs plan = (if best \<noteq> [] \<and> best \<noteq> canonical then [best] else []) @
      filter (\<lambda>m. portalHasRoom ops w (m, login) \<and> m \<noteq> best) ms"
    using False assms(4) by (auto simp: plan_def planCarrierRoomMoves_def member_room_def Let_def filter_map comp_def best_def intro: filter_cong)
  show ?thesis
  proof (cases "best = []")
    case True
    then have "\<forall>m \<in> set ms. \<not> portalHasRoom ops w (m, login)" using survivor by (simp add: member_room_def Let_def)
    then show ?thesis using True ids by (auto simp: portalHasRoom_room)
  next
    case some: False
    then obtain b where b: "b \<in> set ms" "portalHasRoom ops w (b, login)" "b = best"
      "\<forall>m \<in> set ms. portalHasRoom ops w (m, login) \<longrightarrow> countBridgedMessages ops w (m, login) \<le> countBridgedMessages ops w (b, login)"
      using survivor by (auto simp: member_room_def Let_def)
    then have "best \<noteq> canonical" using assms(4) by auto
    then have "mp_reIDs plan = best # filter (\<lambda>m. portalHasRoom ops w (m, login) \<and> m \<noteq> best) ms" using ids some by simp
    then show ?thesis using b assms(3) by (auto simp: portalHasRoom_room)
  qed
qed

text \<open>The rooms of a group, and the outcome of merging them, in terms of rooms only.\<close>

lemma consolidate_rooms:
  fixes ops :: "('w, 'e, 'r) room_ops"
  assumes "reid_moves_rooms ops" "\<And>a b w. \<exists>r w'. ro_ReIDPortal ops a b w = (Inr r, w')" "\<And>w k. 0 \<le> countBridgedMessages ops w k"
    "kg_canonical g \<noteq> []" "[] \<notin> set (kg_members g)" "distinct (kg_members g)"
    "consolidateOneCarrierGroup ops s clock g st = (moves, st')"
  obtains ks where "distinct ks" "set ks = {m \<in> set (kg_members g). m \<noteq> kg_canonical g \<and> room_of ops (cs_world st) (m, loginID s) \<noteq> None}"
    "moves = length ks"
    "room_of ops (cs_world st') = rooms_merged (map (\<lambda>m. (m, loginID s)) ks) (kg_canonical g, loginID s) (room_of ops (cs_world st))"
    "room_of ops (cs_world st) (kg_canonical g, loginID s) = None \<longrightarrow> ks \<noteq> [] \<longrightarrow>
      (\<forall>m \<in> set ks. countBridgedMessages ops (cs_world st) (m, loginID s) \<le> countBridgedMessages ops (cs_world st) (hd ks, loginID s))"
proof -
  let ?K = "kg_canonical g" and ?login = "loginID s" and ?w = "cs_world st"
  let ?ms = "filter (\<lambda>m. m \<noteq> ?K) (kg_members g)"
  let ?plan = "planCarrierRoomMoves ?K (portalHasRoom ops ?w (?K, ?login)) (map (member_room ops ?login ?w) ?ms)"
  have planned: "distinct (mp_reIDs ?plan) \<and> set (mp_reIDs ?plan) = {m \<in> set ?ms. room_of ops ?w (m, ?login) \<noteq> None} \<and>
    (room_of ops ?w (?K, ?login) = None \<longrightarrow> mp_reIDs ?plan \<noteq> [] \<longrightarrow>
      (\<forall>m \<in> set (mp_reIDs ?plan). countBridgedMessages ops ?w (m, ?login) \<le> countBridgedMessages ops ?w (hd (mp_reIDs ?plan), ?login)))"
    by (rule planned_moves) (use assms(3-6) in auto)
  have run: "(moves, st') = move_rooms ops ?login ?K (mp_survivor ?plan) (mp_reIDs ?plan) 0 (st\<lparr>cs_db := group_db s clock g (cs_db st)\<rparr>)"
    using assms(7) by (simp add: consolidateOneCarrierGroup_def group_db_def Let_def)
  have moved: "fst (moves, st') = 0 + length (mp_reIDs ?plan) \<and>
    cs_db (snd (moves, st')) = cs_db (st\<lparr>cs_db := group_db s clock g (cs_db st)\<rparr>) \<and>
    room_of ops (cs_world (snd (moves, st'))) =
      rooms_merged (map (\<lambda>m. (m, ?login)) (mp_reIDs ?plan)) (?K, ?login)
        (room_of ops (cs_world (st\<lparr>cs_db := group_db s clock g (cs_db st)\<rparr>)))"
    unfolding run by (rule move_rooms_all [OF assms(1,2)]) (use planned in auto)
  show ?thesis
    by (rule that [of "mp_reIDs ?plan"]) (use planned moved in auto)
qed

text \<open>C19.
  Merging a split carrier group loses no history and no larger room. If every \<^verbatim>\<open>ReIDPortal\<close> succeeds and does what
  it documents, then afterwards no portal of the group other than the canonical one has a room; the canonical
  portal keeps its room if it had one, and otherwise gets the room of a member with the most bridged
  messages; other portals keep their rooms; and all chats and messages of the members are under the canonical
  portal, in their order, due for a new forward backfill.
\<close>

theorem carrier_group_merged:
  fixes ops :: "('w, 'e, 'r) room_ops"
  assumes "reid_moves_rooms ops" "\<And>a b w. \<exists>r w'. ro_ReIDPortal ops a b w = (Inr r, w')" "\<And>w k. 0 \<le> countBridgedMessages ops w k"
    "kg_canonical g \<noteq> []" "[] \<notin> set (kg_members g)" "distinct (kg_members g)"
    "consolidateOneCarrierGroup ops s clock g st = (moves, st')"
  defines "K \<equiv> (kg_canonical g, loginID s)" and "rooms \<equiv> room_of ops (cs_world st)" and "rooms' \<equiv> room_of ops (cs_world st')"
    and "others \<equiv> {(m, loginID s) | m. m \<in> set (kg_members g) \<and> m \<noteq> kg_canonical g}"
  shows "(\<forall>k \<in> others. rooms' k = None) \<and> (\<forall>k. k \<notin> insert K others \<longrightarrow> rooms' k = rooms k) \<and>
    (rooms K \<noteq> None \<longrightarrow> rooms' K = rooms K) \<and>
    (rooms K = None \<longrightarrow>
      (if \<forall>k \<in> others. rooms k = None then rooms' K = None
       else \<exists>b \<in> others. rooms b \<noteq> None \<and> rooms' K = rooms b \<and>
         (\<forall>k \<in> others. rooms k \<noteq> None \<longrightarrow> countBridgedMessages ops (cs_world st) k \<le> countBridgedMessages ops (cs_world st) b))) \<and>
    map c_cloud_chat_id (chat_rows s (\<lambda>r. c_portal_id r = kg_canonical g) (cs_db st')) =
      map c_cloud_chat_id (chat_rows s (\<lambda>r. c_portal_id r \<in> insert (kg_canonical g) (set (kg_members g))) (cs_db st)) \<and>
    map m_guid (filter (\<lambda>r. m_login_id r = loginID s \<and> m_portal_id r = Some (kg_canonical g)) (cloud_message (cs_db st'))) =
      map m_guid (filter (\<lambda>r. m_login_id r = loginID s \<and> m_portal_id r \<in> Some ` insert (kg_canonical g) (set (kg_members g)))
        (cloud_message (cs_db st))) \<and>
    (\<forall>r \<in> set (chat_rows s (\<lambda>r. c_portal_id r = kg_canonical g) (cs_db st')). \<not> c_fwd_backfill_done r)"
proof -
  obtain ks where ks: "distinct ks"
    "set ks = {m \<in> set (kg_members g). m \<noteq> kg_canonical g \<and> room_of ops (cs_world st) (m, loginID s) \<noteq> None}"
    "moves = length ks"
    "room_of ops (cs_world st') = rooms_merged (map (\<lambda>m. (m, loginID s)) ks) (kg_canonical g, loginID s) (room_of ops (cs_world st))"
    "room_of ops (cs_world st) (kg_canonical g, loginID s) = None \<longrightarrow> ks \<noteq> [] \<longrightarrow>
      (\<forall>m \<in> set ks. countBridgedMessages ops (cs_world st) (m, loginID s) \<le> countBridgedMessages ops (cs_world st) (hd ks, loginID s))"
    by (rule consolidate_rooms [OF assms(1-7)])
  have db: "cs_db st' = group_db s clock g (cs_db st)"
    using consolidate_db [of ops s clock g st] assms(7) by simp
  let ?ks = "map (\<lambda>m. (m, loginID s)) ks"
  have set_ks: "set ?ks = {k \<in> others. rooms k \<noteq> None}" by (auto simp: ks(2) others_def rooms_def)
  have rooms': "rooms' = rooms_merged ?ks K rooms" by (simp add: rooms'_def ks(4) K_def rooms_def)
  have K: "K \<notin> others" by (simp add: K_def others_def)
  have others: "\<forall>k \<in> others. rooms' k = None" "\<forall>k. k \<notin> insert K others \<longrightarrow> rooms' k = rooms k"
    "rooms K \<noteq> None \<longrightarrow> rooms' K = rooms K"
    using K set_ks by (auto simp: rooms' rooms_merged_def)
  have survivor: "if \<forall>k \<in> others. rooms k = None then rooms' K = None
      else \<exists>b \<in> others. rooms b \<noteq> None \<and> rooms' K = rooms b \<and>
        (\<forall>k \<in> others. rooms k \<noteq> None \<longrightarrow> countBridgedMessages ops (cs_world st) k \<le> countBridgedMessages ops (cs_world st) b)"
    if none: "rooms K = None"
  proof (cases ks)
    case Nil
    then have "\<forall>k \<in> others. rooms k = None" using set_ks by auto
    moreover have "rooms' K = None" using Nil none by (simp add: rooms' rooms_merged_def)
    ultimately show ?thesis by simp
  next
    case (Cons b bs)
    let ?b = "(b, loginID s)"
    have b: "?b \<in> others" "rooms ?b \<noteq> None" using set_ks Cons by (auto simp: set_eq_iff)
    have "rooms' K = rooms ?b" using K set_ks none Cons by (auto simp: rooms' rooms_merged_def)
    moreover have "countBridgedMessages ops (cs_world st) k \<le> countBridgedMessages ops (cs_world st) ?b"
      if "k \<in> others" "rooms k \<noteq> None" for k
    proof -
      have "k \<in> set ?ks" using that set_ks by blast
      then obtain m where "m \<in> set ks" "k = (m, loginID s)" by auto
      then show ?thesis using ks(5) none Cons by (auto simp: rooms_def K_def)
    qed
    ultimately show ?thesis using b by metis
  qed
  show ?thesis
    unfolding db by (intro conjI) (rule others group_db_rows [OF assms(4,5)] | (rule impI, erule survivor))+
qed

text \<open>A world of numbered rooms, where the number is also the count of bridged messages.\<close>

definition numbered_rooms :: "(portal_key \<Rightarrow> nat option, unit, unit) room_ops" where
  "numbered_rooms =
     \<lparr>ro_GetExistingPortalByKey = (\<lambda>w k. Inr (map_option (\<lambda>n. \<lparr>pr_key = k, pr_MXID = CHR ''!'' # replicate n (CHR ''x'')\<rparr>) (w k))),
      ro_countMessages = (\<lambda>w k. Inr (case w k of None \<Rightarrow> 0 | Some n \<Rightarrow> int n)),
      ro_ReIDPortal = (\<lambda>a b w. (Inr (),
        if a = b \<or> w a = None then w else if w b = None then w(a := None, b := w a) else w(a := None)))\<rparr>"

lemma numbered_room_of: "room_of numbered_rooms w k = map_option (\<lambda>n. CHR ''!'' # replicate n (CHR ''x'')) (w k)"
  by (cases "w k") (simp_all add: room_of_def numbered_rooms_def)

lemma numbered_rooms_move: "reid_moves_rooms numbered_rooms"
  unfolding reid_moves_rooms_def
proof (intro allI impI)
  fix a b :: portal_key and w r w'
  assume "a \<noteq> b" "ro_ReIDPortal numbered_rooms a b w = (Inr r, w')"
  then have "w' = (if w a = None then w else if w b = None then w(a := None, b := w a) else w(a := None))"
    by (auto simp: numbered_rooms_def)
  then show "room_of numbered_rooms w' = moved_room a b (room_of numbered_rooms w)"
    using \<open>a \<noteq> b\<close> by (intro ext) (auto simp: numbered_room_of moved_room_def split: option.splits)
qed

definition sample_carrier_group :: carrierConsolidationGroup where
  "sample_carrier_group = \<lparr>kg_canonical = ''a,b'', kg_members = [''gid:1'', ''gid:2'']\<rparr>"

definition sample_carrier_state :: "(portal_key \<Rightarrow> nat option) consolidation" where
  "sample_carrier_state = \<lparr>cs_db = sample_group_db, cs_caches = sample_group_state,
     cs_world = (\<lambda>_. None)((''gid:1'', ''alice'') := Some 2, (''gid:2'', ''alice'') := Some 5)\<rparr>"

theorem carrier_group_merged_witness:
  "cs_world (snd (consolidateOneCarrierGroup numbered_rooms sample_store (\<lambda>_. 7) sample_carrier_group sample_carrier_state)) (''a,b'', ''alice'') = Some 5"
proof -
  let ?st' = "snd (consolidateOneCarrierGroup numbered_rooms sample_store (\<lambda>_. 7) sample_carrier_group sample_carrier_state)"
  obtain n st' where run: "consolidateOneCarrierGroup numbered_rooms sample_store (\<lambda>_. 7) sample_carrier_group sample_carrier_state = (n, st')"
    by fastforce
  let ?w = "cs_world sample_carrier_state"
  let ?others = "{(m, loginID sample_store) | m. m \<in> set (kg_members sample_carrier_group) \<and> m \<noteq> kg_canonical sample_carrier_group}"
  have login: "loginID sample_store = ''alice''" by code_simp
  have w: "?w (''gid:1'', ''alice'') = Some 2" "?w (''gid:2'', ''alice'') = Some 5" "?w (''a,b'', ''alice'') = None"
    by (simp_all add: sample_carrier_state_def)
  have ok: "\<exists>r w'. ro_ReIDPortal numbered_rooms a b w = (Inr r, w')" for a b w by (simp add: numbered_rooms_def)
  have counts: "0 \<le> countBridgedMessages numbered_rooms w k" for w k
    by (simp add: countBridgedMessages_def numbered_rooms_def split: option.splits)
  have wf: "kg_canonical sample_carrier_group \<noteq> []" "[] \<notin> set (kg_members sample_carrier_group)" "distinct (kg_members sample_carrier_group)"
    by (simp_all add: sample_carrier_group_def)
  note merged = carrier_group_merged [OF numbered_rooms_move ok counts wf run, THEN conjunct2, THEN conjunct2, THEN conjunct2, THEN conjunct1]
  have mem: "(''gid:2'', ''alice'') \<in> ?others" by (simp add: sample_carrier_group_def login)
  have room2: "room_of numbered_rooms ?w (''gid:2'', ''alice'') \<noteq> None" using w(2) by (simp add: numbered_room_of)
  have "\<not> (\<forall>k \<in> ?others. room_of numbered_rooms ?w k = None)"
  proof
    assume "\<forall>k \<in> ?others. room_of numbered_rooms ?w k = None"
    then have "room_of numbered_rooms ?w (''gid:2'', ''alice'') = None" by (rule bspec) (rule mem)
    with room2 show False by contradiction
  qed
  moreover have "room_of numbered_rooms ?w (kg_canonical sample_carrier_group, loginID sample_store) = None"
    using w(3) by (simp add: numbered_room_of sample_carrier_group_def login)
  ultimately have "\<exists>b \<in> ?others. room_of numbered_rooms ?w b \<noteq> None \<and>
      room_of numbered_rooms (cs_world st') (kg_canonical sample_carrier_group, loginID sample_store) = room_of numbered_rooms ?w b \<and>
      (\<forall>k \<in> ?others. room_of numbered_rooms ?w k \<noteq> None \<longrightarrow> countBridgedMessages numbered_rooms ?w k \<le> countBridgedMessages numbered_rooms ?w b)"
    using merged by (simp only: if_False simp_thms)
  then obtain b where b: "b \<in> ?others"
    "room_of numbered_rooms (cs_world st') (kg_canonical sample_carrier_group, loginID sample_store) = room_of numbered_rooms ?w b"
    "\<forall>k \<in> ?others. room_of numbered_rooms ?w k \<noteq> None \<longrightarrow> countBridgedMessages numbered_rooms ?w k \<le> countBridgedMessages numbered_rooms ?w b"
    by (elim bexE conjE) (rule that)
  have more: "countBridgedMessages numbered_rooms ?w (''gid:2'', ''alice'') \<le> countBridgedMessages numbered_rooms ?w b"
    using bspec [OF b(3) mem] room2 by (rule mp)
  have "b = (''gid:1'', ''alice'') \<or> b = (''gid:2'', ''alice'')" using b(1) by (auto simp: sample_carrier_group_def login)
  then have "b = (''gid:2'', ''alice'')"
    using w more by (auto simp: countBridgedMessages_def numbered_rooms_def)
  then have "map_option (\<lambda>n. CHR ''!'' # replicate n (CHR ''x'')) (cs_world st' (''a,b'', ''alice'')) = Some (CHR ''!'' # replicate 5 (CHR ''x''))"
    using b(2) w(2) unfolding numbered_room_of by (simp add: sample_carrier_group_def login)
  then have "cs_world st' (''a,b'', ''alice'') = Some 5" by (cases "cs_world st' (''a,b'', ''alice'')") (auto simp only: option.map option.inject list.inject replicate_eq_replicate option.distinct)
  then show ?thesis using run by simp
qed

end
