(* ===== verification/Carrier_Convergence.thy ===== *)
theory Carrier_Convergence
  imports Carrier_Groups
begin

text \<open>
  The startup migration over several startups: what the listing of carrier groups reads, how one merged group
  changes it, and that the plan shrinks to nothing although each startup has a budget of room moves.
\<close>

section \<open>What the listing reads\<close>

definition valid_roster :: "string list json_text \<Rightarrow> string list option" where
  "valid_roster j =
     (case json_unmarshal j of
        Inl _ \<Rightarrow> None
      | Inr raw \<Rightarrow> if normalize_roster raw = [] then None else Some (normalize_roster raw))"

fun first_roster :: "portal_id set \<Rightarrow> (portal_id \<times> string list json_text) list \<Rightarrow> (portal_id \<times> string list) option" where
  "first_roster A [] = None"
| "first_roster A ((p, j) # rest) =
     (if p \<in> A then (case valid_roster j of Some ps \<Rightarrow> Some (p, ps) | None \<Rightarrow> first_roster A rest)
      else first_roster A rest)"

lemma first_roster_mem: "first_roster A rows = Some (p, ps) \<Longrightarrow> p \<in> A"
  by (induction A rows rule: first_roster.induct) (auto split: if_splits option.splits)

lemma first_roster_member: "first_roster A rows = Some (p, ps) \<Longrightarrow> first_roster {p} rows = Some (p, ps)"
proof (induction A rows rule: first_roster.induct)
  case (2 A q j rest)
  then show ?case
    using first_roster_mem [of A rest p ps] by (auto split: if_splits option.splits)
qed simp

lemma first_roster_none: "first_roster A rows = None \<Longrightarrow> B \<subseteq> A \<Longrightarrow> first_roster B rows = None"
  by (induction A rows rule: first_roster.induct) (auto split: if_splits option.splits)

lemma carrier_rows_set:
  "((p, ps) \<in> (\<lambda>x. (cg_portalID x, cg_participants x)) ` set (carrier_rows seen rows)) \<longleftrightarrow>
   p \<notin> set seen \<and> first_roster {p} rows = Some (p, ps)"
proof (induction seen rows rule: carrier_rows.induct)
  case (2 seen q j rest)
  then show ?case by (auto simp: valid_roster_def image_iff split: sum.splits if_splits)
qed simp

lemma first_roster_dedup:
  "\<forall>j. (p, j) \<in> set seen \<longrightarrow> valid_roster j = None \<Longrightarrow> first_roster {p} (dedup_seen seen rows) = first_roster {p} rows"
proof (induction seen rows rule: dedup_seen.induct)
  case (2 seen x rows)
  obtain q j where x: "x = (q, j)" by fastforce
  then show ?case using 2 by (auto split: option.splits)
qed simp

definition listed :: "login_id \<Rightarrow> portal_id \<times> login_id \<times> string \<times> string option \<times> bool \<times> string list json_text option \<Rightarrow> bool" where
  "listed l = (\<lambda>(p, login, _, service, deleted, js). login = l \<and>
     (case service of None \<Rightarrow> False | Some v \<Rightarrow> to_upper (sql_trim v) \<in> set [''SMS'', ''RCS'', ''MMS'']) \<and> \<not> deleted \<and>
     p \<noteq> [] \<and> json_present js \<and> (like_prefix p ''gid:'' \<or> contains p '',''))"

definition rosters :: "cloudBackfillStore \<Rightarrow> cloud_db \<Rightarrow> (portal_id \<times> string list json_text) list" where
  "rosters s db = map (\<lambda>(p, _, _, _, _, js). (p, the js))
     (filter (listed (loginID s)) (map (\<lambda>r. (c_portal_id r, chat_view r)) (cloud_chat db)))"

lemma listing_rosters: "listCarrierGroupChats s db = carrier_rows [] (dedup (rosters s db))"
  unfolding listCarrierGroupChats_def rosters_def chat_rows_def
  by (simp add: filter_map comp_def listed_def chat_view_def split_beta cong: filter_cong)

text \<open>The canonical key of a portal: that of its first valid roster, if it names a group.\<close>

definition roster_key :: "merge_client \<Rightarrow> string \<Rightarrow> string list \<Rightarrow> portal_id option" where
  "roster_key c handle ps =
     (if countNonSelfMembers c ps None < 2 then None
      else Some (join '','' (buildCanonicalParticipantList handle (mc_handles c) ps)))"

definition key_pairs :: "merge_client \<Rightarrow> string \<Rightarrow> cloudBackfillStore \<Rightarrow> cloud_db \<Rightarrow> (portal_id \<times> portal_id) set" where
  "key_pairs c handle s db =
     {(p, k). \<exists>ps. first_roster {p} (rosters s db) = Some (p, ps) \<and> roster_key c handle ps = Some k \<and> p \<noteq> [] \<and> k \<noteq> []}"

lemma entries_pairs: "entry_pairs (consolidation_entries c handle s db) = key_pairs c handle s db"
proof -
  have rows: "(\<exists>x \<in> set (listCarrierGroupChats s db). cg_portalID x = p \<and> cg_participants x = ps) \<longleftrightarrow>
      first_roster {p} (rosters s db) = Some (p, ps)" for p ps
    using carrier_rows_set [of p ps "[]" "dedup (rosters s db)"] first_roster_dedup [of p "[]" "rosters s db"]
    by (auto simp: listing_rosters image_iff)
  have key: "roster_key c handle ps = Some k \<longleftrightarrow> \<not> countNonSelfMembers c ps None < 2 \<and>
      k = join '','' (buildCanonicalParticipantList handle (mc_handles c) ps)" for ps k
    unfolding roster_key_def by auto
  have "(p, k) \<in> entry_pairs (consolidation_entries c handle s db) \<longleftrightarrow>
      (\<exists>x \<in> set (listCarrierGroupChats s db). roster_key c handle (cg_participants x) = Some k \<and> cg_portalID x = p \<and> p \<noteq> [] \<and> k \<noteq> [])"
    for p k
  proof -
    have pairs: "(p, k) \<in> entry_pairs es \<longleftrightarrow> (p, k) \<in> (\<lambda>e. (ce_portalID e, ce_canonical e)) ` set es \<and> p \<noteq> [] \<and> k \<noteq> []" for es
      unfolding entry_pairs_def by auto
    show ?thesis unfolding pairs key consolidation_entries_def set_map image_image by auto
  qed
  then have "(p, k) \<in> entry_pairs (consolidation_entries c handle s db) \<longleftrightarrow>
      (\<exists>ps. (\<exists>x \<in> set (listCarrierGroupChats s db). cg_portalID x = p \<and> cg_participants x = ps) \<and>
        roster_key c handle ps = Some k \<and> p \<noteq> [] \<and> k \<noteq> [])" for p k
    by blast
  then show ?thesis unfolding rows key_pairs_def by auto
qed

lemma join_separator: "length xs \<ge> 2 \<Longrightarrow> c \<in> set (join [c] xs)"
  by (induction "[c]" xs rule: join.induct) auto

lemma canonical_comma:
  assumes "roster_key c handle ps = Some k"
  shows "contains k '',''" "k \<noteq> []"
proof -
  let ?c = "buildCanonicalParticipantList handle (mc_handles c) ps"
  have k: "k = join '','' ?c" "countNonSelfMembers c ps None \<ge> 2"
    using assms by (auto simp: roster_key_def split: if_splits)
  have "countNonSelfMembers c ps None \<le> card (set ?c)"
    using countNonSelfMembers_bound [of c ps None]
    by (rule order_trans) (auto simp: set_buildCanonicalParticipantList intro: card_mono)
  then have "length ?c \<ge> 2" using k(2) List.card_length [of ?c] by linarith
  then show "contains k '',''" by (simp add: k(1) join_separator)
  then show "k \<noteq> []" by auto
qed

section \<open>One group merged\<close>

lemma first_roster_renamed:
  "first_roster {q} (map (\<lambda>(p, j). (renamed ms K p, j)) rows) =
     (if q = K then map_option (\<lambda>x. (K, snd x)) (first_roster (insert K (set ms)) rows)
      else if q \<in> set ms then None else first_roster {q} rows)"
proof (induction rows)
  case (Cons x rows)
  obtain p j where x: "x = (p, j)" by fastforce
  then show ?case using Cons by (auto simp: renamed_def split: option.splits)
qed simp

lemma first_roster_unlisted:
  "\<forall>(p, j) \<in> set rows. p \<noteq> q \<Longrightarrow> first_roster {q} rows = None"
  by (induction rows) auto

text \<open>Merging a group renames its members in the listing, because members and canonical key are both group IDs.\<close>

lemma rosters_group_db:
  assumes "contains (kg_canonical g) '',''" "\<forall>p \<in> set (kg_members g). p \<noteq> [] \<and> (like_prefix p ''gid:'' \<or> contains p '','')"
  shows "rosters s (group_db s clock g db) = map (\<lambda>(p, j). (renamed (kg_members g) (kg_canonical g) p, j)) (rosters s db)"
proof -
  have K: "kg_canonical g \<noteq> []" "[] \<notin> set (kg_members g)" using assms by auto
  define f where "f = (\<lambda>v :: portal_id \<times> login_id \<times> string \<times> string option \<times> bool \<times> string list json_text option.
    (if fst (snd v) = loginID s then renamed (kg_members g) (kg_canonical g) (fst v) else fst v, snd v))"
  have views: "map (\<lambda>r. (c_portal_id r, chat_view r)) (cloud_chat (group_db s clock g db)) =
      map f (map (\<lambda>r. (c_portal_id r, chat_view r)) (cloud_chat db))"
    unfolding group_db_chats [OF K] by (simp add: f_def chat_view_def)
  have same: "listed (loginID s) (f v) = listed (loginID s) v" for v
    using assms K by (auto simp: f_def listed_def renamed_def split_beta)
  have "filter (listed (loginID s)) (map f vs) = map f (filter (listed (loginID s)) vs)" for vs
    by (simp add: filter_map comp_def same)
  moreover have "map (\<lambda>(p, _, _, _, _, js). (p, the js)) (map f (filter (listed (loginID s)) vs)) =
      map (\<lambda>(p, j). (renamed (kg_members g) (kg_canonical g) p, j)) (map (\<lambda>(p, _, _, _, _, js). (p, the js)) (filter (listed (loginID s)) vs))" for vs
    by (auto simp: f_def listed_def split_beta)
  ultimately show ?thesis unfolding rosters_def views by (simp only:)
qed

text \<open>A portal that is to be renamed is not itself the canonical key of another portal.\<close>

definition keys_separate :: "(portal_id \<times> portal_id) set \<Rightarrow> bool" where
  "keys_separate E \<longleftrightarrow> (\<forall>p k q. (p, k) \<in> E \<longrightarrow> p \<noteq> k \<longrightarrow> (q, p) \<notin> E)"

lemma key_pairs_fun: "(p, k) \<in> key_pairs c handle s db \<Longrightarrow> (p, k') \<in> key_pairs c handle s db \<Longrightarrow> k = k'"
  by (auto simp: key_pairs_def)

lemma listed_members:
  assumes "(p, k) \<in> key_pairs c handle s db"
  shows "p \<noteq> [] \<and> (like_prefix p ''gid:'' \<or> contains p '','')"
proof -
  obtain ps where "first_roster {p} (rosters s db) = Some (p, ps)" using assms by (auto simp: key_pairs_def)
  then have "\<exists>j. (p, j) \<in> set (rosters s db)" using first_roster_unlisted [of "rosters s db" p] by fastforce
  then show ?thesis by (auto simp: rosters_def listed_def)
qed

lemma pairs_split:
  assumes "\<And>p k. (p, k) \<in> E' \<longleftrightarrow> (p, k) \<in> E \<and> k \<noteq> K \<or> (p, k) \<in> E' \<and> p = K \<and> k = K"
  shows "\<exists>X \<subseteq> {(K, K)}. E' = {(p, k) \<in> E. k \<noteq> K} \<union> X"
proof (intro exI conjI)
  show "E' = {(p, k) \<in> E. k \<noteq> K} \<union> E' \<inter> {(K, K)}"
    using assms unfolding set_eq_iff split_paired_All by blast
qed blast

lemma group_merged_pairs:
  assumes "keys_separate (key_pairs c handle s db)" "kg_canonical g = K" "set (kg_members g) = {p. (p, K) \<in> key_pairs c handle s db}"
    "kg_members g \<noteq> []"
  obtains X where "X \<subseteq> {(K, K)}"
    "key_pairs c handle s (group_db s clock g db) = {(p, k) \<in> key_pairs c handle s db. k \<noteq> K} \<union> X"
proof -
  let ?E = "key_pairs c handle s db" and ?E' = "key_pairs c handle s (group_db s clock g db)"
  obtain m where m: "(m, K) \<in> ?E" using assms(3,4) by (metis Collect_mem_eq mem_Collect_eq set_empty empty_Collect_eq)
  then have comma: "contains K '',''" using canonical_comma by (auto simp: key_pairs_def)
  have rows: "rosters s (group_db s clock g db) = map (\<lambda>(p, j). (renamed (kg_members g) K p, j)) (rosters s db)"
    using rosters_group_db [of g s clock db] comma assms(2,3) listed_members by auto
  have own: "(K, k) \<in> ?E \<Longrightarrow> k = K" for k using assms(1) m unfolding keys_separate_def by blast
  have at_K: "k = K" if e: "(K, k) \<in> ?E'" for k
  proof -
    obtain p ps where p: "first_roster (insert K (set (kg_members g))) (rosters s db) = Some (p, ps)" "roster_key c handle ps = Some k"
      using e by (auto simp: key_pairs_def rows first_roster_renamed)
    have mem: "p \<in> insert K (set (kg_members g))" using first_roster_mem [OF p(1)] .
    have "p \<noteq> []"
    proof (cases "p = K")
      case True
      then show ?thesis using comma by auto
    next
      case False
      then have "(p, K) \<in> ?E" using mem assms(3) by simp
      then show ?thesis using listed_members by blast
    qed
    then have pk: "(p, k) \<in> ?E"
      unfolding key_pairs_def mem_Collect_eq prod.case using first_roster_member [OF p(1)] p(2) canonical_comma(2) [OF p(2)] by blast
    show "k = K"
    proof (cases "p = K")
      case True
      then show ?thesis using own pk by simp
    next
      case False
      then have "(p, K) \<in> ?E" using mem assms(3) by simp
      then show ?thesis using key_pairs_fun pk by blast
    qed
  qed
  have gone: "(p, k) \<in> ?E' \<longleftrightarrow> (p, k) \<in> ?E \<and> k \<noteq> K" if p: "p \<noteq> K" for p k
  proof (cases "p \<in> set (kg_members g)")
    case True
    then have "first_roster {p} (rosters s (group_db s clock g db)) = None" using p by (simp add: rows first_roster_renamed)
    then have "(p, k) \<notin> ?E'" unfolding key_pairs_def by simp
    moreover have "(p, K) \<in> ?E" using True assms(3) by simp
    ultimately show ?thesis using key_pairs_fun by blast
  next
    case False
    then have "(p, k) \<in> ?E \<longrightarrow> k \<noteq> K" using assms(3) by auto
    moreover have "first_roster {p} (rosters s (group_db s clock g db)) = first_roster {p} (rosters s db)"
      using p False by (simp add: rows first_roster_renamed)
    then have "(p, k) \<in> ?E' \<longleftrightarrow> (p, k) \<in> ?E" unfolding key_pairs_def by simp
    ultimately show ?thesis by blast
  qed
  have split: "(p, k) \<in> ?E' \<longleftrightarrow> (p, k) \<in> ?E \<and> k \<noteq> K \<or> (p, k) \<in> ?E' \<and> p = K \<and> k = K" for p k
  proof (cases "p = K")
    case True
    then show ?thesis using own at_K by blast
  next
    case False
    then show ?thesis using gone by blast
  qed
  obtain X where "X \<subseteq> {(K, K)}" "?E' = {(p, k) \<in> ?E. k \<noteq> K} \<union> X" using pairs_split [OF split] by blast
  then show ?thesis using that by blast
qed

lemma merged_separate:
  assumes "keys_separate E" "(m, K) \<in> E" "X \<subseteq> {(K, K)}"
  shows "keys_separate ({(p, k) \<in> E. k \<noteq> K} \<union> X)"
  using assms unfolding keys_separate_def by blast

lemma merged_plan:
  assumes "finite E" "plan_of_pairs E = g # gs" "kg_canonical g = K" "X \<subseteq> {(K, K)}"
  shows "plan_of_pairs ({(p, k) \<in> E. k \<noteq> K} \<union> X) = gs"
proof -
  let ?E = "{(p, k) \<in> E. k \<noteq> K} \<union> X"
  obtain ks where ks: "sorted_list_of_set (pending_keys E) = K # ks" "gs = map (\<lambda>key. \<lparr>kg_canonical = key, kg_members = sorted_list_of_set {p. (p, key) \<in> E}\<rparr>) ks"
    using assms(2,3) unfolding plan_of_pairs_def by (auto simp: map_eq_Cons_conv)
  have pending: "pending_keys ?E = pending_keys E - {K}" using assms(4) by (auto simp: pending_keys_def)
  have "K \<notin> set ks" using ks(1) by (metis distinct.simps(2) distinct_sorted_list_of_set)
  then have "sorted_list_of_set (pending_keys ?E) = ks"
    unfolding pending using sorted_list_of_set_remove [of "pending_keys E" K] assms(1) ks(1) by simp
  moreover have "{p. (p, key) \<in> ?E} = {p. (p, key) \<in> E}" if "key \<in> set ks" for key
    using that \<open>K \<notin> set ks\<close> assms(4) by auto
  ultimately show ?thesis unfolding plan_of_pairs_def ks(2) by (simp cong: map_cong)
qed

section \<open>A startup, and many\<close>

lemma plan_head:
  assumes "finite E" "plan_of_pairs E = g # gs"
  shows "set (kg_members g) = {p. (p, kg_canonical g) \<in> E}" "kg_members g \<noteq> []"
proof -
  have "g \<in> set (plan_of_pairs E)" using assms(2) by simp
  then obtain key where key: "key \<in> pending_keys E" "g = \<lparr>kg_canonical = key, kg_members = sorted_list_of_set {p. (p, key) \<in> E}\<rparr>"
    using assms(1) by (auto simp: plan_of_pairs_def)
  have "{p. (p, key) \<in> E} \<subseteq> fst ` E" by force
  then have fin: "finite {p. (p, key) \<in> E}" using assms(1) by (meson finite_imageI finite_subset)
  then show "set (kg_members g) = {p. (p, kg_canonical g) \<in> E}" using key(2) by simp
  show "kg_members g \<noteq> []" using key fin by (auto simp: pending_keys_def)
qed

lemma finite_key_pairs [simp]: "finite (key_pairs c handle s db)"
  unfolding entries_pairs [symmetric] by simp

lemma consolidate_groups_progress:
  assumes "keys_separate (key_pairs c handle s (cs_db st))" "plan_of_pairs (key_pairs c handle s (cs_db st)) = gs"
  shows "\<exists>n. fst (consolidate_groups ops s clock gs n0 moves st) = n0 + n \<and> (n0 = 0 \<longrightarrow> gs \<noteq> [] \<longrightarrow> n \<ge> 1) \<and>
    plan_of_pairs (key_pairs c handle s (cs_db (snd (consolidate_groups ops s clock gs n0 moves st)))) = drop n gs \<and>
    keys_separate (key_pairs c handle s (cs_db (snd (consolidate_groups ops s clock gs n0 moves st))))"
  using assms
proof (induction gs arbitrary: n0 moves st)
  case Nil
  then show ?case by simp
next
  case (Cons g gs)
  show ?case
  proof (cases "n0 > 0 \<and> moves \<ge> carrierGroupRoomMoveBudgetPerStartup")
    case True
    then show ?thesis using Cons.prems by (intro exI [of _ 0]) simp
  next
    case False
    obtain m st' where one: "consolidateOneCarrierGroup ops s clock g st = (m, st')" by fastforce
    have step: "consolidate_groups ops s clock (g # gs) n0 moves st = consolidate_groups ops s clock gs (n0 + 1) (moves + m) st'"
      by (simp only: consolidate_groups.simps one Let_def prod.case if_not_P [OF False])
    have db: "cs_db st' = group_db s clock g (cs_db st)" using consolidate_db [of ops s clock g st] one by simp
    let ?E = "key_pairs c handle s (cs_db st)" and ?K = "kg_canonical g"
    note members = plan_head [OF finite_key_pairs Cons.prems(2)]
    obtain X where X: "X \<subseteq> {(?K, ?K)}" "key_pairs c handle s (cs_db st') = {(p, k) \<in> ?E. k \<noteq> ?K} \<union> X"
      unfolding db by (rule group_merged_pairs [OF Cons.prems(1) refl members])
    obtain p where "(p, ?K) \<in> ?E" using members by (cases "kg_members g") auto
    then have "keys_separate (key_pairs c handle s (cs_db st'))" unfolding X(2) using merged_separate Cons.prems(1) X(1) by blast
    moreover have "plan_of_pairs (key_pairs c handle s (cs_db st')) = gs"
      unfolding X(2) by (rule merged_plan [OF finite_key_pairs Cons.prems(2) refl X(1)])
    ultimately obtain n where n: "fst (consolidate_groups ops s clock gs (n0 + 1) (moves + m) st') = n0 + 1 + n"
      "plan_of_pairs (key_pairs c handle s (cs_db (snd (consolidate_groups ops s clock gs (n0 + 1) (moves + m) st')))) = drop n gs"
      "keys_separate (key_pairs c handle s (cs_db (snd (consolidate_groups ops s clock gs (n0 + 1) (moves + m) st'))))"
      using Cons.IH [of st' "n0 + 1" "moves + m"] by blast
    then show ?thesis unfolding step by (intro exI [of _ "n + 1"]) simp
  qed
qed

definition carrier_plan :: "merge_client \<Rightarrow> string \<Rightarrow> cloudBackfillStore \<Rightarrow> cloud_db \<Rightarrow> carrierConsolidationGroup list" where
  "carrier_plan c handle s db = planCarrierGroupConsolidation (consolidation_entries c handle s db)"

lemma carrier_plan_pairs: "carrier_plan c handle s db = plan_of_pairs (key_pairs c handle s db)"
  by (simp add: carrier_plan_def plan_pairs entries_pairs)

definition startup :: "merge_client \<Rightarrow> string \<Rightarrow> cloudBackfillStore \<Rightarrow> ('w, 'e, 'r) room_ops \<times> (portal_id \<Rightarrow> millis)
    \<Rightarrow> 'w consolidation \<Rightarrow> 'w consolidation" where
  "startup c handle s = (\<lambda>(ops, clock) st. snd (consolidateCarrierGroupPortals ops c handle (Some s) clock st))"

section \<open>Properties\<close>

text \<open>C18.
  The consolidation of carrier groups makes progress at every startup and comes to an end. Whatever the framework
  answers to lookups and room moves, each startup takes a group off the plan as long as there is one, although it
  stops when its budget of room moves is used up; so after as many startups as there are split groups nothing is
  left to merge. (No portal that is to be merged may itself be named like the key of another portal.) The plan
  looks at rows only, so a room whose move failed is not tried again.
\<close>

theorem carrier_consolidation_converges:
  assumes "keys_separate (key_pairs c handle s (cs_db st))"
  shows "\<exists>n \<ge> min (length runs) (length (carrier_plan c handle s (cs_db st))).
    carrier_plan c handle s (cs_db (fold (startup c handle s) runs st)) = drop n (carrier_plan c handle s (cs_db st))"
  using assms
proof (induction runs arbitrary: st)
  case Nil
  then show ?case by (intro exI [of _ 0]) simp
next
  case (Cons run runs)
  obtain ops clock where run: "run = (ops, clock)" by fastforce
  let ?plan = "\<lambda>st. carrier_plan c handle s (cs_db st)"
  have "\<exists>n. fst (consolidate_groups ops s clock (?plan st) 0 0 st) = 0 + n \<and> (0 = (0::nat) \<longrightarrow> ?plan st \<noteq> [] \<longrightarrow> n \<ge> 1) \<and>
    plan_of_pairs (key_pairs c handle s (cs_db (snd (consolidate_groups ops s clock (?plan st) 0 0 st)))) = drop n (?plan st) \<and>
    keys_separate (key_pairs c handle s (cs_db (snd (consolidate_groups ops s clock (?plan st) 0 0 st))))"
    by (rule consolidate_groups_progress [OF Cons.prems carrier_plan_pairs [symmetric]])
  moreover have "snd (consolidate_groups ops s clock (?plan st) 0 0 st) = startup c handle s run st"
    by (simp add: startup_def run consolidateCarrierGroupPortals_def carrier_plan_def)
  ultimately obtain n where n: "?plan st \<noteq> [] \<longrightarrow> n \<ge> 1" "?plan (startup c handle s run st) = drop n (?plan st)"
    "keys_separate (key_pairs c handle s (cs_db (startup c handle s run st)))"
    unfolding carrier_plan_pairs by auto
  obtain k where k: "k \<ge> min (length runs) (length (?plan (startup c handle s run st)))"
    "?plan (fold (startup c handle s) runs (startup c handle s run st)) = drop k (?plan (startup c handle s run st))"
    using Cons.IH [OF n(3)] by blast
  show ?case
    by (rule exI [of _ "k + n"]) (use n k in \<open>cases "?plan st"; auto\<close>)
qed

lemma separate_entries:
  "list_all (\<lambda>e. ce_portalID e = ce_canonical e \<or> list_all (\<lambda>e'. ce_canonical e' \<noteq> ce_portalID e) es) es \<Longrightarrow>
   keys_separate (entry_pairs es)"
  unfolding keys_separate_def entry_pairs_def list_all_iff by (auto; metis)

text \<open>Two rooms of one SMS group, whose moves all fail: one startup, and the plan is empty.\<close>

definition split_group_db :: cloud_db where
  "split_group_db = upsertChatBatch sample_store 1
     [(sample_chat ''A'' ''gid:1'' [''mailto:a@x'', ''mailto:b@x''])\<lparr>cu_Service := ''SMS''\<rparr>,
      (sample_chat ''B'' ''gid:2'' [''mailto:b@x'', ''mailto:a@x''])\<lparr>cu_Service := ''SMS''\<rparr>] empty_db"

definition solo_client :: merge_client where
  "solo_client = sample_client\<lparr>mc_contacts := None\<rparr>"

definition broken_rooms :: "(unit, unit, unit) room_ops" where
  "broken_rooms = \<lparr>ro_GetExistingPortalByKey = (\<lambda>_ _. Inr (Some \<lparr>pr_key = ([], []), pr_MXID = ''!r''\<rparr>)), ro_countMessages = (\<lambda>_ _. Inl ()),
     ro_ReIDPortal = (\<lambda>_ _ w. (Inl (), w))\<rparr>"

definition split_state :: "unit consolidation" where
  "split_state = \<lparr>cs_db = split_group_db, cs_caches = sample_group_state, cs_world = ()\<rparr>"

theorem carrier_consolidation_converges_witness:
  "map kg_members (carrier_plan solo_client ''mailto:me@x.y'' sample_store split_group_db) = [[''gid:1'', ''gid:2'']] \<and>
   carrier_plan solo_client ''mailto:me@x.y'' sample_store
     (cs_db (startup solo_client ''mailto:me@x.y'' sample_store (broken_rooms, \<lambda>_. 9) split_state)) = []"
proof -
  let ?plan = "carrier_plan solo_client ''mailto:me@x.y'' sample_store"
  have plan: "map kg_members (?plan split_group_db) = [[''gid:1'', ''gid:2'']]" by code_simp
  then have one: "length (?plan (cs_db split_state)) = 1" unfolding split_state_def consolidation.simps by (metis length_map length_Cons list.size(3) One_nat_def)
  have "list_all (\<lambda>e. ce_portalID e = ce_canonical e \<or>
      list_all (\<lambda>e'. ce_canonical e' \<noteq> ce_portalID e) (consolidation_entries solo_client ''mailto:me@x.y'' sample_store split_group_db))
    (consolidation_entries solo_client ''mailto:me@x.y'' sample_store split_group_db)" by code_simp
  then have "keys_separate (key_pairs solo_client ''mailto:me@x.y'' sample_store (cs_db split_state))"
    unfolding entries_pairs [symmetric] split_state_def consolidation.simps by (rule separate_entries)
  from carrier_consolidation_converges [OF this, of "[(broken_rooms, \<lambda>_. 9)]"]
  obtain n where n: "n \<ge> min (length [(broken_rooms, \<lambda>_ :: portal_id. 9 :: millis)]) (length (?plan (cs_db split_state)))"
    "?plan (cs_db (fold (startup solo_client ''mailto:me@x.y'' sample_store) [(broken_rooms, \<lambda>_. 9)] split_state)) = drop n (?plan (cs_db split_state))"
    by (elim exE conjE) (rule that)
  have "?plan (cs_db (startup solo_client ''mailto:me@x.y'' sample_store (broken_rooms, \<lambda>_. 9) split_state)) = []"
    using n one by simp
  then show ?thesis using plan by (rule conjI [rotated])
qed

end
