(* ===== verification/Chat_Ingest.thy ===== *)
theory Chat_Ingest
  imports Group_Stability Cloud_Pager
begin

text \<open>
  Ingestion of a page of CloudKit chats (\<^verbatim>\<open>sync_controller.go\<close>): the portal a chat belongs to, the rows of the
  page, the tombstones it clears and those it sets, and the pager of the chat zone. What is started in the
  background, and the events queued for the framework, are effects.
\<close>

record sync_chat =
  sc_RecordName :: string
  sc_CloudChatId :: string
  sc_GroupId :: string
  sc_Style :: int
  sc_Service :: string
  sc_DisplayName :: "string option"
  sc_Participants :: "string list"
  sc_Deleted :: bool
  sc_UpdatedTimestampMs :: nat
  sc_GroupPhotoGuid :: "string option"
  sc_IsFiltered :: int

section \<open>The portal of a chat\<close>

definition cloud_dm_portal :: "'e group_env \<Rightarrow> string \<Rightarrow> portal_id" where
  "cloud_dm_portal c handle =
     (let resolved = resolveContactPortalID (ge_merge c) (ge_bridge c) handle;
          resolved' = (if resolved = handle then canonicalContactHandle (ge_merge c) handle else resolved)
      in resolveExistingDMPortalID (ge_merge c) (ge_bridge c) resolved')"

definition resolvePortalIDForCloudChat :: "'e group_env \<Rightarrow> string list \<Rightarrow> string option \<Rightarrow> string \<Rightarrow> int \<Rightarrow> string \<Rightarrow> group_state
    \<Rightarrow> portal_id \<times> group_state \<times> group_effect list" where
  "resolvePortalIDForCloudChat c participants displayName groupID style service st =
     (let normalizedParticipants = normalized_members participants;
          isGroup = (style = 43);
          remoteParticipants = filter (\<lambda>p. \<not> ge_self c p) normalizedParticipants
      in if normalizedParticipants = [] then ([], st, [])
         else if isGroup \<and> isCarrierService service \<and> countNonSelfMembers (ge_merge c) participants None \<ge> 2 then
           (join '','' (canonical_members c participants), st, [])
         else if isGroup \<and> groupID \<noteq> [] then (''gid:'' @ to_lower groupID, st, [])
         else if length remoteParticipants = 1 then (cloud_dm_portal c (hd remoteParticipants), st, [])
         else if remoteParticipants = [] \<and> normalizedParticipants \<noteq> [] then (hd normalizedParticipants, st, [])
         else
           let (key, st', effects) = makePortalKey c normalizedParticipants displayName None
                 (if isGroup \<and> groupID \<noteq> [] then Some groupID else None) (isCarrierService service) st
           in (fst key, st', effects))"

section \<open>A page of chats\<close>

definition zero_counts :: cloudSyncCounters where
  "zero_counts = \<lparr>Imported = 0, Updated = 0, Skipped = 0, Deleted = 0, Filtered = 0\<rparr>"

record deletedPortalEntry =
  de_deletedAt :: millis
  de_isTombstone :: bool

record chat_page =
  cp_counts :: cloudSyncCounters
  cp_deletedRecordNames :: "string list"
  cp_photoPortalIDs :: "portal_id list"
  cp_batch :: "cloudChatUpsertRow list"
  cp_caches :: group_state
  cp_effects :: "group_effect list"

definition chat_row :: "portal_id \<Rightarrow> sync_chat \<Rightarrow> cloudChatUpsertRow" where
  "chat_row portalID chat =
     \<lparr>cu_CloudChatID = sc_CloudChatId chat, cu_RecordName = sc_RecordName chat, cu_GroupID = sc_GroupId chat,
      cu_PortalID = portalID, cu_Service = sc_Service chat, cu_DisplayName = sc_DisplayName chat,
      cu_GroupPhotoGuid = sc_GroupPhotoGuid chat, cu_ParticipantsJSON = json_marshal (Some (sc_Participants chat)),
      cu_UpdatedTS = wrap64 (int (sc_UpdatedTimestampMs chat)), cu_IsFiltered = sc_IsFiltered chat\<rparr>"

definition service_route :: "portal_id \<Rightarrow> string \<Rightarrow> sms_routes \<Rightarrow> sms_routes" where
  "service_route portalID service st =
     (if isCarrierService service then snd (updatePortalSMS st portalID True)
      else if to_lower service = ''imessage'' then snd (updatePortalSMS st portalID False)
      else st)"

definition ingest_chat :: "'e group_env \<Rightarrow> string set \<Rightarrow> sync_chat \<Rightarrow> chat_page \<Rightarrow> chat_page" where
  "ingest_chat c existing chat p =
     (if sc_Deleted chat then
        p\<lparr>cp_counts := (cp_counts p)\<lparr>Deleted := Deleted (cp_counts p) + 1\<rparr>,
          cp_deletedRecordNames := cp_deletedRecordNames p @ [sc_RecordName chat]\<rparr>
      else
        let (portalID, caches, effects) = resolvePortalIDForCloudChat c (sc_Participants chat) (sc_DisplayName chat)
              (sc_GroupId chat) (sc_Style chat) (sc_Service chat) (cp_caches p);
            p1 = p\<lparr>cp_caches := caches, cp_effects := cp_effects p @ effects\<rparr>
        in if portalID = [] then p1\<lparr>cp_counts := (cp_counts p)\<lparr>Skipped := Skipped (cp_counts p) + 1\<rparr>\<rparr>
           else
             p1\<lparr>cp_caches := caches\<lparr>smsRoutes := service_route portalID (sc_Service chat) (smsRoutes caches)\<rparr>,
                cp_photoPortalIDs := cp_photoPortalIDs p @
                  (case sc_GroupPhotoGuid chat of None \<Rightarrow> [] | Some g \<Rightarrow> if g \<noteq> [] then [portalID] else []),
                cp_batch := cp_batch p @ [chat_row portalID chat],
                cp_counts :=
                  (if sc_IsFiltered chat \<noteq> 0 then (cp_counts p)\<lparr>Filtered := Filtered (cp_counts p) + 1\<rparr>
                   else if sc_CloudChatId chat \<in> existing then (cp_counts p)\<lparr>Updated := Updated (cp_counts p) + 1\<rparr>
                   else (cp_counts p)\<lparr>Imported := Imported (cp_counts p) + 1\<rparr>)\<rparr>)"

text \<open>The state an ingest changes, and the readings of the clock at its store calls.\<close>

record chat_state =
  ch_db :: cloud_db
  ch_caches :: group_state
  recentlyDeletedPortals :: "portal_id \<rightharpoonup> deletedPortalEntry"

record chat_clock =
  ck_upsert :: millis
  ck_undelete :: "portal_id \<Rightarrow> millis"
  ck_slice :: "nat \<Rightarrow> millis"
  ck_delete :: "portal_id \<Rightarrow> millis"

datatype chat_effect =
    Group group_effect
  | WarmPhotos "portal_id list"
  | ChatDelete portal_key string

text \<open>The tombstones the rows of the page clear.\<close>

fun clear_tombstones :: "cloudChatUpsertRow list \<Rightarrow> (portal_id \<rightharpoonup> deletedPortalEntry) \<Rightarrow> portal_id list \<times> (portal_id \<rightharpoonup> deletedPortalEntry)" where
  "clear_tombstones [] deleted = ([], deleted)"
| "clear_tombstones (row # rows) deleted =
     (case deleted (cu_PortalID row) of
        Some entry \<Rightarrow>
          if de_isTombstone entry then
            let (cleared, deleted') = clear_tombstones rows (deleted(cu_PortalID row := None))
            in (cu_PortalID row # cleared, deleted')
          else clear_tombstones rows deleted
      | None \<Rightarrow> clear_tombstones rows deleted)"

text \<open>The portals of the deleted records, in the order Go ranges over the map.\<close>

definition tombstoned_portals :: "'e group_env \<Rightarrow> string list \<Rightarrow> (string \<rightharpoonup> portal_id) \<Rightarrow> (string \<times> portal_id) list" where
  "tombstoned_portals c names portalMap =
     in_range_order c (non_null (map (\<lambda>n. map_option (Pair n) (portalMap n)) (dedup names)))"

definition ingestCloudChats :: "'e group_env \<Rightarrow> cloudBackfillStore \<Rightarrow> chat_clock \<Rightarrow> sync_chat list \<Rightarrow> chat_state
    \<Rightarrow> cloudSyncCounters \<times> chat_state \<times> chat_effect list" where
  "ingestCloudChats c0 s clock chats st =
     (let c = c0\<lparr>ge_store := Some (s, ch_db st)\<rparr>;
          existing = hasChatBatch s (map sc_CloudChatId (filter (\<lambda>chat. \<not> sc_Deleted chat) chats)) (ch_db st);
          p = fold (ingest_chat c existing) chats
                \<lparr>cp_counts = zero_counts, cp_deletedRecordNames = [], cp_photoPortalIDs = [], cp_batch = [],
                 cp_caches = ch_caches st, cp_effects = []\<rparr>;
          db1 = upsertChatBatch s (ck_upsert clock) (cp_batch p) (ch_db st);
          (cleared, deleted1) = clear_tombstones (cp_batch p) (recentlyDeletedPortals st);
          db2 = fold (\<lambda>portalID. undeleteCloudChatByPortalID s (ck_undelete clock portalID) portalID) cleared db1;
          names = cp_deletedRecordNames p;
          portalMap = lookupPortalIDsByRecordNames s names db2;
          gone = (if names = [] then [] else tombstoned_portals c names portalMap);
          db3 = (if names = [] then db2 else deleteChatsByRecordNames s (ck_slice clock) names db2);
          db4 = fold (\<lambda>(_, portalID). deleteLocalChatByPortalID s (ck_delete clock portalID) portalID) gone db3;
          deleted2 = fold (\<lambda>(_, portalID) d. d(portalID \<mapsto> \<lparr>de_deletedAt = ck_delete clock portalID, de_isTombstone = True\<rparr>)) gone deleted1
      in (cp_counts p,
          \<lparr>ch_db = db4, ch_caches = cp_caches p, recentlyDeletedPortals = deleted2\<rparr>,
          map Group (cp_effects p) @
          (if cp_photoPortalIDs p = [] then [] else [WarmPhotos (cp_photoPortalIDs p)]) @
          concat (map (\<lambda>(name, portalID). if has_room c portalID then [ChatDelete (portalID, ge_login c) name] else []) gone)))"

section \<open>The pager of the chat zone\<close>

record sync_chats_page =
  ch_ContinuationToken :: "string option"
  ch_Done :: bool
  ch_Chats :: "sync_chat list"

type_synonym chat_server = "nat \<Rightarrow> string option \<Rightarrow> string + sync_chats_page"

definition take_chats :: "'e group_env \<Rightarrow> cloudBackfillStore \<Rightarrow> (nat \<Rightarrow> chat_clock) \<Rightarrow> nat \<Rightarrow> sync_chats_page
    \<Rightarrow> cloudSyncCounters \<times> chat_state \<times> chat_effect list \<Rightarrow> cloudSyncCounters \<times> chat_state \<times> chat_effect list" where
  "take_chats c s clock page resp acc =
     (let (counts, st, effects) = acc;
          (ingestCounts, st', effects') = ingestCloudChats c s (clock page) (ch_Chats resp) st;
          token' = ch_ContinuationToken resp
      in (counters_add counts ingestCounts,
          if token' \<noteq> None then st'\<lparr>ch_db := setSyncStateSuccess s (ck_upsert (clock page)) ''chatManateeZone'' token' (ch_db st')\<rparr> else st',
          effects @ effects'))"

fun chat_pages :: "chat_server \<Rightarrow> 'e group_env \<Rightarrow> cloudBackfillStore \<Rightarrow> (nat \<Rightarrow> chat_clock) \<Rightarrow> nat \<Rightarrow> nat \<Rightarrow> nat \<Rightarrow> string option
    \<Rightarrow> cloudSyncCounters \<times> chat_state \<times> chat_effect list \<Rightarrow> string option \<times> cloudSyncCounters \<times> chat_state \<times> chat_effect list" where
  "chat_pages server c s clock 0 page errs token acc = (token, acc)"
| "chat_pages server c s clock (Suc left) page errs token acc =
     (case server page token of
        Inl e \<Rightarrow>
          if errs + 1 \<ge> 3 then (token, acc)
          else chat_pages server c s clock left (page + 1) (errs + 1) token acc
      | Inr resp \<Rightarrow>
          let acc' = take_chats c s clock page resp acc;
              token' = ch_ContinuationToken resp
          in if ch_Done resp \<or> (page > 0 \<and> ptrStringOr token [] = ptrStringOr token' []) then (token', acc')
             else chat_pages server c s clock left (page + 1) 0 token' acc')"

definition syncCloudChats :: "chat_server \<Rightarrow> 'e group_env \<Rightarrow> cloudBackfillStore \<Rightarrow> (nat \<Rightarrow> chat_clock) \<Rightarrow> chat_state
    \<Rightarrow> string option \<times> cloudSyncCounters \<times> chat_state \<times> chat_effect list" where
  "syncCloudChats server c s clock st =
     chat_pages server c s clock maxCloudSyncPages 0 0 (getSyncState s ''chatManateeZone'' (ch_db st))
       (zero_counts, st, [])"

section \<open>Deleting is marking\<close>

text \<open>What the deletions of a page do to the tables: rows keep their identity and are only ever marked as deleted.\<close>

definition chat_identity :: "cloud_chat_row \<Rightarrow> login_id \<times> string \<times> string \<times> portal_id" where
  "chat_identity r = (c_login_id r, c_cloud_chat_id r, c_record_name r, c_portal_id r)"

definition marked :: "('r \<Rightarrow> 'i) \<Rightarrow> ('r \<Rightarrow> bool) \<Rightarrow> 'r list \<Rightarrow> 'r list \<Rightarrow> bool" where
  "marked ident del rs rs' \<longleftrightarrow> (\<exists>f. rs' = map f rs \<and> (\<forall>r. ident (f r) = ident r \<and> (del r \<longrightarrow> del (f r))))"

lemma marked_refl: "marked ident del rs rs"
  unfolding marked_def by (rule exI [of _ id]) simp

lemma marked_trans: "marked ident del a b \<Longrightarrow> marked ident del b d \<Longrightarrow> marked ident del a d"
proof -
  assume "marked ident del a b" "marked ident del b d"
  then obtain f g where "b = map f a" "d = map g b" "\<And>r. ident (f r) = ident r \<and> (del r \<longrightarrow> del (f r))"
    "\<And>r. ident (g r) = ident r \<and> (del r \<longrightarrow> del (g r))"
    unfolding marked_def by metis
  then show ?thesis unfolding marked_def by (intro exI [of _ "g \<circ> f"]) simp
qed

lemma marked_update:
  assumes "\<And>r. ident (f r) = ident r" "\<And>r. del (f r)"
  shows "marked ident del rs (update_where p f rs)"
  unfolding marked_def update_where_def by (rule exI [of _ "\<lambda>r. if p r then f r else r"]) (simp add: assms)

lemma marked_fold: "(\<And>x rs. marked ident del rs (f x rs)) \<Longrightarrow> marked ident del rs (fold f xs rs)"
  by (induction xs arbitrary: rs) (auto intro: marked_refl marked_trans)

lemma marked_row: "marked ident del rs rs' \<Longrightarrow> r \<in> set rs \<Longrightarrow> \<exists>r' \<in> set rs'. ident r' = ident r \<and> (del r \<longrightarrow> del r')"
  unfolding marked_def by auto

lemma marked_row_back: "marked ident del rs rs' \<Longrightarrow> r' \<in> set rs' \<Longrightarrow> \<exists>r \<in> set rs. ident r' = ident r \<and> (del r \<longrightarrow> del r')"
  unfolding marked_def by (elim exE conjE, simp) blast

abbreviation message_place :: "cloud_message_row \<Rightarrow> login_id \<times> portal_id option" where
  "message_place r \<equiv> (m_login_id r, m_portal_id r)"

definition marks_deleted :: "cloud_db \<Rightarrow> cloud_db \<Rightarrow> bool" where
  "marks_deleted db db' \<longleftrightarrow> marked chat_identity c_deleted (cloud_chat db) (cloud_chat db') \<and>
     marked message_place m_deleted (cloud_message db) (cloud_message db')"

lemma marks_deleted_refl: "marks_deleted db db"
  by (simp add: marks_deleted_def marked_refl)

lemma marks_deleted_trans: "marks_deleted a b \<Longrightarrow> marks_deleted b d \<Longrightarrow> marks_deleted a d"
  unfolding marks_deleted_def by (blast intro: marked_trans)

lemma marks_deleted_fold: "(\<And>x db. marks_deleted db (f x db)) \<Longrightarrow> marks_deleted db (fold f xs db)"
  by (induction xs arbitrary: db) (auto intro: marks_deleted_refl marks_deleted_trans)

lemma marks_deleted_portal: "marks_deleted db (deleteLocalChatByPortalID s now pid db)"
  unfolding marks_deleted_def deleteLocalChat_rows
  by (simp, intro conjI marked_update) (simp_all add: chat_identity_def chat_deleted_at_def message_deleted_at_def scrub_body_def)

lemma marks_deleted_records: "marks_deleted db (deleteChatsByRecordNames s clock names db)"
  unfolding marks_deleted_def deleteChatsByRecordNames_def
  by (auto intro!: marked_refl marked_fold marked_update simp: chat_identity_def)

definition portal_gone :: "cloudBackfillStore \<Rightarrow> portal_id \<Rightarrow> cloud_db \<Rightarrow> bool" where
  "portal_gone s P db \<longleftrightarrow>
     (\<forall>r \<in> set (cloud_chat db). c_login_id r = loginID s \<longrightarrow> c_portal_id r = P \<longrightarrow> c_deleted r) \<and>
     (\<forall>r \<in> set (cloud_message db). m_login_id r = loginID s \<longrightarrow> m_portal_id r = Some P \<longrightarrow> m_deleted r)"

lemma portal_gone_marks:
  assumes "portal_gone s P db" "marks_deleted db db'"
  shows "portal_gone s P db'"
  unfolding portal_gone_def
proof (intro conjI ballI impI)
  fix r assume "r \<in> set (cloud_chat db')" and own: "c_login_id r = loginID s" "c_portal_id r = P"
  then obtain r0 where "r0 \<in> set (cloud_chat db)" "chat_identity r = chat_identity r0" "c_deleted r0 \<longrightarrow> c_deleted r"
    using assms(2) marked_row_back [of chat_identity c_deleted] unfolding marks_deleted_def by blast
  then show "c_deleted r" using assms(1) own by (simp add: portal_gone_def chat_identity_def)
next
  fix r assume "r \<in> set (cloud_message db')" and own: "m_login_id r = loginID s" "m_portal_id r = Some P"
  then obtain r0 where "r0 \<in> set (cloud_message db)" "message_place r = message_place r0" "m_deleted r0 \<longrightarrow> m_deleted r"
    using assms(2) marked_row_back [of message_place m_deleted] unfolding marks_deleted_def by blast
  then show "m_deleted r" using assms(1) own by (simp add: portal_gone_def)
qed

lemma portal_gone_delete: "portal_gone s P (deleteLocalChatByPortalID s now P db)"
proof -
  have "P \<in> set (delete_portals s P db)" "\<And>r. c_portal_id r = P \<Longrightarrow> delete_chat P r"
    by (auto simp: delete_portals_def delete_chat_def split: option.splits)
  then show ?thesis
    unfolding portal_gone_def deleteLocalChat_rows update_where_def
    by (auto simp: chat_deleted_at_def message_deleted_at_def scrub_body_def split: if_splits)
qed

lemma gone_fold:
  assumes "(n, P) \<in> set gone"
  shows "portal_gone s P (fold (\<lambda>(_, portalID). deleteLocalChatByPortalID s (clock portalID) portalID) gone db)"
  using assms
proof (induction gone arbitrary: db)
  case (Cons x gone)
  obtain k Q where x: "x = (k, Q)" by fastforce
  have "marks_deleted db' (fold (\<lambda>(_, portalID). deleteLocalChatByPortalID s (clock portalID) portalID) gone db')" for db'
    by (rule marks_deleted_fold) (auto intro: marks_deleted_portal)
  then have first: "portal_gone s Q (fold (\<lambda>(_, portalID). deleteLocalChatByPortalID s (clock portalID) portalID) gone
      (deleteLocalChatByPortalID s (clock Q) Q db))" by (rule portal_gone_marks [OF portal_gone_delete])
  show ?case
  proof (cases "x = (n, P)")
    case True
    then show ?thesis using first x by simp
  next
    case False
    then have "(n, P) \<in> set gone" using Cons.prems by simp
    then show ?thesis using Cons.IH by (simp add: x)
  qed
qed simp

section \<open>What a page does\<close>

lemma ingest_chat_page:
  "counted (cp_counts (fold (ingest_chat c existing) chats p)) = counted (cp_counts p) + length chats \<and>
   cp_deletedRecordNames (fold (ingest_chat c existing) chats p) =
     cp_deletedRecordNames p @ map sc_RecordName (filter sc_Deleted chats)"
proof (induction chats arbitrary: p)
  case (Cons chat chats)
  have step: "counted (cp_counts (ingest_chat c existing chat p)) = counted (cp_counts p) + 1"
    "cp_deletedRecordNames (ingest_chat c existing chat p) =
       cp_deletedRecordNames p @ (if sc_Deleted chat then [sc_RecordName chat] else [])"
    by (auto simp: ingest_chat_def Let_def counted_def split: prod.splits)
  then show ?case using Cons [of "ingest_chat c existing chat p"] by simp
qed simp

lemma cleared_tombstones:
  "P \<in> set (fst (clear_tombstones rows deleted)) \<Longrightarrow>
   P \<in> cu_PortalID ` set rows \<and> (\<exists>e. deleted P = Some e \<and> de_isTombstone e)"
proof (induction rows deleted rule: clear_tombstones.induct)
  case (2 row rows deleted)
  then show ?case
    by (auto simp del: fun_upd_apply split: option.splits if_splits prod.splits) (auto split: if_splits)
qed simp

text \<open>An entry that is no tombstone outlives the page, or is overwritten by one.\<close>

lemma kept_entries: "deleted P = Some e \<Longrightarrow> \<not> de_isTombstone e \<Longrightarrow> snd (clear_tombstones rows deleted) P = Some e"
proof (induction rows deleted rule: clear_tombstones.induct)
  case (2 row rows deleted)
  then show ?case
    by (cases "P = cu_PortalID row") (auto simp del: fun_upd_apply simp: fun_upd_other split: option.splits prod.splits)
qed simp

lemma undelete_identity:
  "marked chat_identity (\<lambda>_. True) (cloud_chat db) (cloud_chat (fold (\<lambda>P. undeleteCloudChatByPortalID s (clock P) P) Ps db))"
proof (induction Ps arbitrary: db)
  case (Cons P Ps)
  have "marked chat_identity (\<lambda>_. True) (cloud_chat db) (cloud_chat (undeleteCloudChatByPortalID s (clock P) P db))"
    unfolding undeleteCloudChatByPortalID_def by (simp, rule marked_update) (simp_all add: chat_identity_def)
  then show ?case using Cons by (auto intro: marked_trans)
qed (simp add: marked_refl)

lemma undelete_keeps:
  assumes "r \<in> set (cloud_chat db)" "c_deleted r"
  shows "\<exists>r' \<in> set (cloud_chat (fold (\<lambda>P. undeleteCloudChatByPortalID s (clock P) P) Ps db)).
    chat_identity r' = chat_identity r \<and> (c_deleted r' \<or> c_portal_id r' \<in> set Ps)"
proof (cases "c_portal_id r \<in> set Ps")
  case True
  obtain r' where "r' \<in> set (cloud_chat (fold (\<lambda>P. undeleteCloudChatByPortalID s (clock P) P) Ps db))"
    "chat_identity r' = chat_identity r"
    using marked_row [OF undelete_identity assms(1)] by blast
  then show ?thesis using True by (intro bexI [of _ r']) (auto simp: chat_identity_def)
next
  case False
  have "r \<in> set (cloud_chat (fold (\<lambda>P. undeleteCloudChatByPortalID s (clock P) P) Ps db))"
    using assms(1) False
  proof (induction Ps arbitrary: db)
    case (Cons P Ps)
    have "r \<in> set (cloud_chat (undeleteCloudChatByPortalID s (clock P) P db))"
      using Cons.prems by (auto simp: undeleteCloudChatByPortalID_def in_update_where)
    then show ?case using Cons by simp
  qed simp
  then show ?thesis using assms(2) by blast
qed

lemma lookup_records:
  assumes "r \<in> set (cloud_chat db)" "c_login_id r = loginID s" "c_record_name r \<in> set names"
    "\<And>r'. r' \<in> set (cloud_chat db) \<Longrightarrow> c_login_id r' = loginID s \<Longrightarrow> c_record_name r' = c_record_name r \<Longrightarrow> c_portal_id r' = P"
  shows "lookupPortalIDsByRecordNames s names db (c_record_name r) = Some P"
proof -
  let ?n = "c_record_name r"
  have one: "fold (\<lambda>r result. result(c_record_name r \<mapsto> c_portal_id r)) rs m ?n =
      (if \<exists>x \<in> set rs. c_record_name x = ?n then Some P else m ?n)"
    if "\<forall>x \<in> set rs. c_record_name x = ?n \<longrightarrow> c_portal_id x = P" for rs :: "cloud_chat_row list" and m
    using that by (induction rs arbitrary: m) auto
  define F where "F = (\<lambda>chunk result. fold (\<lambda>r result. result(c_record_name r \<mapsto> c_portal_id r))
        (filter (\<lambda>r. c_login_id r = loginID s \<and> c_record_name r \<in> set chunk) (cloud_chat db)) result)"
  have F: "F chunk m ?n = (if ?n \<in> set chunk then Some P else m ?n)" for chunk m
    unfolding F_def by (subst one) (use assms in auto)
  have all: "fold F chunks m ?n = (if \<exists>chunk \<in> set chunks. ?n \<in> set chunk then Some P else m ?n)" for chunks m
    by (induction chunks arbitrary: m) (simp_all add: F)
  have "\<exists>chunk \<in> set (chunks 500 names). ?n \<in> set chunk"
    using assms(3) concat_chunks [of 500 names] by (metis UN_iff set_concat zero_less_numeral)
  then show ?thesis unfolding lookupPortalIDsByRecordNames_def F_def [symmetric] all by simp
qed

lemma record_portal:
  assumes "n \<in> set ns" "m n = Some v"
  shows "map_of (non_null (map (\<lambda>n. map_option (Pair n) (m n)) ns)) n = Some v"
  using assms by (induction ns) (auto simp: non_null_def split: option.splits)

lemma gone_entries:
  "(n, P) \<in> set gone \<Longrightarrow>
   fold (\<lambda>(_, portalID) d. d(portalID \<mapsto> \<lparr>de_deletedAt = clock portalID, de_isTombstone = True\<rparr>)) gone deleted P =
     Some \<lparr>de_deletedAt = clock P, de_isTombstone = True\<rparr>"
  "deleted P \<noteq> None \<Longrightarrow>
   fold (\<lambda>(_, portalID) d. d(portalID \<mapsto> \<lparr>de_deletedAt = clock portalID, de_isTombstone = True\<rparr>)) gone deleted P \<noteq> None"
proof -
  have "fold (\<lambda>(_, portalID) d. d(portalID \<mapsto> \<lparr>de_deletedAt = clock portalID, de_isTombstone = True\<rparr>)) gone deleted P =
      (if P \<in> snd ` set gone then Some \<lparr>de_deletedAt = clock P, de_isTombstone = True\<rparr> else deleted P)"
    by (induction gone arbitrary: deleted) (auto split: prod.splits)
  note this [simp]
  show "(n, P) \<in> set gone \<Longrightarrow>
   fold (\<lambda>(_, portalID) d. d(portalID \<mapsto> \<lparr>de_deletedAt = clock portalID, de_isTombstone = True\<rparr>)) gone deleted P =
     Some \<lparr>de_deletedAt = clock P, de_isTombstone = True\<rparr>" by force
  show "deleted P \<noteq> None \<Longrightarrow>
   fold (\<lambda>(_, portalID) d. d(portalID \<mapsto> \<lparr>de_deletedAt = clock portalID, de_isTombstone = True\<rparr>)) gone deleted P \<noteq> None" by simp
qed

lemma has_room_store [simp]: "has_room (c\<lparr>ge_store := x\<rparr>) P = has_room c P"
  by (simp add: has_room_def)

lemma any_order_store [simp]: "any_order (c\<lparr>ge_store := x\<rparr>) = any_order c"
  by (simp add: any_order_def)

section \<open>Properties\<close>

text \<open>C21.
  Backfill and live traffic agree on the room of a carrier group. A CloudKit chat of the group is keyed by its
  canonical members, whatever its group GUID is. A live message of the group, whatever its GUID, sender and
  spelling of the members, goes to that portal once it has a room, and otherwise to that portal or to an existing
  room of the same people.
\<close>

theorem carrier_keys_converge:
  assumes "isCarrierService service" "countNonSelfMembers (ge_merge c) ps None \<ge> 2" "indexes st S" "any_order c"
    "canonical_members c ps' = canonical_members c ps" "\<forall>m \<in> set (canonical_members c ps). CHR '','' \<notin> set m"
    "is_group_message c ps' name sender"
    "resolvePortalIDForCloudChat c ps displayName groupID 43 service st0 = (K, st1, effects)"
    "makePortalKey c ps' name sender guid True st = (key, st2, effects')"
  shows "K = join '','' (canonical_members c ps) \<and> st1 = st0 \<and>
    (has_room c K \<longrightarrow> fst key = K) \<and>
    (fst key = K \<or> has_room c (fst key) \<and> same_people c (canonical_members c ps) (members_of (fst key)))"
proof -
  let ?K = "join '','' (canonical_members c ps)"
  have "normalized_members ps \<noteq> []"
  proof
    assume "normalized_members ps = []"
    then have none: "{x \<in> normalizeIdentifierForPortalID ` set ps. x \<noteq> [] \<and> \<not> isMyHandle (mc_handles (ge_merge c)) x} = {}"
      by (auto simp: normalized_members_def filter_empty_conv)
    have "countNonSelfMembers (ge_merge c) ps None \<le>
        card {x \<in> normalizeIdentifierForPortalID ` set ps. x \<noteq> [] \<and> \<not> isMyHandle (mc_handles (ge_merge c)) x}"
      using countNonSelfMembers_bound [of "ge_merge c" ps None] by simp
    then show False using assms(2) unfolding none by simp
  qed
  then have K: "K = ?K" "st1 = st0" using assms(1,2,8) by (simp_all add: resolvePortalIDForCloudChat_def Let_def)
  obtain r st' where r: "resolveExistingGroupPortalID c ?K None st = (r, st')" by fastforce
  have key: "fst key = r"
    using assms(5,7,9) r by (simp add: makePortalKey_def group_portal_def Let_def split: option.splits prod.splits) auto
  have members: "members_of ?K = canonical_members c ps"
    by (rule split_on_join [OF _ assms(6)])
      (use set_buildCanonicalParticipantList [of "ge_handle c" "mc_handles (ge_merge c)" ps] in \<open>auto simp del: set_append\<close>)
  have "has_room c ?K \<longrightarrow> r = ?K" using r by (auto simp: resolveExistingGroupPortalID_def Let_def)
  moreover have "r \<noteq> ?K \<longrightarrow> has_room c r \<and> same_people c (canonical_members c ps) (members_of r)"
    using member_group_other [OF assms(3,4) _ r] unfolding members using buildCanonicalParticipantList_normal(2) by blast
  ultimately show ?thesis unfolding K key by blast
qed

theorem carrier_keys_converge_witness:
  "fst (resolvePortalIDForCloudChat sample_group_env [''+1'', ''+2''] None ''G'' 43 ''SMS'' sample_group_state) = ''mailto:me@x.y,tel:+1,tel:+2'' \<and>
   fst (makePortalKey sample_group_env [''+2'', ''+1'', ''ME@x.y''] None (Some ''+1'') (Some ''H'') True sample_group_state) =
     (''mailto:me@x.y,tel:+1,tel:+2'', ''me'')"
proof -
  let ?c = sample_group_env
  obtain K st1 e where b: "resolvePortalIDForCloudChat ?c [''+1'', ''+2''] None ''G'' 43 ''SMS'' sample_group_state = (K, st1, e)"
    by (metis prod.exhaust)
  obtain key st2 e' where l: "makePortalKey ?c [''+2'', ''+1'', ''ME@x.y''] None (Some ''+1'') (Some ''H'') True sample_group_state = (key, st2, e')"
    by (metis prod.exhaust)
  have any: "any_order ?c" by (simp add: any_order_def sample_group_env_def)
  have facts: "isCarrierService ''SMS''" "countNonSelfMembers (ge_merge ?c) [''+1'', ''+2''] None \<ge> 2"
    "canonical_members ?c [''+2'', ''+1'', ''ME@x.y''] = canonical_members ?c [''+1'', ''+2'']"
    "\<forall>m \<in> set (canonical_members ?c [''+1'', ''+2'']). CHR '','' \<notin> set m"
    "is_group_message ?c [''+2'', ''+1'', ''ME@x.y''] None (Some ''+1'')"
    by code_simp+
  have K: "K = join '','' (canonical_members ?c [''+1'', ''+2''])" "has_room ?c K \<longrightarrow> fst key = K"
    using carrier_keys_converge [OF facts(1,2) sample_group_state_indexes any facts(3-5) b l] by blast+
  have val: "join '','' (canonical_members ?c [''+1'', ''+2'']) = ''mailto:me@x.y,tel:+1,tel:+2''"
    "has_room ?c ''mailto:me@x.y,tel:+1,tel:+2''" by code_simp+
  have "snd key = ''me''"
  proof -
    have "snd (fst (makePortalKey ?c [''+2'', ''+1'', ''ME@x.y''] None (Some ''+1'') (Some ''H'') True sample_group_state)) = ''me''" by code_simp
    then show ?thesis using l by simp
  qed
  then show ?thesis using K val b l by (cases key) simp
qed

text \<open>C20.
  A page of CloudKit chats counts every chat once and respects deletions. A chat that was deleted stays deleted,
  unless it was deleted as a CloudKit tombstone and the page has a live record of its portal; a deletion by the
  user is not forgotten. When the page deletes a record, the whole portal of the record is gone: all its chats
  and messages are deleted, those of other records of the portal too, new messages of it are blocked by a
  tombstone, and its room is deleted.
\<close>

theorem chat_page_deletions:
  assumes "any_order c" "ingestCloudChats c s clock chats st = (counts, st', effects)"
  shows "counted counts = length chats \<and>
    (\<forall>r \<in> set (cloud_chat (ch_db st)). c_deleted r \<longrightarrow>
      (\<exists>r' \<in> set (cloud_chat (ch_db st')). chat_key r' = chat_key r \<and>
        (c_deleted r' \<or> (\<exists>e. recentlyDeletedPortals st (c_portal_id r') = Some e \<and> de_isTombstone e)))) \<and>
    (\<forall>P e. recentlyDeletedPortals st P = Some e \<longrightarrow> \<not> de_isTombstone e \<longrightarrow> recentlyDeletedPortals st' P \<noteq> None) \<and>
    (\<forall>chat \<in> set chats. \<forall>P. sc_Deleted chat \<longrightarrow>
      c_portal_id ` set (chat_rows s (\<lambda>r. c_record_name r = sc_RecordName chat) (ch_db st')) = {P} \<longrightarrow>
        portal_gone s P (ch_db st') \<and> (\<exists>e. recentlyDeletedPortals st' P = Some e \<and> de_isTombstone e) \<and>
        (has_room c P \<longrightarrow> (\<exists>n. ChatDelete (P, ge_login c) n \<in> set effects)))"
proof -
  define c' where "c' = c\<lparr>ge_store := Some (s, ch_db st)\<rparr>"
  define existing where "existing = hasChatBatch s (map sc_CloudChatId (filter (\<lambda>chat. \<not> sc_Deleted chat) chats)) (ch_db st)"
  define p where "p = fold (ingest_chat c' existing) chats
      \<lparr>cp_counts = zero_counts, cp_deletedRecordNames = [], cp_photoPortalIDs = [], cp_batch = [],
       cp_caches = ch_caches st, cp_effects = []\<rparr>"
  define db1 where "db1 = upsertChatBatch s (ck_upsert clock) (cp_batch p) (ch_db st)"
  define cleared where "cleared = fst (clear_tombstones (cp_batch p) (recentlyDeletedPortals st))"
  define deleted1 where "deleted1 = snd (clear_tombstones (cp_batch p) (recentlyDeletedPortals st))"
  define db2 where "db2 = fold (\<lambda>portalID. undeleteCloudChatByPortalID s (ck_undelete clock portalID) portalID) cleared db1"
  define names where "names = cp_deletedRecordNames p"
  define gone where "gone = (if names = [] then [] else tombstoned_portals c' names (lookupPortalIDsByRecordNames s names db2))"
  define db3 where "db3 = (if names = [] then db2 else deleteChatsByRecordNames s (ck_slice clock) names db2)"
  define db4 where "db4 = fold (\<lambda>(_, portalID). deleteLocalChatByPortalID s (ck_delete clock portalID) portalID) gone db3"
  define deleted2 where "deleted2 = fold (\<lambda>(_, portalID) d. d(portalID \<mapsto> \<lparr>de_deletedAt = ck_delete clock portalID, de_isTombstone = True\<rparr>)) gone deleted1"
  note page_defs = c'_def existing_def p_def db1_def cleared_def deleted1_def db2_def names_def gone_def db3_def db4_def deleted2_def
  have result: "(counts, st', effects) = (cp_counts p,
      \<lparr>ch_db = db4, ch_caches = cp_caches p, recentlyDeletedPortals = deleted2\<rparr>,
      map Group (cp_effects p) @ (if cp_photoPortalIDs p = [] then [] else [WarmPhotos (cp_photoPortalIDs p)]) @
      concat (map (\<lambda>(name, portalID). if has_room c' portalID then [ChatDelete (portalID, ge_login c') name] else []) gone))"
    unfolding assms(2) [symmetric] ingestCloudChats_def Let_def case_prod_beta page_defs ..
  then have counts: "counts = cp_counts p" and st': "ch_db st' = db4" "recentlyDeletedPortals st' = deleted2"
    and effects: "set (concat (map (\<lambda>(name, portalID). if has_room c' portalID then [ChatDelete (portalID, ge_login c') name] else []) gone)) \<subseteq> set effects"
    by auto
  have page: "counted (cp_counts p) = length chats" "names = map sc_RecordName (filter sc_Deleted chats)"
    using ingest_chat_page [of c' existing chats "\<lparr>cp_counts = zero_counts, cp_deletedRecordNames = [], cp_photoPortalIDs = [],
      cp_batch = [], cp_caches = ch_caches st, cp_effects = []\<rparr>"]
    by (simp_all add: p_def names_def zero_counts_def counted_def)
  have marks: "marks_deleted db2 db4"
  proof -
    have "marks_deleted db2 db3" by (simp add: db3_def marks_deleted_refl marks_deleted_records)
    moreover have "marks_deleted db3 db4" unfolding db4_def by (rule marks_deleted_fold) (auto intro: marks_deleted_portal)
    ultimately show ?thesis by (rule marks_deleted_trans)
  qed
  note forth = marked_row [OF marks [unfolded marks_deleted_def, THEN conjunct1]]
    and backward = marked_row_back [OF marks [unfolded marks_deleted_def, THEN conjunct1]]
  have kept: "\<exists>r' \<in> set (cloud_chat db4). chat_key r' = chat_key r \<and>
      (c_deleted r' \<or> (\<exists>e. recentlyDeletedPortals st (c_portal_id r') = Some e \<and> de_isTombstone e))"
    if r: "r \<in> set (cloud_chat (ch_db st))" "c_deleted r" for r
  proof -
    obtain r1 where r1: "r1 \<in> set (cloud_chat db1)" "chat_key r1 = chat_key r" "c_deleted r1"
      using chat_tomb.keeps_row [OF upsertChatBatch_keeps r(1)] r(2) unfolding db1_def chat_tomb_le_def by blast
    obtain r2 where r2: "r2 \<in> set (cloud_chat db2)" "chat_identity r2 = chat_identity r1" "c_deleted r2 \<or> c_portal_id r2 \<in> set cleared"
      using undelete_keeps [OF r1(1,3)] unfolding db2_def by blast
    obtain r4 where r4: "r4 \<in> set (cloud_chat db4)" "chat_identity r4 = chat_identity r2" "c_deleted r2 \<longrightarrow> c_deleted r4"
      using forth [OF r2(1)] by blast
    have "chat_key r4 = chat_key r" "c_portal_id r4 = c_portal_id r2"
      using r1(2) r2(2) r4(2) by (simp_all add: chat_identity_def chat_key_def)
    then show ?thesis using r2(3) r4 cleared_tombstones unfolding cleared_def by metis
  qed
  have remembered: "deleted2 P \<noteq> None" if "recentlyDeletedPortals st P = Some e" "\<not> de_isTombstone e" for P e
    unfolding deleted2_def by (rule gone_entries(2)) (use that kept_entries [of "recentlyDeletedPortals st" P e] in \<open>simp add: deleted1_def\<close>)
  have deleted: "portal_gone s P db4 \<and> (\<exists>e. deleted2 P = Some e \<and> de_isTombstone e) \<and>
      (has_room c P \<longrightarrow> (\<exists>n. ChatDelete (P, ge_login c) n \<in> set effects))"
    if chat: "chat \<in> set chats" "sc_Deleted chat"
      and rows: "c_portal_id ` set (chat_rows s (\<lambda>r. c_record_name r = sc_RecordName chat) db4) = {P}" for chat P
  proof -
    let ?n = "sc_RecordName chat"
    have n: "?n \<in> set names" using chat page(2) by auto
    have all: "c_portal_id r = P" if r: "r \<in> set (cloud_chat db2)" "c_login_id r = loginID s" "c_record_name r = ?n" for r
    proof -
      obtain r4 where "r4 \<in> set (cloud_chat db4)" "chat_identity r4 = chat_identity r" using forth [OF r(1)] by blast
      then have "c_portal_id r \<in> c_portal_id ` set (chat_rows s (\<lambda>r. c_record_name r = ?n) db4)"
        using r(2,3) by (intro image_eqI [of _ _ r4]) (auto simp: chat_identity_def in_chat_rows)
      then show ?thesis using rows by simp
    qed
    obtain r4 where "r4 \<in> set (cloud_chat db4)" "c_login_id r4 = loginID s" "c_record_name r4 = ?n"
      using rows by (metis (mono_tags, lifting) in_chat_rows imageE singletonI)
    then obtain r where "r \<in> set (cloud_chat db2)" "c_login_id r = loginID s" "c_record_name r = ?n"
      using backward by (fastforce simp: chat_identity_def)
    then have "lookupPortalIDsByRecordNames s names db2 ?n = Some P"
      using lookup_records [of r db2 s names P] n all by auto
    then have "(?n, P) \<in> set (tombstoned_portals c' names (lookupPortalIDsByRecordNames s names db2))"
      unfolding tombstoned_portals_def using n assms(1) by (simp add: in_range_order_mem c'_def record_portal)
    moreover have "names \<noteq> []" using n by auto
    ultimately have g: "(?n, P) \<in> set gone" by (simp add: gone_def)
    have "portal_gone s P db4" unfolding db4_def by (rule gone_fold [OF g])
    moreover have "deleted2 P = Some \<lparr>de_deletedAt = ck_delete clock P, de_isTombstone = True\<rparr>"
      unfolding deleted2_def by (rule gone_entries(1) [OF g])
    moreover have "ChatDelete (P, ge_login c) ?n \<in> set effects" if "has_room c P"
      using effects g that by (force simp: c'_def)
    ultimately show ?thesis by auto
  qed
  show ?thesis
    unfolding counts st' using page(1) kept remembered deleted by (intro conjI ballI allI impI) simp_all
qed

text \<open>A portal fed by two records, of which the page deletes one.\<close>

definition two_record_state :: chat_state where
  "two_record_state =
     \<lparr>ch_db = upsertChatBatch sample_store 1 [sample_chat ''A'' ''tel:+1'' [''tel:+1''], sample_chat ''B'' ''tel:+1'' [''tel:+1'']] empty_db,
      ch_caches = sample_group_state, recentlyDeletedPortals = Map.empty\<rparr>"

definition deleted_record :: sync_chat where
  "deleted_record = \<lparr>sc_RecordName = ''recA'', sc_CloudChatId = ''recA'', sc_GroupId = [], sc_Style = 45, sc_Service = [],
     sc_DisplayName = None, sc_Participants = [], sc_Deleted = True, sc_UpdatedTimestampMs = 0, sc_GroupPhotoGuid = None,
     sc_IsFiltered = 0\<rparr>"

definition sample_clock :: chat_clock where
  "sample_clock = \<lparr>ck_upsert = 5, ck_undelete = (\<lambda>_. 5), ck_slice = (\<lambda>_. 5), ck_delete = (\<lambda>_. 5)\<rparr>"

theorem chat_page_deletions_witness:
  "map c_deleted (chat_rows sample_store (\<lambda>r. c_record_name r = ''recB'') (ch_db two_record_state)) = [False] \<and>
   portal_gone sample_store ''tel:+1''
     (ch_db (fst (snd (ingestCloudChats sample_group_env sample_store sample_clock [deleted_record] two_record_state))))"
proof
  show "map c_deleted (chat_rows sample_store (\<lambda>r. c_record_name r = ''recB'') (ch_db two_record_state)) = [False]" by code_simp
  obtain counts st' e where run: "ingestCloudChats sample_group_env sample_store sample_clock [deleted_record] two_record_state = (counts, st', e)"
    by (metis prod.exhaust)
  have any: "any_order sample_group_env" by (simp add: any_order_def sample_group_env_def)
  have "map c_portal_id (chat_rows sample_store (\<lambda>r. c_record_name r = ''recA'')
      (ch_db (fst (snd (ingestCloudChats sample_group_env sample_store sample_clock [deleted_record] two_record_state))))) = [''tel:+1'']"
    by code_simp
  from arg_cong [OF this, where f = set]
  have "c_portal_id ` set (chat_rows sample_store (\<lambda>r. c_record_name r = ''recA'') (ch_db st')) = {''tel:+1''}"
    unfolding run fst_conv snd_conv set_map list.set .
  moreover have "sc_RecordName deleted_record = ''recA''" by (simp add: deleted_record_def)
  moreover have "sc_Deleted deleted_record" by (simp add: deleted_record_def)
  ultimately show "portal_gone sample_store ''tel:+1''
     (ch_db (fst (snd (ingestCloudChats sample_group_env sample_store sample_clock [deleted_record] two_record_state))))"
    using chat_page_deletions [OF any run] unfolding run fst_conv snd_conv by simp
qed

end
