(* ===== verification/Pending_Attachments.thy ===== *)
theory Pending_Attachments
  imports Cloud_Backfill "HOL-Library.Word"
begin

text \<open>
  Recovery of attachments whose download failed when their message arrived
  (\<^verbatim>\<open>pending_attachment_store.go\<close>, \<^verbatim>\<open>attachment_retrier.go\<close>, and the attachment loop of \<^verbatim>\<open>handleMessage\<close> in
  \<^verbatim>\<open>client.go\<close> that feeds them). A failed attachment is a row of \<^verbatim>\<open>pending_attachment_retry\<close>; the retrier
  fetches the due rows, downloads each from the message service or from CloudKit, and queues an edit of
  the placeholder the user sees.

  A Go time is its number of nanoseconds since the epoch; a row of the table holds milliseconds in the
  same fields. The downloads, the lookup of the placeholder and the outcome of each SQL statement are
  arguments; a download that panics or exceeds its time limit is one that returns an error. The
  asynchronous delivery of a queued edit is the framework's. Clock readings of one attempt are numbered
  in the order the code takes them.
\<close>

section \<open>Times\<close>

type_synonym go_time = int

definition second :: go_time where "second = 1000000000"
definition minute :: go_time where "minute = 60 * second"
definition hour :: go_time where "hour = 60 * minute"

text \<open>\<^verbatim>\<open>time.Time{}\<close>, the first of January of year 1, and the conversions from and to milliseconds.\<close>

definition zero_time :: go_time where "zero_time = - 62135596800 * second"

definition to_millis :: "go_time \<Rightarrow> millis" where "to_millis t = t div 1000000"

definition of_millis :: "millis \<Rightarrow> go_time" where "of_millis m = m * 1000000"

lemmas time_defs = second_def minute_def hour_def zero_time_def to_millis_def of_millis_def

definition attachmentRetrierBatchLimit :: nat where "attachmentRetrierBatchLimit = 50"
definition attachmentRetrierMaxAttempts :: int where "attachmentRetrierMaxAttempts = 30"
definition attachmentRetrierMaxLifetime :: go_time where "attachmentRetrierMaxLifetime = 7 * 24 * hour"

definition attachmentRetrierBackoff :: "int \<Rightarrow> go_time" where
  "attachmentRetrierBackoff attempt =
     (if attempt = 1 then 30 * second else if attempt = 2 then 2 * minute else if attempt = 3 then 10 * minute
      else if attempt = 4 then 30 * minute else if attempt = 5 then 1 * hour else 6 * hour)"

section \<open>The table\<close>

record pendingAttachmentRow =
  pa_LoginID :: login_id
  pa_MessageGUID :: guid
  pa_AttIndex :: int
  pa_AttID :: string
  pa_PortalID :: portal_id
  pa_Sender :: string
  pa_TimestampMs :: int
  pa_Filename :: string
  pa_MimeType :: string
  pa_UtiType :: string
  pa_SizeBytes :: int
  pa_MmcsDescriptor :: string
  pa_CreatedAt :: int
  pa_LastAttemptAt :: int
  pa_AttemptCount :: int
  pa_NextAttemptAt :: int

type_synonym pending_key = "login_id \<times> guid \<times> int"

definition pending_key :: "pendingAttachmentRow \<Rightarrow> pending_key" where
  "pending_key r = (pa_LoginID r, pa_MessageGUID r, pa_AttIndex r)"

text \<open>The columns \<^verbatim>\<open>Insert\<close> writes, and the row \<^verbatim>\<open>scanPendingAttachmentRow\<close> reads.\<close>

definition pending_columns :: "login_id \<Rightarrow> pendingAttachmentRow \<Rightarrow> pendingAttachmentRow" where
  "pending_columns l row = row\<lparr>pa_LoginID := l, pa_CreatedAt := to_millis (pa_CreatedAt row),
     pa_LastAttemptAt := to_millis (pa_LastAttemptAt row), pa_NextAttemptAt := to_millis (pa_NextAttemptAt row)\<rparr>"

definition scanPendingAttachmentRow :: "pendingAttachmentRow \<Rightarrow> pendingAttachmentRow" where
  "scanPendingAttachmentRow c = c\<lparr>pa_CreatedAt := of_millis (pa_CreatedAt c),
     pa_LastAttemptAt := (if pa_LastAttemptAt c > 0 then of_millis (pa_LastAttemptAt c) else zero_time),
     pa_NextAttemptAt := of_millis (pa_NextAttemptAt c)\<rparr>"

definition pending_insert :: "login_id \<Rightarrow> pendingAttachmentRow \<Rightarrow> pendingAttachmentRow list \<Rightarrow> pendingAttachmentRow list" where
  "pending_insert l row t = upsert pending_key do_nothing (pending_columns l row) t"

definition due :: "login_id \<Rightarrow> go_time \<Rightarrow> pendingAttachmentRow \<Rightarrow> bool" where
  "due l now c \<longleftrightarrow> pa_LoginID c = l \<and> pa_NextAttemptAt c \<le> to_millis now"

definition pending_GetDue :: "login_id \<Rightarrow> go_time \<Rightarrow> nat \<Rightarrow> pendingAttachmentRow list \<Rightarrow> pendingAttachmentRow list" where
  "pending_GetDue l now limit t =
     map scanPendingAttachmentRow (take limit (sort_key pa_NextAttemptAt (filter (due l now) t)))"

definition pending_UpdateSchedule ::
  "login_id \<Rightarrow> pendingAttachmentRow \<Rightarrow> pendingAttachmentRow list \<Rightarrow> pendingAttachmentRow list" where
  "pending_UpdateSchedule l row t =
     update_where (\<lambda>c. pending_key c = (l, pa_MessageGUID row, pa_AttIndex row))
       (\<lambda>c. c\<lparr>pa_AttemptCount := pa_AttemptCount row, pa_LastAttemptAt := to_millis (pa_LastAttemptAt row),
              pa_NextAttemptAt := to_millis (pa_NextAttemptAt row)\<rparr>) t"

definition pending_Delete ::
  "login_id \<Rightarrow> pendingAttachmentRow \<Rightarrow> pendingAttachmentRow list \<Rightarrow> pendingAttachmentRow list" where
  "pending_Delete l row t = delete_where (\<lambda>c. pending_key c = (l, pa_MessageGUID row, pa_AttIndex row)) t"

definition pending_GetOne :: "login_id \<Rightarrow> guid \<Rightarrow> int \<Rightarrow> pendingAttachmentRow list \<Rightarrow> pendingAttachmentRow option" where
  "pending_GetOne l msgGUID attIndex t = map_option scanPendingAttachmentRow (lookup pending_key (l, msgGUID, attIndex) t)"

section \<open>Messages and their attachments\<close>

text \<open>Of a message only the fields are kept that the attachments depend on.\<close>

record WrappedAttachment =
  wa_MimeType :: string
  wa_Filename :: string
  wa_UtiType :: string
  wa_Size :: "64 word"
  wa_IsInline :: bool
  wa_InlineData :: "string option"
  wa_MmcsDescriptorJson :: "string option"
  wa_Iris :: bool

record WrappedMessage =
  wm_Uuid :: guid
  wm_Text :: "string option"
  wm_Subject :: "string option"
  wm_Sender :: "string option"
  wm_TimestampMs :: "64 word"
  wm_Attachments :: "WrappedAttachment list"

record attachmentMessage =
  am_Message :: WrappedMessage
  am_Attachment :: WrappedAttachment
  am_Index :: int

definition liveMessageHasText :: "WrappedMessage \<Rightarrow> bool" where
  "liveMessageHasText msg =
     (let txt' = trim_space (strip_object_char (text_or_empty (wm_Text msg)))
      in if txt' \<noteq> [] then True else trim_space (text_or_empty (wm_Subject msg)) \<noteq> [])"

definition attachmentPartID :: "int \<Rightarrow> string" where
  "attachmentPartID idx = ''att'' @ itoa idx"

definition makeAttID :: "guid \<Rightarrow> int \<Rightarrow> bool \<Rightarrow> string" where
  "makeAttID uuid index hasText = (if index = 0 \<and> \<not> hasText then uuid else uuid @ ''_att'' @ itoa index)"

text \<open>
  The events \<^verbatim>\<open>handleMessage\<close> queues for a message: the text under the message's UUID if there is one,
  then one event per attachment that is bridged, under an ID of its own. The ID is computed inline
  there, not with \<^verbatim>\<open>makeAttID\<close>.
\<close>

fun live_attachments :: "WrappedMessage \<Rightarrow> bool \<Rightarrow> int \<Rightarrow> WrappedAttachment list \<Rightarrow> (string \<times> attachmentMessage) list" where
  "live_attachments msg hasText attIndex [] = []"
| "live_attachments msg hasText attIndex (att # atts) =
     (if wa_MimeType att = ''x-richlink/meta'' \<or> wa_MimeType att = ''x-richlink/image''
      then live_attachments msg hasText attIndex atts
      else if wa_Iris att then live_attachments msg hasText attIndex atts
      else
        (let attID = (if attIndex > 0 \<or> hasText then wm_Uuid msg @ ''_att'' @ itoa attIndex else wm_Uuid msg)
         in (attID, \<lparr>am_Message = msg, am_Attachment = att, am_Index = attIndex\<rparr>)
              # live_attachments msg hasText (attIndex + 1) atts))"

definition live_events :: "WrappedMessage \<Rightarrow> (string \<times> attachmentMessage) list" where
  "live_events msg = live_attachments msg (liveMessageHasText msg) 0 (wm_Attachments msg)"

definition live_event_ids :: "WrappedMessage \<Rightarrow> string list" where
  "live_event_ids msg = (if liveMessageHasText msg then [wm_Uuid msg] else []) @ map fst (live_events msg)"

text \<open>The guard in the event's conversion: not inline, no bytes, but a descriptor to retry with.\<close>

definition download_failed :: "WrappedAttachment \<Rightarrow> bool" where
  "download_failed att \<longleftrightarrow> \<not> wa_IsInline att \<and> wa_InlineData att = None \<and>
     wa_MmcsDescriptorJson att \<noteq> None \<and> wa_MmcsDescriptorJson att \<noteq> Some []"

definition pending_row :: "login_id \<Rightarrow> portal_id \<Rightarrow> attachmentMessage \<Rightarrow> go_time \<Rightarrow> pendingAttachmentRow" where
  "pending_row l portal attMsg now =
     (let att = am_Attachment attMsg; msg = am_Message attMsg in
      \<lparr>pa_LoginID = l, pa_MessageGUID = wm_Uuid msg, pa_AttIndex = am_Index attMsg,
       pa_AttID = makeAttID (wm_Uuid msg) (am_Index attMsg) (liveMessageHasText msg),
       pa_PortalID = portal, pa_Sender = (case wm_Sender msg of None \<Rightarrow> [] | Some s \<Rightarrow> s),
       pa_TimestampMs = sint (wm_TimestampMs msg), pa_Filename = wa_Filename att, pa_MimeType = wa_MimeType att,
       pa_UtiType = wa_UtiType att, pa_SizeBytes = sint (wa_Size att),
       pa_MmcsDescriptor = text_or_empty (wa_MmcsDescriptorJson att),
       pa_CreatedAt = now, pa_LastAttemptAt = zero_time, pa_AttemptCount = 0,
       pa_NextAttemptAt = now + attachmentRetrierBackoff 1\<rparr>)"

text \<open>The three tries to insert; \<open>ok\<close> and \<open>expired\<close> say of each whether it succeeds and whether the context has ended.\<close>

fun insert_tries :: "(nat \<Rightarrow> bool) \<Rightarrow> (nat \<Rightarrow> bool) \<Rightarrow> nat \<Rightarrow> nat \<Rightarrow> bool" where
  "insert_tries ok expired attempt 0 = False"
| "insert_tries ok expired attempt (Suc left) =
     (if ok attempt then True else if expired attempt then False else insert_tries ok expired (attempt + 1) left)"

definition enqueuePendingMMCSRecovery ::
  "login_id \<Rightarrow> bool \<Rightarrow> portal_id option \<Rightarrow> attachmentMessage \<Rightarrow> go_time \<Rightarrow> (nat \<Rightarrow> bool) \<Rightarrow> (nat \<Rightarrow> bool) \<Rightarrow>
   pendingAttachmentRow list \<Rightarrow> pendingAttachmentRow list" where
  "enqueuePendingMMCSRecovery l store portal attMsg now ok expired t =
     (if \<not> store \<or> portal = None then t
      else if wa_MmcsDescriptorJson (am_Attachment attMsg) \<in> {None, Some []} then t
      else if insert_tries ok expired 1 3 then pending_insert l (pending_row l (the portal) attMsg now) t
      else t)"

section \<open>One attempt\<close>

datatype recovery_error =
    Client_not_ready | Mmcs_failed string | No_cloud_store | Cloud_store_failed store_error | No_record_yet
  | Cloud_download_failed string | Cloud_empty | Both_failed recovery_error recovery_error | Empty_recovery
  | Notice_lookup_failed string

record attempt_env =
  ae_RetryMmcs :: "(string \<Rightarrow> string \<Rightarrow> string + string) option"
  ae_cloudStore :: "(cloudBackfillStore \<times> cloud_db) option"
  ae_CloudDownload :: "string \<Rightarrow> string + string"
  ae_GetPartByID :: "login_id \<Rightarrow> string \<Rightarrow> string \<Rightarrow> string + bool"
  ae_clock :: "nat \<Rightarrow> go_time"
  ae_delete_ok :: "nat \<Rightarrow> bool"
  ae_update_ok :: bool

record remote_edit =
  ed_PortalKey :: "portal_id \<times> login_id"
  ed_Sender :: string
  ed_Timestamp :: go_time
  ed_ID :: string
  ed_TargetMessage :: string
  ed_Data :: attachmentMessage

datatype attempt_outcome =
  Delivered remote_edit | Notice_gone | Rescheduled recovery_error | Gave_up recovery_error

definition downloadViaMMCS :: "attempt_env \<Rightarrow> pendingAttachmentRow \<Rightarrow> recovery_error + string" where
  "downloadViaMMCS e row =
     (case ae_RetryMmcs e of
        None \<Rightarrow> Inl Client_not_ready
      | Some retry \<Rightarrow> (case retry (pa_MmcsDescriptor row) (pa_Filename row) of
          Inl err \<Rightarrow> Inl (Mmcs_failed err) | Inr data \<Rightarrow> Inr data))"

definition downloadViaCloudKit :: "attempt_env \<Rightarrow> pendingAttachmentRow \<Rightarrow> recovery_error + string" where
  "downloadViaCloudKit e row =
     (case ae_cloudStore e of
        None \<Rightarrow> Inl No_cloud_store
      | Some (s, db) \<Rightarrow> (case getAttachmentRecordName s (pa_MessageGUID row) (pa_AttIndex row) db of
          Inl err \<Rightarrow> Inl (Cloud_store_failed err)
        | Inr recordName \<Rightarrow>
            if recordName = [] then Inl No_record_yet
            else (case ae_CloudDownload e recordName of
                Inl err \<Rightarrow> Inl (Cloud_download_failed err)
              | Inr data \<Rightarrow> if data = [] then Inl Cloud_empty else Inr data)))"

text \<open>The edit \<^verbatim>\<open>deliverAsEdit\<close> queues; its sender is the raw handle the event sender is made of.\<close>

definition recovery_edit :: "attempt_env \<Rightarrow> pendingAttachmentRow \<Rightarrow> string \<Rightarrow> remote_edit" where
  "recovery_edit e row data =
     (let ts = of_millis (pa_TimestampMs row)
      in \<lparr>ed_PortalKey = (pa_PortalID row, pa_LoginID row), ed_Sender = pa_Sender row,
          ed_Timestamp = (if ts = zero_time \<or> ts < hour then ae_clock e 0 else ts),
          ed_ID = pa_AttID row @ ''_l2recov_'' @ itoa (pa_AttemptCount row) @ ''_'' @ itoa (to_millis (ae_clock e 1)),
          ed_TargetMessage = pa_AttID row,
          ed_Data =
            \<lparr>am_Message = \<lparr>wm_Uuid = pa_MessageGUID row, wm_Text = None, wm_Subject = None,
               wm_Sender = Some (pa_Sender row), wm_TimestampMs = word_of_int (pa_TimestampMs row), wm_Attachments = []\<rparr>,
             am_Attachment = \<lparr>wa_MimeType = pa_MimeType row, wa_Filename = pa_Filename row, wa_UtiType = pa_UtiType row,
               wa_Size = word_of_int (pa_SizeBytes row), wa_IsInline = True, wa_InlineData = Some data,
               wa_MmcsDescriptorJson = None, wa_Iris = False\<rparr>,
             am_Index = pa_AttIndex row\<rparr>\<rparr>)"

text \<open>\<^verbatim>\<open>Delete\<close> as a statement that may fail: on failure the table stays, and every caller goes on.\<close>

definition try_delete ::
  "bool \<Rightarrow> login_id \<Rightarrow> pendingAttachmentRow \<Rightarrow> pendingAttachmentRow list \<Rightarrow> pendingAttachmentRow list" where
  "try_delete ok l row t = (if ok then pending_Delete l row t else t)"

definition deliverAsEdit ::
  "login_id \<Rightarrow> attempt_env \<Rightarrow> pendingAttachmentRow \<Rightarrow> string \<Rightarrow> pendingAttachmentRow list \<Rightarrow>
   (recovery_error + remote_edit option) \<times> pendingAttachmentRow list" where
  "deliverAsEdit l e row data t =
     (case ae_GetPartByID e (pa_LoginID row) (pa_AttID row) (attachmentPartID (pa_AttIndex row)) of
        Inl err \<Rightarrow> (Inl (Notice_lookup_failed err), t)
      | Inr found \<Rightarrow>
          if \<not> found then (Inr None, try_delete (ae_delete_ok e 0) l row t)
          else (Inr (Some (recovery_edit e row data)), t))"

definition reschedule ::
  "login_id \<Rightarrow> attempt_env \<Rightarrow> pendingAttachmentRow \<Rightarrow> recovery_error \<Rightarrow> pendingAttachmentRow list \<Rightarrow>
   attempt_outcome \<times> pendingAttachmentRow list" where
  "reschedule l e row cause t =
     (let row = row\<lparr>pa_AttemptCount := pa_AttemptCount row + 1, pa_LastAttemptAt := ae_clock e 2\<rparr>
      in if pa_AttemptCount row \<ge> attachmentRetrierMaxAttempts \<or>
            ae_clock e 3 - pa_CreatedAt row > attachmentRetrierMaxLifetime
         then (Gave_up cause, try_delete (ae_delete_ok e 0) l row t)
         else
           (let row = row\<lparr>pa_NextAttemptAt := ae_clock e 4 + attachmentRetrierBackoff (pa_AttemptCount row)\<rparr>
            in (Rescheduled cause, if ae_update_ok e then pending_UpdateSchedule l row t else t)))"

definition recover :: "attempt_env \<Rightarrow> pendingAttachmentRow \<Rightarrow> recovery_error + string" where
  "recover e row =
     (case downloadViaMMCS e row of
        Inl err \<Rightarrow> (case downloadViaCloudKit e row of Inl ckErr \<Rightarrow> Inl (Both_failed err ckErr) | Inr ckData \<Rightarrow> Inr ckData)
      | Inr data \<Rightarrow> Inr data)"

definition attempt ::
  "login_id \<Rightarrow> attempt_env \<Rightarrow> pendingAttachmentRow \<Rightarrow> pendingAttachmentRow list \<Rightarrow>
   attempt_outcome \<times> pendingAttachmentRow list" where
  "attempt l e row t =
     (case recover e row of
        Inl err \<Rightarrow> reschedule l e row err t
      | Inr data \<Rightarrow>
          if data = [] then reschedule l e row Empty_recovery t
          else (case deliverAsEdit l e row data t of
              (Inl err, t) \<Rightarrow> reschedule l e row err t
            | (Inr edit, t) \<Rightarrow>
                (case edit of None \<Rightarrow> Notice_gone | Some ed \<Rightarrow> Delivered ed,
                 try_delete (ae_delete_ok e 1) l row t)))"

text \<open>
  The conversion of a queued edit: which of the existing parts of the placeholder is replaced by the
  last converted part. A missing target makes the code panic: that is the value \<open>Inr None\<close>.
\<close>

record existing_part =
  ep_PartID :: string
  ep_Transient :: "bool option"

definition findMatchingPart :: "existing_part list \<Rightarrow> int \<Rightarrow> existing_part option" where
  "findMatchingPart existing idx = find (\<lambda>m. ep_PartID m = attachmentPartID idx) existing"

definition convert_edit ::
  "(string + 'p list option) \<Rightarrow> existing_part list \<Rightarrow> int \<Rightarrow> string + (existing_part \<times> 'p) option" where
  "convert_edit cm existing idx =
     (case cm of
        Inl err \<Rightarrow> Inl err
      | Inr parts \<Rightarrow>
          if parts = None \<or> parts = Some [] then Inl ''convertAttachment returned no parts''
          else
            (let target = (case findMatchingPart existing idx of
                   Some m \<Rightarrow> Some m | None \<Rightarrow> (case existing of [] \<Rightarrow> None | m # _ \<Rightarrow> Some m))
             in case target of
                  None \<Rightarrow> Inr None
                | Some m \<Rightarrow>
                    Inr (Some (if ep_Transient m = Some True then m\<lparr>ep_Transient := Some False\<rparr> else m, last (the parts)))))"

section \<open>The retrier\<close>

text \<open>A tick that stops early because its context ended has fewer environments than due rows.\<close>

record tick_env =
  te_now :: go_time
  te_query_ok :: bool
  te_attempts :: "attempt_env list"

fun tick_rows ::
  "login_id \<Rightarrow> pendingAttachmentRow list \<Rightarrow> attempt_env list \<Rightarrow> pendingAttachmentRow list \<Rightarrow>
   (pending_key \<times> attempt_outcome) list \<times> pendingAttachmentRow list" where
  "tick_rows l [] es t = ([], t)"
| "tick_rows l (row # rows) [] t = ([], t)"
| "tick_rows l (row # rows) (e # es) t =
     (let (out, t1) = attempt l e row t; (outs, t2) = tick_rows l rows es t1
      in ((pending_key row, out) # outs, t2))"

definition tick ::
  "login_id \<Rightarrow> tick_env \<Rightarrow> pendingAttachmentRow list \<Rightarrow>
   (pending_key \<times> attempt_outcome) list \<times> pendingAttachmentRow list" where
  "tick l te t =
     (if \<not> te_query_ok te then ([], t)
      else tick_rows l (pending_GetDue l (te_now te) attachmentRetrierBatchLimit t) (te_attempts te) t)"

text \<open>
  The retrier beside the message handlers: messages enqueue rows at any moment, also while a batch is
  being worked off; a batch ends early when its context ends or the bridge is restarted. Only the
  table outlives a restart. The log is what an observer writes down.
\<close>

record enqueue_call =
  ec_portal :: "portal_id option"
  ec_attMsg :: attachmentMessage
  ec_now :: go_time
  ec_insert_ok :: "nat \<Rightarrow> bool"
  ec_expired :: "nat \<Rightarrow> bool"

definition enqueue_pending :: "login_id \<Rightarrow> enqueue_call \<Rightarrow> pendingAttachmentRow list \<Rightarrow> pendingAttachmentRow list" where
  "enqueue_pending l c =
     enqueuePendingMMCSRecovery l True (ec_portal c) (ec_attMsg c) (ec_now c) (ec_insert_ok c) (ec_expired c)"

datatype retrier_log = Row_added pending_key | Row_tried pending_key attempt_outcome bool

record retrier_state =
  rt_table :: "pendingAttachmentRow list"
  rt_batch :: "pendingAttachmentRow list"
  rt_log :: "retrier_log list"

datatype retrier_action = Enqueue enqueue_call | Fetch go_time bool | Attempt attempt_env | Stop

definition statements_ok :: "attempt_env \<Rightarrow> bool" where
  "statements_ok e \<longleftrightarrow> ae_delete_ok e 0 \<and> ae_delete_ok e 1 \<and> ae_update_ok e"

fun retrier_step :: "login_id \<Rightarrow> retrier_action \<Rightarrow> retrier_state \<Rightarrow> retrier_state" where
  "retrier_step l (Enqueue c) st =
     (let t = enqueue_pending l c (rt_table st)
      in st\<lparr>rt_table := t, rt_log := rt_log st @ map (Row_added \<circ> pending_key) (drop (length (rt_table st)) t)\<rparr>)"
| "retrier_step l (Fetch now ok) st =
     (if rt_batch st = [] \<and> ok
      then st\<lparr>rt_batch := pending_GetDue l now attachmentRetrierBatchLimit (rt_table st)\<rparr> else st)"
| "retrier_step l (Attempt e) st =
     (case rt_batch st of
        [] \<Rightarrow> st
      | row # rows \<Rightarrow>
          (let (out, t) = attempt l e row (rt_table st)
           in \<lparr>rt_table = t, rt_batch = rows,
               rt_log = rt_log st @ [Row_tried (pending_key row) out (statements_ok e)]\<rparr>))"
| "retrier_step l Stop st = st\<lparr>rt_batch := []\<rparr>"

definition retrier_run :: "login_id \<Rightarrow> retrier_action list \<Rightarrow> retrier_state" where
  "retrier_run l acts = fold (retrier_step l) acts \<lparr>rt_table = [], rt_batch = [], rt_log = []\<rparr>"

definition times_added :: "pending_key \<Rightarrow> retrier_log list \<Rightarrow> nat" where
  "times_added k lg = length (filter (\<lambda>x. x = Row_added k) lg)"

definition times_tried :: "pending_key \<Rightarrow> retrier_log list \<Rightarrow> nat" where
  "times_tried k lg = length (filter (\<lambda>x. case x of Row_tried k' _ _ \<Rightarrow> k' = k | _ \<Rightarrow> False) lg)"

definition times_faulted :: "pending_key \<Rightarrow> retrier_log list \<Rightarrow> nat" where
  "times_faulted k lg = length (filter (\<lambda>x. case x of Row_tried k' _ ok \<Rightarrow> k' = k \<and> \<not> ok | _ \<Rightarrow> False) lg)"

section \<open>Lemmas on the table\<close>

interpretation pending_table: table_upsert pending_key do_nothing
  by unfold_locales (simp add: do_nothing_def)

abbreviation row_key :: "login_id \<Rightarrow> pendingAttachmentRow \<Rightarrow> pending_key" where
  "row_key l row \<equiv> (l, pa_MessageGUID row, pa_AttIndex row)"

lemma pending_key_columns [simp]: "pending_key (pending_columns l row) = row_key l row"
  by (simp add: pending_key_def pending_columns_def)

lemma pending_key_scan [simp]: "pending_key (scanPendingAttachmentRow c) = pending_key c"
  by (simp add: pending_key_def scanPendingAttachmentRow_def)

lemma scan_fields [simp]:
  "pa_LoginID (scanPendingAttachmentRow c) = pa_LoginID c"
  "pa_AttemptCount (scanPendingAttachmentRow c) = pa_AttemptCount c"
  "pa_CreatedAt (scanPendingAttachmentRow c) = of_millis (pa_CreatedAt c)"
  "pa_AttID (scanPendingAttachmentRow c) = pa_AttID c"
  "pa_PortalID (scanPendingAttachmentRow c) = pa_PortalID c"
  by (simp_all add: scanPendingAttachmentRow_def)

lemma row_key_own: "pa_LoginID row = l \<Longrightarrow> row_key l row = pending_key row"
  by (auto simp: pending_key_def)

lemma lookup_pending_insert:
  "lookup pending_key k (pending_insert l row t) =
     (if k = row_key l row
      then Some (case lookup pending_key k t of None \<Rightarrow> pending_columns l row | Some old \<Rightarrow> old)
      else lookup pending_key k t)"
  by (simp add: pending_insert_def pending_table.lookup_upsert do_nothing_def split: option.split)

lemma lookup_snoc:
  "lookup key k (t @ [r]) = (case lookup key k t of None \<Rightarrow> if key r = k then Some r else None | Some c \<Rightarrow> Some c)"
  by (induction t) (auto simp: lookup_def)

text \<open>An insert appends one row or nothing.\<close>

lemma upsert_do_nothing:
  "upsert key do_nothing new t = (if lookup key (key new) t = None then t @ [new] else t)"
  by (induction t) (auto simp: do_nothing_def lookup_def)

lemma enqueue_cases:
  obtains (kept) "enqueue_pending l c t = t"
  | (added) p where "ec_portal c = Some p"
      "lookup pending_key (pending_key (pending_columns l (pending_row l p (ec_attMsg c) (ec_now c)))) t = None"
      "enqueue_pending l c t = t @ [pending_columns l (pending_row l p (ec_attMsg c) (ec_now c))]"
proof (cases "ec_portal c")
  case None
  then show thesis by (intro kept) (simp add: enqueue_pending_def enqueuePendingMMCSRecovery_def)
next
  case (Some p)
  let ?r = "pending_columns l (pending_row l p (ec_attMsg c) (ec_now c))"
  have "enqueue_pending l c t = t \<or> lookup pending_key (pending_key ?r) t = None \<and> enqueue_pending l c t = t @ [?r]"
    unfolding enqueue_pending_def enqueuePendingMMCSRecovery_def pending_insert_def upsert_do_nothing Some option.sel
    by (simp del: insert_tries.simps pending_key_columns)
  then show thesis using kept added [OF Some] by blast
qed

lemma pending_row_fields [simp]:
  "pa_LoginID (pending_columns l r) = l" "pa_AttemptCount (pending_columns l r) = pa_AttemptCount r"
  "pa_NextAttemptAt (pending_columns l r) = to_millis (pa_NextAttemptAt r)"
  "pa_AttemptCount (pending_row l p m now) = 0" "pa_LoginID (pending_row l p m now) = l"
  "pa_NextAttemptAt (pending_row l p m now) = now + attachmentRetrierBackoff 1"
  by (simp_all add: pending_columns_def pending_row_def Let_def)

text \<open>A row comes back from the table with its times cut to milliseconds; "never tried" survives as the zero time.\<close>

lemma pending_row_roundtrip:
  assumes "lookup pending_key (l, pa_MessageGUID row, pa_AttIndex row) t = None" "pa_LoginID row = l"
    and "pa_LastAttemptAt row = zero_time \<or> pa_LastAttemptAt row \<ge> 1000000"
  shows "pending_GetOne l (pa_MessageGUID row) (pa_AttIndex row) (pending_insert l row t) =
    Some (row\<lparr>pa_CreatedAt := of_millis (to_millis (pa_CreatedAt row)),
      pa_LastAttemptAt := (if pa_LastAttemptAt row = zero_time then zero_time else of_millis (to_millis (pa_LastAttemptAt row))),
      pa_NextAttemptAt := of_millis (to_millis (pa_NextAttemptAt row))\<rparr>)"
proof -
  have "pa_LastAttemptAt row div 1000000 > 0" if "pa_LastAttemptAt row \<ge> 1000000" using that by (simp add: pos_imp_zdiv_pos_iff)
  then have "(to_millis (pa_LastAttemptAt row) > 0) = (pa_LastAttemptAt row \<noteq> zero_time)"
    using assms(3) by (auto simp: time_defs)
  then show ?thesis
    using assms(1,2) by (simp add: pending_GetOne_def lookup_pending_insert scanPendingAttachmentRow_def pending_columns_def)
qed

text \<open>What an attempt does to the table: one of four things, all at the key of its row.\<close>

definition rescheduled_columns :: "attempt_env \<Rightarrow> pendingAttachmentRow \<Rightarrow> pendingAttachmentRow \<Rightarrow> pendingAttachmentRow" where
  "rescheduled_columns e row c = c\<lparr>pa_AttemptCount := pa_AttemptCount row + 1, pa_LastAttemptAt := to_millis (ae_clock e 2),
     pa_NextAttemptAt := to_millis (ae_clock e 4 + attachmentRetrierBackoff (pa_AttemptCount row + 1))\<rparr>"

lemma key_rescheduled [simp]: "pending_key (rescheduled_columns e row c) = pending_key c"
  by (simp add: pending_key_def rescheduled_columns_def)

lemma attempt_cases:
  obtains
    (delivered) ed data where "recover e row = Inr data" "data \<noteq> []" "ed = recovery_edit e row data"
      "ae_GetPartByID e (pa_LoginID row) (pa_AttID row) (attachmentPartID (pa_AttIndex row)) = Inr True"
      "attempt l e row t = (Delivered ed, try_delete (ae_delete_ok e 1) l row t)"
  | (gone) "ae_GetPartByID e (pa_LoginID row) (pa_AttID row) (attachmentPartID (pa_AttIndex row)) = Inr False"
      "attempt l e row t = (Notice_gone, try_delete (ae_delete_ok e 1) l row (try_delete (ae_delete_ok e 0) l row t))"
  | (gave_up) err where
      "pa_AttemptCount row + 1 \<ge> attachmentRetrierMaxAttempts \<or> ae_clock e 3 - pa_CreatedAt row > attachmentRetrierMaxLifetime"
      "attempt l e row t = (Gave_up err, try_delete (ae_delete_ok e 0) l row t)"
  | (again) err where "pa_AttemptCount row + 1 < attachmentRetrierMaxAttempts"
      "ae_clock e 3 - pa_CreatedAt row \<le> attachmentRetrierMaxLifetime"
      "attempt l e row t = (Rescheduled err, if ae_update_ok e
         then update_where (\<lambda>c. pending_key c = row_key l row) (rescheduled_columns e row) t else t)"
proof -
  have resched: thesis if "attempt l e row t = reschedule l e row err t" for err
  proof (cases "pa_AttemptCount row + 1 \<ge> attachmentRetrierMaxAttempts \<or>
      ae_clock e 3 - pa_CreatedAt row > attachmentRetrierMaxLifetime")
    case True
    with \<open>attempt l e row t = reschedule l e row err t\<close> show thesis
      by (intro gave_up [of err]) (simp_all add: reschedule_def try_delete_def pending_Delete_def)
  next
    case False
    with \<open>attempt l e row t = reschedule l e row err t\<close> show thesis
      by (intro again [of err]) (simp_all add: reschedule_def pending_UpdateSchedule_def rescheduled_columns_def [abs_def])
  qed
  show thesis
  proof (cases "recover e row")
    case (Inl err)
    then show thesis by (intro resched [of err]) (simp add: attempt_def)
  next
    case (Inr data)
    show thesis
    proof (cases "data = []")
      case True
      with Inr show thesis by (intro resched [of Empty_recovery]) (simp add: attempt_def)
    next
      case False
      consider err where "ae_GetPartByID e (pa_LoginID row) (pa_AttID row) (attachmentPartID (pa_AttIndex row)) = Inl err"
        | "ae_GetPartByID e (pa_LoginID row) (pa_AttID row) (attachmentPartID (pa_AttIndex row)) = Inr True"
        | "ae_GetPartByID e (pa_LoginID row) (pa_AttID row) (attachmentPartID (pa_AttIndex row)) = Inr False"
        by (metis (full_types) sumE)
      then show thesis
      proof cases
        case 1
        with Inr False show thesis
          by (intro resched [of "Notice_lookup_failed err"]) (simp add: attempt_def deliverAsEdit_def)
      next
        case 2
        with Inr False show thesis by (intro delivered) (simp_all add: attempt_def deliverAsEdit_def)
      next
        case 3
        with Inr False show thesis by (intro gone) (simp_all add: attempt_def deliverAsEdit_def)
      qed
    qed
  qed
qed

lemma try_delete_simps: "try_delete True l row t = delete_where (\<lambda>c. pending_key c = row_key l row) t" "try_delete False l row t = t"
  by (simp_all add: try_delete_def pending_Delete_def)

lemma attempt_pk: "unique_key pending_key t \<Longrightarrow> unique_key pending_key (snd (attempt l e row t))"
  by (rule attempt_cases [of e row l t])
    (simp_all add: try_delete_def pending_Delete_def pending_table.pk_delete_where pending_table.pk_update_where)

lemma lookup_try_delete:
  "unique_key pending_key t \<Longrightarrow> lookup pending_key k (try_delete ok l row t) =
     (if ok \<and> k = row_key l row then None else lookup pending_key k t)"
  by (auto simp: try_delete_def pending_Delete_def pending_table.lookup_delete_where
      dest: pending_table.lookup_Some_in split: option.splits)

lemma try_delete_pk: "unique_key pending_key t \<Longrightarrow> unique_key pending_key (try_delete ok l row t)"
  by (simp add: try_delete_def pending_Delete_def pending_table.pk_delete_where)

lemma attempt_other:
  assumes "unique_key pending_key t" "k \<noteq> row_key l row"
  shows "lookup pending_key k (snd (attempt l e row t)) = lookup pending_key k t"
  by (rule attempt_cases [of e row l t])
    (use assms in \<open>auto simp: lookup_try_delete try_delete_pk pending_table.lookup_update_where
      dest: pending_table.lookup_Some_in split: option.splits intro!: option.map_ident_strong\<close>)

section \<open>The invariant of the retrier\<close>

definition pending_ok :: "login_id \<Rightarrow> pendingAttachmentRow list \<Rightarrow> bool" where
  "pending_ok l t \<longleftrightarrow> unique_key pending_key t \<and>
     (\<forall>c \<in> set t. pa_LoginID c = l \<and> 0 \<le> pa_AttemptCount c \<and> pa_AttemptCount c < attachmentRetrierMaxAttempts)"

definition batch_ok :: "pendingAttachmentRow list \<Rightarrow> pendingAttachmentRow list \<Rightarrow> bool" where
  "batch_ok t rows \<longleftrightarrow> distinct (map pending_key rows) \<and>
     (\<forall>r \<in> set rows. \<exists>c. lookup pending_key (pending_key r) t = Some c \<and> r = scanPendingAttachmentRow c)"

definition budget_left :: "pending_key \<Rightarrow> pendingAttachmentRow list \<Rightarrow> nat" where
  "budget_left k t = (case lookup pending_key k t of None \<Rightarrow> 0 | Some c \<Rightarrow> nat (attachmentRetrierMaxAttempts - pa_AttemptCount c))"

definition within_budget :: "pending_key \<Rightarrow> retrier_state \<Rightarrow> bool" where
  "within_budget k st \<longleftrightarrow> times_tried k (rt_log st) + budget_left k (rt_table st) \<le>
     30 * times_added k (rt_log st) + times_faulted k (rt_log st)"

definition retrier_inv :: "login_id \<Rightarrow> retrier_state \<Rightarrow> bool" where
  "retrier_inv l st \<longleftrightarrow> pending_ok l (rt_table st) \<and> batch_ok (rt_table st) (rt_batch st) \<and> (\<forall>k. within_budget k st)"

lemma pending_ok_enqueue: "pending_ok l t \<Longrightarrow> pending_ok l (enqueue_pending l c t)"
  by (rule enqueue_cases [of l c t])
    (auto simp: pending_ok_def unique_key_def attachmentRetrierMaxAttempts_def pending_table.lookup_None)

lemma pending_ok_delete: "pending_ok l t \<Longrightarrow> pending_ok l (try_delete ok l row t)"
  by (auto simp: pending_ok_def try_delete_pk) (auto simp: try_delete_def pending_Delete_def split: if_splits)

lemma pending_ok_reschedule:
  assumes "pending_ok l t" "0 \<le> pa_AttemptCount row" "pa_AttemptCount row + 1 < attachmentRetrierMaxAttempts"
  shows "pending_ok l (update_where p (rescheduled_columns e row) t)"
proof -
  have "unique_key pending_key (update_where p (rescheduled_columns e row) t)"
    by (rule pending_table.pk_update_where) (use assms(1) in \<open>simp_all add: pending_ok_def\<close>)
  then show ?thesis
    using assms by (auto simp: pending_ok_def in_update_where rescheduled_columns_def split: if_splits)
qed

lemma pending_ok_attempt: "pending_ok l t \<Longrightarrow> 0 \<le> pa_AttemptCount row \<Longrightarrow> pending_ok l (snd (attempt l e row t))"
  by (rule attempt_cases [of e row l t]) (simp_all add: pending_ok_delete pending_ok_reschedule)

lemma batch_ok_enqueue: "batch_ok t rows \<Longrightarrow> batch_ok (enqueue_pending l c t) rows"
  by (rule enqueue_cases [of l c t]) (auto simp: batch_ok_def lookup_snoc)

lemma GetDue_ok:
  assumes "pending_ok l t"
  shows "batch_ok t (pending_GetDue l now n t)"
proof -
  let ?rows = "take n (sort_key pa_NextAttemptAt (filter (due l now) t))"
  have pk: "unique_key pending_key t" using assms by (simp add: pending_ok_def)
  then have "inj_on pending_key (set t)" "distinct t" by (auto simp: unique_key_def distinct_map)
  then have "distinct (map pending_key (sort_key pa_NextAttemptAt (filter (due l now) t)))"
    by (auto simp: distinct_map intro: inj_on_subset)
  then have "distinct (map pending_key ?rows)" by (simp flip: take_map)
  moreover have "set ?rows \<subseteq> set t" using set_take_subset by fastforce
  ultimately show ?thesis
    using pk by (auto simp: batch_ok_def pending_GetDue_def comp_def intro: pending_table.lookup_pk)
qed

lemma batch_row:
  assumes "pending_ok l t" "batch_ok t (row # rows)"
  obtains c where "c \<in> set t" "lookup pending_key (pending_key row) t = Some c" "row = scanPendingAttachmentRow c"
    "pa_LoginID row = l" "row_key l row = pending_key row" "0 \<le> pa_AttemptCount row"
    "pa_AttemptCount row < attachmentRetrierMaxAttempts"
proof -
  from assms(2) obtain c where c: "lookup pending_key (pending_key row) t = Some c" "row = scanPendingAttachmentRow c"
    by (auto simp: batch_ok_def)
  from pending_table.lookup_Some_in [OF c(1)] have "c \<in> set t" ..
  then have "pa_LoginID c = l \<and> 0 \<le> pa_AttemptCount c \<and> pa_AttemptCount c < attachmentRetrierMaxAttempts"
    using assms(1) by (auto simp: pending_ok_def)
  then show thesis by (intro that [OF \<open>c \<in> set t\<close> c]) (simp_all add: c(2) row_key_own)
qed

lemma batch_ok_attempt:
  assumes "pending_ok l t" "batch_ok t (row # rows)"
  shows "batch_ok (snd (attempt l e row t)) rows"
proof -
  obtain key: "row_key l row = pending_key row" by (rule batch_row [OF assms])
  have pk: "unique_key pending_key t" using assms(1) by (simp add: pending_ok_def)
  have "lookup pending_key (pending_key r) (snd (attempt l e row t)) = lookup pending_key (pending_key r) t" if "r \<in> set rows" for r
  proof (rule attempt_other [OF pk])
    show "pending_key r \<noteq> row_key l row"
      unfolding key using assms(2) \<open>r \<in> set rows\<close> by (auto simp: batch_ok_def image_iff)
  qed
  with assms(2) show ?thesis unfolding batch_ok_def by simp
qed

text \<open>The budget of a key after one attempt at its row: one less, unless a statement failed.\<close>

lemma budget_attempt:
  assumes "pending_ok l t" "batch_ok t (row # rows)"
  shows "Suc (budget_left (pending_key row) (snd (attempt l e row t))) \<le>
    budget_left (pending_key row) t + (if statements_ok e then 0 else 1)"
proof -
  obtain c where c: "c \<in> set t" "lookup pending_key (pending_key row) t = Some c" "row = scanPendingAttachmentRow c"
    "row_key l row = pending_key row" "0 \<le> pa_AttemptCount row" "pa_AttemptCount row < attachmentRetrierMaxAttempts"
    by (rule batch_row [OF assms])
  have pk: "unique_key pending_key t" using assms(1) by (simp add: pending_ok_def)
  have left: "budget_left (pending_key row) t = nat (attachmentRetrierMaxAttempts - pa_AttemptCount row)"
    by (simp add: budget_left_def c(2)) (simp add: c(3))
  then have pos: "budget_left (pending_key row) t \<ge> 1" using c(6) by simp
  show ?thesis
  proof (rule attempt_cases [of e row l t], goal_cases)
    case (1 ed data)
    then show ?case using pos pk c(4)
      by (simp add: budget_left_def lookup_try_delete statements_ok_def split: if_splits)
  next
    case 2
    then show ?case using pos pk c(4)
      by (simp add: budget_left_def lookup_try_delete try_delete_pk statements_ok_def split: if_splits)
  next
    case (3 err)
    then show ?case using pos pk c(4)
      by (simp add: budget_left_def lookup_try_delete statements_ok_def split: if_splits)
  next
    case (4 err)
    show ?case
    proof (cases "ae_update_ok e")
      case True
      have "pending_key c = pending_key row" by (simp add: c(3))
      then have "budget_left (pending_key row) (snd (attempt l e row t)) =
          nat (attachmentRetrierMaxAttempts - (pa_AttemptCount row + 1))"
        using True 4(3) c(2,4) by (simp add: budget_left_def pending_table.lookup_update_where rescheduled_columns_def
            pending_key_def)
      then show ?thesis using left c(6) by simp
    next
      case False
      then show ?thesis using 4(3) by (simp add: statements_ok_def)
    qed
  qed
qed

lemma retrier_inv_step:
  assumes "retrier_inv l st"
  shows "retrier_inv l (retrier_step l a st)"
proof -
  have inv: "pending_ok l (rt_table st)" "batch_ok (rt_table st) (rt_batch st)" "within_budget k st" for k
    using assms unfolding retrier_inv_def by blast+
  show ?thesis
  proof (cases a)
    case (Enqueue c)
    let ?t = "rt_table st"
    have "within_budget k (retrier_step l (Enqueue c) st)" for k
    proof (rule enqueue_cases [of l c ?t])
      assume "enqueue_pending l c ?t = ?t"
      then show ?thesis using inv(3) [of k] by (simp add: within_budget_def Let_def)
    next
      fix p
      let ?r = "pending_columns l (pending_row l p (ec_attMsg c) (ec_now c))"
      assume fresh: "lookup pending_key (pending_key ?r) ?t = None" and t: "enqueue_pending l c ?t = ?t @ [?r]"
      have st: "rt_log (retrier_step l (Enqueue c) st) = rt_log st @ [Row_added (pending_key ?r)]"
        "rt_table (retrier_step l (Enqueue c) st) = ?t @ [?r]"
        by (simp_all add: t Let_def del: pending_key_columns)
      have lk: "lookup pending_key k (?t @ [?r]) = (if k = pending_key ?r then Some ?r else lookup pending_key k ?t)"
        using fresh by (auto simp: lookup_snoc split: option.splits)
      show ?thesis
      proof (cases "k = pending_key ?r")
        case True
        with lk have "budget_left k (?t @ [?r]) = 30"
          by (simp add: budget_left_def attachmentRetrierMaxAttempts_def del: pending_key_columns)
        with True show ?thesis using inv(3) [of k]
          by (simp add: within_budget_def st times_added_def times_tried_def times_faulted_def del: pending_key_columns retrier_step.simps)
      next
        case False
        with lk have "budget_left k (?t @ [?r]) = budget_left k ?t" by (simp add: budget_left_def del: pending_key_columns)
        with False show ?thesis using inv(3) [of k]
          by (simp add: within_budget_def st times_added_def times_tried_def times_faulted_def del: pending_key_columns retrier_step.simps)
      qed
    qed
    then show ?thesis using inv(1,2)
      by (simp add: Enqueue retrier_inv_def pending_ok_enqueue batch_ok_enqueue Let_def)
  next
    case (Fetch now ok)
    then show ?thesis using inv by (simp add: retrier_inv_def within_budget_def GetDue_ok)
  next
    case (Attempt e)
    show ?thesis
    proof (cases "rt_batch st")
      case Nil
      then show ?thesis using assms Attempt by simp
    next
      case (Cons row rows)
      obtain out t where at: "attempt l e row (rt_table st) = (out, t)" by fastforce
      have batch: "batch_ok (rt_table st) (row # rows)" using inv(2) Cons by simp
      obtain key: "row_key l row = pending_key row" and count: "0 \<le> pa_AttemptCount row" by (rule batch_row [OF inv(1) batch])
      have pk: "unique_key pending_key (rt_table st)" using inv(1) by (simp add: pending_ok_def)
      have t: "t = snd (attempt l e row (rt_table st))" using at by simp
      have "within_budget k (retrier_step l (Attempt e) st)" for k
      proof (cases "k = pending_key row")
        case True
        with budget_attempt [OF inv(1) batch, of e] inv(3) [of k] show ?thesis
          by (auto simp: Cons at within_budget_def times_added_def times_tried_def times_faulted_def split: if_splits)
      next
        case False
        then have "budget_left k t = budget_left k (rt_table st)"
          unfolding t budget_left_def using key by (subst attempt_other [OF pk]) simp_all
        with False inv(3) [of k] show ?thesis
          by (simp add: Cons at within_budget_def times_added_def times_tried_def times_faulted_def)
      qed
      moreover have "pending_ok l t" unfolding t by (rule pending_ok_attempt [OF inv(1) count])
      moreover have "batch_ok t rows" unfolding t by (rule batch_ok_attempt [OF inv(1) batch])
      ultimately show ?thesis by (simp add: Attempt Cons at retrier_inv_def)
    qed
  next
    case Stop
    then show ?thesis using inv by (simp add: retrier_inv_def within_budget_def batch_ok_def)
  qed
qed

lemma retrier_inv_run: "retrier_inv l (retrier_run l acts)"
proof -
  have "retrier_inv l (fold (retrier_step l) acts st)" if "retrier_inv l st" for st
    using that by (induction acts arbitrary: st) (simp_all add: retrier_inv_step)
  moreover have "retrier_inv l \<lparr>rt_table = [], rt_batch = [], rt_log = []\<rparr>"
    by (simp add: retrier_inv_def pending_ok_def batch_ok_def within_budget_def budget_left_def lookup_def
        times_tried_def unique_key_def)
  ultimately show ?thesis by (simp add: retrier_run_def)
qed

text \<open>A tick without interruption is a fetch and a step for each of its attempts.\<close>

lemma attempts_are_tick_rows:
  "rt_table (fold (retrier_step l) (map Attempt es) st) = snd (tick_rows l (rt_batch st) es (rt_table st))"
proof (induction es arbitrary: st)
  case Nil
  then show ?case by (cases "rt_batch st") simp_all
next
  case (Cons e es)
  then show ?case by (cases "rt_batch st") (simp_all split: prod.splits)
qed

lemma tick_is_run:
  "rt_batch st = [] \<Longrightarrow> rt_table (fold (retrier_step l) (Fetch now ok # map Attempt es @ [Stop]) st) =
     snd (tick l \<lparr>te_now = now, te_query_ok = ok, te_attempts = es\<rparr> (rt_table st))"
  by (simp add: attempts_are_tick_rows tick_def)

text \<open>C26. Whatever the interleaving of incoming messages, ticks and restarts, an attachment is tried at most
  thirty times for each time its row was added, not counting attempts in which an SQL statement failed; a
  replayed message finds the row and does not add it again.
\<close>

theorem recovery_attempts_bounded:
  "times_tried k (rt_log (retrier_run l acts)) \<le>
     30 * times_added k (rt_log (retrier_run l acts)) + times_faulted k (rt_log (retrier_run l acts))"
  using retrier_inv_run [of l acts] unfolding retrier_inv_def within_budget_def by (meson add_leD1)

definition leaves_for_reason :: "attempt_env \<Rightarrow> pendingAttachmentRow \<Rightarrow> attempt_outcome \<Rightarrow> bool" where
  "leaves_for_reason e c out \<longleftrightarrow>
     (case out of
        Delivered ed \<Rightarrow> ed_TargetMessage ed = pa_AttID c \<and>
          (\<exists>data. data \<noteq> [] \<and> recover e (scanPendingAttachmentRow c) = Inr data \<and>
            wa_InlineData (am_Attachment (ed_Data ed)) = Some data)
      | Notice_gone \<Rightarrow> ae_GetPartByID e (pa_LoginID c) (pa_AttID c) (attachmentPartID (pa_AttIndex c)) = Inr False
      | Gave_up err \<Rightarrow> pa_AttemptCount c + 1 \<ge> 30 \<or> ae_clock e 3 - of_millis (pa_CreatedAt c) > 7 * 24 * hour
      | Rescheduled err \<Rightarrow> False)"

text \<open>C29. A pending row leaves the table only in an attempt at it, and only when its edit was queued with
  bytes that were really downloaded, when the placeholder is gone, after thirty failed attempts, or
  more than seven days after it was added. Messages, fetches and restarts never remove a row.
\<close>

theorem pending_row_leaves_for_reason:
  assumes "c \<in> set (rt_table (retrier_run l acts))"
    and "\<forall>d \<in> set (rt_table (retrier_run l (acts @ [a]))). pending_key d \<noteq> pending_key c"
  shows "\<exists>e rows out. a = Attempt e \<and> rt_batch (retrier_run l acts) = scanPendingAttachmentRow c # rows \<and>
    rt_log (retrier_run l (acts @ [a])) = rt_log (retrier_run l acts) @ [Row_tried (pending_key c) out (statements_ok e)] \<and>
    leaves_for_reason e c out"
proof -
  let ?st = "retrier_run l acts"
  have inv: "pending_ok l (rt_table ?st)" "batch_ok (rt_table ?st) (rt_batch ?st)"
    using retrier_inv_run [of l acts] by (simp_all add: retrier_inv_def)
  have run: "retrier_run l (acts @ [a]) = retrier_step l a ?st" by (simp add: retrier_run_def)
  have stays: "c \<notin> set (rt_table (retrier_step l a ?st))" using assms(2) unfolding run by blast
  show ?thesis
  proof (cases a)
    case (Enqueue ec)
    have "c \<in> set (enqueue_pending l ec (rt_table ?st))"
      by (rule enqueue_cases [of l ec "rt_table ?st"]) (use assms(1) in auto)
    with stays Enqueue show ?thesis by (simp add: Let_def)
  next
    case (Attempt e)
    show ?thesis
    proof (cases "rt_batch ?st")
      case Nil
      with stays Attempt assms(1) show ?thesis by simp
    next
      case (Cons row rows)
      obtain out t where at: "attempt l e row (rt_table ?st) = (out, t)" by fastforce
      obtain c' where c': "lookup pending_key (pending_key row) (rt_table ?st) = Some c'" "row = scanPendingAttachmentRow c'"
        "row_key l row = pending_key row"
        by (rule batch_row [OF inv(1) inv(2) [unfolded Cons]])
      have pk: "unique_key pending_key (rt_table ?st)" using inv(1) by (simp add: pending_ok_def)
      have lk: "lookup pending_key (pending_key c) (rt_table ?st) = Some c" by (rule pending_table.lookup_pk [OF pk assms(1)])
      have none: "lookup pending_key (pending_key c) t = None"
        using assms(2) unfolding run unfolding Attempt by (simp add: Cons at pending_table.lookup_None image_iff) metis
      have "pending_key c = pending_key row"
      proof (rule ccontr)
        assume "pending_key c \<noteq> pending_key row"
        then have "lookup pending_key (pending_key c) t = Some c"
          using attempt_other [OF pk, of "pending_key c" l row e] c'(3) lk by (simp add: at)
        with none show False by simp
      qed
      with c'(1) lk have "c' = c" by simp
      have "leaves_for_reason e c out"
      proof (rule attempt_cases [of e row l "rt_table ?st"], goal_cases)
        case (1 ed data)
        have out: "out = Delivered (recovery_edit e row data)" using at 1(3,5) by simp
        have "ed_TargetMessage (recovery_edit e row data) = pa_AttID row"
          "wa_InlineData (am_Attachment (ed_Data (recovery_edit e row data))) = Some data"
          by (simp_all add: recovery_edit_def Let_def)
        then show ?case using 1(1,2) unfolding c'(2) \<open>c' = c\<close> out [unfolded c'(2) \<open>c' = c\<close>] leaves_for_reason_def by simp
      next
        case 2
        then have "out = Notice_gone" using at by simp
        then show ?case using 2(1) c'(2) \<open>c' = c\<close>
          by (simp add: leaves_for_reason_def scanPendingAttachmentRow_def)
      next
        case (3 err)
        then have "out = Gave_up err" using at by simp
        then show ?case using 3(1) c'(2) \<open>c' = c\<close>
          by (simp add: leaves_for_reason_def attachmentRetrierMaxAttempts_def attachmentRetrierMaxLifetime_def)
      next
        case (4 err)
        have "lookup pending_key (pending_key c) t \<noteq> None"
          using 4(3) at lk by (auto simp: pending_table.lookup_update_where)
        with none show ?case by simp
      qed
      then show ?thesis
        using run Attempt Cons at c'(2) \<open>c' = c\<close> by simp
    qed
  qed (use stays assms(1) in \<open>auto split: if_splits\<close>)
qed

section \<open>Fairness of the ticks\<close>

text \<open>The rows of a login that are due no later than a given moment, by their keys.\<close>

definition ahead :: "login_id \<Rightarrow> millis \<Rightarrow> pendingAttachmentRow list \<Rightarrow> pending_key set" where
  "ahead l n t = pending_key ` {c \<in> set t. pa_LoginID c = l \<and> pa_NextAttemptAt c \<le> n}"

definition calm_attempt :: "go_time \<Rightarrow> attempt_env \<Rightarrow> bool" where
  "calm_attempt start e \<longleftrightarrow> statements_ok e \<and> ae_clock e 4 \<ge> start"

text \<open>Messages that arrive between two ticks, then a tick that can work off its whole batch.\<close>

definition calm_round :: "go_time \<Rightarrow> enqueue_call list \<times> tick_env \<Rightarrow> bool" where
  "calm_round start rnd \<longleftrightarrow> list_all (\<lambda>c. ec_now c \<ge> start) (fst rnd) \<and> te_now (snd rnd) \<ge> start \<and>
     te_query_ok (snd rnd) \<and> length (te_attempts (snd rnd)) \<ge> attachmentRetrierBatchLimit \<and>
     list_all (calm_attempt start) (te_attempts (snd rnd))"

fun run_rounds ::
  "login_id \<Rightarrow> (enqueue_call list \<times> tick_env) list \<Rightarrow> pendingAttachmentRow list \<Rightarrow>
   (pending_key \<times> attempt_outcome) list \<times> pendingAttachmentRow list" where
  "run_rounds l [] t = ([], t)"
| "run_rounds l (rnd # rnds) t =
     (let (outs, t1) = tick l (snd rnd) (fold (enqueue_pending l) (fst rnd) t); (outs', t2) = run_rounds l rnds t1
      in (outs @ outs', t2))"

lemma finite_ahead: "finite (ahead l n t)"
  by (simp add: ahead_def)

lemma backoff_min: "attachmentRetrierBackoff k \<ge> 30 * second"
  by (simp add: attachmentRetrierBackoff_def time_defs)

lemma later_than: "start \<le> now \<Longrightarrow> n \<le> to_millis start \<Longrightarrow> n < to_millis (now + attachmentRetrierBackoff k)"
  using backoff_min [of k] unfolding time_defs by linarith

lemma ahead_delete: "ahead l n (try_delete True l row t) = ahead l n t - {row_key l row}"
  by (auto simp: ahead_def try_delete_simps)

lemma ahead_try_delete: "ahead l n (try_delete ok l row t) \<subseteq> ahead l n t"
  by (cases ok) (auto simp: ahead_delete, simp add: try_delete_simps)

lemma ahead_snoc: "\<not> pa_NextAttemptAt r \<le> n \<Longrightarrow> ahead l n (t @ [r]) = ahead l n t"
  by (auto simp: ahead_def)

lemma attempt_ahead:
  assumes "calm_attempt start e" "n \<le> to_millis start"
  shows "ahead l n (snd (attempt l e row t)) \<subseteq> ahead l n t - {row_key l row}"
proof -
  have ok: "ae_delete_ok e 0" "ae_delete_ok e 1" "ae_update_ok e" using assms(1) by (simp_all add: calm_attempt_def statements_ok_def)
  show ?thesis
  proof (rule attempt_cases [of e row l t], goal_cases)
    case (1 ed data)
    then show ?case using ok by (simp add: ahead_delete)
  next
    case 2
    then show ?case using ok by (simp add: ahead_delete)
  next
    case (3 err)
    then show ?case using ok by (simp add: ahead_delete)
  next
    case (4 err)
    have "n < to_millis (ae_clock e 4 + attachmentRetrierBackoff (pa_AttemptCount row + 1))"
      by (rule later_than [OF _ assms(2)]) (use assms(1) in \<open>simp add: calm_attempt_def\<close>)
    then have late: "n < pa_NextAttemptAt (rescheduled_columns e row c)" for c by (simp add: rescheduled_columns_def)
    show ?case
    proof
      fix k assume "k \<in> ahead l n (snd (attempt l e row t))"
      then obtain d where d: "d \<in> set (update_where (\<lambda>c. pending_key c = row_key l row) (rescheduled_columns e row) t)"
        "pa_LoginID d = l" "pa_NextAttemptAt d \<le> n" "k = pending_key d"
        using 4(3) ok(3) by (auto simp: ahead_def)
      from d(1) show "k \<in> ahead l n t - {row_key l row}"
      proof (cases rule: update_whereE)
        case (hit c)
        then show ?thesis using d(3) late [of c] by simp
      next
        case miss
        then show ?thesis using d by (auto simp: ahead_def)
      qed
    qed
  qed
qed

lemma tick_rows_keys: "length rows \<le> length es \<Longrightarrow> map fst (fst (tick_rows l rows es t)) = map pending_key rows"
  by (induction l rows es t rule: tick_rows.induct) (auto split: prod.splits)

lemma tick_rows_pk: "unique_key pending_key t \<Longrightarrow> unique_key pending_key (snd (tick_rows l rows es t))"
proof (induction l rows es t rule: tick_rows.induct)
  case (3 l row rows e es t)
  then show ?case using attempt_pk [of t l e row] by (auto split: prod.splits)
qed simp_all

lemma tick_rows_other:
  "unique_key pending_key t \<Longrightarrow> \<forall>row \<in> set rows. pa_LoginID row = l \<Longrightarrow> k \<notin> pending_key ` set rows \<Longrightarrow>
   lookup pending_key k (snd (tick_rows l rows es t)) = lookup pending_key k t"
proof (induction l rows es t rule: tick_rows.induct)
  case (3 l row rows e es t)
  have "lookup pending_key k (snd (attempt l e row t)) = lookup pending_key k t"
    using "3.prems" by (intro attempt_other) (auto simp: row_key_own)
  then show ?case using 3 attempt_pk [of t l e row] by (auto split: prod.splits)
qed simp_all

lemma tick_rows_ahead:
  "n \<le> to_millis start \<Longrightarrow> \<forall>row \<in> set rows. pa_LoginID row = l \<Longrightarrow> length rows \<le> length es \<Longrightarrow>
   list_all (calm_attempt start) es \<Longrightarrow>
   ahead l n (snd (tick_rows l rows es t)) \<subseteq> ahead l n t - pending_key ` set rows"
proof (induction l rows es t rule: tick_rows.induct)
  case (3 l row rows e es t)
  obtain out t1 where at: "attempt l e row t = (out, t1)" by fastforce
  have first: "ahead l n t1 \<subseteq> ahead l n t - {pending_key row}"
    using attempt_ahead [of start e n l row t] "3.prems" by (simp add: at row_key_own)
  have "ahead l n (snd (tick_rows l rows es t1)) \<subseteq> ahead l n t1 - pending_key ` set rows"
    using 3 at by simp
  with first show ?case by (auto simp: at split: prod.splits)
qed simp_all

lemma enqueues_keep:
  assumes "unique_key pending_key t" "lookup pending_key k t = Some c" "n \<le> to_millis start" "list_all (\<lambda>c. ec_now c \<ge> start) cs"
  shows "unique_key pending_key (fold (enqueue_pending l) cs t) \<and>
    lookup pending_key k (fold (enqueue_pending l) cs t) = Some c \<and>
    ahead l n (fold (enqueue_pending l) cs t) \<subseteq> ahead l n t"
  using assms
proof (induction cs arbitrary: t)
  case (Cons ec cs)
  have "unique_key pending_key (enqueue_pending l ec t) \<and> lookup pending_key k (enqueue_pending l ec t) = Some c \<and>
    ahead l n (enqueue_pending l ec t) \<subseteq> ahead l n t"
  proof (rule enqueue_cases [of l ec t])
    assume "enqueue_pending l ec t = t"
    with Cons.prems show ?thesis by simp
  next
    fix p
    let ?r = "pending_columns l (pending_row l p (ec_attMsg ec) (ec_now ec))"
    assume fresh: "lookup pending_key (pending_key ?r) t = None" and t: "enqueue_pending l ec t = t @ [?r]"
    have "unique_key pending_key (t @ [?r])"
      using fresh Cons.prems(1) by (auto simp: unique_key_def pending_table.lookup_None simp del: pending_key_columns)
    moreover have "\<not> pa_NextAttemptAt ?r \<le> n"
      using later_than [OF _ Cons.prems(3), of "ec_now ec" 1] Cons.prems(4) by simp
    then have "ahead l n (t @ [?r]) = ahead l n t" by (rule ahead_snoc)
    ultimately show ?thesis unfolding t using Cons.prems(2) by (simp add: lookup_snoc)
  qed
  then show ?case using Cons.IH [of "enqueue_pending l ec t"] Cons.prems(3,4) by auto
qed simp

text \<open>One calm tick: a due row is in the batch, or the fifty rows of the batch were ahead of it.\<close>

lemma tick_progress:
  assumes "unique_key pending_key t" "c \<in> set t" "pa_LoginID c = l" "pa_NextAttemptAt c \<le> to_millis start"
    and "te_now te \<ge> start" "te_query_ok te" "length (te_attempts te) \<ge> attachmentRetrierBatchLimit"
    and "list_all (calm_attempt start) (te_attempts te)"
    and "pending_key c \<notin> fst ` set (fst (tick l te t))"
  shows "unique_key pending_key (snd (tick l te t))" "lookup pending_key (pending_key c) (snd (tick l te t)) = Some c"
    and "card (ahead l (pa_NextAttemptAt c) (snd (tick l te t))) + 50 \<le> card (ahead l (pa_NextAttemptAt c) t)"
proof -
  define sorted_due where "sorted_due = sort_key pa_NextAttemptAt (filter (due l (te_now te)) t)"
  define taken where "taken = take 50 sorted_due"
  let ?rows = "map scanPendingAttachmentRow taken"
  have batch: "pending_GetDue l (te_now te) attachmentRetrierBatchLimit t = ?rows"
    by (simp add: pending_GetDue_def taken_def sorted_due_def attachmentRetrierBatchLimit_def)
  have len: "length ?rows \<le> length (te_attempts te)"
    using assms(7) by (simp add: taken_def attachmentRetrierBatchLimit_def)
  have tick: "tick l te t = tick_rows l ?rows (te_attempts te) t" by (simp add: tick_def assms(6) batch)
  have keys: "fst ` set (fst (tick l te t)) = pending_key ` set taken"
    using arg_cong [OF tick_rows_keys [OF len, of l t], of set] by (simp add: tick image_image)
  have login: "\<forall>row \<in> set ?rows. pa_LoginID row = l"
    by (auto simp: taken_def sorted_due_def due_def dest!: in_set_takeD)
  have "to_millis start \<le> to_millis (te_now te)" using assms(5) by (simp add: to_millis_def zdiv_mono1)
  then have "c \<in> set sorted_due" using assms(2-4) by (simp add: sorted_due_def due_def)
  moreover have "c \<notin> set taken" using assms(9) unfolding keys by blast
  ultimately have c: "c \<in> set (drop 50 sorted_due)"
    by (metis append_take_drop_id Un_iff set_append taken_def)
  then have "length taken = 50" by (cases "length sorted_due \<le> 50") (auto simp: taken_def)
  have "sorted (map pa_NextAttemptAt (taken @ drop 50 sorted_due))"
    by (simp add: taken_def sorted_due_def)
  then have "pa_NextAttemptAt d \<le> pa_NextAttemptAt c" if "d \<in> set taken" for d
    using c that by (auto simp: sorted_append)
  moreover have sub: "set taken \<subseteq> {d \<in> set t. pa_LoginID d = l}"
    by (auto simp: taken_def sorted_due_def due_def dest!: in_set_takeD)
  ultimately have taken_ahead: "pending_key ` set taken \<subseteq> ahead l (pa_NextAttemptAt c) t" by (auto simp: ahead_def)
  have "inj_on pending_key (set t)" "distinct t" using assms(1) by (auto simp: unique_key_def distinct_map)
  then have "distinct taken" "inj_on pending_key (set taken)"
    using sub by (auto simp: taken_def sorted_due_def intro: inj_on_subset)
  then have fifty: "card (pending_key ` set taken) = 50"
    using \<open>length taken = 50\<close> by (simp add: card_image distinct_card)
  have "ahead l (pa_NextAttemptAt c) (snd (tick l te t)) \<subseteq> ahead l (pa_NextAttemptAt c) t - pending_key ` set taken"
    using tick_rows_ahead [OF assms(4) login len assms(8), of t] unfolding tick by (simp add: image_image)
  then have "card (ahead l (pa_NextAttemptAt c) (snd (tick l te t))) \<le> card (ahead l (pa_NextAttemptAt c) t - pending_key ` set taken)"
    by (rule card_mono [OF finite_Diff [OF finite_ahead]])
  also have "\<dots> = card (ahead l (pa_NextAttemptAt c) t) - 50"
    by (simp add: card_Diff_subset [OF _ taken_ahead] fifty)
  finally show "card (ahead l (pa_NextAttemptAt c) (snd (tick l te t))) + 50 \<le> card (ahead l (pa_NextAttemptAt c) t)"
    using card_mono [OF finite_ahead taken_ahead] fifty by linarith
  show "unique_key pending_key (snd (tick l te t))" unfolding tick by (rule tick_rows_pk [OF assms(1)])
  have "pending_key c \<notin> pending_key ` set ?rows" using assms(9) unfolding keys by (simp add: image_image)
  from tick_rows_other [OF assms(1) login this]
  show "lookup pending_key (pending_key c) (snd (tick l te t)) = Some c"
    unfolding tick by (simp add: pending_table.lookup_pk [OF assms(1,2)])
qed

lemma ahead_length:
  assumes "unique_key pending_key t"
  shows "card (ahead l n t) = length (filter (\<lambda>d. pa_LoginID d = l \<and> pa_NextAttemptAt d \<le> n) t)"
proof -
  have "distinct (map pending_key (filter (\<lambda>d. pa_LoginID d = l \<and> pa_NextAttemptAt d \<le> n) t))"
    using assms unfolding unique_key_def by (rule distinct_map_filter)
  from distinct_card [OF this] show ?thesis by (simp add: ahead_def)
qed

lemma rounds_reach:
  assumes "unique_key pending_key t" "c \<in> set t" "pa_LoginID c = l" "pa_NextAttemptAt c \<le> to_millis start"
    and "list_all (calm_round start) rounds" "card (ahead l (pa_NextAttemptAt c) t) \<le> 50 * length rounds"
  shows "pending_key c \<in> fst ` set (fst (run_rounds l rounds t))"
  using assms
proof (induction rounds arbitrary: t)
  case Nil
  have "pending_key c \<in> ahead l (pa_NextAttemptAt c) t" using Nil.prems by (auto simp: ahead_def)
  with Nil.prems(6) finite_ahead show ?case by (metis card_gt_0_iff emptyE le_zero_eq list.size(3) mult_0_right neq0_conv)
next
  case (Cons rnd rounds)
  obtain cs te where rnd: "rnd = (cs, te)" by fastforce
  let ?t = "fold (enqueue_pending l) cs t"
  have calm: "list_all (\<lambda>c. ec_now c \<ge> start) cs" "te_now te \<ge> start" "te_query_ok te"
    "length (te_attempts te) \<ge> attachmentRetrierBatchLimit" "list_all (calm_attempt start) (te_attempts te)"
    using Cons.prems(5) by (simp_all add: rnd calm_round_def)
  have "lookup pending_key (pending_key c) t = Some c" by (rule pending_table.lookup_pk [OF Cons.prems(1,2)])
  from enqueues_keep [OF Cons.prems(1) this Cons.prems(4) calm(1), of l]
  have enq: "unique_key pending_key ?t" "lookup pending_key (pending_key c) ?t = Some c"
    "ahead l (pa_NextAttemptAt c) ?t \<subseteq> ahead l (pa_NextAttemptAt c) t" by blast+
  have c: "c \<in> set ?t" using pending_table.lookup_Some_in [OF enq(2)] by blast
  have fewer: "card (ahead l (pa_NextAttemptAt c) ?t) \<le> card (ahead l (pa_NextAttemptAt c) t)"
    by (rule card_mono [OF finite_ahead enq(3)])
  obtain outs t1 where tick: "tick l te ?t = (outs, t1)" by fastforce
  have run: "fst (run_rounds l (rnd # rounds) t) = outs @ fst (run_rounds l rounds t1)"
    by (simp add: rnd tick split: prod.splits)
  show ?case
  proof (cases "pending_key c \<in> fst ` set outs")
    case True
    then show ?thesis unfolding run by auto
  next
    case False
    then have out: "pending_key c \<notin> fst ` set (fst (tick l te ?t))" by (simp add: tick)
    note progress = tick_progress [OF enq(1) c Cons.prems(3,4) calm(2-5) out, unfolded tick snd_conv]
    have "pending_key c \<in> fst ` set (fst (run_rounds l rounds t1))"
    proof (rule Cons.IH)
      show "c \<in> set t1" using pending_table.lookup_Some_in [OF progress(2)] by blast
      show "card (ahead l (pa_NextAttemptAt c) t1) \<le> 50 * length rounds"
        using progress(3) fewer Cons.prems(6) by simp
    qed (use progress(1) Cons.prems in simp_all)
    then show ?thesis unfolding run by auto
  qed
qed

text \<open>C27. No pending attachment starves: when ticks run to their end and no statement fails, a due row is
  attempted within one tick per fifty rows due before it, whatever else is enqueued in between and
  however the other attempts turn out.
\<close>

theorem due_row_attempted:
  assumes "unique_key pending_key t" "c \<in> set t" "pa_LoginID c = l" "pa_NextAttemptAt c \<le> to_millis start"
    and "list_all (calm_round start) rounds"
    and "length (filter (\<lambda>d. pa_LoginID d = l \<and> pa_NextAttemptAt d \<le> pa_NextAttemptAt c) t) \<le> 50 * length rounds"
  shows "pending_key c \<in> fst ` set (fst (run_rounds l rounds t))"
  by (rule rounds_reach [OF assms(1-5)]) (use assms(6) in \<open>simp add: ahead_length [OF assms(1)]\<close>)

section \<open>What a queued edit replaces\<close>

lemma itoa_inj: "0 \<le> i \<Longrightarrow> 0 \<le> j \<Longrightarrow> itoa i = itoa j \<Longrightarrow> i = j"
  unfolding itoa_def by (simp, metis digits_value_nat_digits eq_nat_nat_iff)

text \<open>The events of a message: the inline IDs are those of \<^verbatim>\<open>makeAttID\<close>, and no two of them agree.\<close>

lemma live_attachments_mem:
  "x \<in> set (live_attachments msg h i atts) \<Longrightarrow> 0 \<le> i \<Longrightarrow>
   am_Message (snd x) = msg \<and> am_Index (snd x) \<ge> i \<and> fst x = makeAttID (wm_Uuid msg) (am_Index (snd x)) h \<and>
   am_Attachment (snd x) \<in> set atts \<and> \<not> wa_Iris (am_Attachment (snd x))"
proof (induction msg h i atts rule: live_attachments.induct)
  case (2 msg h i att atts)
  then show ?case by (auto simp: makeAttID_def Let_def split: if_splits)
qed simp

lemma live_attachments_distinct:
  "0 \<le> i \<Longrightarrow> distinct (map fst (live_attachments msg h i atts))"
proof (induction msg h i atts rule: live_attachments.induct)
  case (2 msg h i att atts)
  let ?id = "if i > 0 \<or> h then wm_Uuid msg @ ''_att'' @ itoa i else wm_Uuid msg"
  have other: "?id \<noteq> fst x"
    if "x \<in> set (live_attachments msg h (i + 1) atts)" for x
  proof -
    have x: "am_Index (snd x) \<ge> i + 1" "fst x = makeAttID (wm_Uuid msg) (am_Index (snd x)) h"
      using live_attachments_mem [OF that] 2(4) by simp_all
    then have "itoa i \<noteq> itoa (am_Index (snd x))" using itoa_inj [of i "am_Index (snd x)"] 2(4) by auto
    with x 2(4) show ?thesis by (auto simp: makeAttID_def)
  qed
  have new: "?id \<notin> fst ` set (live_attachments msg h (i + 1) atts)"
  proof
    assume "?id \<in> fst ` set (live_attachments msg h (i + 1) atts)"
    then show False by (rule imageE) (use other in blast)
  qed
  show ?case
  proof (cases "wa_MimeType att = ''x-richlink/meta'' \<or> wa_MimeType att = ''x-richlink/image'' \<or> wa_Iris att")
    case True
    then have "live_attachments msg h i (att # atts) = live_attachments msg h i atts" by auto
    moreover have "distinct (map fst (live_attachments msg h i atts))"
      using True 2(1,2,4) by blast
    ultimately show ?thesis by simp
  next
    case False
    then have "map fst (live_attachments msg h i (att # atts)) = ?id # map fst (live_attachments msg h (i + 1) atts)"
      by (simp add: Let_def)
    moreover have "distinct (map fst (live_attachments msg h (i + 1) atts))"
      using False 2(3,4) by simp
    ultimately show ?thesis using new by simp
  qed
qed simp

lemma live_event_ids_distinct: "distinct (live_event_ids msg)"
proof -
  have "wm_Uuid msg \<noteq> fst x" if "x \<in> set (live_events msg)" "liveMessageHasText msg" for x
    using live_attachments_mem [OF that(1) [unfolded live_events_def]] that(2) by (auto simp: makeAttID_def)
  then show ?thesis
    by (auto simp: live_event_ids_def live_events_def live_attachments_distinct)
qed

lemma live_events_id:
  "(attID, am) \<in> set (live_events msg) \<Longrightarrow> attID = makeAttID (wm_Uuid msg) (am_Index am) (liveMessageHasText msg)"
  unfolding live_events_def using live_attachments_mem [of "(attID, am)" msg] by simp

definition payload :: "pendingAttachmentRow \<Rightarrow> pendingAttachmentRow" where
  "payload c = c\<lparr>pa_CreatedAt := 0, pa_LastAttemptAt := 0, pa_AttemptCount := 0, pa_NextAttemptAt := 0\<rparr>"

definition origin :: "login_id \<Rightarrow> retrier_action list \<Rightarrow> pendingAttachmentRow \<Rightarrow> bool" where
  "origin l acts c \<longleftrightarrow> (\<exists>ec p. Enqueue ec \<in> set acts \<and> ec_portal ec = Some p \<and>
     payload c = payload (pending_row l p (ec_attMsg ec) (ec_now ec)))"

lemma payload_simps [simp]:
  "payload (scanPendingAttachmentRow c) = payload c" "payload (rescheduled_columns e row c) = payload c"
  "payload (pending_columns l (pending_row l p m now)) = payload (pending_row l p m now)"
  by (simp_all add: payload_def scanPendingAttachmentRow_def rescheduled_columns_def pending_columns_def pending_row_def Let_def)

lemma attempt_payload: "d \<in> set (snd (attempt l e row t)) \<Longrightarrow> \<exists>c \<in> set t. payload d = payload c"
  by (rule attempt_cases [of e row l t])
    (auto simp: try_delete_def pending_Delete_def in_update_where split: if_splits)

lemma origin_mono: "origin l acts c \<Longrightarrow> origin l (acts @ [a]) c"
  by (auto simp: origin_def)

lemma origin_payload: "origin l acts c \<Longrightarrow> payload d = payload c \<Longrightarrow> origin l acts d"
  by (simp add: origin_def)

lemma run_snoc: "retrier_run l (acts @ [a]) = retrier_step l a (retrier_run l acts)"
  by (simp add: retrier_run_def)

lemma table_origin: "c \<in> set (rt_table (retrier_run l acts)) \<Longrightarrow> origin l acts c"
proof (induction acts arbitrary: c rule: rev_induct)
  case Nil
  then show ?case by (simp add: retrier_run_def)
next
  case (snoc a acts)
  let ?st = "retrier_run l acts"
  show ?case
  proof (cases a)
    case (Enqueue ec)
    have "c \<in> set (enqueue_pending l ec (rt_table ?st))" using snoc.prems by (simp add: run_snoc Enqueue Let_def)
    then have "c \<in> set (rt_table ?st) \<or> (\<exists>p. ec_portal ec = Some p \<and> c = pending_columns l (pending_row l p (ec_attMsg ec) (ec_now ec)))"
      by (rule_tac enqueue_cases [of l ec "rt_table ?st"]) auto
    then show ?thesis
    proof (elim disjE exE conjE)
      assume "c \<in> set (rt_table ?st)"
      then show ?thesis by (intro origin_mono snoc.IH)
    next
      fix p assume "ec_portal ec = Some p" "c = pending_columns l (pending_row l p (ec_attMsg ec) (ec_now ec))"
      then show ?thesis unfolding origin_def Enqueue by (intro exI [of _ ec] exI [of _ p]) simp
    qed
  next
    case (Attempt e)
    show ?thesis
    proof (cases "rt_batch ?st")
      case Nil
      then show ?thesis using snoc Attempt by (simp add: run_snoc origin_mono)
    next
      case (Cons row rows)
      have "c \<in> set (snd (attempt l e row (rt_table ?st)))"
        using snoc.prems by (simp add: run_snoc Attempt Cons split: prod.splits)
      then obtain d where "d \<in> set (rt_table ?st)" "payload c = payload d" using attempt_payload by blast
      then show ?thesis using snoc.IH origin_mono origin_payload by blast
    qed
  qed (use snoc in \<open>auto simp: run_snoc origin_mono split: if_splits\<close>)
qed

lemma delivered_origin:
  "Row_tried k (Delivered ed) ok \<in> set (rt_log (retrier_run l acts)) \<Longrightarrow>
   \<exists>e row data. Attempt e \<in> set acts \<and> origin l acts row \<and> recover e row = Inr data \<and> data \<noteq> [] \<and>
     ed = recovery_edit e row data \<and> k = pending_key row"
proof (induction acts rule: rev_induct)
  case Nil
  then show ?case by (simp add: retrier_run_def)
next
  case (snoc a acts)
  let ?st = "retrier_run l acts"
  show ?case
  proof (cases "Row_tried k (Delivered ed) ok \<in> set (rt_log ?st)")
    case True
    with snoc.IH show ?thesis using origin_mono by (metis UnCI set_append)
  next
    case False
    then obtain e where a: "a = Attempt e" using snoc.prems
      by (cases a) (auto simp: run_snoc Let_def split: if_splits)
    then obtain row rows where batch: "rt_batch ?st = row # rows"
      using snoc.prems False by (cases "rt_batch ?st") (auto simp: run_snoc)
    have at: "fst (attempt l e row (rt_table ?st)) = Delivered ed" "k = pending_key row"
      using snoc.prems False by (auto simp: run_snoc a batch split: prod.splits)
    from retrier_inv_run [of l acts] have inv: "pending_ok l (rt_table ?st)" "batch_ok (rt_table ?st) (row # rows)"
      by (simp_all add: retrier_inv_def batch)
    obtain c where c: "c \<in> set (rt_table ?st)" "row = scanPendingAttachmentRow c" by (rule batch_row [OF inv])
    have "origin l (acts @ [a]) row"
      by (rule origin_payload [OF origin_mono [OF table_origin [OF c(1)]]]) (simp add: c(2))
    moreover obtain data where "recover e row = Inr data" "ed = recovery_edit e row data" "data \<noteq> []"
      by (rule attempt_cases [of e row l "rt_table ?st"]) (use at(1) in auto)
    moreover have "Attempt e \<in> set (acts @ [a])" by (simp add: a)
    ultimately show ?thesis using at(2) by blast
  qed
qed

text \<open>
  The bytes an attempt may deliver for an attachment: what the retry with the attachment's own descriptor and
  file name returned; if that failed, the download of the CloudKit record the cache holds for the
  attachment's message and index.
\<close>

definition fetched :: "attempt_env \<Rightarrow> attachmentMessage \<Rightarrow> string \<Rightarrow> bool" where
  "fetched e am data \<longleftrightarrow>
     (let att = am_Attachment am;
          mmcs = (\<lambda>retry. retry (text_or_empty (wa_MmcsDescriptorJson att)) (wa_Filename att))
      in (\<exists>retry. ae_RetryMmcs e = Some retry \<and> mmcs retry = Inr data) \<or>
         (\<forall>retry. ae_RetryMmcs e = Some retry \<longrightarrow> (\<exists>err. mmcs retry = Inl err)) \<and>
         (\<exists>s db recordName. ae_cloudStore e = Some (s, db) \<and>
            getAttachmentRecordName s (wm_Uuid (am_Message am)) (am_Index am) db = Inr recordName \<and> recordName \<noteq> [] \<and>
            ae_CloudDownload e recordName = Inr data))"

definition recovers :: "login_id \<Rightarrow> attempt_env \<Rightarrow> remote_edit \<Rightarrow> enqueue_call \<Rightarrow> bool" where
  "recovers l e ed ec \<longleftrightarrow>
     (let am = ec_attMsg ec; msg = am_Message am
      in (\<exists>p. ec_portal ec = Some p \<and> ed_PortalKey ed = (p, l)) \<and>
         ed_TargetMessage ed = makeAttID (wm_Uuid msg) (am_Index am) (liveMessageHasText msg) \<and>
         wm_Uuid (am_Message (ed_Data ed)) = wm_Uuid msg \<and>
         wm_TimestampMs (am_Message (ed_Data ed)) = wm_TimestampMs msg \<and>
         am_Index (ed_Data ed) = am_Index am \<and>
         ed_Sender ed = (case wm_Sender msg of None \<Rightarrow> [] | Some s \<Rightarrow> s) \<and>
         (\<exists>data. data \<noteq> [] \<and> fetched e am data \<and> am_Attachment (ed_Data ed) =
            (am_Attachment am)\<lparr>wa_IsInline := True, wa_InlineData := Some data, wa_MmcsDescriptorJson := None, wa_Iris := False\<rparr>))"

lemma payload_fields:
  "payload c = payload d \<Longrightarrow> pa_LoginID c = pa_LoginID d \<and> pa_MessageGUID c = pa_MessageGUID d \<and>
     pa_AttIndex c = pa_AttIndex d \<and> pa_AttID c = pa_AttID d \<and> pa_PortalID c = pa_PortalID d \<and>
     pa_TimestampMs c = pa_TimestampMs d \<and> pa_Filename c = pa_Filename d \<and> pa_MimeType c = pa_MimeType d \<and>
     pa_UtiType c = pa_UtiType d \<and> pa_SizeBytes c = pa_SizeBytes d \<and> pa_MmcsDescriptor c = pa_MmcsDescriptor d \<and>
     pa_Sender c = pa_Sender d"
  by (cases c; cases d) (simp add: payload_def)

lemma recover_fetched:
  assumes "recover e row = Inr data" "pa_MmcsDescriptor row = text_or_empty (wa_MmcsDescriptorJson (am_Attachment am))"
    "pa_Filename row = wa_Filename (am_Attachment am)" "pa_MessageGUID row = wm_Uuid (am_Message am)" "pa_AttIndex row = am_Index am"
  shows "fetched e am data"
  using assms(1) unfolding recover_def downloadViaMMCS_def downloadViaCloudKit_def fetched_def assms(2-5)
  by (auto simp: Let_def split: option.splits sum.splits if_splits)

lemma recovery_edit_recovers:
  assumes "ec_portal ec = Some p" "payload row = payload (pending_row l p (ec_attMsg ec) (ec_now ec))" "recover e row = Inr data" "data \<noteq> []"
  shows "recovers l e (recovery_edit e row data) ec"
    and "pending_key row = (l, wm_Uuid (am_Message (ec_attMsg ec)), am_Index (ec_attMsg ec))"
proof -
  let ?r = "pending_row l p (ec_attMsg ec) (ec_now ec)"
  have same: "pa_LoginID row = pa_LoginID ?r" "pa_MessageGUID row = pa_MessageGUID ?r" "pa_AttIndex row = pa_AttIndex ?r"
    "pa_AttID row = pa_AttID ?r" "pa_PortalID row = pa_PortalID ?r" "pa_TimestampMs row = pa_TimestampMs ?r"
    "pa_Filename row = pa_Filename ?r" "pa_MimeType row = pa_MimeType ?r" "pa_UtiType row = pa_UtiType ?r"
    "pa_SizeBytes row = pa_SizeBytes ?r" "pa_MmcsDescriptor row = pa_MmcsDescriptor ?r" "pa_Sender row = pa_Sender ?r"
    using payload_fields [OF assms(2)] by blast+
  have "fetched e (ec_attMsg ec) data"
    by (rule recover_fetched [OF assms(3)]) (simp_all add: same pending_row_def Let_def)
  then show "recovers l e (recovery_edit e row data) ec"
    using assms(1,4) by (cases "am_Attachment (ec_attMsg ec)") (simp add: recovers_def recovery_edit_def same pending_row_def Let_def)
  show "pending_key row = (l, wm_Uuid (am_Message (ec_attMsg ec)), am_Index (ec_attMsg ec))"
    by (simp add: pending_key_def same pending_row_def Let_def)
qed

text \<open>C28. Every edit the retrier queues, in any run, restores an attachment that was enqueued: in the portal of
  its message, for the placeholder event \<^verbatim>\<open>handleMessage\<close> queued for that very attachment, with its name,
  types, size, index and time stamp. Its bytes are what one of the attempts downloaded for that very
  attachment, with its own descriptor, or from the CloudKit record of its message and index once the retry
  with the descriptor had failed.
\<close>

theorem recovered_edit_faithful:
  assumes "Row_tried k (Delivered ed) ok \<in> set (rt_log (retrier_run l acts))"
  shows "\<exists>ec e. Enqueue ec \<in> set acts \<and> Attempt e \<in> set acts \<and> recovers l e ed ec \<and>
    k = (l, wm_Uuid (am_Message (ec_attMsg ec)), am_Index (ec_attMsg ec)) \<and>
    (\<forall>attID. (attID, ec_attMsg ec) \<in> set (live_events (am_Message (ec_attMsg ec))) \<longrightarrow> ed_TargetMessage ed = attID)"
proof -
  obtain e row data where d: "origin l acts row" "ed = recovery_edit e row data" "recover e row = Inr data" "data \<noteq> []"
    "k = pending_key row" "Attempt e \<in> set acts"
    using delivered_origin [OF assms] by blast
  obtain ec p where ec: "Enqueue ec \<in> set acts" "ec_portal ec = Some p"
    "payload row = payload (pending_row l p (ec_attMsg ec) (ec_now ec))"
    using d(1) unfolding origin_def by blast
  note rec = recovery_edit_recovers(1) [OF ec(2,3) d(3,4), folded d(2)]
    recovery_edit_recovers(2) [OF ec(2,3) d(3,4), folded d(5)]
  have "ed_TargetMessage ed = attID" if "(attID, ec_attMsg ec) \<in> set (live_events (am_Message (ec_attMsg ec)))" for attID
    using rec(1) live_events_id [OF that] by (simp add: recovers_def Let_def)
  with ec(1) rec d(6) show ?thesis by blast
qed

section \<open>A recovery\<close>

definition sample_photo :: WrappedAttachment where
  "sample_photo = \<lparr>wa_MimeType = ''image/png'', wa_Filename = ''a.png'', wa_UtiType = [], wa_Size = 3, wa_IsInline = False,
     wa_InlineData = None, wa_MmcsDescriptorJson = Some ''d'', wa_Iris = False\<rparr>"

definition sample_photo_message :: attachmentMessage where
  "sample_photo_message = \<lparr>am_Message = \<lparr>wm_Uuid = ''u'', wm_Text = None, wm_Subject = None, wm_Sender = Some ''s'',
     wm_TimestampMs = 5, wm_Attachments = [sample_photo]\<rparr>, am_Attachment = sample_photo, am_Index = 0\<rparr>"

definition sample_enqueue :: enqueue_call where
  "sample_enqueue = \<lparr>ec_portal = Some ''p'', ec_attMsg = sample_photo_message, ec_now = 0, ec_insert_ok = (\<lambda>_. True),
     ec_expired = (\<lambda>_. False)\<rparr>"

definition sample_download :: attempt_env where
  "sample_download = \<lparr>ae_RetryMmcs = Some (\<lambda>_ _. Inr ''png''), ae_cloudStore = None, ae_CloudDownload = (\<lambda>_. Inl []),
     ae_GetPartByID = (\<lambda>_ _ _. Inr True), ae_clock = (\<lambda>_. 60000000000), ae_delete_ok = (\<lambda>_. True), ae_update_ok = True\<rparr>"

definition sample_pending :: pendingAttachmentRow where
  "sample_pending = pending_columns ''l'' (pending_row ''l'' ''p'' sample_photo_message 0)"

lemmas sample_recovery = sample_photo_def sample_photo_message_def sample_enqueue_def sample_download_def sample_pending_def

lemma sample_enqueued: "rt_table (retrier_run ''l'' [Enqueue sample_enqueue, Fetch 60000000000 True]) = [sample_pending]"
  by code_simp


lemma sample_batch: "rt_batch (retrier_run ''l'' [Enqueue sample_enqueue, Fetch 60000000000 True]) = [scanPendingAttachmentRow sample_pending]"
  by code_simp

lemma sample_attempt: "attempt ''l'' sample_download (scanPendingAttachmentRow sample_pending) [sample_pending] =
    (Delivered (recovery_edit sample_download (scanPendingAttachmentRow sample_pending) ''png''), [])"
  by (simp add: attempt_def recover_def downloadViaMMCS_def deliverAsEdit_def sample_download_def try_delete_simps
      delete_where_def pending_key_def sample_pending_def pending_columns_def pending_row_def scanPendingAttachmentRow_def)

lemma sample_delivered:
  "rt_table (retrier_run ''l'' ([Enqueue sample_enqueue, Fetch 60000000000 True] @ [Attempt sample_download])) = []"
  "Row_tried (''l'', ''u'', 0) (Delivered (recovery_edit sample_download (scanPendingAttachmentRow sample_pending) ''png'')) True
     \<in> set (rt_log (retrier_run ''l'' ([Enqueue sample_enqueue, Fetch 60000000000 True] @ [Attempt sample_download])))"
proof -
  have "pending_key sample_pending = (''l'', ''u'', 0)" "statements_ok sample_download"
    by (simp_all add: pending_key_def statements_ok_def sample_recovery pending_columns_def pending_row_def)
  then show "rt_table (retrier_run ''l'' ([Enqueue sample_enqueue, Fetch 60000000000 True] @ [Attempt sample_download])) = []"
    "Row_tried (''l'', ''u'', 0) (Delivered (recovery_edit sample_download (scanPendingAttachmentRow sample_pending) ''png'')) True
     \<in> set (rt_log (retrier_run ''l'' ([Enqueue sample_enqueue, Fetch 60000000000 True] @ [Attempt sample_download])))"
    unfolding run_snoc by (simp_all add: sample_enqueued sample_batch sample_attempt)
qed

theorem pending_row_leaves_for_reason_witness:
  "\<exists>out. leaves_for_reason sample_download sample_pending out"
  using pending_row_leaves_for_reason [of sample_pending "''l''" "[Enqueue sample_enqueue, Fetch 60000000000 True]"
      "Attempt sample_download"] unfolding sample_enqueued sample_delivered(1) by auto

theorem recovered_edit_faithful_witness:
  "\<exists>ec. recovers ''l'' sample_download (recovery_edit sample_download (scanPendingAttachmentRow sample_pending) ''png'') ec \<and>
     ec_attMsg ec = sample_photo_message"
  using recovered_edit_faithful [OF sample_delivered(2)] by (auto simp: sample_enqueue_def)

theorem due_row_attempted_witness:
  "pending_key sample_pending \<in> fst ` set (fst (run_rounds ''l''
     [([], \<lparr>te_now = 60000000000, te_query_ok = True, te_attempts = replicate 50 sample_download\<rparr>)] [sample_pending]))"
proof (rule due_row_attempted [of _ _ _ 60000000000])
  show "pa_NextAttemptAt sample_pending \<le> to_millis 60000000000"
    by (simp add: sample_pending_def attachmentRetrierBackoff_def time_defs)
  show "pa_LoginID sample_pending = ''l''" by (simp add: sample_pending_def)
  show "list_all (calm_round 60000000000)
      [([], \<lparr>te_now = 60000000000, te_query_ok = True, te_attempts = replicate 50 sample_download\<rparr>)]"
    by (simp add: calm_round_def attachmentRetrierBatchLimit_def calm_attempt_def statements_ok_def sample_download_def list_all_iff)
qed (simp_all add: unique_key_def)

end
