(* ===== verification/Backfill_Drain.thy ===== *)
theory Backfill_Drain
  imports Prelude
begin

text \<open>
  The drain loop for backward backfill on servers without batch sending (\<^verbatim>\<open>synapse_backfill.go\<close>) and the
  slot a forward backfill waits for (\<^verbatim>\<open>backfill_semaphore.go\<close>). Every login of a bridge may start the
  loop, at any moment and again after a restart; the registry under \<^verbatim>\<open>synapseDrainMu\<close> decides. A loop is a
  state machine whose steps are what its goroutine does between two points where others can run: a slice
  of a sleep, a check, a query, a dispatch, the end of the task, leaving the registry. Bridges are numbers, a loop is the
  number of its start. The framework's two back-off constants, the answers of its queue and whether the
  bridge is stopping are inputs.
\<close>

type_synonym drain_time = int

definition seconds :: "int \<Rightarrow> drain_time" where "seconds n = n * 1000000000"

definition synapseDrainStartupGrace :: drain_time where "synapseDrainStartupGrace = seconds 120"
definition synapseDrainMaxStartupWait :: drain_time where "synapseDrainMaxStartupWait = seconds 1800"
definition synapseDrainReadyPoll :: drain_time where "synapseDrainReadyPoll = seconds 5"
definition synapseDrainMinBatchDelay :: drain_time where "synapseDrainMinBatchDelay = seconds 5"
definition synapseDrainStopPollInterval :: drain_time where "synapseDrainStopPollInterval = seconds 5"

lemmas drain_constants = seconds_def synapseDrainStartupGrace_def synapseDrainMaxStartupWait_def
  synapseDrainReadyPoll_def synapseDrainMinBatchDelay_def synapseDrainStopPollInterval_def

record queue_constants =
  BackfillQueueErrorBackoff :: drain_time
  BackfillQueueMaxEmptyBackoff :: drain_time

record bridge_info =
  bi_initialized :: bool
  bi_BatchSending :: "bool option"
  bi_Enabled :: bool
  bi_QueueEnabled :: bool
  bi_MaxInitialMessages :: int
  bi_BatchDelay :: int

definition synapseDrainSkipReason :: "bridge_info \<Rightarrow> string" where
  "synapseDrainSkipReason br =
     (if \<not> bi_initialized br then ''bridge is not fully initialized''
      else case bi_BatchSending br of
        None \<Rightarrow> ''Matrix capabilities are not known yet''
      | Some batch \<Rightarrow>
          if batch then ''homeserver supports batch sending, so bridgev2 runs its own backfill queue''
          else if \<not> bi_Enabled br then ''backfill is disabled in config''
          else if \<not> bi_QueueEnabled br then ''the backfill queue is disabled in config''
          else if bi_MaxInitialMessages br < 2147483647
          then ''max_initial_messages is capped, so backward backfill is short-circuited''
          else [])"

section \<open>One loop\<close>

text \<open>What a sleep is followed by, and where a loop stands.\<close>

datatype after_sleep = Grace_over | Poll_again drain_time | Next_pass nat

datatype drain_pc =
  Starting | Sleeping drain_time after_sleep | Checking_ready drain_time | Passing nat | Dispatching | In_task | Leaving | Stopped

record synapseBackfillDrainer =
  dr_br :: nat
  dr_batchDelay :: drain_time
  dr_has_ready :: bool
  dr_pc :: drain_pc

text \<open>What a step reads: the clock, the two stop signals, readiness, and the answer of the queue.\<close>

datatype queue_answer = Queue_error | Queue_empty | Queue_task

record drain_input =
  di_now :: drain_time
  di_stopping :: bool
  di_ready :: bool
  di_next :: queue_answer

definition emptyBackoff :: "queue_constants \<Rightarrow> drain_time \<Rightarrow> nat \<Rightarrow> drain_time" where
  "emptyBackoff q batchDelay emptyPasses =
     (let extra = batchDelay * int emptyPasses
      in batchDelay + (if extra > BackfillQueueMaxEmptyBackoff q then BackfillQueueMaxEmptyBackoff q else extra))"

fun after :: "bool \<Rightarrow> drain_time \<Rightarrow> after_sleep \<Rightarrow> drain_pc" where
  "after has_ready now Grace_over = (if \<not> has_ready then Passing 0 else Checking_ready (now + synapseDrainMaxStartupWait))"
| "after has_ready now (Poll_again deadline) = Checking_ready deadline"
| "after has_ready now (Next_pass emptyPasses) = Passing emptyPasses"

text \<open>A step of \<^verbatim>\<open>run\<close>, \<^verbatim>\<open>waitForStart\<close> and \<^verbatim>\<open>sleep\<close>; the second component says whether a task is dispatched.\<close>

fun drainer_step :: "queue_constants \<Rightarrow> synapseBackfillDrainer \<Rightarrow> drain_input \<Rightarrow> drain_pc \<Rightarrow> drain_pc \<times> bool" where
  "drainer_step q d inp Starting = (Sleeping (di_now inp + synapseDrainStartupGrace) Grace_over, False)"
| "drainer_step q d inp (Sleeping deadline k) =
     (if di_stopping inp then (Leaving, False)
      else if deadline - di_now inp \<le> 0 then (after (dr_has_ready d) (di_now inp) k, False)
      else (Sleeping deadline k, False))"
| "drainer_step q d inp (Checking_ready deadline) =
     (if di_ready inp then (Passing 0, False)
      else if \<not> di_now inp < deadline then (Passing 0, False)
      else (Sleeping (di_now inp + synapseDrainReadyPoll) (Poll_again deadline), False))"
| "drainer_step q d inp (Passing emptyPasses) =
     (if di_stopping inp then (Leaving, False)
      else case di_next inp of
          Queue_error \<Rightarrow> (Sleeping (di_now inp + BackfillQueueErrorBackoff q) (Next_pass emptyPasses), False)
        | Queue_empty \<Rightarrow>
            (Sleeping (di_now inp + emptyBackoff q (dr_batchDelay d) (emptyPasses + 1)) (Next_pass (emptyPasses + 1)), False)
        | Queue_task \<Rightarrow> (Dispatching, False))"
| "drainer_step q d inp Dispatching =
     (if di_stopping inp then (Leaving, False)
      else (In_task, True))"
| "drainer_step q d inp In_task = (Sleeping (di_now inp + dr_batchDelay d) (Next_pass 0), False)"
| "drainer_step q d inp Leaving = (Stopped, False)"
| "drainer_step q d inp Stopped = (Stopped, False)"

section \<open>The registry and all loops\<close>

record drain_system =
  ds_clock :: drain_time
  ds_running :: "nat \<rightharpoonup> nat"
  ds_loops :: "synapseBackfillDrainer list"
  ds_dispatched :: "(nat \<times> drain_time) list"

definition startSynapseBackfillDrain :: "nat \<Rightarrow> bridge_info \<Rightarrow> bool \<Rightarrow> drain_system \<Rightarrow> nat option \<times> drain_system" where
  "startSynapseBackfillDrain br info has_ready st =
     (if synapseDrainSkipReason info \<noteq> [] then (None, st)
      else case ds_running st br of
        Some existing \<Rightarrow> (Some existing, st)
      | None \<Rightarrow>
          (let configured = seconds (bi_BatchDelay info);
               batchDelay = (if configured < synapseDrainMinBatchDelay then synapseDrainMinBatchDelay else configured);
               d = \<lparr>dr_br = br, dr_batchDelay = batchDelay, dr_has_ready = has_ready, dr_pc = Starting\<rparr>;
               i = length (ds_loops st)
           in (Some i, st\<lparr>ds_running := (ds_running st)(br \<mapsto> i), ds_loops := ds_loops st @ [d]\<rparr>)))"

definition unregister :: "nat \<Rightarrow> nat \<Rightarrow> drain_system \<Rightarrow> drain_system" where
  "unregister i br st = (if ds_running st br = Some i then st\<lparr>ds_running := (ds_running st)(br := None)\<rparr> else st)"

definition loop_step :: "queue_constants \<Rightarrow> nat \<Rightarrow> drain_input \<Rightarrow> drain_system \<Rightarrow> drain_system" where
  "loop_step q i inp st =
     (if i < length (ds_loops st)
      then (let d = ds_loops st ! i; (pc, dispatch) = drainer_step q d inp (dr_pc d);
                st = (if dr_pc d = Leaving then unregister i (dr_br d) st else st)
            in st\<lparr>ds_loops := (ds_loops st)[i := d\<lparr>dr_pc := pc\<rparr>],
                  ds_dispatched := ds_dispatched st @ (if dispatch then [(dr_br d, di_now inp)] else [])\<rparr>)
      else st)"

inductive drain_reach :: "queue_constants \<Rightarrow> drain_system \<Rightarrow> bool" for q where
  drain_init: "drain_reach q \<lparr>ds_clock = t, ds_running = Map.empty, ds_loops = [], ds_dispatched = []\<rparr>"
| drain_start: "drain_reach q st \<Longrightarrow> ds_clock st \<le> now \<Longrightarrow>
    drain_reach q (snd (startSynapseBackfillDrain br info has_ready (st\<lparr>ds_clock := now\<rparr>)))"
| drain_loop: "drain_reach q st \<Longrightarrow> ds_clock st \<le> di_now inp \<Longrightarrow>
    drain_reach q (loop_step q i inp (st\<lparr>ds_clock := di_now inp\<rparr>))"

section \<open>The invariant\<close>

definition live :: "drain_system \<Rightarrow> nat \<Rightarrow> bool" where
  "live st i \<longleftrightarrow> i < length (ds_loops st) \<and> dr_pc (ds_loops st ! i) \<noteq> Stopped"

text \<open>The earliest moment a loop can dispatch: the end of its sleep, or now; during a task the delay is still to come.\<close>

fun not_before :: "drain_time \<Rightarrow> drain_pc \<Rightarrow> drain_time option" where
  "not_before clock (Sleeping deadline k) = Some deadline"
| "not_before clock (Checking_ready deadline) = Some clock"
| "not_before clock (Passing n) = Some clock"
| "not_before clock Dispatching = Some clock"
| "not_before clock In_task = Some (clock + synapseDrainMinBatchDelay)"
| "not_before clock Starting = None"
| "not_before clock Leaving = None"
| "not_before clock Stopped = None"

definition registry_ok :: "drain_system \<Rightarrow> bool" where
  "registry_ok st \<longleftrightarrow> (\<forall>br i. ds_running st br = Some i \<longleftrightarrow> live st i \<and> dr_br (ds_loops st ! i) = br)"

definition spaced :: "drain_system \<Rightarrow> bool" where
  "spaced st \<longleftrightarrow>
     (\<forall>(br, t) \<in> set (ds_dispatched st). t \<le> ds_clock st) \<and>
     (\<forall>br. sorted_wrt (\<lambda>a b. a + synapseDrainMinBatchDelay \<le> b) (map snd (filter (\<lambda>x. fst x = br) (ds_dispatched st)))) \<and>
     (\<forall>d \<in> set (ds_loops st). dr_batchDelay d \<ge> synapseDrainMinBatchDelay \<and>
        (\<forall>e t. not_before (ds_clock st) (dr_pc d) = Some e \<longrightarrow> (dr_br d, t) \<in> set (ds_dispatched st) \<longrightarrow>
           t + synapseDrainMinBatchDelay \<le> e))"

lemma drainer_step_stopped: "fst (drainer_step q d inp pc) = Stopped \<longleftrightarrow> pc \<in> {Leaving, Stopped}"
proof (cases pc)
  case (Sleeping deadline k)
  then show ?thesis by (cases k) simp_all
qed (simp_all split: queue_answer.split)

lemma drainer_dispatches: "snd (drainer_step q d inp pc) \<longleftrightarrow> pc = Dispatching \<and> \<not> di_stopping inp"
  by (cases pc) (simp_all split: queue_answer.split)

lemma live_step:
  assumes "i < length (ds_loops st)"
  shows "live (loop_step q i inp st) j \<longleftrightarrow> live st j \<and> (j = i \<longrightarrow> dr_pc (ds_loops st ! i) \<noteq> Leaving)"
  using assms drainer_step_stopped [of q "ds_loops st ! i" inp "dr_pc (ds_loops st ! i)"]
  by (auto simp: live_def loop_step_def Let_def unregister_def nth_list_update split: prod.splits)

lemma loop_step_br: "j < length (ds_loops st) \<Longrightarrow> dr_br (ds_loops (loop_step q i inp st) ! j) = dr_br (ds_loops st ! j)"
  by (auto simp: loop_step_def Let_def unregister_def nth_list_update split: prod.splits)

lemma registry_loop:
  assumes "registry_ok st"
  shows "registry_ok (loop_step q i inp st)"
proof (cases "i < length (ds_loops st)")
  case False
  then show ?thesis using assms by (simp add: loop_step_def)
next
  case True
  let ?d = "ds_loops st ! i"
  have running: "ds_running (loop_step q i inp st) br = (if dr_pc ?d = Leaving \<and> br = dr_br ?d then None else ds_running st br)" for br
  proof (cases "dr_pc ?d = Leaving")
    case leaving: True
    then have "ds_running st (dr_br ?d) = Some i" using assms True by (simp add: registry_ok_def live_def)
    then show ?thesis using leaving True by (simp add: loop_step_def unregister_def Let_def split: prod.split)
  qed (use True in \<open>simp add: loop_step_def Let_def split: prod.split\<close>)
  have reg: "ds_running st br = Some j \<longleftrightarrow> live st j \<and> dr_br (ds_loops st ! j) = br" for br j
    using assms by (simp add: registry_ok_def)
  have "ds_running (loop_step q i inp st) br = Some j \<longleftrightarrow>
      live (loop_step q i inp st) j \<and> dr_br (ds_loops (loop_step q i inp st) ! j) = br" for br j
  proof (cases "live st j")
    case False
    then show ?thesis unfolding running live_step [OF True] using reg [of br j] by simp
  next
    case live: True
    then have j: "j < length (ds_loops st)" by (simp add: live_def)
    have own: "ds_running st (dr_br (ds_loops st ! j)) = Some j" using reg [of _ j] live by blast
    have "j = i" if "dr_pc ?d = Leaving" "dr_br (ds_loops st ! j) = dr_br ?d"
      using own that reg [of "dr_br ?d" i] True by (simp add: live_def)
    then show ?thesis unfolding running live_step [OF True] loop_step_br [OF j] using live reg [of br j] by auto
  qed
  then show ?thesis by (simp add: registry_ok_def)
qed

lemma registry_start:
  assumes "registry_ok st"
  shows "registry_ok (snd (startSynapseBackfillDrain br info h st))"
proof (cases "synapseDrainSkipReason info \<noteq> [] \<or> ds_running st br \<noteq> None")
  case True
  then show ?thesis using assms by (auto simp: startSynapseBackfillDrain_def)
next
  case False
  have none: "\<not> (live st j \<and> dr_br (ds_loops st ! j) = br)" for j
    using assms False by (auto simp: registry_ok_def)
  have in_range: "j < length (ds_loops st)" if "ds_running st b = Some j" for b j
    using assms that by (auto simp: registry_ok_def live_def)
  show ?thesis
    using False assms none in_range
    by (auto simp: registry_ok_def startSynapseBackfillDrain_def live_def nth_append Let_def)
qed

lemma clock_registry [simp]: "registry_ok (st\<lparr>ds_clock := t\<rparr>) = registry_ok st"
  by (simp add: registry_ok_def live_def)

lemma not_before_mono: "clock \<le> clock' \<Longrightarrow> not_before clock' pc = Some e' \<Longrightarrow> \<exists>e \<le> e'. not_before clock pc = Some e"
  by (cases pc) auto

lemma spaced_clock:
  assumes "spaced st" "ds_clock st \<le> t"
  shows "spaced (st\<lparr>ds_clock := t\<rparr>)"
proof -
  have "t' + synapseDrainMinBatchDelay \<le> e"
    if mem: "d \<in> set (ds_loops st)" and nb: "not_before t (dr_pc d) = Some e" and log: "(dr_br d, t') \<in> set (ds_dispatched st)" for d e t'
  proof -
    obtain e0 where "e0 \<le> e" "not_before (ds_clock st) (dr_pc d) = Some e0"
      using not_before_mono [OF assms(2) nb] by blast
    then show ?thesis using assms(1) mem log by (fastforce simp: spaced_def)
  qed
  then show ?thesis using assms by (fastforce simp: spaced_def)
qed

text \<open>Where a step leads, no dispatch is possible before the spacing of the queue has passed.\<close>

lemma step_not_before:
  assumes "not_before now (fst (drainer_step q d inp pc)) = Some e" "di_now inp = now" "\<not> snd (drainer_step q d inp pc)"
    and "0 \<le> BackfillQueueErrorBackoff q" "0 \<le> BackfillQueueMaxEmptyBackoff q" "synapseDrainMinBatchDelay \<le> dr_batchDelay d"
  shows "pc = Starting \<and> e = now + synapseDrainStartupGrace \<or> (\<exists>e0. not_before now pc = Some e0 \<and> (e0 \<le> e \<or> e0 \<le> now \<and> now \<le> e))"
proof (cases pc)
  case (Sleeping deadline k)
  then show ?thesis using assms by (cases k) (auto split: if_splits)
next
  case (Passing n)
  have "0 \<le> emptyBackoff q (dr_batchDelay d) (n + 1)" using assms(5,6) by (simp add: emptyBackoff_def Let_def drain_constants)
  then show ?thesis using Passing assms by (auto split: if_splits queue_answer.splits)
qed (use assms in \<open>auto simp: drain_constants split: if_splits\<close>)

lemma spaced_start:
  assumes "spaced st"
  shows "spaced (snd (startSynapseBackfillDrain br info h st))"
  using assms by (auto simp: startSynapseBackfillDrain_def spaced_def Let_def split: option.split)

lemma spaced_loop:
  assumes "spaced st" "registry_ok st" "ds_clock st = di_now inp"
    and "0 \<le> BackfillQueueErrorBackoff q" "0 \<le> BackfillQueueMaxEmptyBackoff q"
  shows "spaced (loop_step q i inp st)"
proof (cases "i < length (ds_loops st)")
  case False
  then show ?thesis using assms(1) by (simp add: loop_step_def)
next
  case True
  let ?d = "ds_loops st ! i"
  obtain pc dispatch where step: "drainer_step q ?d inp (dr_pc ?d) = (pc, dispatch)" by fastforce
  have d: "?d \<in> set (ds_loops st)" using True by simp
  have delay: "dr_batchDelay ?d \<ge> synapseDrainMinBatchDelay" using assms(1) d by (simp add: spaced_def)
  have past: "t \<le> di_now inp" if "(br, t) \<in> set (ds_dispatched st)" for br t
    using assms(1,3) that by (auto simp: spaced_def)
  have gap: "t + synapseDrainMinBatchDelay \<le> e"
    if "e' \<in> set (ds_loops st)" "not_before (di_now inp) (dr_pc e') = Some e" "(dr_br e', t) \<in> set (ds_dispatched st)" for e' e t
    using assms(1,3) that by (fastforce simp: spaced_def)
  have alone: "j = i" if "j < length (ds_loops st)" "dr_br (ds_loops st ! j) = dr_br ?d" "dr_pc (ds_loops st ! j) \<noteq> Stopped"
    "dr_pc ?d \<noteq> Stopped" for j
  proof -
    have "ds_running st (dr_br ?d) = Some i" "ds_running st (dr_br ?d) = Some j"
      using assms(2) True that by (auto simp: registry_ok_def live_def)
    then show ?thesis by simp
  qed
  have loops: "ds_loops (loop_step q i inp st) = (ds_loops st)[i := ?d\<lparr>dr_pc := pc\<rparr>]"
    "ds_clock (loop_step q i inp st) = di_now inp"
    "ds_dispatched (loop_step q i inp st) = ds_dispatched st @ (if dispatch then [(dr_br ?d, di_now inp)] else [])"
    using True assms(3) by (simp_all add: loop_step_def step Let_def unregister_def)
  have dispatching: "dispatch \<longleftrightarrow> dr_pc ?d = Dispatching \<and> \<not> di_stopping inp"
    using drainer_dispatches [of q ?d inp "dr_pc ?d"] by (simp add: step)
  have last: "t + synapseDrainMinBatchDelay \<le> di_now inp" if "dispatch" "(dr_br ?d, t) \<in> set (ds_dispatched st)" for t
    by (rule gap [OF d _ that(2)]) (use that(1) in \<open>simp add: dispatching\<close>)
  have own: "t + synapseDrainMinBatchDelay \<le> e"
    if "not_before (di_now inp) pc = Some e" "(dr_br ?d, t) \<in> set (ds_dispatched st) \<or> dispatch \<and> t = di_now inp" for e t
  proof (cases dispatch)
    case True
    then have "pc = In_task" using step dispatching by simp
    then have "e = di_now inp + synapseDrainMinBatchDelay" using that(1) by simp
    moreover have "t \<le> di_now inp" using that(2) past by auto
    ultimately show ?thesis by simp
  next
    case False
    then have t: "(dr_br ?d, t) \<in> set (ds_dispatched st)" using that(2) by simp
    have "dr_pc ?d = Starting \<and> e = di_now inp + synapseDrainStartupGrace \<or>
        (\<exists>e0. not_before (di_now inp) (dr_pc ?d) = Some e0 \<and> (e0 \<le> e \<or> e0 \<le> di_now inp \<and> di_now inp \<le> e))"
      by (intro step_not_before [OF _ refl _ assms(4,5)]) (use that(1) False delay in \<open>simp_all add: step\<close>)
    then show ?thesis
    proof (elim disjE exE conjE)
      assume "e = di_now inp + synapseDrainStartupGrace"
      then show ?thesis using past [OF t] by (simp add: drain_constants)
    next
      fix e0 assume "not_before (di_now inp) (dr_pc ?d) = Some e0" "e0 \<le> e"
      then show ?thesis using gap [OF d _ t] by fastforce
    next
      fix e0 assume "not_before (di_now inp) (dr_pc ?d) = Some e0" "e0 \<le> di_now inp" "di_now inp \<le> e"
      then show ?thesis using gap [OF d _ t] by fastforce
    qed
  qed
  have other: "t + synapseDrainMinBatchDelay \<le> e"
    if "j < length (ds_loops st)" "j \<noteq> i" "not_before (di_now inp) (dr_pc (ds_loops st ! j)) = Some e"
      "(dr_br (ds_loops st ! j), t) \<in> set (ds_dispatched st) \<or> dispatch \<and> dr_br (ds_loops st ! j) = dr_br ?d \<and> t = di_now inp" for j e t
  proof -
    have "dr_pc (ds_loops st ! j) \<noteq> Stopped" using that(3) by auto
    then have "\<not> (dispatch \<and> dr_br (ds_loops st ! j) = dr_br ?d)"
      using alone [OF that(1)] that(2) dispatching by auto
    then show ?thesis using gap [OF nth_mem [OF that(1)] that(3)] that(4) by blast
  qed
  show ?thesis
    unfolding spaced_def loops
  proof (intro conjI ballI allI impI)
    fix x assume "x \<in> set (ds_dispatched st @ (if dispatch then [(dr_br ?d, di_now inp)] else []))"
    then show "case x of (br, t) \<Rightarrow> t \<le> di_now inp" using past by (auto split: if_splits)
  next
    fix br
    have "sorted_wrt (\<lambda>a b. a + synapseDrainMinBatchDelay \<le> b) (map snd (filter (\<lambda>x. fst x = br) (ds_dispatched st)))"
      using assms(1) by (simp add: spaced_def)
    then show "sorted_wrt (\<lambda>a b. a + synapseDrainMinBatchDelay \<le> b)
        (map snd (filter (\<lambda>x. fst x = br) (ds_dispatched st @ (if dispatch then [(dr_br ?d, di_now inp)] else []))))"
      using last by (auto simp: sorted_wrt_append)
  next
    fix e' assume "e' \<in> set ((ds_loops st)[i := ?d\<lparr>dr_pc := pc\<rparr>])"
    then show "synapseDrainMinBatchDelay \<le> dr_batchDelay e'"
      using delay assms(1) set_update_subset_insert [of "ds_loops st" i] by (fastforce simp: spaced_def)
  next
    fix e' e t
    assume "e' \<in> set ((ds_loops st)[i := ?d\<lparr>dr_pc := pc\<rparr>])" and nb: "not_before (di_now inp) (dr_pc e') = Some e"
      and t: "(dr_br e', t) \<in> set (ds_dispatched st @ (if dispatch then [(dr_br ?d, di_now inp)] else []))"
    then obtain j where j: "j < length (ds_loops st)" "e' = (ds_loops st)[i := ?d\<lparr>dr_pc := pc\<rparr>] ! j"
      by (auto simp: in_set_conv_nth)
    show "t + synapseDrainMinBatchDelay \<le> e"
    proof (cases "j = i")
      case True
      then have "e' = ?d\<lparr>dr_pc := pc\<rparr>" using j by simp
      then show ?thesis using own [of e t] nb t by (auto split: if_splits)
    next
      case False
      then have "e' = ds_loops st ! j" using j by simp
      then show ?thesis using other [OF j(1) False, of e t] nb t by (auto split: if_splits)
    qed
  qed
qed

lemma drain_reach_ok:
  assumes "drain_reach q st" "0 \<le> BackfillQueueErrorBackoff q" "0 \<le> BackfillQueueMaxEmptyBackoff q"
  shows "registry_ok st \<and> spaced st"
  using assms
proof (induction rule: drain_reach.induct)
  case (drain_init t)
  then show ?case by (simp add: registry_ok_def live_def spaced_def)
next
  case (drain_start st now br info has_ready)
  then show ?case by (simp add: registry_start spaced_start spaced_clock)
next
  case (drain_loop st inp i)
  then show ?case by (simp add: registry_loop spaced_loop spaced_clock)
qed

text \<open>C39. However many logins start the drain loop, however often, and however their steps interleave with
  loops that are just leaving: a bridge never has two loops that can still act, the registered one is
  that loop, and any two tasks dispatched for a bridge, by whatever loops, are at least five seconds
  apart.\<close>

theorem drain_one_loop_paced:
  assumes "drain_reach q st" "0 \<le> BackfillQueueErrorBackoff q" "0 \<le> BackfillQueueMaxEmptyBackoff q"
  shows "(\<forall>i. live st i \<longrightarrow> ds_running st (dr_br (ds_loops st ! i)) = Some i) \<and>
    sorted_wrt (\<lambda>a b. a + 5000000000 \<le> b) (map snd (filter (\<lambda>x. fst x = br) (ds_dispatched st)))"
proof -
  have "synapseDrainMinBatchDelay = 5000000000" by (simp add: drain_constants)
  then show ?thesis using drain_reach_ok [OF assms] by (simp add: registry_ok_def spaced_def)
qed

section \<open>A run\<close>

definition sample_queue :: queue_constants where
  "sample_queue = \<lparr>BackfillQueueErrorBackoff = seconds 60, BackfillQueueMaxEmptyBackoff = seconds 600\<rparr>"

definition sample_bridge :: bridge_info where
  "sample_bridge = \<lparr>bi_initialized = True, bi_BatchSending = Some False, bi_Enabled = True, bi_QueueEnabled = True,
     bi_MaxInitialMessages = 2147483647, bi_BatchDelay = 0\<rparr>"

definition sample_input :: "int \<Rightarrow> drain_input" where
  "sample_input t = \<lparr>di_now = seconds t, di_stopping = False, di_ready = True, di_next = Queue_task\<rparr>"

definition sample_drain_step :: "int \<Rightarrow> drain_system \<Rightarrow> drain_system" where
  "sample_drain_step t st = loop_step sample_queue 0 (sample_input t) (st\<lparr>ds_clock := seconds t\<rparr>)"

definition sample_drain :: drain_system where
  "sample_drain = fold sample_drain_step [0, 120, 121, 122, 123, 128, 129, 130]
     (snd (startSynapseBackfillDrain 1 sample_bridge False (\<lparr>ds_clock = 0, ds_running = Map.empty, ds_loops = [], ds_dispatched = []\<rparr>\<lparr>ds_clock := 0\<rparr>)))"

lemma drain_steps_reach: "drain_reach sample_queue st \<Longrightarrow> sorted (ds_clock st # map seconds ts) \<Longrightarrow> drain_reach sample_queue (fold sample_drain_step ts st)"
proof (induction ts arbitrary: st)
  case (Cons t ts)
  have "ds_clock (sample_drain_step t st) = seconds t"
    by (simp add: sample_drain_step_def loop_step_def unregister_def Let_def split: prod.split)
  moreover have "drain_reach sample_queue (sample_drain_step t st)"
    using drain_loop [OF Cons.prems(1), of "sample_input t" 0] Cons.prems(2)
    by (simp add: sample_drain_step_def sample_input_def)
  ultimately show ?case using Cons.IH [of "sample_drain_step t st"] Cons.prems(2) by simp
qed simp

theorem drain_one_loop_paced_witness:
  "ds_running sample_drain 1 = Some 0 \<and> map snd (ds_dispatched sample_drain) = [122000000000, 130000000000]"
proof -
  have "drain_reach sample_queue sample_drain"
    unfolding sample_drain_def
    by (intro drain_steps_reach drain_start drain_init)
      (simp_all add: startSynapseBackfillDrain_def synapseDrainSkipReason_def sample_bridge_def seconds_def Let_def)
  moreover have "0 \<le> BackfillQueueErrorBackoff sample_queue" "0 \<le> BackfillQueueMaxEmptyBackoff sample_queue"
    by (simp_all add: sample_queue_def seconds_def)
  ultimately have "live sample_drain 0 \<longrightarrow> ds_running sample_drain (dr_br (ds_loops sample_drain ! 0)) = Some 0"
    using drain_one_loop_paced by blast
  moreover have "live sample_drain 0" "dr_br (ds_loops sample_drain ! 0) = 1" "map snd (ds_dispatched sample_drain) = [122000000000, 130000000000]"
    by code_simp+
  ultimately show ?thesis by simp
qed

section \<open>The slot of a forward backfill\<close>

text \<open>
  The outcome of the \<^verbatim>\<open>select\<close>: the slot was sent into the channel, or the context ended. The context may
  also have ended before, or while the slot was sent. The result says whether the caller holds a slot, and
  how many slots are taken.
\<close>

datatype slot_outcome = Slot_sent | Context_done

definition waitForForwardBackfillSlot :: "bool \<Rightarrow> slot_outcome \<Rightarrow> bool \<Rightarrow> nat \<Rightarrow> bool \<times> nat" where
  "waitForForwardBackfillSlot ended_before sel ended_after taken =
     (if ended_before then (False, taken)
      else case sel of
        Slot_sent \<Rightarrow> if ended_after then (False, taken + 1 - 1) else (True, taken + 1)
      | Context_done \<Rightarrow> (False, taken))"

lemma slot_not_leaked:
  "waitForForwardBackfillSlot e0 sel e1 taken = (ok, taken') \<Longrightarrow> taken' = (if ok then taken + 1 else taken) \<and> (ok \<longrightarrow> \<not> e0 \<and> \<not> e1)"
  by (auto simp: waitForForwardBackfillSlot_def split: if_splits slot_outcome.splits)

end
