(* ===== verification/Sync_Status.thy ===== *)
theory Sync_Status
  imports Body_Scrub Cloud_Sync_State
begin

text \<open>
  The sync report (\<^verbatim>\<open>sync_status.go\<close>, and the configuration the command line derives for it in
  \<^verbatim>\<open>pkg/cli/sync_status.go\<close>): counts read from the cache and from the bridge framework's tables, with one
  definition per query under the name of the function that builds or runs it, in SQLite's dialect. The
  framework's tables are arguments; a message row comes with its time stamp, a backfill task with its
  dispatch time. A table that does not exist is \<open>None\<close>. The rendering of the report is left out, and so
  is the percentage, a floating-point number.
\<close>

section \<open>The report\<close>

record ZoneSyncStatus =
  zs_Zone :: string
  zs_Present :: bool
  zs_HasToken :: bool
  zs_LastSuccess :: "millis option"
  zs_HasError :: bool
  zs_UpdatedAt :: "millis option"

record SyncStatusReport =
  sr_BridgeID :: string
  sr_LoginID :: login_id
  sr_HasLogin :: bool
  sr_CloudTablesPresent :: bool
  sr_BootstrapComplete :: bool
  sr_Zones :: "ZoneSyncStatus list"
  sr_ChatsIngested :: nat
  sr_ChatsFiltered :: nat
  sr_CandidateMessages :: nat
  sr_DeliverableMessages :: nat
  sr_DeliveredMessages :: nat
  sr_PortalMismatchMessages :: nat
  sr_FilteredChatMessages :: nat
  sr_EmptySystemMessages :: nat
  sr_BeyondCapMessages :: nat
  sr_UnavailableMessages :: nat
  sr_MessageCap :: nat
  sr_BridgeFilteredChats :: bool
  sr_LastDeliveredAt :: "int option"
  sr_BackfillTasksPresent :: bool
  sr_BackfillTasksTotal :: nat
  sr_BackfillTasksDone :: nat
  sr_BackfillTasksUndispatched :: nat

record SyncStatusOptions =
  so_BridgeID :: string
  so_LoginID :: login_id
  so_MaxInitialMessages :: int
  so_BridgeFilteredChats :: bool

record status_db =
  sd_user_login :: "(string \<times> login_id) list option"
  sd_has_cloud_message :: bool
  sd_has_cloud_chat :: bool
  sd_has_cloud_sync_state :: bool
  sd_cloud :: cloud_db
  sd_message :: "(bridge_message_row \<times> int) list option"
  sd_backfill_task :: "(backfill_task_row \<times> int option) list option"

definition max_int32 :: int where "max_int32 = 2147483647"

definition effectiveCap :: "SyncStatusOptions \<Rightarrow> nat" where
  "effectiveCap opts =
     (if so_MaxInitialMessages opts \<le> 0 \<or> so_MaxInitialMessages opts \<ge> max_int32 then 0
      else nat (so_MaxInitialMessages opts))"

definition PendingMessages :: "SyncStatusReport \<Rightarrow> nat" where
  "PendingMessages r =
     (let n = int (sr_DeliverableMessages r) - int (sr_DeliveredMessages r) in if n > 0 then nat n else 0)"

definition UnbridgeableMessages :: "SyncStatusReport \<Rightarrow> nat" where
  "UnbridgeableMessages r = sr_PortalMismatchMessages r + sr_FilteredChatMessages r + sr_EmptySystemMessages r +
     sr_BeyondCapMessages r + sr_UnavailableMessages r"

definition FullyCaughtUp :: "SyncStatusReport \<Rightarrow> bool" where
  "FullyCaughtUp r \<longleftrightarrow> sr_HasLogin r \<and> sr_BootstrapComplete r \<and> PendingMessages r = 0"

text \<open>The configured cap as the command line passes it, and as the connector overrides it at startup.\<close>

definition effectiveMaxInitialMessages :: "bool \<Rightarrow> int \<Rightarrow> int" where
  "effectiveMaxInitialMessages cloudKitBackfill maxInitial =
     (if cloudKitBackfill \<and> maxInitial < 100 then max_int32 else maxInitial)"

definition validateSyncStatusArgs :: "string list \<Rightarrow> bool" where
  "validateSyncStatusArgs args \<longleftrightarrow> \<not> length args > 1 \<and> \<not> (length args = 1 \<and> args ! 0 \<noteq> ''1'')"

definition isSQLiteSyncStatusType :: "string \<Rightarrow> bool" where
  "isSQLiteSyncStatusType dbType =
     (let t = to_lower (trim_space dbType) in has_prefix t ''sqlite'' \<or> has_prefix t ''litestream'')"

section \<open>Conditions on a row\<close>

definition portalBridgeableSQL :: "cloud_db \<Rightarrow> login_id \<Rightarrow> bool \<Rightarrow> portal_id \<Rightarrow> bool" where
  "portalBridgeableSQL db login bf portal \<longleftrightarrow>
     bf \<or>
     \<not> (\<exists>fc \<in> set (cloud_chat db). c_login_id fc = login \<and> c_portal_id fc = portal \<and> \<not> c_deleted fc \<and> c_is_filtered fc \<noteq> 0) \<or>
     (\<exists>fc \<in> set (cloud_chat db). c_login_id fc = login \<and> c_portal_id fc = portal \<and> c_is_filtered fc = 0 \<and> \<not> c_deleted fc)"

definition messageBridgeableSQL :: "cloud_db \<Rightarrow> login_id \<Rightarrow> bool \<Rightarrow> cloud_message_row \<Rightarrow> bool" where
  "messageBridgeableSQL db login bf m \<longleftrightarrow>
     (\<exists>matched \<in> set (cloud_chat db). c_login_id matched = login \<and> same_chat matched m \<and>
        col_eq (m_portal_id m) (c_portal_id matched) \<and> \<not> c_deleted matched \<and> (bf \<or> c_is_filtered matched = 0)) \<or>
     (\<not> (\<exists>source \<in> set (cloud_chat db). c_login_id source = login \<and> same_chat source m) \<and>
      (bf \<or> \<not> (\<exists>live \<in> set (cloud_chat db). c_login_id live = login \<and> col_eq (m_portal_id m) (c_portal_id live) \<and>
          take 10 (c_cloud_chat_id live) \<noteq> ''synthetic:'' \<and> take 8 (c_cloud_chat_id live) \<noteq> ''recycle:'' \<and>
          \<not> c_deleted live \<and> c_is_filtered live \<noteq> 0)))"

definition messageSourceMismatchSQL :: "cloud_db \<Rightarrow> login_id \<Rightarrow> cloud_message_row \<Rightarrow> bool" where
  "messageSourceMismatchSQL db login m \<longleftrightarrow>
     (\<exists>source \<in> set (cloud_chat db). c_login_id source = login \<and> same_chat source m) \<and>
     \<not> (\<exists>exact_source \<in> set (cloud_chat db). c_login_id exact_source = login \<and> same_chat exact_source m \<and>
        col_eq (m_portal_id m) (c_portal_id exact_source))"

definition status_receiver_ok :: "login_id \<Rightarrow> string \<Rightarrow> bridge_message_row \<Rightarrow> bool" where
  "status_receiver_ok login bridgeID m \<longleftrightarrow>
     bm_bridge_id m = bridgeID \<and> (bm_room_receiver m = login \<or> bm_room_receiver m = [])"

definition deliveredMessageSetSQL :: "login_id \<Rightarrow> string \<Rightarrow> bridge_message_row list \<Rightarrow> (guid \<times> portal_id) list" where
  "deliveredMessageSetSQL login bridgeID messages =
     (let own = filter (status_receiver_ok login bridgeID) messages
      in map (\<lambda>m. (to_upper (bm_id m), bm_room_id m)) own @
         concat (map (\<lambda>m. case index_of (bm_id m) ''_'' of
             None \<Rightarrow> [] | Some i \<Rightarrow> [(to_upper (take i (bm_id m)), bm_room_id m)]) own))"

definition status_delivered :: "login_id \<Rightarrow> string \<Rightarrow> bridge_message_row list \<Rightarrow> cloud_message_row \<Rightarrow> bool" where
  "status_delivered login bridgeID messages m \<longleftrightarrow>
     (\<exists>d \<in> set (deliveredMessageSetSQL login bridgeID messages). fst d = to_upper (m_guid m) \<and> col_eq (m_portal_id m) (snd d))"

definition normalizedStatusTextSQL :: "string option \<Rightarrow> string" where
  "normalizedStatusTextSQL c = trim_space (strip_object_char (text_or_empty c))"

definition statusMessageContentfulSQL ::
  "cloud_db \<Rightarrow> login_id \<Rightarrow> (cloud_message_row \<Rightarrow> bool) \<Rightarrow> cloud_message_row \<Rightarrow> bool" where
  "statusMessageContentfulSQL db login delivered m \<longleftrightarrow>
     m_body_scrubbed m \<and> delivered m \<or>
     \<not> m_body_scrubbed m \<and>
     (m_is_from_me m \<or> text_present (m_sender m) \<or>
       \<not> like_prefix (text_or_empty (m_portal_id m)) ''gid:'' \<and> \<not> contains (text_or_empty (m_portal_id m)) '','') \<and>
     (normalizedStatusTextSQL (m_text m) \<noteq> [] \<or> normalizedStatusTextSQL (m_subject m) \<noteq> [] \<or>
       json_present (m_attachments_json m)) \<and>
     \<not> (\<exists>sc \<in> set (cloud_chat db). c_login_id sc = login \<and> col_eq (m_portal_id m) (c_portal_id sc) \<and> \<not> c_deleted sc \<and>
         text_present (c_display_name sc) \<and> normalizedStatusTextSQL (m_text m) = normalizedStatusTextSQL (c_display_name sc) \<and>
         \<not> json_present (m_attachments_json m) \<and> m_tapback_type m = None)"

definition statusMessageUnavailableSQL :: "(cloud_message_row \<Rightarrow> bool) \<Rightarrow> cloud_message_row \<Rightarrow> bool" where
  "statusMessageUnavailableSQL delivered m \<longleftrightarrow> m_body_scrubbed m \<and> \<not> delivered m"

text \<open>
  The innermost SELECT, the rank of a row under the running sum of \<open>portal_bridgeable\<close> in the order of
  \<^verbatim>\<open>timestamp_ms DESC, guid DESC\<close> within its portal, and the outer condition.
\<close>

definition status_rows :: "cloud_db \<Rightarrow> login_id \<Rightarrow> cloud_message_row list" where
  "status_rows db login = filter (\<lambda>m. m_login_id m = login \<and> \<not> m_deleted m \<and> m_record_name m \<noteq> [] \<and>
     text_present (m_portal_id m)) (cloud_message db)"

definition status_rank :: "cloud_db \<Rightarrow> login_id \<Rightarrow> bool \<Rightarrow> cloud_message_row \<Rightarrow> nat" where
  "status_rank db login bf m = length (filter (\<lambda>x. m_portal_id x = m_portal_id m \<and> message_pos x \<ge> message_pos m \<and>
     messageBridgeableSQL db login bf x) (status_rows db login))"

definition is_reaction :: "cloud_message_row \<Rightarrow> bool" where
  "is_reaction m \<longleftrightarrow> (case m_tapback_type m of None \<Rightarrow> False | Some t \<Rightarrow> t \<ge> 2000)"

datatype status_bucket = Mismatch | Filtered | Unavailable | Empty_system | Beyond_cap | Deliverable

text \<open>The \<^verbatim>\<open>CASE\<close> conditions of the counting columns, each as the query spells it.\<close>

fun in_bucket ::
  "cloud_db \<Rightarrow> login_id \<Rightarrow> string \<Rightarrow> nat \<Rightarrow> bool \<Rightarrow> bridge_message_row list \<Rightarrow> status_bucket \<Rightarrow> cloud_message_row \<Rightarrow> bool" where
  "in_bucket db login bridgeID cap bf messages Mismatch m \<longleftrightarrow> messageSourceMismatchSQL db login m"
| "in_bucket db login bridgeID cap bf messages Filtered m \<longleftrightarrow>
     \<not> messageSourceMismatchSQL db login m \<and> \<not> messageBridgeableSQL db login bf m"
| "in_bucket db login bridgeID cap bf messages Unavailable m \<longleftrightarrow>
     \<not> messageSourceMismatchSQL db login m \<and> messageBridgeableSQL db login bf m \<and>
     statusMessageUnavailableSQL (status_delivered login bridgeID messages) m"
| "in_bucket db login bridgeID cap bf messages Empty_system m \<longleftrightarrow>
     \<not> messageSourceMismatchSQL db login m \<and> messageBridgeableSQL db login bf m \<and>
     \<not> statusMessageUnavailableSQL (status_delivered login bridgeID messages) m \<and>
     \<not> statusMessageContentfulSQL db login (status_delivered login bridgeID messages) m"
| "in_bucket db login bridgeID cap bf messages Beyond_cap m \<longleftrightarrow>
     \<not> messageSourceMismatchSQL db login m \<and> messageBridgeableSQL db login bf m \<and>
     \<not> statusMessageUnavailableSQL (status_delivered login bridgeID messages) m \<and>
     statusMessageContentfulSQL db login (status_delivered login bridgeID messages) m \<and>
     cap > 0 \<and> status_rank db login bf m > cap"
| "in_bucket db login bridgeID cap bf messages Deliverable m \<longleftrightarrow>
     \<not> messageSourceMismatchSQL db login m \<and> messageBridgeableSQL db login bf m \<and>
     \<not> statusMessageUnavailableSQL (status_delivered login bridgeID messages) m \<and>
     statusMessageContentfulSQL db login (status_delivered login bridgeID messages) m \<and>
     (cap = 0 \<or> status_rank db login bf m \<le> cap)"

section \<open>Reading the report\<close>

definition readZones :: "cloud_db \<Rightarrow> SyncStatusReport \<Rightarrow> SyncStatusReport" where
  "readZones db r =
     (let found = fold (\<lambda>row f. f(z_zone row \<mapsto>
            \<lparr>zs_Zone = z_zone row, zs_Present = True,
             zs_HasToken = text_present (z_continuation_token row),
             zs_LastSuccess = (case z_last_success_ts row of None \<Rightarrow> None | Some t \<Rightarrow> if t > 0 then Some t else None),
             zs_HasError = text_present (z_last_error row),
             zs_UpdatedAt = (if z_updated_ts row > 0 then Some (z_updated_ts row) else None)\<rparr>))
            (filter (\<lambda>row. z_login_id row = sr_LoginID r) (cloud_sync_state db)) Map.empty;
          zone = (\<lambda>z. case found z of Some s \<Rightarrow> s
            | None \<Rightarrow> \<lparr>zs_Zone = z, zs_Present = False, zs_HasToken = False, zs_LastSuccess = None, zs_HasError = False,
                      zs_UpdatedAt = None\<rparr>)
      in r\<lparr>sr_Zones := sr_Zones r @ map zone [''chatManateeZone'', ''messageManateeZone'', ''attachmentManateeZone''],
           sr_BootstrapComplete := zs_LastSuccess (zone ''chatManateeZone'') \<noteq> None \<and>
             zs_LastSuccess (zone ''messageManateeZone'') \<noteq> None\<rparr>)"

definition readChatCounts :: "cloud_db \<Rightarrow> SyncStatusReport \<Rightarrow> SyncStatusReport" where
  "readChatCounts db r =
     (let p = remdups (map (\<lambda>cc. (c_portal_id cc, portalBridgeableSQL db (sr_LoginID r) (sr_BridgeFilteredChats r) (c_portal_id cc)))
            (filter (\<lambda>cc. c_login_id cc = sr_LoginID r \<and> \<not> c_deleted cc \<and> c_portal_id cc \<noteq> []) (cloud_chat db)))
      in r\<lparr>sr_ChatsIngested := length p, sr_ChatsFiltered := length (filter (\<lambda>x. \<not> snd x) p)\<rparr>)"

definition readMessageCounts :: "cloud_db \<Rightarrow> bridge_message_row list \<Rightarrow> SyncStatusReport \<Rightarrow> SyncStatusReport" where
  "readMessageCounts db messages r =
     (let c = filter (\<lambda>m. \<not> is_reaction m) (status_rows db (sr_LoginID r));
          bucket = in_bucket db (sr_LoginID r) (sr_BridgeID r) (sr_MessageCap r) (sr_BridgeFilteredChats r) messages;
          count = (\<lambda>p. length (filter p c))
      in r\<lparr>sr_CandidateMessages := length c,
           sr_PortalMismatchMessages := count (bucket Mismatch),
           sr_FilteredChatMessages := count (bucket Filtered),
           sr_UnavailableMessages := count (bucket Unavailable),
           sr_EmptySystemMessages := count (bucket Empty_system),
           sr_BeyondCapMessages := count (bucket Beyond_cap),
           sr_DeliverableMessages := count (bucket Deliverable),
           sr_DeliveredMessages := count (\<lambda>m. bucket Deliverable m \<and>
             status_delivered (sr_LoginID r) (sr_BridgeID r) messages m)\<rparr>)"

definition readLastDelivered :: "(bridge_message_row \<times> int) list \<Rightarrow> SyncStatusReport \<Rightarrow> SyncStatusReport" where
  "readLastDelivered messages r =
     r\<lparr>sr_LastDeliveredAt :=
         (case sql_max (map snd (filter (\<lambda>m. status_receiver_ok (sr_LoginID r) (sr_BridgeID r) (fst m)) messages)) of
            None \<Rightarrow> None | Some newest \<Rightarrow> if newest > 0 then Some newest else None)\<rparr>"

definition readBackfillTasks :: "(backfill_task_row \<times> int option) list \<Rightarrow> SyncStatusReport \<Rightarrow> SyncStatusReport" where
  "readBackfillTasks tasks r =
     (let own = filter (\<lambda>bt. bt_bridge_id (fst bt) = sr_BridgeID r \<and> bt_user_login_id (fst bt) = sr_LoginID r) tasks
      in r\<lparr>sr_BackfillTasksPresent := True, sr_BackfillTasksTotal := length own,
           sr_BackfillTasksDone := length (filter (\<lambda>bt. bt_is_done (fst bt)) own),
           sr_BackfillTasksUndispatched := length (filter (\<lambda>bt. snd bt = None) own)\<rparr>)"

definition new_report :: "SyncStatusOptions \<Rightarrow> SyncStatusReport" where
  "new_report opts =
     \<lparr>sr_BridgeID = so_BridgeID opts, sr_LoginID = so_LoginID opts, sr_HasLogin = False, sr_CloudTablesPresent = False,
      sr_BootstrapComplete = False, sr_Zones = [], sr_ChatsIngested = 0, sr_ChatsFiltered = 0, sr_CandidateMessages = 0,
      sr_DeliverableMessages = 0, sr_DeliveredMessages = 0, sr_PortalMismatchMessages = 0, sr_FilteredChatMessages = 0,
      sr_EmptySystemMessages = 0, sr_BeyondCapMessages = 0, sr_UnavailableMessages = 0, sr_MessageCap = effectiveCap opts,
      sr_BridgeFilteredChats = so_BridgeFilteredChats opts, sr_LastDeliveredAt = None, sr_BackfillTasksPresent = False,
      sr_BackfillTasksTotal = 0, sr_BackfillTasksDone = 0, sr_BackfillTasksUndispatched = 0\<rparr>"

text \<open>The IDs of the report, from the first login of the database where the caller does not know them.\<close>

definition report_ids :: "status_db \<Rightarrow> SyncStatusReport \<Rightarrow> SyncStatusReport" where
  "report_ids sd r =
     (if sr_LoginID r = [] \<or> sr_BridgeID r = [] then
        (case sd_user_login sd of
           None \<Rightarrow> r
         | Some logins \<Rightarrow>
             (case sort_key snd logins of
                [] \<Rightarrow> r
              | (bridgeID, loginID') # _ \<Rightarrow>
                  r\<lparr>sr_LoginID := (if sr_LoginID r = [] then loginID' else sr_LoginID r),
                    sr_BridgeID := (if sr_BridgeID r = [] then bridgeID else sr_BridgeID r),
                    sr_HasLogin := (sr_LoginID r \<noteq> [] \<or> loginID' \<noteq> [])\<rparr>))
      else r\<lparr>sr_HasLogin := True\<rparr>)"

definition GetSyncStatus :: "status_db \<Rightarrow> SyncStatusOptions \<Rightarrow> SyncStatusReport" where
  "GetSyncStatus sd opts =
     (let r = report_ids sd (new_report opts)
      in if \<not> sr_HasLogin r then r
         else
           (let r = r\<lparr>sr_CloudTablesPresent := sd_has_cloud_message sd \<and> sd_has_cloud_chat sd \<and> sd_has_cloud_sync_state sd\<rparr>;
                r = (if sr_CloudTablesPresent r
                     then (let r = readChatCounts (sd_cloud sd) (readZones (sd_cloud sd) r)
                           in case sd_message sd of None \<Rightarrow> r | Some ms \<Rightarrow> readMessageCounts (sd_cloud sd) (map fst ms) r)
                     else r);
                r = (case sd_message sd of None \<Rightarrow> r | Some ms \<Rightarrow> readLastDelivered ms r)
            in case sd_backfill_task sd of None \<Rightarrow> r | Some tasks \<Rightarrow> readBackfillTasks tasks r))"

section \<open>The conditions of the report and those of the store\<close>

lemma messageBridgeable_eq:
  "messageBridgeableSQL db (loginID s) (bridgeFiltered s) = cloudMessageChatFilterWhere s db"
proof -
  have "(take 10 t = ''synthetic:'') = has_prefix t ''synthetic:''" "(take 8 t = ''recycle:'') = has_prefix t ''recycle:''" for t
    by (simp_all add: has_prefix_def eval_nat_numeral)
  then show ?thesis by (simp only: fun_eq_iff messageBridgeableSQL_def cloudMessageChatFilterWhere_def simp_thms)
qed

lemma receiver_eq: "status_receiver_ok (loginID s) b = receiver_ok s b"
  by (simp add: fun_eq_iff status_receiver_ok_def receiver_ok_def)

lemma normalizedStatusText_eq: "normalizedStatusTextSQL = normalized_text"
  by (simp add: fun_eq_iff normalizedStatusTextSQL_def normalized_text_def)

lemma bridgeable_not_mismatch: "messageBridgeableSQL db login bf m \<Longrightarrow> \<not> messageSourceMismatchSQL db login m"
  unfolding messageBridgeableSQL_def messageSourceMismatchSQL_def by blast

lemma is_reaction_iff: "\<not> is_reaction m \<longleftrightarrow> not_reaction m"
  by (simp add: is_reaction_def not_reaction_def split: option.split) linarith

text \<open>The same evidence of delivery as the scrubber's, for a message that has a GUID.\<close>

lemma lower_underscore: "lower_char c = CHR ''_'' \<longleftrightarrow> c = CHR ''_''"
proof
  assume eq: "lower_char c = CHR ''_''"
  show "c = CHR ''_''"
  proof (cases "65 \<le> (of_char c :: nat) \<and> (of_char c :: nat) \<le> 90")
    case True
    then have "(of_char (lower_char c) :: nat) = of_char c + 32" by (simp add: lower_char_def)
    moreover have "(of_char (lower_char c) :: nat) = 95" by (simp add: eq)
    ultimately show ?thesis using True by simp
  next
    case False
    from eq show ?thesis unfolding lower_char_def if_not_P [OF False] .
  qed
qed (simp add: lower_char_def)

lemma index_of_underscore: "index_of (to_lower t) ''_'' = index_of t ''_''"
  by (induction t) (simp_all add: index_of.simps [of "_ # _"] index_of.simps [of "[]"] to_lower_def lower_underscore)

lemma status_delivered_iff:
  "status_delivered login b ms m \<longleftrightarrow>
     (\<exists>d \<in> set ms. status_receiver_ok login b d \<and> m_portal_id m = Some (bm_room_id d) \<and>
        (to_upper (bm_id d) = to_upper (m_guid m) \<or>
         (\<exists>i. index_of (bm_id d) ''_'' = Some i \<and> to_upper (take i (bm_id d)) = to_upper (m_guid m))))"
proof -
  have "x \<in> set (deliveredMessageSetSQL login b ms) \<longleftrightarrow> (\<exists>d \<in> set ms. status_receiver_ok login b d \<and>
      (x = (to_upper (bm_id d), bm_room_id d) \<or>
       (\<exists>i. index_of (bm_id d) ''_'' = Some i \<and> x = (to_upper (take i (bm_id d)), bm_room_id d))))" for x
    by (auto simp: deliveredMessageSetSQL_def Let_def simp del: index_of_char_None split: option.splits) metis
  then show ?thesis unfolding status_delivered_def col_eq_def Bex_def by (metis fst_conv snd_conv)
qed

lemma id_names_iff:
  "id_names i (to_lower g) \<longleftrightarrow> to_upper i = to_upper g \<or>
     (\<exists>k > 0. index_of i ''_'' = Some k \<and> to_upper (take k i) = to_upper g)"
proof -
  have "take k (to_lower i) = to_lower (take k i)" for k by (simp add: to_lower_def take_map)
  then show ?thesis
    by (auto simp: id_names_def index_of_underscore to_lower_upper_eq simp del: index_of_char_None split: option.split)
qed

lemma delivered_in_status: "delivered_in s b ms m \<Longrightarrow> status_delivered (loginID s) b ms m"
  by (auto simp: delivered_in_def status_delivered_iff receiver_eq id_names_iff)

lemma status_delivered_eq: "m_guid m \<noteq> [] \<Longrightarrow> status_delivered (loginID s) b ms m = delivered_in s b ms m"
proof
  assume g: "m_guid m \<noteq> []" and "status_delivered (loginID s) b ms m"
  then obtain d where d: "d \<in> set ms" "receiver_ok s b d" "m_portal_id m = Some (bm_room_id d)"
    "to_upper (bm_id d) = to_upper (m_guid m) \<or>
       (\<exists>i. index_of (bm_id d) ''_'' = Some i \<and> to_upper (take i (bm_id d)) = to_upper (m_guid m))"
    by (auto simp: status_delivered_iff receiver_eq)
  have "id_names (bm_id d) (to_lower (m_guid m))"
  proof (cases "to_upper (bm_id d) = to_upper (m_guid m)")
    case False
    with d(4) obtain i where i: "index_of (bm_id d) ''_'' = Some i" "to_upper (take i (bm_id d)) = to_upper (m_guid m)" by blast
    have "i > 0" using i(2) g by (cases i) (simp_all add: to_upper_def)
    with i show ?thesis by (auto simp: id_names_iff)
  qed (simp add: id_names_iff)
  with d(1-3) show "delivered_in s b ms m" by (auto simp: delivered_in_def)
qed (rule delivered_in_status)

section \<open>The rank of a row and the window the store reads\<close>

lemma take_rank:
  fixes k :: "'a \<Rightarrow> 'b :: linorder"
  assumes "distinct xs" "inj_on k (set xs)" "m \<in> set xs"
  shows "m \<in> set (take n (rev (sort_key k xs))) \<longleftrightarrow> length (filter (\<lambda>x. k m \<le> k x) xs) \<le> n"
proof -
  let ?ys = "rev (sort_key k xs)"
  obtain j where j: "j < length ?ys" "?ys ! j = m" using assms(3) by (metis in_set_conv_nth set_rev set_sort)
  have strict: "k (?ys ! b) < k (?ys ! a)" if "a < b" "b < length ?ys" for a b
  proof -
    have "sorted (map k (sort_key k xs))" by simp
    then have "sorted (rev (map k ?ys))" by (simp add: rev_map)
    then have "map k ?ys ! b \<le> map k ?ys ! a"
      using that by (intro sorted_rev_nth_mono) simp_all
    moreover have "distinct ?ys" using assms(1) by simp
    then have ne: "?ys ! b \<noteq> ?ys ! a" using that by (simp add: nth_eq_iff_index_eq)
    have "?ys ! a \<in> set ?ys" "?ys ! b \<in> set ?ys" using that by (intro nth_mem; simp)+
    then have "?ys ! a \<in> set xs" "?ys ! b \<in> set xs" by simp_all
    then have "k (?ys ! b) \<noteq> k (?ys ! a)" using inj_onD [OF assms(2)] ne by blast
    ultimately show ?thesis using that by simp
  qed
  have upto: "k m \<le> k (?ys ! i) \<longleftrightarrow> i \<le> j" if "i < length ?ys" for i
  proof (cases i j rule: linorder_cases)
    case less
    with strict [of i j] j show ?thesis by simp
  next
    case greater
    with strict [of j i] j that show ?thesis by (simp add: not_le)
  qed (use j in simp)
  have "length (filter (\<lambda>x. k m \<le> k x) xs) = length (filter (\<lambda>x. k m \<le> k x) ?ys)"
    using distinct_card [of "filter (\<lambda>x. k m \<le> k x) xs"] distinct_card [of "filter (\<lambda>x. k m \<le> k x) ?ys"] assms(1) by simp
  also have "\<dots> = card {i. i < length ?ys \<and> k m \<le> k (?ys ! i)}" by (rule length_filter_conv_card)
  also have "{i. i < length ?ys \<and> k m \<le> k (?ys ! i)} = {..j}"
    using upto j(1) by auto
  finally have rank: "length (filter (\<lambda>x. k m \<le> k x) xs) = Suc j" by simp
  have "m \<in> set (take n ?ys) \<longleftrightarrow> j < n"
  proof
    assume "m \<in> set (take n ?ys)"
    then obtain i where i: "i < n" "i < length ?ys" "?ys ! i = m" by (auto simp: in_set_conv_nth)
    then have "i = j" using j assms(1) by (metis distinct_rev distinct_sort nth_eq_iff_index_eq)
    with i(1) show "j < n" by simp
  next
    assume "j < n"
    then have "j < length (take n ?ys)" "take n ?ys ! j = m" using j by simp_all
    then show "m \<in> set (take n ?ys)" by (metis nth_mem)
  qed
  with rank show ?thesis by (simp add: Suc_le_eq)
qed

lemma status_rank_window:
  assumes "pk_ok db" "m \<in> set (cloud_message db)" "readable s db p m" "p \<noteq> []"
  shows "status_rank db (loginID s) (bridgeFiltered s) m \<le> n \<longleftrightarrow> m \<in> set (take n (newest_first (readable_rows s db p)))"
proof -
  have p: "m_portal_id m = Some p" using assms(3) by (simp add: readable_def col_eq_def)
  have "filter (\<lambda>x. m_portal_id x = m_portal_id m \<and> message_pos x \<ge> message_pos m \<and>
      messageBridgeableSQL db (loginID s) (bridgeFiltered s) x) (status_rows db (loginID s)) =
    filter (\<lambda>x. message_pos m \<le> message_pos x) (readable_rows s db p)"
    unfolding status_rows_def readable_rows_def filter_filter messageBridgeable_eq
    by (rule filter_cong [OF refl]) (use assms(4) in \<open>auto simp: p readable_def col_eq_def text_present_def\<close>)
  then have rank: "status_rank db (loginID s) (bridgeFiltered s) m = length (filter (\<lambda>x. message_pos m \<le> message_pos x) (readable_rows s db p))"
    by (simp add: status_rank_def)
  have "distinct (cloud_message db)" using assms(1) by (auto simp: pk_ok_def unique_key_def distinct_map)
  then have d: "distinct (readable_rows s db p)" by (simp add: readable_rows_def)
  have inj: "inj_on message_pos (set (readable_rows s db p))"
    by (rule inj_onI) (rule same_guid_row [OF assms(1)], auto simp: readable_rows_def readable_def message_pos_def)
  have m: "m \<in> set (readable_rows s db p)" using assms(2,3) by (simp add: readable_rows_def)
  show ?thesis unfolding rank newest_first_def by (rule take_rank [OF d inj m, symmetric])
qed

section \<open>Buckets\<close>

definition bucket_of ::
  "cloud_db \<Rightarrow> login_id \<Rightarrow> string \<Rightarrow> nat \<Rightarrow> bool \<Rightarrow> bridge_message_row list \<Rightarrow> cloud_message_row \<Rightarrow> status_bucket" where
  "bucket_of db login b cap bf ms m =
     (if messageSourceMismatchSQL db login m then Mismatch
      else if \<not> messageBridgeableSQL db login bf m then Filtered
      else if statusMessageUnavailableSQL (status_delivered login b ms) m then Unavailable
      else if \<not> statusMessageContentfulSQL db login (status_delivered login b ms) m then Empty_system
      else if cap > 0 \<and> status_rank db login bf m > cap then Beyond_cap
      else Deliverable)"

lemma in_bucket_iff: "in_bucket db login b cap bf ms x m \<longleftrightarrow> bucket_of db login b cap bf ms m = x"
  by (cases x) (auto simp: bucket_of_def)

lemma length_buckets:
  "length c = length (filter (\<lambda>m. f m = Mismatch) c) + length (filter (\<lambda>m. f m = Filtered) c) +
     length (filter (\<lambda>m. f m = Unavailable) c) + length (filter (\<lambda>m. f m = Empty_system) c) +
     length (filter (\<lambda>m. f m = Beyond_cap) c) + length (filter (\<lambda>m. f m = Deliverable) c)"
proof (induction c)
  case (Cons m c)
  then show ?case by (cases "f m") simp_all
qed simp

section \<open>What the report promises\<close>

lemma readMessageCounts_buckets:
  fixes db ms r
  defines "c \<equiv> filter (\<lambda>m. \<not> is_reaction m) (status_rows db (sr_LoginID r))"
    and "f \<equiv> bucket_of db (sr_LoginID r) (sr_BridgeID r) (sr_MessageCap r) (sr_BridgeFilteredChats r) ms"
  shows "sr_CandidateMessages (readMessageCounts db ms r) = length c"
    and "sr_PortalMismatchMessages (readMessageCounts db ms r) = length (filter (\<lambda>m. f m = Mismatch) c)"
    and "sr_FilteredChatMessages (readMessageCounts db ms r) = length (filter (\<lambda>m. f m = Filtered) c)"
    and "sr_UnavailableMessages (readMessageCounts db ms r) = length (filter (\<lambda>m. f m = Unavailable) c)"
    and "sr_EmptySystemMessages (readMessageCounts db ms r) = length (filter (\<lambda>m. f m = Empty_system) c)"
    and "sr_BeyondCapMessages (readMessageCounts db ms r) = length (filter (\<lambda>m. f m = Beyond_cap) c)"
    and "sr_DeliverableMessages (readMessageCounts db ms r) = length (filter (\<lambda>m. f m = Deliverable) c)"
    and "sr_DeliveredMessages (readMessageCounts db ms r) =
      length (filter (\<lambda>m. f m = Deliverable \<and> status_delivered (sr_LoginID r) (sr_BridgeID r) ms m) c)"
  unfolding readMessageCounts_def Let_def c_def f_def in_bucket_iff by simp_all

lemma PendingMessages_eq: "PendingMessages r = sr_DeliverableMessages r - sr_DeliveredMessages r"
  by (simp add: PendingMessages_def Let_def nat_diff_distrib')

lemma filter_both: "length (filter p xs) = length (filter (\<lambda>x. p x \<and> q x) xs) + length (filter (\<lambda>x. p x \<and> \<not> q x) xs)"
  by (induction xs) auto

lemma pending_count:
  "PendingMessages (readMessageCounts db ms r) = length (filter (\<lambda>m.
     bucket_of db (sr_LoginID r) (sr_BridgeID r) (sr_MessageCap r) (sr_BridgeFilteredChats r) ms m = Deliverable \<and>
     \<not> status_delivered (sr_LoginID r) (sr_BridgeID r) ms m) (filter (\<lambda>m. \<not> is_reaction m) (status_rows db (sr_LoginID r))))"
  unfolding PendingMessages_eq readMessageCounts_buckets
  by (subst filter_both [where q = "status_delivered (sr_LoginID r) (sr_BridgeID r) ms"]) (rule diff_add_inverse)

text \<open>Where the message counts of the report come from.\<close>

definition message_fields :: "SyncStatusReport \<Rightarrow> nat list" where
  "message_fields r = [sr_CandidateMessages r, sr_PortalMismatchMessages r, sr_FilteredChatMessages r, sr_UnavailableMessages r,
     sr_EmptySystemMessages r, sr_BeyondCapMessages r, sr_DeliverableMessages r, sr_DeliveredMessages r]"

lemma message_fields_other [simp]:
  "message_fields (readBackfillTasks tasks r) = message_fields r" "message_fields (readLastDelivered lms r) = message_fields r"
  "message_fields (readChatCounts db r) = message_fields r" "message_fields (readZones db r) = message_fields r"
  "message_fields (r\<lparr>sr_CloudTablesPresent := b\<rparr>) = message_fields r"
  by (simp_all add: message_fields_def readBackfillTasks_def readLastDelivered_def readChatCounts_def readZones_def Let_def)

lemma message_fields_ids [simp]: "message_fields (report_ids sd r) = message_fields r"
  by (simp add: report_ids_def message_fields_def split: option.split list.split)

lemma message_fields_new: "message_fields (new_report opts) = replicate 8 0"
  by (simp add: message_fields_def new_report_def numeral_eq_Suc)

lemma message_fields_cong:
  assumes "sr_LoginID r = sr_LoginID r'" "sr_BridgeID r = sr_BridgeID r'" "sr_MessageCap r = sr_MessageCap r'"
    "sr_BridgeFilteredChats r = sr_BridgeFilteredChats r'"
  shows "message_fields (readMessageCounts db ms r) = message_fields (readMessageCounts db ms r')"
  by (simp add: message_fields_def readMessageCounts_buckets assms)

lemma report_message_fields:
  "message_fields (GetSyncStatus sd opts) =
     (let r = report_ids sd (new_report opts)
      in if sr_HasLogin r \<and> sd_has_cloud_message sd \<and> sd_has_cloud_chat sd \<and> sd_has_cloud_sync_state sd \<and> sd_message sd \<noteq> None
         then message_fields (readMessageCounts (sd_cloud sd) (map fst (the (sd_message sd))) r) else replicate 8 0)"
proof -
  have step: "message_fields (readMessageCounts db ms (readChatCounts db (readZones db (r\<lparr>sr_CloudTablesPresent := b\<rparr>)))) =
      message_fields (readMessageCounts db ms r)" for db ms r b
    by (rule message_fields_cong) (simp_all add: readChatCounts_def readZones_def Let_def)
  show ?thesis
    by (simp add: GetSyncStatus_def Let_def message_fields_new step split: option.split)
qed

text \<open>The report never counts a message twice and never drops one: its buckets are disjoint and add up to the
  candidates, what is delivered is part of what is deliverable, and pending is exactly the rest, on any
  database, however incomplete.\<close>

lemma status_buckets_partition:
  "let r = GetSyncStatus sd opts
   in sr_CandidateMessages r = UnbridgeableMessages r + sr_DeliverableMessages r \<and>
      sr_DeliveredMessages r + PendingMessages r = sr_DeliverableMessages r"
proof -
  let ?r = "report_ids sd (new_report opts)"
  let ?ok = "\<lambda>fs :: nat list. fs ! 0 = fs ! 1 + fs ! 2 + fs ! 4 + fs ! 5 + fs ! 3 + fs ! 6 \<and> fs ! 7 \<le> fs ! 6"
  have "?ok (message_fields (readMessageCounts db ms r))" for db ms r
  proof -
    have "length (filter (\<lambda>m. p m \<and> q m) c) \<le> length (filter p c)" for p q and c :: "cloud_message_row list"
      by (induction c) auto
    then have "sr_DeliveredMessages (readMessageCounts db ms r) \<le> sr_DeliverableMessages (readMessageCounts db ms r)"
      unfolding readMessageCounts_buckets .
    moreover have "sr_CandidateMessages (readMessageCounts db ms r) =
        UnbridgeableMessages (readMessageCounts db ms r) + sr_DeliverableMessages (readMessageCounts db ms r)"
      unfolding readMessageCounts_buckets UnbridgeableMessages_def
      by (subst length_buckets [where f = "bucket_of db (sr_LoginID r) (sr_BridgeID r) (sr_MessageCap r) (sr_BridgeFilteredChats r) ms"])
        simp
    ultimately show ?thesis by (simp add: message_fields_def UnbridgeableMessages_def)
  qed
  then have "?ok (message_fields (GetSyncStatus sd opts))"
    unfolding report_message_fields Let_def by (simp add: numeral_eq_Suc)
  then show ?thesis by (simp add: message_fields_def UnbridgeableMessages_def PendingMessages_eq Let_def)
qed

section \<open>Deliverable means: what the store offers\<close>

lemma contentful_eq:
  assumes "readable s db p m" "p \<noteq> []" "\<not> is_reaction m" "\<not> m_body_scrubbed m"
    and "strip_object_char (text_or_empty (m_subject m)) = text_or_empty (m_subject m)"
    and "\<not> (\<exists>sc \<in> set (cloud_chat db). c_deleted sc \<and> c_login_id sc = loginID s \<and> col_eq (m_portal_id m) (c_portal_id sc) \<and>
      text_present (c_display_name sc) \<and> normalized_text (m_text m) = normalized_text (c_display_name sc))"
  shows "statusMessageContentfulSQL db (loginID s) d m \<longleftrightarrow> cloudBackfillableEventWhere s db m"
proof -
  have p: "m_portal_id m = Some p" using assms(1) by (simp add: readable_def col_eq_def)
  have subj: "normalized_text (m_subject m) = trim_space (text_or_empty (m_subject m))"
    by (simp add: normalized_text_def assms(5))
  have portal: "text_or_empty (m_portal_id m) = p" by (simp add: p text_or_empty_def)
  have renames: "(\<exists>sc \<in> set (cloud_chat db). c_login_id sc = loginID s \<and> col_eq (m_portal_id m) (c_portal_id sc) \<and> \<not> c_deleted sc \<and>
       text_present (c_display_name sc) \<and> normalized_text (m_text m) = normalized_text (c_display_name sc) \<and>
       \<not> json_present (m_attachments_json m) \<and> m_tapback_type m = None) \<longleftrightarrow>
     (\<exists>sc \<in> set (cloud_chat db). c_login_id sc = loginID s \<and> col_eq (m_portal_id m) (c_portal_id sc) \<and>
       text_present (c_display_name sc) \<and> normalized_text (m_text m) = normalized_text (c_display_name sc) \<and>
       \<not> json_present (m_attachments_json m) \<and> m_tapback_type m = None)"
    using assms(6) by blast
  have own: "m_login_id m = loginID s" "text_present (m_portal_id m)" "\<not> m_deleted m" "m_record_name m \<noteq> []"
    "cloudMessageChatFilterWhere s db m" "case m_tapback_type m of None \<Rightarrow> True | Some t \<Rightarrow> t < 2000"
    using assms(1-3) by (simp_all add: readable_def p text_present_def is_reaction_iff not_reaction_def)
  show ?thesis
    unfolding statusMessageContentfulSQL_def cloudBackfillableEventWhere_def normalizedStatusText_eq subj renames portal
    using own assms(4) by (simp add: p)
qed

text \<open>C37. The deliverable messages of the report are exactly what the store offers to backfill: an unscrubbed row
  that can become an event, or a scrubbed row whose delivery is proved by the scrubber's own evidence, and
  under a cap only within the window the first backfill of a room reads. (The row is no reaction and has a
  GUID; its subject has no object character, and it is not the renaming of a deleted chat.)\<close>

theorem status_deliverable_exact:
  assumes "pk_ok db" "m \<in> set (cloud_message db)" "\<not> is_reaction m" "m_guid m \<noteq> []"
    and "strip_object_char (text_or_empty (m_subject m)) = text_or_empty (m_subject m)"
    and "\<not> (\<exists>sc \<in> set (cloud_chat db). c_deleted sc \<and> c_login_id sc = loginID s \<and> col_eq (m_portal_id m) (c_portal_id sc) \<and>
      text_present (c_display_name sc) \<and> normalized_text (m_text m) = normalized_text (c_display_name sc))"
  shows "m \<in> set (status_rows db (loginID s)) \<and> in_bucket db (loginID s) b cap (bridgeFiltered s) ms Deliverable m \<longleftrightarrow>
    (\<exists>p. p \<noteq> [] \<and> readable s db p m \<and> (cap = 0 \<or> m \<in> set (take cap (newest_first (readable_rows s db p)))) \<and>
      (if m_body_scrubbed m then delivered_in s b ms m else cloudBackfillableEventWhere s db m))"
proof (cases "\<exists>p. p \<noteq> [] \<and> readable s db p m")
  case False
  then have "\<not> (m \<in> set (status_rows db (loginID s)) \<and> messageBridgeableSQL db (loginID s) (bridgeFiltered s) m)"
    unfolding messageBridgeable_eq by (auto simp: status_rows_def readable_def col_eq_def text_present_def)
  with False show ?thesis by auto
next
  case True
  then obtain p where p: "p \<noteq> []" "readable s db p m" by blast
  have only: "q = p" if "readable s db q m" for q using p(2) that by (simp add: readable_def col_eq_def)
  have row: "m \<in> set (status_rows db (loginID s))" "messageBridgeableSQL db (loginID s) (bridgeFiltered s) m"
    using assms(2) p unfolding messageBridgeable_eq by (auto simp: status_rows_def readable_def col_eq_def text_present_def)
  have "in_bucket db (loginID s) b cap (bridgeFiltered s) ms Deliverable m \<longleftrightarrow>
    (cap = 0 \<or> m \<in> set (take cap (newest_first (readable_rows s db p)))) \<and>
    (if m_body_scrubbed m then delivered_in s b ms m else cloudBackfillableEventWhere s db m)"
    using bridgeable_not_mismatch [OF row(2)] row(2) status_rank_window [OF assms(1,2) p(2,1), of cap]
      contentful_eq [OF p(2,1) assms(3) _ assms(5,6)]
    by (simp add: statusMessageUnavailableSQL_def status_delivered_eq [OF assms(4)])
      (auto simp: statusMessageContentfulSQL_def status_delivered_eq [OF assms(4)])
  then show ?thesis using row p only by blast
qed

section \<open>Scrubbing and the report\<close>

lemma scrub_body_fields [simp]:
  "m_login_id (scrub_body m) = m_login_id m" "m_guid (scrub_body m) = m_guid m" "m_portal_id (scrub_body m) = m_portal_id m"
  "m_deleted (scrub_body m) = m_deleted m" "m_record_name (scrub_body m) = m_record_name m"
  "message_pos (scrub_body m) = message_pos m" "is_reaction (scrub_body m) = is_reaction m"
  "same_chat c (scrub_body m) = same_chat c m" "m_body_scrubbed (scrub_body m)"
  by (simp_all add: scrub_body_def message_pos_def is_reaction_def same_chat_def)

lemma status_scrub [simp]:
  "messageBridgeableSQL db login bf (scrub_body m) = messageBridgeableSQL db login bf m"
  "messageSourceMismatchSQL db login (scrub_body m) = messageSourceMismatchSQL db login m"
  "status_delivered login b ms (scrub_body m) = status_delivered login b ms m"
  by (simp_all add: messageBridgeableSQL_def messageSourceMismatchSQL_def status_delivered_def)

lemma status_chats_only [simp]:
  "messageBridgeableSQL (db\<lparr>cloud_message := rs\<rparr>) = messageBridgeableSQL db"
  "messageSourceMismatchSQL (db\<lparr>cloud_message := rs\<rparr>) = messageSourceMismatchSQL db"
  "statusMessageContentfulSQL (db\<lparr>cloud_message := rs\<rparr>) = statusMessageContentfulSQL db"
  by (simp_all add: fun_eq_iff messageBridgeableSQL_def messageSourceMismatchSQL_def statusMessageContentfulSQL_def)

text \<open>Rows that are filtered out, or proved delivered, may be scrubbed without a trace in the report.\<close>

lemma length_filter_map: "(\<And>x. x \<in> set xs \<Longrightarrow> p (f x) = q x) \<Longrightarrow> length (filter p (map f xs)) = length (filter q xs)"
  by (induction xs) auto

definition scrub_row :: "(cloud_message_row \<Rightarrow> bool) \<Rightarrow> cloud_message_row \<Rightarrow> cloud_message_row" where
  "scrub_row q m = (if q m then scrub_body m else m)"

definition scrub_rows :: "(cloud_message_row \<Rightarrow> bool) \<Rightarrow> cloud_db \<Rightarrow> cloud_db" where
  "scrub_rows q db = db\<lparr>cloud_message := update_where q scrub_body (cloud_message db)\<rparr>"

lemma scrubbed_status_rows: "status_rows (scrub_rows q db) login = map (scrub_row q) (status_rows db login)"
  unfolding status_rows_def scrub_rows_def update_where_def scrub_row_def [abs_def]
  by (induction "cloud_message db" rule: list.induct) (simp_all add: filter_map comp_def if_distrib)

lemma scrubbed_rank: "status_rank (scrub_rows q db) login bf (scrub_row q m) = status_rank db login bf m"
  unfolding status_rank_def scrubbed_status_rows
  by (rule length_filter_map) (simp add: scrub_row_def scrub_rows_def)

locale harmless_scrub =
  fixes db :: cloud_db and login :: login_id and b :: string and cap :: nat and bf :: bool and ms :: "bridge_message_row list"
    and q :: "cloud_message_row \<Rightarrow> bool"
  assumes harmless: "m \<in> set (status_rows db login) \<Longrightarrow> q m \<Longrightarrow> \<not> messageBridgeableSQL db login bf m \<or> status_delivered login b ms m"
begin

lemma bucket:
  assumes "m \<in> set (status_rows db login)" "x \<in> {Unavailable, Deliverable}"
  shows "(bucket_of (scrub_rows q db) login b cap bf ms (scrub_row q m) = x \<and>
      (x = Deliverable \<longrightarrow> \<not> status_delivered login b ms (scrub_row q m))) \<longleftrightarrow>
    (bucket_of db login b cap bf ms m = x \<and> (x = Deliverable \<longrightarrow> \<not> status_delivered login b ms m))"
proof (cases "q m")
  case True
  from harmless [OF assms(1) this] show ?thesis
    using assms(2) True by (auto simp: bucket_of_def scrub_row_def scrub_rows_def statusMessageUnavailableSQL_def)
next
  case False
  then show ?thesis using scrubbed_rank [of q db login bf m] by (simp add: bucket_of_def scrub_row_def scrub_rows_def)
qed

lemma counts:
  assumes "x \<in> {Unavailable, Deliverable}"
  shows "length (filter (\<lambda>m. bucket_of (scrub_rows q db) login b cap bf ms m = x \<and> (x = Deliverable \<longrightarrow> \<not> status_delivered login b ms m))
      (filter (\<lambda>m. \<not> is_reaction m) (status_rows (scrub_rows q db) login))) =
    length (filter (\<lambda>m. bucket_of db login b cap bf ms m = x \<and> (x = Deliverable \<longrightarrow> \<not> status_delivered login b ms m))
      (filter (\<lambda>m. \<not> is_reaction m) (status_rows db login)))"
  unfolding scrubbed_status_rows filter_filter
proof (rule length_filter_map)
  fix m assume m: "m \<in> set (status_rows db login)"
  have "is_reaction (scrub_row q m) = is_reaction m" by (simp add: scrub_row_def)
  with bucket [OF m assms] show "(\<not> is_reaction (scrub_row q m) \<and> bucket_of (scrub_rows q db) login b cap bf ms (scrub_row q m) = x \<and>
      (x = Deliverable \<longrightarrow> \<not> status_delivered login b ms (scrub_row q m))) =
    (\<not> is_reaction m \<and> bucket_of db login b cap bf ms m = x \<and> (x = Deliverable \<longrightarrow> \<not> status_delivered login b ms m))"
    by simp
qed

end

text \<open>The scrubber's statement is harmless: what it forces is never bridged, what it proves is delivered.\<close>

lemma filtered_not_bridgeable: "permanentlyFilteredMessageWhere s db m \<Longrightarrow> \<not> messageBridgeableSQL db (loginID s) (bridgeFiltered s) m"
  unfolding messageBridgeable_eq permanentlyFilteredMessageWhere_def cloudMessageChatFilterWhere_def by blast

interpretation body_scrubber: harmless_scrub db "loginID s" b cap "bridgeFiltered s" ms
  "\<lambda>m. scrub_base s cutoff m \<and> not_excluded ex m \<and>
    (forceWhere s db m \<or> delivered_in s b ms m \<and> pendingBackfillGateSQL s db hold m \<and> cloudMessageChatFilterWhere s db m)"
  for db s b cap ms cutoff ex hold
  by unfold_locales
    (auto simp: forceWhere_def status_rows_def dest: filtered_not_bridgeable delivered_in_status)

lemma scrub_pass_report:
  assumes "pk_ok db" "\<And>n. clock 1 \<le> clock (n + 2)" "sr_LoginID r = loginID s" "sr_BridgeID r = b" "sr_BridgeFilteredChats r = bridgeFiltered s"
  shows "PendingMessages (readMessageCounts (scrubBridgedBodies off s clock (\<lambda>_. ms) quiet b grace ex db) ms r) =
      PendingMessages (readMessageCounts db ms r)"
    and "sr_UnavailableMessages (readMessageCounts (scrubBridgedBodies off s clock (\<lambda>_. ms) quiet b grace ex db) ms r) =
      sr_UnavailableMessages (readMessageCounts db ms r)"
proof -
  let ?q = "\<lambda>m. scrub_base s (clock 0 - grace) m \<and> not_excluded ex m \<and>
    (forceWhere s db m \<or> delivered_in s b ms m \<and>
      pendingBackfillGateSQL s db (clock 1 - pendingBackfillScrubHold) m \<and> cloudMessageChatFilterWhere s db m)"
  have pass: "scrubBridgedBodies False s clock (\<lambda>_. ms) quiet b grace ex db = scrub_rows ?q db"
    unfolding scrub_rows_def by (rule scrub_pass_stmt [OF assms(1,2)])
  note counts = body_scrubber.counts [where s = s and b = b and ms = ms and db = db and cap = "sr_MessageCap r" and ex = ex
      and cutoff = "clock 0 - grace" and hold = "clock 1 - pendingBackfillScrubHold"]
  have "PendingMessages (readMessageCounts (scrub_rows ?q db) ms r) = PendingMessages (readMessageCounts db ms r)"
    using counts [of Deliverable] unfolding pending_count assms(3-5) by simp
  moreover have "sr_UnavailableMessages (readMessageCounts (scrub_rows ?q db) ms r) = sr_UnavailableMessages (readMessageCounts db ms r)"
    using counts [of Unavailable] unfolding readMessageCounts_buckets assms(3-5) by simp
  ultimately show "PendingMessages (readMessageCounts (scrubBridgedBodies off s clock (\<lambda>_. ms) quiet b grace ex db) ms r) =
      PendingMessages (readMessageCounts db ms r)"
    and "sr_UnavailableMessages (readMessageCounts (scrubBridgedBodies off s clock (\<lambda>_. ms) quiet b grace ex db) ms r) =
      sr_UnavailableMessages (readMessageCounts db ms r)"
    using pass by (cases off; simp add: scrubBridgedBodies_def)+
qed

lemma scrub_pass_frame:
  assumes "pk_ok db" "\<And>n. clock 1 \<le> clock (n + 2)"
  shows "cloud_sync_state (scrubBridgedBodies off s clock (\<lambda>_. ms) quiet b grace ex db) = cloud_sync_state db"
  using scrub_pass_stmt [OF assms, of s ms b grace ex] by (cases off) (simp_all add: scrubBridgedBodies_def)

lemma report_bootstrap:
  "sr_BootstrapComplete (GetSyncStatus sd opts) =
     (let r = report_ids sd (new_report opts)
      in sr_HasLogin r \<and> sd_has_cloud_message sd \<and> sd_has_cloud_chat sd \<and> sd_has_cloud_sync_state sd \<and>
         sr_BootstrapComplete (readZones (sd_cloud sd) r))"
proof -
  have no: "\<not> sr_BootstrapComplete (report_ids sd (new_report opts))"
    by (simp add: report_ids_def new_report_def split: option.split list.split)
  have frame: "sr_BootstrapComplete (readBackfillTasks tasks r) = sr_BootstrapComplete r"
    "sr_BootstrapComplete (readLastDelivered lms r) = sr_BootstrapComplete r"
    "sr_BootstrapComplete (readMessageCounts db ms r) = sr_BootstrapComplete r"
    "sr_BootstrapComplete (readChatCounts db r) = sr_BootstrapComplete r"
    "sr_BootstrapComplete (readZones db (r\<lparr>sr_CloudTablesPresent := c\<rparr>)) = sr_BootstrapComplete (readZones db r)"
    for tasks lms db ms r c
    by (simp_all add: readBackfillTasks_def readLastDelivered_def readMessageCounts_def readChatCounts_def readZones_def Let_def)
  show ?thesis by (auto simp add: GetSyncStatus_def Let_def frame no split: option.split)
qed

lemma report_login: "sr_HasLogin (GetSyncStatus sd opts) = sr_HasLogin (report_ids sd (new_report opts))"
proof -
  have frame: "sr_HasLogin (readBackfillTasks tasks r) = sr_HasLogin r" "sr_HasLogin (readLastDelivered lms r) = sr_HasLogin r"
    "sr_HasLogin (readMessageCounts db ms r) = sr_HasLogin r" "sr_HasLogin (readChatCounts db r) = sr_HasLogin r"
    "sr_HasLogin (readZones db r) = sr_HasLogin r"
    for tasks lms db ms r
    by (simp_all add: readBackfillTasks_def readLastDelivered_def readMessageCounts_def readChatCounts_def readZones_def Let_def)
  show ?thesis by (simp add: GetSyncStatus_def Let_def frame split: option.split)
qed

text \<open>C38. Scrubbing never shows in the report: a pass of the body scrubber over the cache changes neither the
  number of pending messages nor the number of unavailable ones, nor whether the report says that
  everything is delivered.\<close>

theorem scrub_keeps_report:
  assumes "pk_ok (sd_cloud sd)" "\<And>n. clock 1 \<le> clock (n + 2)" "sd_message sd = Some ms"
    and "so_LoginID opts = loginID s" "so_BridgeID opts = b" "loginID s \<noteq> []" "b \<noteq> []" "so_BridgeFilteredChats opts = bridgeFiltered s"
  shows "let r = GetSyncStatus sd opts;
      r' = GetSyncStatus (sd\<lparr>sd_cloud := scrubBridgedBodies off s clock (\<lambda>_. map fst ms) quiet b grace ex (sd_cloud sd)\<rparr>) opts
    in PendingMessages r' = PendingMessages r \<and> sr_UnavailableMessages r' = sr_UnavailableMessages r \<and>
       FullyCaughtUp r' = FullyCaughtUp r"
proof -
  let ?sd = "sd\<lparr>sd_cloud := scrubBridgedBodies off s clock (\<lambda>_. map fst ms) quiet b grace ex (sd_cloud sd)\<rparr>"
  let ?r = "report_ids sd (new_report opts)"
  have ids: "report_ids ?sd (new_report opts) = ?r" by (simp add: report_ids_def)
  have own: "sr_LoginID ?r = loginID s" "sr_BridgeID ?r = b" "sr_BridgeFilteredChats ?r = bridgeFiltered s"
    using assms(4-8) by (simp_all add: report_ids_def new_report_def)
  have fields: "PendingMessages r = message_fields r ! 6 - message_fields r ! 7" "sr_UnavailableMessages r = message_fields r ! 3" for r
    by (simp_all add: message_fields_def PendingMessages_eq)
  note pass = scrub_pass_report [OF assms(1,2) own, where ms = "map fst ms" and off = off and grace = grace and ex = ex]
  have "PendingMessages (GetSyncStatus ?sd opts) = PendingMessages (GetSyncStatus sd opts)"
    using pass(1) unfolding fields report_message_fields ids Let_def by (simp add: assms(3))
  moreover have "sr_UnavailableMessages (GetSyncStatus ?sd opts) = sr_UnavailableMessages (GetSyncStatus sd opts)"
    using pass(2) unfolding fields report_message_fields ids Let_def by (simp add: assms(3))
  moreover have "sr_BootstrapComplete (GetSyncStatus ?sd opts) = sr_BootstrapComplete (GetSyncStatus sd opts)"
    unfolding report_bootstrap ids Let_def by (simp add: readZones_def scrub_pass_frame [OF assms(1,2)])
  moreover have "sr_HasLogin (GetSyncStatus ?sd opts) = sr_HasLogin (GetSyncStatus sd opts)"
    unfolding report_login ids ..
  ultimately show ?thesis by (simp add: FullyCaughtUp_def)
qed

section \<open>Examples\<close>

definition sample_status :: status_db where
  "sample_status = \<lparr>sd_user_login = Some [(''b'', ''alice'')], sd_has_cloud_message = True, sd_has_cloud_chat = True,
     sd_has_cloud_sync_state = True, sd_cloud = sample_group_db, sd_message = Some [(sample_delivery, 7)],
     sd_backfill_task = None\<rparr>"

definition sample_options :: SyncStatusOptions where
  "sample_options = \<lparr>so_BridgeID = ''b'', so_LoginID = ''alice'', so_MaxInitialMessages = 100, so_BridgeFilteredChats = False\<rparr>"

lemma sample_report: "message_fields (GetSyncStatus sample_status sample_options) = [2, 0, 0, 0, 0, 0, 2, 1]"
  by code_simp

theorem scrub_keeps_report_witness:
  "PendingMessages (GetSyncStatus (sample_status\<lparr>sd_cloud :=
     scrubBridgedBodies False sample_store (\<lambda>_. 1000000000) (\<lambda>_. [sample_delivery]) quiet ''b'' 300000 [] sample_group_db\<rparr>) sample_options) = 1"
proof -
  have sd: "sd_cloud sample_status = sample_group_db" "sd_message sample_status = Some [(sample_delivery, 7)]"
    by (simp_all add: sample_status_def)
  have opts: "so_LoginID sample_options = loginID sample_store" "so_BridgeID sample_options = ''b''"
    "so_BridgeFilteredChats sample_options = bridgeFiltered sample_store" "loginID sample_store \<noteq> []" "''b'' \<noteq> []"
    by (simp_all add: sample_options_def sample_store_def newCloudBackfillStore_def)
  have pk: "pk_ok (sd_cloud sample_status)" unfolding sd by (rule pk_sample_group_db)
  have clock: "(1000000000 :: int) \<le> 1000000000" by simp
  have "PendingMessages (GetSyncStatus (sample_status\<lparr>sd_cloud :=
      scrubBridgedBodies False sample_store (\<lambda>_. 1000000000) (\<lambda>_. map fst [(sample_delivery, 7 :: int)]) quiet ''b'' 300000 [] (sd_cloud sample_status)\<rparr>)
      sample_options) = PendingMessages (GetSyncStatus sample_status sample_options)"
    by (rule scrub_keeps_report [OF pk clock sd(2) opts(1,2,4,5,3), unfolded Let_def, THEN conjunct1])
  moreover have "PendingMessages (GetSyncStatus sample_status sample_options) = 1"
    using sample_report by (simp add: message_fields_def PendingMessages_eq)
  ultimately show ?thesis by (simp add: sd)
qed

theorem status_deliverable_exact_witness:
  "in_bucket sample_group_db ''alice'' ''b'' 1 False [] Deliverable (cloud_message sample_group_db ! 1)"
proof -
  let ?m = "cloud_message sample_group_db ! 1"
  have "?m \<in> set (cloud_message sample_group_db)" "\<not> is_reaction ?m" "m_guid ?m \<noteq> []"
    "strip_object_char (text_or_empty (m_subject ?m)) = text_or_empty (m_subject ?m)"
    "\<not> (\<exists>sc \<in> set (cloud_chat sample_group_db). c_deleted sc \<and> c_login_id sc = loginID sample_store \<and>
       col_eq (m_portal_id ?m) (c_portal_id sc) \<and> text_present (c_display_name sc) \<and>
       normalized_text (m_text ?m) = normalized_text (c_display_name sc))"
    by code_simp+
  note exact = status_deliverable_exact [OF pk_sample_group_db this, of "''b''" 1 "[]"]
  have "readable sample_store sample_group_db ''gid:bb'' ?m"
    "?m \<in> set (take 1 (newest_first (readable_rows sample_store sample_group_db ''gid:bb'')))"
    "if m_body_scrubbed ?m then delivered_in sample_store ''b'' [] ?m else cloudBackfillableEventWhere sample_store sample_group_db ?m"
    by code_simp+
  then have "in_bucket sample_group_db (loginID sample_store) ''b'' 1 (bridgeFiltered sample_store) [] Deliverable ?m"
    using exact by blast
  then show ?thesis by (simp add: sample_store_def newCloudBackfillStore_def)
qed

text \<open>
  Where the two part: a message that repeats the name of a deleted chat of its portal is no event for the
  store, but pending work for the report.
\<close>

definition renamed_db :: cloud_db where
  "renamed_db = (let db = upsertMessageBatch sample_store 1 [sample_row ''g1'' ''gid:aa'' 5 ''Trip'']
     (upsertChatBatch sample_store 1 [(sample_chat ''AA'' ''gid:aa'' [])\<lparr>cu_DisplayName := Some ''Trip''\<rparr>] empty_db)
   in db\<lparr>cloud_chat := map (\<lambda>c. c\<lparr>c_deleted := True\<rparr>) (cloud_chat db)\<rparr>)"

lemma removed_rename_pending:
  "in_bucket renamed_db ''alice'' ''b'' 0 False [] Deliverable (hd (cloud_message renamed_db)) \<and>
   \<not> cloudBackfillableEventWhere sample_store renamed_db (hd (cloud_message renamed_db))"
  by code_simp

end
