(* ===== verification/Portal_Listing.thy ===== *)
theory Portal_Listing
  imports Sync_Status
begin

text \<open>
  The overviews of all portals (\<^verbatim>\<open>cloud_backfill_store.go\<close> 3457-3562, 3694-3947): the listing the initial
  sync decides from, the portals a user can restore, and the statistics of the debug command. A
  \<^verbatim>\<open>GROUP BY\<close> is a list of the distinct group keys with an aggregate for each; rows a query does not
  order come in the order of their first row. The order of JSON texts is an argument.
\<close>

section \<open>The listing of the initial sync\<close>

record portalWithNewestMessage =
  pn_PortalID :: portal_id
  pn_NewestTS :: millis
  pn_ActivityTS :: millis
  pn_MessageActivityTS :: millis
  pn_MessageWriteActivityTS :: millis
  pn_ContentfulWriteActivity :: millis
  pn_MetadataTS :: millis
  pn_MessageCount :: nat
  pn_ContentfulCount :: nat

definition max_or_0 :: "int list \<Rightarrow> int" where
  "max_or_0 xs = (case sql_max xs of None \<Rightarrow> 0 | Some t \<Rightarrow> t)"

definition portals_of :: "cloud_message_row list \<Rightarrow> portal_id list" where
  "portals_of ms = remdups (non_null (map m_portal_id ms))"

definition rows_in :: "portal_id \<Rightarrow> cloud_message_row list \<Rightarrow> cloud_message_row list" where
  "rows_in p ms = filter (\<lambda>m. m_portal_id m = Some p) ms"

definition listing_capped :: "int \<Rightarrow> bool" where
  "listing_capped maxInitialMessages \<longleftrightarrow> maxInitialMessages > 0 \<and> maxInitialMessages < 2 ^ 31 - 1"

definition ranked_rows :: "cloudBackfillStore \<Rightarrow> cloud_db \<Rightarrow> cloud_message_row list" where
  "ranked_rows s db = filter (\<lambda>m. m_login_id m = loginID s \<and> text_present (m_portal_id m) \<and> \<not> m_deleted m \<and>
     m_record_name m \<noteq> [] \<and> cloudMessageChatFilterWhere s db m) (cloud_message db)"

definition listing_rank :: "cloudBackfillStore \<Rightarrow> cloud_db \<Rightarrow> cloud_message_row \<Rightarrow> nat" where
  "listing_rank s db m =
     length (filter (\<lambda>x. m_portal_id x = m_portal_id m \<and> message_pos x \<ge> message_pos m) (ranked_rows s db))"

definition message_stats :: "cloudBackfillStore \<Rightarrow> cloud_db \<Rightarrow> portalWithNewestMessage list" where
  "message_stats s db =
     (let rows = filter (cloudPortalSyncCandidateWhere s db) (cloud_message db)
      in map (\<lambda>p. \<lparr>pn_PortalID = p, pn_NewestTS = 0, pn_ActivityTS = max_or_0 (map m_timestamp_ms (rows_in p rows)),
           pn_MessageActivityTS = max_or_0 (map m_timestamp_ms (rows_in p rows)),
           pn_MessageWriteActivityTS = max_or_0 (map write_activity (rows_in p rows)),
           pn_ContentfulWriteActivity = 0, pn_MetadataTS = 0,
           pn_MessageCount = length (rows_in p rows), pn_ContentfulCount = 0\<rparr>) (portals_of rows))"

definition content_rows :: "cloudBackfillStore \<Rightarrow> int \<Rightarrow> cloud_db \<Rightarrow> cloud_message_row list" where
  "content_rows s maxInitialMessages db =
     (if listing_capped maxInitialMessages
      then filter (\<lambda>m. listing_rank s db m \<le> nat maxInitialMessages \<and> cloudPortalSyncCandidateWhere s db m) (ranked_rows s db)
      else filter (cloudPortalSyncCandidateWhere s db) (cloud_message db))"

definition content_stats :: "cloudBackfillStore \<Rightarrow> int \<Rightarrow> cloud_db \<Rightarrow> portalWithNewestMessage list" where
  "content_stats s maxInitialMessages db =
     (let rows = content_rows s maxInitialMessages db
      in map (\<lambda>p. \<lparr>pn_PortalID = p,
           pn_NewestTS = max_or_0 (map (\<lambda>m. if cloudBackfillableEventWhere s db m then m_timestamp_ms m else 0) (rows_in p rows)),
           pn_ActivityTS = 0, pn_MessageActivityTS = 0, pn_MessageWriteActivityTS = 0,
           pn_ContentfulWriteActivity =
             max_or_0 (map (\<lambda>m. if cloudBackfillableEventWhere s db m then write_activity m else 0) (rows_in p rows)),
           pn_MetadataTS = 0, pn_MessageCount = 0,
           pn_ContentfulCount = length (filter (cloudBackfillableEventWhere s db) (rows_in p rows))\<rparr>) (portals_of rows))"

definition chat_stats :: "cloudBackfillStore \<Rightarrow> cloud_db \<Rightarrow> portalWithNewestMessage list" where
  "chat_stats s db =
     (let rows = filter (cloudChatPortalSyncCandidateWhere s) (cloud_chat db);
          newest = (\<lambda>p. max_or_0 (non_null (map c_updated_ts (filter (\<lambda>c. c_portal_id c = p) rows))))
      in map (\<lambda>p. \<lparr>pn_PortalID = p, pn_NewestTS = 0, pn_ActivityTS = newest p, pn_MessageActivityTS = 0,
           pn_MessageWriteActivityTS = 0, pn_ContentfulWriteActivity = 0, pn_MetadataTS = newest p,
           pn_MessageCount = 0, pn_ContentfulCount = 0\<rparr>) (remdups (map c_portal_id rows)))"

definition merge_stats :: "portalWithNewestMessage list \<Rightarrow> portal_id \<Rightarrow> portalWithNewestMessage" where
  "merge_stats stats p =
     (let own = filter (\<lambda>r. pn_PortalID r = p) stats; top = (\<lambda>f. max_or_0 (map f own))
      in \<lparr>pn_PortalID = p, pn_NewestTS = top pn_NewestTS, pn_ActivityTS = top pn_ActivityTS,
          pn_MessageActivityTS = top pn_MessageActivityTS, pn_MessageWriteActivityTS = top pn_MessageWriteActivityTS,
          pn_ContentfulWriteActivity = top pn_ContentfulWriteActivity, pn_MetadataTS = top pn_MetadataTS,
          pn_MessageCount = sum_list (map pn_MessageCount own), pn_ContentfulCount = sum_list (map pn_ContentfulCount own)\<rparr>)"

definition listPortalIDsWithNewestTimestamp :: "cloudBackfillStore \<Rightarrow> int \<Rightarrow> cloud_db \<Rightarrow> portalWithNewestMessage list" where
  "listPortalIDsWithNewestTimestamp s maxInitialMessages db =
     (let stats = message_stats s db @ content_stats s maxInitialMessages db @ chat_stats s db
      in sort_key (\<lambda>r. - pn_ActivityTS r) (map (merge_stats stats) (remdups (map pn_PortalID stats))))"

section \<open>Portals that can be restored\<close>

record softDeletedPortal =
  sp_PortalID :: portal_id
  sp_NewestTS :: millis
  sp_Count :: nat
  sp_CloudChatID :: string
  sp_GroupID :: string
  sp_ParticipantsJSON :: "string list json_text"

definition max_text :: "string list \<Rightarrow> string" where
  "max_text xs = fold max xs []"

definition listSoftDeletedPortals ::
  "(string list json_text list \<Rightarrow> string list json_text) \<Rightarrow> cloudBackfillStore \<Rightarrow> cloud_db \<Rightarrow> softDeletedPortal list" where
  "listSoftDeletedPortals max_json s db =
     (let chats = filter (\<lambda>c. c_login_id c = loginID s \<and> c_portal_id c \<noteq> []) (cloud_chat db);
          chats_of = (\<lambda>p. filter (\<lambda>c. c_portal_id c = p) chats);
          deleted_chats = filter (\<lambda>p. list_ex c_deleted (chats_of p) \<and> \<not> list_ex (\<lambda>c. \<not> c_deleted c) (chats_of p))
            (remdups (map c_portal_id chats));
          msgs_of = (\<lambda>p. filter (\<lambda>m. m_login_id m = loginID s \<and> m_portal_id m = Some p) (cloud_message db));
          restorable = filter (\<lambda>p. \<not> list_ex (\<lambda>m. \<not> m_deleted m) (msgs_of p)) deleted_chats
      in sort_key (\<lambda>r. - sp_NewestTS r) (map (\<lambda>p.
           \<lparr>sp_PortalID = p,
            sp_NewestTS = (case sql_max (map m_timestamp_ms (msgs_of p)) of
              Some t \<Rightarrow> t | None \<Rightarrow> max_or_0 (non_null (map c_updated_ts (chats_of p)))),
            sp_Count = length (msgs_of p),
            sp_CloudChatID = max_text (map c_cloud_chat_id (chats_of p)),
            sp_GroupID = max_text (map c_group_id (chats_of p)),
            sp_ParticipantsJSON = (case non_null (map c_participants_json (chats_of p)) of
              [] \<Rightarrow> JEmpty | js \<Rightarrow> max_json js)\<rparr>) restorable))"

section \<open>Statistics of the debug command\<close>

record msgDebugPortalStat =
  md_PortalID :: portal_id
  md_Total :: nat
  md_FromMe :: nat
  md_NotFromMe :: nat
  md_EmptySender :: nat
  md_SampleChats :: "string list"
  md_SampleSenders :: "string list"

definition debug_siblings :: "cloudBackfillStore \<Rightarrow> portal_id \<Rightarrow> cloud_db \<Rightarrow> portal_id list" where
  "debug_siblings s portalID db =
     remdups (concat (map (\<lambda>cc1. map c_portal_id (filter (\<lambda>cc2. c_login_id cc2 = c_login_id cc1 \<and> c_group_id cc2 = c_group_id cc1 \<and>
         c_group_id cc2 \<noteq> []) (cloud_chat db)))
       (filter (\<lambda>cc1. c_login_id cc1 = loginID s \<and> c_portal_id cc1 = portalID) (cloud_chat db))))"

text \<open>Without a row the sums are NULL, which does not scan into a Go integer: the portal is passed over.\<close>

definition debug_stat :: "cloudBackfillStore \<Rightarrow> cloud_db \<Rightarrow> portal_id \<Rightarrow> msgDebugPortalStat option" where
  "debug_stat s db pid =
     (let own = filter (\<lambda>m. m_login_id m = loginID s \<and> m_portal_id m = Some pid \<and> \<not> m_deleted m) (cloud_message db);
          real = filter (\<lambda>m. m_record_name m \<noteq> []) own
      in if real = [] then None
         else Some \<lparr>md_PortalID = pid, md_Total = length real,
           md_FromMe = length (filter m_is_from_me real),
           md_NotFromMe = length (filter (\<lambda>m. \<not> m_is_from_me m) real),
           md_EmptySender = length (filter (\<lambda>m. \<not> m_is_from_me m \<and> \<not> text_present (m_sender m)) real),
           md_SampleChats = take 5 (remdups (map (\<lambda>m. text_or_empty (m_chat_id m)) (filter (\<lambda>m. text_present (m_chat_id m)) own))),
           md_SampleSenders = take 5 (remdups (map (\<lambda>m. text_or_empty (m_sender m)) (filter (\<lambda>m. \<not> m_is_from_me m) real)))\<rparr>)"

definition debugMessageStats :: "cloudBackfillStore \<Rightarrow> portal_id \<Rightarrow> cloud_db \<Rightarrow> msgDebugPortalStat list" where
  "debugMessageStats s portalID db =
     non_null (map (debug_stat s db) (portalID # filter (\<lambda>p. p \<noteq> portalID) (debug_siblings s portalID db)))"

text \<open>SQL's \<^verbatim>\<open>LIKE\<close>: a percent sign stands for any text, an underscore for one character, letters in any case.\<close>

function sql_like :: "string \<Rightarrow> string \<Rightarrow> bool" where
  "sql_like [] t = (t = [])"
| "sql_like (c # p) t =
     (if c = CHR ''%'' then sql_like p t \<or> (case t of [] \<Rightarrow> False | _ # t' \<Rightarrow> sql_like (c # p) t')
      else (case t of [] \<Rightarrow> False | x # t' \<Rightarrow> (c = CHR ''_'' \<or> lower_char c = lower_char x) \<and> sql_like p t'))"
  by pat_completeness auto
termination by (relation "measure (\<lambda>(p, t). length p + length t)") auto

declare sql_like.simps [simp del]

text \<open>A group without a portal ID does not scan into a Go string.\<close>

definition debugFindPortalsByIdentifierSuffix ::
  "cloudBackfillStore \<Rightarrow> string \<Rightarrow> cloud_db \<Rightarrow> record_error + (portal_id \<times> string) list" where
  "debugFindPortalsByIdentifierSuffix s suffix db =
     (let rows = filter (\<lambda>m. m_login_id m = loginID s \<and> \<not> m_deleted m \<and> m_record_name m \<noteq> [] \<and>
            sql_like (CHR ''%'' # to_lower suffix) (to_lower (text_or_empty (m_chat_id m)))) (cloud_message db);
          count = (\<lambda>p. length (filter (\<lambda>m. m_portal_id m = p) rows));
          found = take 10 (sort_key (\<lambda>p. - int (count p)) (remdups (map m_portal_id rows)))
      in if None \<in> set found then Inl NullColumn
         else Inr (map (\<lambda>p. (text_or_empty p, itoa (int (count p)))) found))"

record debugChatInfo =
  dc_Found :: bool
  dc_Deleted :: bool
  dc_IsFiltered :: int
  dc_CloudChatID :: string
  dc_GroupID :: string

definition debug_chat_info :: "cloudBackfillStore \<Rightarrow> portal_id \<Rightarrow> cloud_db \<Rightarrow> debugChatInfo" where
  "debug_chat_info s portalID db =
     (case sort_key (\<lambda>c. (c_deleted c, - int (length (c_cloud_chat_id c)))) (chat_rows s (\<lambda>c. c_portal_id c = portalID) db) of
        [] \<Rightarrow> \<lparr>dc_Found = False, dc_Deleted = False, dc_IsFiltered = 0, dc_CloudChatID = [], dc_GroupID = []\<rparr>
      | c # _ \<Rightarrow> \<lparr>dc_Found = True, dc_Deleted = c_deleted c, dc_IsFiltered = c_is_filtered c,
          dc_CloudChatID = c_cloud_chat_id c, dc_GroupID = c_group_id c\<rparr>)"

definition debugTotalMessageCount :: "cloudBackfillStore \<Rightarrow> cloud_db \<Rightarrow> nat" where
  "debugTotalMessageCount s db =
     length (filter (\<lambda>m. m_login_id m = loginID s \<and> \<not> m_deleted m \<and> m_record_name m \<noteq> []) (cloud_message db))"

text \<open>The dialect's bind placeholders.\<close>

definition sqlPlaceholders :: "bool \<Rightarrow> nat \<Rightarrow> string" where
  "sqlPlaceholders postgres n =
     join '', '' (map (\<lambda>i. if postgres then CHR ''$'' # itoa (int i + 1) else ''?'') [0..<n])"

section \<open>The listing and the point queries\<close>

lemma listing_rank_eq: "listing_rank s db = status_rank db (loginID s) (bridgeFiltered s)"
  unfolding listing_rank_def status_rank_def ranked_rows_def status_rows_def filter_filter messageBridgeable_eq fun_eq_iff
  by (intro allI arg_cong [where f = length] filter_cong) auto

lemma candidate_ranked: "cloudPortalSyncCandidateWhere s db m \<Longrightarrow> m \<in> set (cloud_message db) \<Longrightarrow> m \<in> set (ranked_rows s db)"
  by (simp add: cloudPortalSyncCandidateWhere_def ranked_rows_def)

lemma candidate_readable: "cloudPortalSyncCandidateWhere s db m \<Longrightarrow> m_portal_id m = Some p \<Longrightarrow> readable s db p m \<and> p \<noteq> []"
  by (simp add: cloudPortalSyncCandidateWhere_def readable_def col_eq_def text_present_def)

lemma backfillable_candidate: "cloudBackfillableEventWhere s db m \<Longrightarrow> cloudPortalSyncCandidateWhere s db m"
  by (simp add: cloudPortalSyncCandidateWhere_def) (simp add: cloudBackfillableEventWhere_def)

text \<open>The contentful rows the listing counts for a portal are those the first backfill of its room may deliver.\<close>

definition offered_rows :: "cloudBackfillStore \<Rightarrow> int \<Rightarrow> portal_id \<Rightarrow> cloud_db \<Rightarrow> cloud_message_row list" where
  "offered_rows s maxInitialMessages p db = filter (cloudBackfillableEventWhere s db)
     (if listing_capped maxInitialMessages then take (nat maxInitialMessages) (newest_first (readable_rows s db p))
      else readable_rows s db p)"

lemma content_portals: "rows_in p (content_rows s n db) = [] \<or> p \<noteq> []"
  by (auto simp: rows_in_def content_rows_def ranked_rows_def cloudPortalSyncCandidateWhere_def text_present_def filter_empty_conv)

lemma uncapped_content:
  assumes "p \<noteq> []" "\<not> listing_capped n"
  shows "filter (cloudBackfillableEventWhere s db) (rows_in p (content_rows s n db)) = offered_rows s n p db"
proof -
  have "cloudBackfillableEventWhere s db m \<and> m_portal_id m = Some p \<and> cloudPortalSyncCandidateWhere s db m \<longleftrightarrow>
      cloudBackfillableEventWhere s db m \<and> readable s db p m" for m
    using backfillable_candidate [of s db m] candidate_readable [of s db m p] by (auto simp: readable_def col_eq_def)
  then have "filter (\<lambda>m. cloudBackfillableEventWhere s db m \<and> m_portal_id m = Some p \<and> cloudPortalSyncCandidateWhere s db m) ms =
      filter (\<lambda>m. cloudBackfillableEventWhere s db m \<and> readable s db p m) ms" for ms by presburger
  then show ?thesis using assms(2) by (simp add: offered_rows_def content_rows_def rows_in_def readable_rows_def conj_ac)
qed

lemma capped_content:
  assumes "pk_ok db" "p \<noteq> []" "listing_capped n"
  shows "set (filter (cloudBackfillableEventWhere s db) (rows_in p (content_rows s n db))) = set (offered_rows s n p db)"
proof (intro set_eqI iffI)
  fix m assume "m \<in> set (filter (cloudBackfillableEventWhere s db) (rows_in p (content_rows s n db)))"
  then have m: "cloudBackfillableEventWhere s db m" "m_portal_id m = Some p" "m \<in> set (cloud_message db)"
      "listing_rank s db m \<le> nat n"
    using assms(3) by (auto simp: rows_in_def content_rows_def ranked_rows_def)
  have "readable s db p m" using candidate_readable [OF backfillable_candidate [OF m(1)] m(2)] by blast
  then show "m \<in> set (offered_rows s n p db)"
    using status_rank_window [OF assms(1) m(3) _ assms(2)] m(1,4) assms(3) by (simp add: offered_rows_def listing_rank_eq)
next
  fix m assume "m \<in> set (offered_rows s n p db)"
  then have m: "cloudBackfillableEventWhere s db m" "m \<in> set (take (nat n) (newest_first (readable_rows s db p)))"
    using assms(3) by (simp_all add: offered_rows_def)
  have "m \<in> set (readable_rows s db p)" using m(2) by (auto simp: newest_first_def dest!: in_set_takeD)
  then have r: "m \<in> set (cloud_message db)" "readable s db p m" by (simp_all add: readable_rows_def)
  have "listing_rank s db m \<le> nat n"
    using status_rank_window [OF assms(1) r assms(2)] m(2) by (simp add: listing_rank_eq)
  then show "m \<in> set (filter (cloudBackfillableEventWhere s db) (rows_in p (content_rows s n db)))"
    using m(1) r assms(3) backfillable_candidate [OF m(1)] candidate_ranked [OF backfillable_candidate [OF m(1)] r(1)]
    by (simp add: rows_in_def content_rows_def readable_def col_eq_def)
qed

lemma content_count:
  assumes "pk_ok db" "p \<noteq> []"
  shows "length (filter (cloudBackfillableEventWhere s db) (rows_in p (content_rows s n db))) = length (offered_rows s n p db)"
proof (cases "listing_capped n")
  case True
  have d: "distinct (cloud_message db)" using assms(1) by (auto simp: pk_ok_def unique_key_def distinct_map)
  then have "distinct (filter (cloudBackfillableEventWhere s db) (rows_in p (content_rows s n db)))"
    by (simp add: rows_in_def content_rows_def ranked_rows_def)
  moreover have "distinct (offered_rows s n p db)" using d by (simp add: offered_rows_def readable_rows_def newest_first_def)
  ultimately show ?thesis using capped_content [OF assms True] by (metis distinct_card)
qed (use uncapped_content [OF assms(2)] in simp)

text \<open>A group contributes one row to a branch of the union.\<close>

lemma sum_own:
  assumes "distinct ps" "\<And>p. pn_PortalID (f p) = p"
  shows "sum_list (map g (filter (\<lambda>r. pn_PortalID r = q) (map f ps))) = (if q \<in> set ps then g (f q) else (0 :: nat))"
  using assms by (induction ps) auto

lemma listing_count:
  assumes "p \<noteq> []" "pk_ok db"
  shows "pn_ContentfulCount (merge_stats (message_stats s db @ content_stats s n db @ chat_stats s db) p) = length (offered_rows s n p db)"
proof -
  have portals: "distinct (portals_of ms)" "p \<in> set (portals_of ms) \<longleftrightarrow> rows_in p ms \<noteq> []" for ms
    unfolding portals_of_def rows_in_def by (auto simp: filter_empty_conv, force)
  have "pn_ContentfulCount (merge_stats (message_stats s db @ content_stats s n db @ chat_stats s db) p) =
    length (filter (cloudBackfillableEventWhere s db) (rows_in p (content_rows s n db)))"
    by (simp add: merge_stats_def Let_def message_stats_def content_stats_def chat_stats_def sum_own portals)
  then show ?thesis by (simp add: content_count assms)
qed

lemma listing_set: "set (listPortalIDsWithNewestTimestamp s n db) =
    merge_stats (message_stats s db @ content_stats s n db @ chat_stats s db) `
      {p. (\<exists>m \<in> set (cloud_message db). cloudPortalSyncCandidateWhere s db m \<and> m_portal_id m = Some p) \<or>
          (\<exists>c \<in> set (cloud_chat db). cloudChatPortalSyncCandidateWhere s c \<and> c_portal_id c = p)}"
proof -
  have ids: "map pn_PortalID (message_stats s db) = portals_of (filter (cloudPortalSyncCandidateWhere s db) (cloud_message db))"
    "map pn_PortalID (content_stats s n db) = portals_of (content_rows s n db)"
    "map pn_PortalID (chat_stats s db) = remdups (map c_portal_id (filter (cloudChatPortalSyncCandidateWhere s) (cloud_chat db)))"
    by (simp_all add: message_stats_def content_stats_def chat_stats_def comp_def Let_def)
  have sub: "set (content_rows s n db) \<subseteq> set (filter (cloudPortalSyncCandidateWhere s db) (cloud_message db))"
    by (auto simp: content_rows_def ranked_rows_def)
  have "set (map pn_PortalID (message_stats s db @ content_stats s n db @ chat_stats s db)) =
      {p. (\<exists>m \<in> set (cloud_message db). cloudPortalSyncCandidateWhere s db m \<and> m_portal_id m = Some p) \<or>
          (\<exists>c \<in> set (cloud_chat db). cloudChatPortalSyncCandidateWhere s c \<and> c_portal_id c = p)}" (is "?l = ?r")
  proof (intro set_eqI iffI)
    fix p assume "p \<in> ?l"
    then consider "p \<in> set (portals_of (filter (cloudPortalSyncCandidateWhere s db) (cloud_message db)))"
      | "p \<in> set (portals_of (content_rows s n db))"
      | "p \<in> set (remdups (map c_portal_id (filter (cloudChatPortalSyncCandidateWhere s) (cloud_chat db))))"
      unfolding map_append ids set_append by blast
    then show "p \<in> ?r" using sub by cases (auto simp: portals_of_def image_iff)
  next
    fix p assume "p \<in> ?r"
    then have "p \<in> set (portals_of (filter (cloudPortalSyncCandidateWhere s db) (cloud_message db))) \<or>
        p \<in> set (remdups (map c_portal_id (filter (cloudChatPortalSyncCandidateWhere s) (cloud_chat db))))"
      by (auto simp: portals_of_def image_iff)
    then show "p \<in> ?l" unfolding map_append ids set_append by blast
  qed
  then show ?thesis unfolding listPortalIDsWithNewestTimestamp_def Let_def set_sort set_map set_remdups by (simp only:)
qed

lemma merge_stats_id [simp]: "pn_PortalID (merge_stats stats p) = p"
  by (simp add: merge_stats_def Let_def)

lemma listing_distinct: "distinct (map pn_PortalID (listPortalIDsWithNewestTimestamp s n db))"
proof -
  have "distinct (map pn_PortalID (sort_key f (map (merge_stats stats) ps)))" if "distinct ps" for f :: "_ \<Rightarrow> int" and stats ps
  proof -
    have "map pn_PortalID (map (merge_stats stats) ps) = ps" by (simp add: comp_def)
    with that show ?thesis unfolding distinct_map by (metis distinct_map distinct_sort set_sort)
  qed
  then show ?thesis unfolding listPortalIDsWithNewestTimestamp_def Let_def by simp
qed

lemma offered_window: "offered_rows s n p db \<noteq> [] \<longleftrightarrow> hasContentfulMessagesInLatestWindow s p n db" if "p \<noteq> []"
proof (cases "listing_capped n")
  case True
  then show ?thesis by (simp add: offered_rows_def hasContentfulMessagesInLatestWindow_def listing_capped_def)
next
  case False
  then have "n \<le> 0 \<or> n \<ge> 2 ^ 31 - 1" by (simp add: listing_capped_def not_less)
  with False show ?thesis
    by (auto simp: offered_rows_def hasContentfulMessagesInLatestWindow_def hasContentfulMessages_def readable_rows_def
        filter_empty_conv readable_def cloudBackfillableEventWhere_def)
qed

section \<open>Properties\<close>

text \<open>C35. The listing the initial sync decides from agrees with the point queries of a single portal: it names
  each portal once, and names exactly the portals with a candidate message or chat; the contentful count of
  an entry is the number of rows that the first backfill of the room may deliver (the contentful ones among
  the newest messages up to the configured cap, or all without a cap), so it is positive exactly when
  \<^verbatim>\<open>hasContentfulMessagesInLatestWindow\<close> answers yes.\<close>

theorem portal_listing_agrees:
  fixes s :: cloudBackfillStore and db :: cloud_db and maxInitial :: int
  assumes "pk_ok db"
  defines "L \<equiv> listPortalIDsWithNewestTimestamp s maxInitial db"
  shows "distinct (map pn_PortalID L) \<and>
    (p \<in> set (map pn_PortalID L) \<longleftrightarrow>
       (\<exists>m \<in> set (cloud_message db). cloudPortalSyncCandidateWhere s db m \<and> m_portal_id m = Some p) \<or>
       (\<exists>c \<in> set (cloud_chat db). cloudChatPortalSyncCandidateWhere s c \<and> c_portal_id c = p)) \<and>
    (\<forall>e \<in> set L. pn_ContentfulCount e = length (offered_rows s maxInitial (pn_PortalID e) db) \<and>
       (0 < pn_ContentfulCount e \<longleftrightarrow> hasContentfulMessagesInLatestWindow s (pn_PortalID e) maxInitial db))"
proof (intro conjI ballI)
  show "distinct (map pn_PortalID L)" unfolding L_def by (rule listing_distinct)
  show "p \<in> set (map pn_PortalID L) \<longleftrightarrow>
       (\<exists>m \<in> set (cloud_message db). cloudPortalSyncCandidateWhere s db m \<and> m_portal_id m = Some p) \<or>
       (\<exists>c \<in> set (cloud_chat db). cloudChatPortalSyncCandidateWhere s c \<and> c_portal_id c = p)"
    unfolding L_def set_map listing_set by (simp add: image_image)
next
  fix e assume "e \<in> set L"
  then obtain q where q: "e = merge_stats (message_stats s db @ content_stats s maxInitial db @ chat_stats s db) q" "q \<noteq> []"
    unfolding L_def listing_set
    by (auto simp: cloudPortalSyncCandidateWhere_def cloudChatPortalSyncCandidateWhere_def text_present_def)
  show count: "pn_ContentfulCount e = length (offered_rows s maxInitial (pn_PortalID e) db)"
    unfolding q(1) by (simp add: listing_count [OF q(2) assms(1)])
  show "0 < pn_ContentfulCount e \<longleftrightarrow> hasContentfulMessagesInLatestWindow s (pn_PortalID e) maxInitial db"
    using offered_window [OF q(2)] unfolding count by (simp add: q(1))
qed

lemma length_filter_update_where:
  "(\<And>r. q (f r) = q r) \<Longrightarrow> length (filter q (update_where g f rs)) = length (filter q rs)"
  by (induction rs) (simp_all add: update_where_def)

lemma deleted_listing_mem:
  "p \<in> set (map sp_PortalID (listSoftDeletedPortals mj s db)) \<longleftrightarrow>
     p \<noteq> [] \<and> chat_rows s (\<lambda>c. c_portal_id c = p) db \<noteq> [] \<and> \<not> portalHasChat s p db \<and>
     (\<forall>m \<in> set (cloud_message db). m_login_id m = loginID s \<and> m_portal_id m = Some p \<longrightarrow> m_deleted m)"
  by (auto simp: listSoftDeletedPortals_def Let_def image_image chat_rows_def portalHasChat_def filter_empty_conv list_ex_iff)

lemma deleted_listing_count:
  "e \<in> set (listSoftDeletedPortals mj s db) \<Longrightarrow>
   sp_Count e = length (filter (\<lambda>m. m_login_id m = loginID s \<and> m_portal_id m = Some (sp_PortalID e)) (cloud_message db))"
  by (auto simp: listSoftDeletedPortals_def Let_def)

text \<open>C36. A deleted portal can be restored: after the chat of a portal was deleted, the list of restorable portals
  names it, counting every message the cache has of it, and the listing of the initial sync does not; when
  its messages are brought back, it leaves the restorable ones.\<close>

theorem deleted_portal_restorable:
  fixes s :: cloudBackfillStore and db0 :: cloud_db and now :: millis
  assumes "pid \<noteq> []" "chat_rows s (\<lambda>c. c_portal_id c = pid) db0 \<noteq> []"
  defines "db \<equiv> deleteLocalChatByPortalID s now pid db0"
  shows "(\<exists>e \<in> set (listSoftDeletedPortals mj s db). sp_PortalID e = pid \<and>
      sp_Count e = length (filter (\<lambda>m. m_login_id m = loginID s \<and> m_portal_id m = Some pid) (cloud_message db0))) \<and>
    pid \<notin> set (map pn_PortalID (listPortalIDsWithNewestTimestamp s maxInitial db)) \<and>
    pid \<notin> set (map sp_PortalID (listSoftDeletedPortals mj s (snd (undeleteCloudMessagesByPortalID s later pid db))))"
proof (intro conjI)
  have dead: "m_deleted m" if "m \<in> set (cloud_message db)" "m_login_id m = loginID s" "m_portal_id m = Some pid" for m
    using deleteLocalChat_no_live [of s now pid db0] that by (auto simp: db_def delete_portals_def)
  have chat: "chat_rows s (\<lambda>c. c_portal_id c = pid) db \<noteq> []"
    using assms(2) by (simp add: db_def chat_rows_deleteLocalChat)
  have none: "\<not> portalHasChat s pid db" unfolding db_def by (rule deleteLocalChat_no_chat)
  have "pid \<in> set (map sp_PortalID (listSoftDeletedPortals mj s db))"
    unfolding deleted_listing_mem using assms(1) chat none dead by blast
  then obtain e where e: "e \<in> set (listSoftDeletedPortals mj s db)" "sp_PortalID e = pid" by auto
  have "length (filter (\<lambda>m. m_login_id m = loginID s \<and> m_portal_id m = Some pid) (cloud_message db)) =
      length (filter (\<lambda>m. m_login_id m = loginID s \<and> m_portal_id m = Some pid) (cloud_message db0))"
    unfolding db_def deleteLocalChat_rows by (simp add: length_filter_update_where)
  with e show "\<exists>e \<in> set (listSoftDeletedPortals mj s db). sp_PortalID e = pid \<and>
      sp_Count e = length (filter (\<lambda>m. m_login_id m = loginID s \<and> m_portal_id m = Some pid) (cloud_message db0))"
    using deleted_listing_count [OF e(1)] by (intro bexI [of _ e]) simp_all
  show "pid \<notin> set (map pn_PortalID (listPortalIDsWithNewestTimestamp s maxInitial db))"
    unfolding set_map listing_set using dead none
    by (auto simp: image_image cloudPortalSyncCandidateWhere_def cloudChatPortalSyncCandidateWhere_def portalHasChat_def
        chat_rows_def filter_empty_conv)
  have "portalHasChat s pid (snd (undeleteCloudMessagesByPortalID s later pid db))"
    using undelete_hasChat chat by blast
  then show "pid \<notin> set (map sp_PortalID (listSoftDeletedPortals mj s (snd (undeleteCloudMessagesByPortalID s later pid db))))"
    unfolding deleted_listing_mem by blast
qed

section \<open>Examples\<close>

theorem portal_listing_agrees_witness:
  "let L = listPortalIDsWithNewestTimestamp sample_store 1 sample_group_db
   in map pn_PortalID L = [''gid:bb'', ''gid:aa''] \<and> distinct (map pn_PortalID L) \<and>
      hasContentfulMessagesInLatestWindow sample_store ''gid:bb'' 1 sample_group_db"
proof -
  let ?L = "listPortalIDsWithNewestTimestamp sample_store 1 sample_group_db"
  have L: "map (\<lambda>e. (pn_PortalID e, pn_ContentfulCount e)) ?L = [(''gid:bb'', 1), (''gid:aa'', 1)]" by code_simp
  then have "map pn_PortalID ?L = [''gid:bb'', ''gid:aa'']" by auto
  moreover have "(''gid:bb'', 1) \<in> (\<lambda>e. (pn_PortalID e, pn_ContentfulCount e)) ` set ?L"
    unfolding set_map [symmetric] L by simp
  then obtain e where "e \<in> set ?L" "pn_PortalID e = ''gid:bb''" "pn_ContentfulCount e = 1" by auto
  ultimately show ?thesis
    using portal_listing_agrees [OF pk_sample_group_db, of sample_store 1 "''gid:bb''"] by auto
qed

theorem deleted_portal_restorable_witness:
  "''gid:bb'' \<in> set (map sp_PortalID (listSoftDeletedPortals hd sample_store
     (deleteLocalChatByPortalID sample_store 9 ''gid:bb'' sample_group_db)))"
proof -
  have "''gid:bb'' \<noteq> ([] :: portal_id)" by simp
  moreover have "chat_rows sample_store (\<lambda>c. c_portal_id c = ''gid:bb'') sample_group_db \<noteq> []" by code_simp
  ultimately have "\<exists>e \<in> set (listSoftDeletedPortals hd sample_store (deleteLocalChatByPortalID sample_store 9 ''gid:bb'' sample_group_db)).
      sp_PortalID e = ''gid:bb'' \<and> sp_Count e =
        length (filter (\<lambda>m. m_login_id m = loginID sample_store \<and> m_portal_id m = Some ''gid:bb'') (cloud_message sample_group_db))"
    by (rule deleted_portal_restorable [THEN conjunct1])
  then show ?thesis unfolding set_map by (auto intro: rev_image_eqI)
qed

end
