(* ===== verification/Spec2Isabelle.thy ===== *)
theory Spec2Isabelle
  imports Recycle_Bin Store_Runs Text_Parts Contact_Merge Carrier_Route Cloud_Ingest Cloud_Pager
    SMS_Routing Group_Routing Group_Stability Carrier_Groups Carrier_Convergence Chat_Ingest Pending_Attachments
    Backfill_Drain Sync_Status Portal_Listing
begin

text \<open>
  A verification development for corten-matrix, a bridge between Matrix and iMessage written in Go
  (\<^verbatim>\<open>src/\<close>). The bridge keeps a local cache of the account's CloudKit messages and chats
  (\<^verbatim>\<open>pkg/connector/cloud_backfill_store.go\<close>), decides which Matrix room ("portal") a handle belongs to
  (\<^verbatim>\<open>util.go\<close>, \<^verbatim>\<open>group_identity.go\<close>, \<^verbatim>\<open>contact_merge.go\<close>), converts texts between the two networks and
  routes outgoing messages (\<^verbatim>\<open>client.go\<close>, \<^verbatim>\<open>carrier_route.go\<close>). The framework it runs in (mautrix
  bridgev2), the Apple protocol library behind the FFI and the SQL engine are not part of the sources.

  \<^bold>\<open>Layers.\<close>
  \<^item> \<open>Go_Strings\<close>: what the sources use of Go's string packages, on byte strings, with UTF-8.
  \<^item> \<open>Tables\<close>: SQL tables as lists of rows with \<^verbatim>\<open>UPDATE\<close>, \<^verbatim>\<open>DELETE\<close> and \<^verbatim>\<open>INSERT ... ON CONFLICT\<close>.
    The contracts are locales the store interprets for each of its tables: \<open>table\<close> (a key),
    \<open>table_upsert\<close> (an upsert with its conflict clause), \<open>row_order\<close> (facts that only grow) and
    \<open>survivors\<close> (rows no statement may lose).
  \<^item> \<open>Prelude\<close>: shared types, first-occurrence loops, batches, SQL comparisons, JSON columns.
  \<^item> \<open>Identifiers\<close>: \<^verbatim>\<open>util.go\<close>, \<^verbatim>\<open>group_identity.go\<close> and the normalizers of \<^verbatim>\<open>client.go\<close>.
    Normal forms of phone numbers, participant lists and sets.
  \<^item> \<open>Cloud_Schema\<close>, \<open>Cloud_Sync_State\<close>, \<open>Cloud_Messages\<close>, \<open>Cloud_Chats\<close>, \<open>Cloud_Portals\<close>,
    \<open>Cloud_Backfill\<close>, \<open>Cloud_Maintenance\<close>, \<open>Body_Scrub\<close>: the store, one definition per method of
    \<^verbatim>\<open>cloudBackfillStore\<close> under the method's name. The database is one record of tables shared by all
    logins; a store is the login's view of it. Methods take the database and return it; clock readings
    (milliseconds) are arguments; methods that can fail of their own accord return a sum.
  \<^item> \<open>Recycle_Bin\<close>: the scan that classifies portals from the recoverable GUIDs.
  \<^item> \<open>Paging\<close>: cursors and batch sweeps, used by the readers and the sweepers.
  \<^item> \<open>Store_Runs\<close>: every mutating method as one operation of a step relation; invariants of all
    reachable databases.
  \<^item> \<open>Text_Parts\<close>: \<^verbatim>\<open>splitTextChunks\<close>, \<^verbatim>\<open>buildTextParts\<close> and what they call.
  \<^item> \<open>Contact_Merge\<close>: \<^verbatim>\<open>contact_merge.go\<close>. The state-passing room searches of the live path and of the
    initial sync interpret one locale, which is why the two agree.
  \<^item> \<open>Carrier_Route\<close>: \<^verbatim>\<open>carrier_route.go\<close> and the rate gate. The sections under a mutex are the atomic
    steps of concurrent sends; the memos interpret the locale \<open>ttl_memo\<close>.
  \<^item> \<open>Cloud_Ingest\<close>, \<open>Cloud_Pager\<close>: the message zone of \<^verbatim>\<open>sync_controller.go\<close>, from the portal a CloudKit
    message belongs to up to the pager and its retry delays. Here store, identifiers and contacts meet.
  \<^item> \<open>SMS_Routing\<close>: the SMS route of a portal in \<^verbatim>\<open>client.go\<close>, its cache and its persistence.
  \<^item> \<open>Group_Routing\<close>, \<open>Group_Stability\<close>: \<^verbatim>\<open>makePortalKey\<close> of \<^verbatim>\<open>client.go\<close> and everything it calls, on the
    record of the client's caches. The order of a range over a Go map is an argument, and what a handler
    starts in the background is a list of effects. The member index is an interpretation of the locale
    \<open>inverted_index\<close>.
  \<^item> \<open>Carrier_Groups\<close>, \<open>Carrier_Convergence\<close>: the startup migration of \<^verbatim>\<open>sync_controller.go\<close> that merges the
    rooms of a split carrier group, over an abstract world of rooms, and what it comes to over many startups.
  \<^item> \<open>Chat_Ingest\<close>: the chat zone of \<^verbatim>\<open>sync_controller.go\<close>: the portal of a chat, a page of chats with the
    tombstones it clears and sets, and the pager.
  \<^item> \<open>Pending_Attachments\<close>: \<^verbatim>\<open>attachment_retrier.go\<close> and \<^verbatim>\<open>pending_attachment_store.go\<close>: the table of failed
    downloads, one attempt at a row, and the steps of the retrier beside the message handlers. Here a
    statement may fail, because the retrier's bounds depend on it.
  \<^item> \<open>Backfill_Drain\<close>: \<^verbatim>\<open>synapse_backfill.go\<close> and \<^verbatim>\<open>backfill_semaphore.go\<close>: the registry of drain loops and
    the loops themselves, as state machines that interleave at any point where a goroutine can be preempted.
  \<^item> \<open>Sync_Status\<close>: the sync report of \<^verbatim>\<open>sync_status.go\<close>, and what the command line computes for it. Its
    conditions are related to those of the store; the locale \<open>harmless_scrub\<close> says what a statement must keep
    for the report to stay the same, and the body scrubber interprets it.
  \<^item> \<open>Portal_Listing\<close>: the store's overviews of all portals, read by the initial sync, the restore command
    and the debug command.

  \<^bold>\<open>What is shown.\<close> The properties are the theorems behind a \<open>C\<close>-numbered text.
  \<^item> Runs of the store: keys stay unique and logins are isolated; the rows of a message deleted
    one by one stay deleted and empty under every later sequence of operations that do not purge them. (A
    later write of the message under a GUID spelled in another letter case makes a new row, which is live.)
  \<^item> Effects: deletion and restoration of portals, single and batch deletes, imports (newest row wins,
    idempotent), chat tombstones, rosters, references, re-keying, sync tokens and versions.
  \<^item> Scrubbing: bodies are cleared only where delivery is proved or nothing can be delivered, whatever other
    writers do to the cache between the batches of a pass; the scrubbed window never changes what a
    first backfill reads, and a rehydrate round restores the cache exactly.
  \<^item> Maintenance: sliced and paged sweeps equal one statement, one-time tasks run once, re-arming happens
    at most once per portal, pruning keeps what is referenced.
  \<^item> Backfill reads: paging is complete and ordered, deleted portals offer nothing.
  \<^item> Contacts: all handles of a contact lead to one portal, the one the initial sync picks.
  \<^item> Routing: lookups are capped per rolling hour and paced under every interleaving, and a message is moved
    off the SMS relay only on evidence about exactly its portal and target.
  \<^item> Texts: splitting and part building end, lose nothing, respect their budgets and never cut a rune.
  \<^item> The message sync: a page revives no row that was deleted, no attachment is lost, and a pass resumes where
    it stopped, whatever requests fail.
  \<^item> The chat sync: deletions are respected and tombstones take effect, and backfill and live traffic agree on
    the room of a carrier group.
  \<^item> The consolidation of carrier groups keeps the largest room and all rows, and comes to an end.
  \<^item> Attachments: attempts are bounded, no due row starves, a row is given up only for a reason, and each
    recovery replaces the placeholder of exactly its attachment.
  \<^item> SMS routes: what re-keying a portal does to the routes in every reachable state, and that a live route
    survives a restart.
  \<^item> Groups: the member index implements a set of portals; a message joins another room only on evidence that
    it is the same group; and the room of a group stays, whatever traffic of other groups is keyed meanwhile, as long as
    the messages of the group carry its members.
  \<^item> The backfill drain: one loop per bridge, and a minimal distance between any two of its tasks.
  \<^item> The sync report counts as deliverable what the backfill reads and may deliver, and scrubbing does not
    change it. The listings of all portals agree with the queries about a single one, and deleted portals
    are offered for restoring.
  \<^item> Where code and comments disagree, or the code does not do what it means to, a theorem shows it.

  \<^bold>\<open>Loops and bounds.\<close> Every loop is a total function: recursion on the data, or a measure (text left,
  limit of the shrink loop, shed levels, rows left to sweep). No fuel is used except in \<open>route_solo\<close>,
  where eight steps are the length of the longest path through the check, and in the message and chat
  pagers, whose fuel is the page limit of the code. The drain loop runs until its bridge stops; it is a
  step relation.

  \<^bold>\<open>Abstractions.\<close> Integers of the sources that hold times, counts and sizes are \<open>int\<close> or \<open>nat\<close>: no
  value in the modelled code comes near 64 bits, except parsed numerals, whose range check is modelled.
  Errors of the SQL engine are modelled only for the retrier: a statement that fails changes nothing. Case folding is
  ASCII. Logging is left out. The JSON encoder, the contact directory, the framework's tables, the
  identity lookup and clock readings are arguments.

  \<^bold>\<open>Not modelled.\<close> The rest of the CloudKit sync controller (the attachment pager, portal creation, status
  notices) and the event handlers of \<^verbatim>\<open>client.go\<close> (orchestration of
  network, FFI and framework calls around the operations modelled here), StatusKit alias clusters (kept in
  the framework's key-value store), the chat.db reader, contacts servers, media conversion, link previews,
  commands, logins, command-line tools (the report's computation apart), and the generated FFI bindings.
\<close>

end
